(* ===== verification/Prelude.thy ===== *)
theory Prelude
  imports Main "HOL-Library.Multiset" "HOL-Library.Word"
begin

text \<open>
  Shared vocabulary of the development: outcomes of Rust code that may panic, machine
  integers, time units, and the generic lemmas on lists, maps and multisets that the
  component theories share.  The named collections \<open>outcome_simps\<close> and \<open>map_simps\<close> are what
  the component proofs hand to the simplifier.
\<close>

named_theorems outcome_simps "unfolding of the panic outcome's combinators"
named_theorems map_simps "association of keys and values in HashMap models"

section \<open>Outcomes\<close>

text \<open>
  A Rust expression either returns a value or panics.  A panic inside a tokio task ends that
  task, so the callers inspect it; it is never confused with a returned \<open>None\<close> or \<open>Err\<close>.
\<close>

datatype 'a outcome = Ret 'a | Panic

fun obind :: "'a outcome \<Rightarrow> ('a \<Rightarrow> 'b outcome) \<Rightarrow> 'b outcome" where
  "obind (Ret x) f = f x"
| "obind Panic f = Panic"

lemma obind_Ret_iff [outcome_simps]:
  "obind m f = Ret y \<longleftrightarrow> (\<exists>x. m = Ret x \<and> f x = Ret y)"
  by (cases m) auto

lemma obind_Panic_iff [outcome_simps]:
  "obind m f = Panic \<longleftrightarrow> m = Panic \<or> (\<exists>x. m = Ret x \<and> f x = Panic)"
  by (cases m) auto

lemma not_Panic_iff [outcome_simps]: "m \<noteq> Panic \<longleftrightarrow> (\<exists>x. m = Ret x)"
  by (cases m) auto

text \<open>\<open>?\<close> on a \<open>Result\<close>: an error returns early.\<close>

fun rbind :: "'e + 'a \<Rightarrow> ('a \<Rightarrow> 'e + 'b) \<Rightarrow> 'e + 'b" where
  "rbind (Inr x) f = f x"
| "rbind (Inl e) f = Inl e"

lemma rbind_Inr_iff [outcome_simps]:
  "rbind m f = Inr y \<longleftrightarrow> (\<exists>x. m = Inr x \<and> f x = Inr y)"
  by (cases m) auto

lemma rbind_Inl_iff [outcome_simps]:
  "rbind m f = Inl e \<longleftrightarrow> m = Inl e \<or> (\<exists>x. m = Inr x \<and> f x = Inl e)"
  by (cases m) auto

fun rmap_list :: "('a \<Rightarrow> 'e + 'b) \<Rightarrow> 'a list \<Rightarrow> 'e + 'b list" where
  "rmap_list f [] = Inr []"
| "rmap_list f (x # xs) = rbind (f x) (\<lambda>y. rbind (rmap_list f xs) (\<lambda>ys. Inr (y # ys)))"

lemma rmap_list_Inr: "rmap_list f xs = Inr ys \<longleftrightarrow> list_all2 (\<lambda>x y. f x = Inr y) xs ys"
  by (induction xs arbitrary: ys) (auto simp: outcome_simps list_all2_Cons1)

lemma rmap_list_all: "(\<And>x. x \<in> set xs \<Longrightarrow> f x = Inr (g x)) \<Longrightarrow> rmap_list f xs = Inr (map g xs)"
  by (induction xs) auto

section \<open>Machine integers and time units\<close>

type_synonym u64 = "64 word"
type_synonym i64 = int

text \<open>\<open>x as i64\<close> for \<open>x : u64\<close> keeps the bits and reads them as two's complement.\<close>

definition as_i64 :: "u64 \<Rightarrow> i64" where
  "as_i64 w = sint w"

text \<open>Multiplication of two \<open>i64\<close> values in a release build wraps around.\<close>

definition i64_mul :: "i64 \<Rightarrow> i64 \<Rightarrow> i64" where
  "i64_mul a b = sint (word_of_int (a * b) :: 64 word)"

text \<open>Division of \<open>i64\<close> values truncates towards zero.\<close>

definition i64_div :: "i64 \<Rightarrow> i64 \<Rightarrow> i64" where
  "i64_div a b = sgn a * sgn b * (\<bar>a\<bar> div \<bar>b\<bar>)"

text \<open>
  An instant (\<open>DateTime<Utc>\<close>) is the number of nanoseconds since the Unix epoch, a duration a
  number of nanoseconds.
\<close>

type_synonym instant = int
type_synonym duration = int

definition sec_ns :: int where "sec_ns = 1000000000"
definition min_ns :: int where "min_ns = 60 * sec_ns"
definition day_ns :: int where "day_ns = 86400 * sec_ns"

lemma unit_pos [simp]: "0 < sec_ns" "0 < min_ns" "0 < day_ns"
  by (simp_all add: sec_ns_def min_ns_def day_ns_def)

lemma unit_nonzero [simp]: "sec_ns \<noteq> 0" "min_ns \<noteq> 0" "day_ns \<noteq> 0"
  by (simp_all add: sec_ns_def min_ns_def day_ns_def)

lemmas unit_defs = sec_ns_def min_ns_def day_ns_def

text \<open>\<open>Duration::num_seconds\<close>: whole seconds, truncated towards zero.\<close>

definition num_seconds :: "duration \<Rightarrow> i64" where
  "num_seconds d = i64_div d sec_ns"

text \<open>\<open>Duration::num_milliseconds\<close>: whole milliseconds, truncated towards zero.\<close>

definition num_milliseconds :: "duration \<Rightarrow> i64" where
  "num_milliseconds d = i64_div d 1000000"

lemma i64_div_nonneg: "0 \<le> a \<Longrightarrow> 0 < b \<Longrightarrow> i64_div a b = a div b"
  by (cases "a = 0") (auto simp: i64_div_def)

lemma num_seconds_nonneg: "0 \<le> d \<Longrightarrow> num_seconds d = d div sec_ns"
  by (simp add: num_seconds_def i64_div_nonneg)

lemma i64_mul_small:
  assumes "- (2 ^ 63) \<le> a * b" and "a * b < 2 ^ 63"
  shows "i64_mul a b = a * b"
proof -
  have "signed_take_bit 63 (a * b) = a * b"
    by (rule signed_take_bit_int_eq_self) (use assms in auto)
  then show ?thesis unfolding i64_mul_def sint_sbintrunc' by simp
qed

lemma as_i64_small:
  assumes "unat w < 2 ^ 63"
  shows "as_i64 w = int (unat w)"
proof -
  have "int (unat w) < int (2 ^ 63)" using assms by (rule of_nat_less_iff [THEN iffD2])
  then have u: "uint w < 2 ^ 63" by (simp add: uint_nat [symmetric])
  have l: "- (2 ^ 63) \<le> uint w" by (rule order_trans [OF _ uint_ge_0]) simp
  have "signed_take_bit 63 (uint w) = uint w"
    using l u by (rule signed_take_bit_int_eq_self)
  then show ?thesis by (simp add: as_i64_def sint_uint uint_nat [symmetric])
qed

section \<open>Lists\<close>

lemma filter_mset_list: "filter_mset P (mset xs) = mset (filter P xs)"
  by simp

lemma find_Some_in: "find P xs = Some x \<Longrightarrow> x \<in> set xs \<and> P x"
  by (auto simp: find_Some_iff)

lemma list_all2_in1: "list_all2 P xs ys \<Longrightarrow> x \<in> set xs \<Longrightarrow> \<exists>y \<in> set ys. P x y"
  by (induction rule: list_all2_induct) auto

lemma list_all2_in2: "list_all2 P xs ys \<Longrightarrow> y \<in> set ys \<Longrightarrow> \<exists>x \<in> set xs. P x y"
  by (induction rule: list_all2_induct) auto

lemma find_append: "find P (xs @ ys) = (case find P xs of Some x \<Rightarrow> Some x | None \<Rightarrow> find P ys)"
  by (induction xs) auto

lemma find_map_same: "(\<And>x. P (g x) = P x) \<Longrightarrow> find P (map g xs) = map_option g (find P xs)"
  by (induction xs) auto

lemma find_distinct_key:
  assumes "distinct (map f xs)" and "x \<in> set xs"
  shows "find (\<lambda>y. f y = f x) xs = Some x"
  using assms
proof (induction xs)
  case Nil
  then show ?case by simp
next
  case (Cons a xs)
  then show ?case by (auto simp: image_iff)
qed

lemma mset_remove1_filter:
  "P x \<Longrightarrow> filter_mset P (mset (remove1 x xs)) = filter_mset P (mset xs) - {#x#}"
  by simp

lemma filter_mset_remove_other:
  "\<not> P x \<Longrightarrow> filter_mset P (M - {#x#}) = filter_mset P M"
  by simp

section \<open>Maps\<close>

text \<open>\<open>HashMap::entry(k).or_insert(d)\<close> followed by reading the entry.\<close>

definition or_insert :: "('k \<rightharpoonup> 'v) \<Rightarrow> 'k \<Rightarrow> 'v \<Rightarrow> ('k \<rightharpoonup> 'v)" where
  "or_insert m k d = (case m k of None \<Rightarrow> m(k \<mapsto> d) | Some _ \<Rightarrow> m)"

definition get_or :: "('k \<rightharpoonup> 'v) \<Rightarrow> 'k \<Rightarrow> 'v \<Rightarrow> 'v" where
  "get_or m k d = (case m k of None \<Rightarrow> d | Some v \<Rightarrow> v)"

lemma get_or_upd [simp, map_simps]:
  "get_or (m(k \<mapsto> v)) k' d = (if k' = k then v else get_or m k' d)"
  by (simp add: get_or_def)

lemma get_or_del [map_simps]:
  "get_or (m(k := None)) k' d = (if k' = k then d else get_or m k' d)"
  by (simp add: get_or_def)

lemma get_or_or_insert [simp, map_simps]: "get_or (or_insert m k d) k' d = get_or m k' d"
  by (auto simp: get_or_def or_insert_def split: option.splits)

lemma or_insert_lookup [simp, map_simps]:
  "or_insert m k d k' = (if k' = k then Some (get_or m k d) else m k')"
  by (auto simp: or_insert_def get_or_def split: option.splits)

lemma get_or_empty [simp]: "get_or Map.empty k d = d"
  by (simp add: get_or_def)

end
