(* ===== verification/Domain.thy ===== *)
theory Domain
  imports Prelude
begin

text \<open>
  The data model of \<^verbatim>\<open>crates/domain\<close> and \<^verbatim>\<open>crates/common\<close>: identifiers, tasks with their
  triggers, actions and policies, executions and errors.  Structs are records with the source's
  fields (prefixed where two structs share a field name), enums are datatypes with the source's
  variants.  A \<open>String\<close> or \<open>PathBuf\<close> is the list of its UTF-8 bytes, a \<open>HashMap<String, String>\<close>
  an association list in the map's iteration order, a UUID the 128-bit number it stands for.
\<close>

type_synonym u32 = "32 word"

section \<open>Identifiers\<close>

text \<open>Each \<open>define_id!\<close> newtype wraps a UUID and derives \<open>Ord\<close> from it.\<close>

datatype task_id = TaskId (task_uuid: nat)
datatype trigger_id = TriggerId (trigger_uuid: nat)
datatype action_id = ActionId (action_uuid: nat)
datatype execution_id = ExecutionId (execution_uuid: nat)

instantiation task_id :: linorder
begin

definition less_eq_task_id :: "task_id \<Rightarrow> task_id \<Rightarrow> bool" where
  "less_eq_task_id a b \<longleftrightarrow> task_uuid a \<le> task_uuid b"

definition less_task_id :: "task_id \<Rightarrow> task_id \<Rightarrow> bool" where
  "less_task_id a b \<longleftrightarrow> task_uuid a < task_uuid b"

instance
  by standard (auto simp: less_eq_task_id_def less_task_id_def task_id.expand)

end

instantiation trigger_id :: linorder
begin

definition less_eq_trigger_id :: "trigger_id \<Rightarrow> trigger_id \<Rightarrow> bool" where
  "less_eq_trigger_id a b \<longleftrightarrow> trigger_uuid a \<le> trigger_uuid b"

definition less_trigger_id :: "trigger_id \<Rightarrow> trigger_id \<Rightarrow> bool" where
  "less_trigger_id a b \<longleftrightarrow> trigger_uuid a < trigger_uuid b"

instance
  by standard (auto simp: less_eq_trigger_id_def less_trigger_id_def trigger_id.expand)

end

instantiation execution_id :: linorder
begin

definition less_eq_execution_id :: "execution_id \<Rightarrow> execution_id \<Rightarrow> bool" where
  "less_eq_execution_id a b \<longleftrightarrow> execution_uuid a \<le> execution_uuid b"

definition less_execution_id :: "execution_id \<Rightarrow> execution_id \<Rightarrow> bool" where
  "less_execution_id a b \<longleftrightarrow> execution_uuid a < execution_uuid b"

instance
  by standard (auto simp: less_eq_execution_id_def less_execution_id_def execution_id.expand)

end

text \<open>\<open>Display\<close> of an identifier: the hyphenated lower-case form of its UUID.\<close>

definition hex_digit :: "nat \<Rightarrow> char" where
  "hex_digit d = ''0123456789abcdef'' ! d"

fun hex_digits :: "nat \<Rightarrow> nat \<Rightarrow> string" where
  "hex_digits 0 n = []"
| "hex_digits (Suc k) n = hex_digits k (n div 16) @ [hex_digit (n mod 16)]"

definition uuid_string :: "nat \<Rightarrow> string" where
  "uuid_string n =
     (let h = hex_digits 32 n
      in take 8 h @ ''-'' @ take 4 (drop 8 h) @ ''-'' @ take 4 (drop 12 h) @ ''-''
         @ take 4 (drop 16 h) @ ''-'' @ drop 20 h)"

text \<open>Decimal digits, as \<open>Display\<close> prints unsigned integers.\<close>

fun nat_string :: "nat \<Rightarrow> string" where
  "nat_string n =
     (if n < 10 then [hex_digit n] else nat_string (n div 10) @ [hex_digit (n mod 10)])"

declare nat_string.simps [simp del]

text \<open>A text between single quotes, as in \<open>format!("Task '{}' ...")\<close>.\<close>

definition quoted :: "string \<Rightarrow> string" where
  "quoted s = CHR 0x27 # s @ [CHR 0x27]"

section \<open>Errors\<close>

text \<open>
  \<open>easyjob_common::Error\<close>.  The payload of the two \<open>#[from]\<close> variants is the text their
  \<open>Display\<close> prints.
\<close>

datatype error =
    Validation string
  | NotFound string
  | Process string
  | SchedulerError string
  | Database string
  | Serialization string
  | Io string
  | Other string

fun error_to_string :: "error \<Rightarrow> string" where
  "error_to_string (Validation s) = ''Validation error: '' @ s"
| "error_to_string (NotFound s) = ''Not found: '' @ s"
| "error_to_string (Process s) = ''Process execution error: '' @ s"
| "error_to_string (SchedulerError s) = ''Scheduler error: '' @ s"
| "error_to_string (Database s) = ''Database error: '' @ s"
| "error_to_string (Serialization s) = ''Serialization error: '' @ s"
| "error_to_string (Io s) = ''IO error: '' @ s"
| "error_to_string (Other s) = ''Unknown error: '' @ s"

section \<open>Time helpers\<close>

definition duration_ms_between :: "instant \<Rightarrow> instant \<Rightarrow> nat" where
  "duration_ms_between start finish = nat (max (num_milliseconds (finish - start)) 0)"

definition duration_between_utc :: "instant \<Rightarrow> instant \<Rightarrow> nat" where
  "duration_between_utc start finish = duration_ms_between start finish"

lemma duration_ms_between_forward:
  "s \<le> f \<Longrightarrow> int (duration_ms_between s f) = (f - s) div 1000000"
  by (simp add: duration_ms_between_def num_milliseconds_def i64_div_nonneg
      pos_imp_zdiv_nonneg_iff)

lemma duration_ms_between_backward: "f \<le> s \<Longrightarrow> duration_ms_between s f = 0"
  by (cases "f = s")
     (auto simp: duration_ms_between_def num_milliseconds_def i64_div_def
        pos_imp_zdiv_nonneg_iff max_def)

section \<open>Triggers\<close>

datatype weekday = Mon | Tue | Wed | Thu | Fri | Sat | Sun

datatype fuzzy_period =
    FuzzyDaily
  | Weekdays
  | Weekends
  | FuzzyWeekly "weekday list"

fun matches_weekday :: "fuzzy_period \<Rightarrow> weekday \<Rightarrow> bool" where
  "matches_weekday FuzzyDaily w = True"
| "matches_weekday Weekdays w = (\<not> (w = Sat \<or> w = Sun))"
| "matches_weekday Weekends w = (w = Sat \<or> w = Sun)"
| "matches_weekday (FuzzyWeekly days) w = (w \<in> set days)"

datatype network_event_kind = ConnectKind | DisconnectKind | OnlineKind

text \<open>A time of day (\<open>NaiveTime\<close>) is the number of nanoseconds since midnight.\<close>

type_synonym naive_time = int

datatype trigger_kind =
    Once (fire_at: instant)
  | Daily (daily_time: naive_time) (daily_timezone: string)
  | Weekly (weekly_days: "weekday list") (weekly_time: naive_time) (weekly_timezone: string)
  | Interval (interval_secs: u64) (start_at: "instant option")
  | AgentStarted
  | Cron (expression: string) (cron_timezone: string)
  | Fuzzy (fuzzy_period: fuzzy_period) (window_start: naive_time) (window_end: naive_time)
      (fuzzy_timezone: string)
  | Network (network_events: "network_event_kind list") (network_name: "string option")

fun kind_name :: "trigger_kind \<Rightarrow> string" where
  "kind_name (Once _) = ''Once''"
| "kind_name (Daily _ _) = ''Daily''"
| "kind_name (Weekly _ _ _) = ''Weekly''"
| "kind_name (Interval _ _) = ''Interval''"
| "kind_name AgentStarted = ''AgentStarted''"
| "kind_name (Cron _ _) = ''Cron''"
| "kind_name (Fuzzy _ _ _ _) = ''Fuzzy''"
| "kind_name (Network _ _) = ''Network''"

record trigger =
  trigger_id :: trigger_id
  trigger_task_id :: task_id
  trigger_enabled :: bool
  trigger_kind :: trigger_kind
  trigger_created_at :: instant
  trigger_updated_at :: instant

section \<open>Actions\<close>

datatype script_encoding = Utf8 | Gbk

datatype action_kind =
    ExecuteProgram (program: string) (args: "string list")
  | ExecuteShell (shell_command: string)
  | ExecutePowerShell (script: string) (no_profile: bool)
      (powershell_encoding: "script_encoding option")
  | ExecuteCmd (cmd_command: string) (cmd_encoding: "script_encoding option")

record action =
  action_id :: action_id
  action_task_id :: task_id
  action_sequence :: u32
  action_enabled :: bool
  action_kind :: action_kind

section \<open>Policies\<close>

datatype task_notification_policy = NotifyNone | OnlySuccess | OnlyFailure | NotifyAll
datatype concurrency_policy = AllowParallel | SkipIfRunning | QueueOne
datatype missed_run_policy = RunOnce | SkipMissed
datatype log_retention_policy = SystemDefault | KeepDays u32 | Permanent
datatype system_log_retention = SysKeepDays u32 | SysPermanent

record retry_policy =
  max_retries :: u32
  delay_secs :: u64

record execution_policy =
  concurrency_policy :: concurrency_policy
  missed_run_policy :: missed_run_policy
  retry_policy :: retry_policy
  timeout_secs :: "u64 option"
  notification :: task_notification_policy
  log_retention :: log_retention_policy

record system_settings =
  default_log_retention :: system_log_retention

definition default_execution_policy :: execution_policy where
  "default_execution_policy =
     \<lparr>concurrency_policy = SkipIfRunning, missed_run_policy = RunOnce,
      retry_policy = \<lparr>max_retries = 0, delay_secs = 0\<rparr>, timeout_secs = None,
      notification = NotifyNone, log_retention = SystemDefault\<rparr>"

definition default_system_settings :: system_settings where
  "default_system_settings = \<lparr>default_log_retention = SysKeepDays 7\<rparr>"

section \<open>Tasks\<close>

record task =
  task_id :: task_id
  task_name :: string
  task_description :: "string option"
  task_enabled :: bool
  triggers :: "trigger list"
  actions :: "action list"
  execution_policy :: execution_policy
  working_directory :: "string option"
  environment :: "(string \<times> string) list"
  task_version :: int
  task_created_at :: instant
  task_updated_at :: instant

section \<open>Executions\<close>

datatype execution_status =
    Queued | Running | Succeeded | Failed | TimedOut | Cancelled | Skipped | Interrupted

record execution =
  execution_id :: execution_id
  execution_task_id :: task_id
  execution_trigger_id :: "trigger_id option"
  status :: execution_status
  scheduled_at :: "instant option"
  started_at :: instant
  finished_at :: "instant option"
  duration_ms :: "u64 option"
  exit_code :: "int option"
  error_message :: "string option"

text \<open>\<open>Execution::new\<close>: the fresh identifier and the clock reading are arguments.\<close>

definition new_execution ::
  "execution_id \<Rightarrow> instant \<Rightarrow> task_id \<Rightarrow> trigger_id option \<Rightarrow> instant option \<Rightarrow> execution" where
  "new_execution fresh now t tr sched =
     \<lparr>execution_id = fresh, execution_task_id = t, execution_trigger_id = tr, status = Queued,
      scheduled_at = sched, started_at = now, finished_at = None, duration_ms = None,
      exit_code = None, error_message = None\<rparr>"

end
