(* ===== verification/Rust_Str.thy ===== *)
theory Rust_Str
  imports Main "HOL-Library.Char_ord" "HOL-Library.Sublist"
begin

text \<open>
  The string operations of Rust's standard library that the program uses, on strings as lists
  of UTF-8 bytes: ASCII classification, \<open>split_whitespace\<close>, range \<open>get\<close> with its character
  boundary check, \<open>to_ascii_uppercase\<close>, \<open>contains\<close>, \<open>starts_with\<close>, \<open>ends_with\<close> and the
  \<open>replace\<close> of one ASCII character.
\<close>

section \<open>Bytes and characters\<close>

definition byte :: "char \<Rightarrow> nat" where
  "byte c = of_char c"

definition is_ascii_digit :: "char \<Rightarrow> bool" where
  "is_ascii_digit c \<longleftrightarrow> 48 \<le> byte c \<and> byte c \<le> 57"

definition is_ascii_upper :: "char \<Rightarrow> bool" where
  "is_ascii_upper c \<longleftrightarrow> 65 \<le> byte c \<and> byte c \<le> 90"

definition is_ascii_lower :: "char \<Rightarrow> bool" where
  "is_ascii_lower c \<longleftrightarrow> 97 \<le> byte c \<and> byte c \<le> 122"

definition is_ascii_alphabetic :: "char \<Rightarrow> bool" where
  "is_ascii_alphabetic c \<longleftrightarrow> is_ascii_upper c \<or> is_ascii_lower c"

definition is_ascii_alphanumeric :: "char \<Rightarrow> bool" where
  "is_ascii_alphanumeric c \<longleftrightarrow> is_ascii_alphabetic c \<or> is_ascii_digit c"

definition to_ascii_upper :: "char \<Rightarrow> char" where
  "to_ascii_upper c = (if is_ascii_lower c then char_of (byte c - 32) else c)"

definition to_ascii_lower :: "char \<Rightarrow> char" where
  "to_ascii_lower c = (if is_ascii_upper c then char_of (byte c + 32) else c)"

lemmas ascii_defs =
  is_ascii_digit_def is_ascii_upper_def is_ascii_lower_def is_ascii_alphabetic_def
  is_ascii_alphanumeric_def byte_def

text \<open>A UTF-8 continuation byte never starts a character.\<close>

definition is_continuation :: "char \<Rightarrow> bool" where
  "is_continuation c \<longleftrightarrow> 128 \<le> byte c \<and> byte c < 192"

text \<open>\<open>s.get(0..n)\<close>: \<open>None\<close> out of range or when \<open>n\<close> falls inside a character.\<close>

definition str_get_prefix :: "nat \<Rightarrow> string \<Rightarrow> string option" where
  "str_get_prefix n s =
     (if length s < n then None
      else if n < length s \<and> is_continuation (s ! n) then None
      else Some (take n s))"

section \<open>Splitting at white space\<close>

text \<open>
  The number of bytes of the \<open>White_Space\<close> character at the head of a string, 0 when it starts
  with another character.  Beyond ASCII these are U+0085, U+00A0, U+1680, U+2000--U+200A,
  U+2028, U+2029, U+202F, U+205F and U+3000.
\<close>

definition ws_len :: "string \<Rightarrow> nat" where
  "ws_len s =
     (case map byte (take 3 s) of
        [] \<Rightarrow> 0
      | a # r \<Rightarrow>
          if (9 \<le> a \<and> a \<le> 13) \<or> a = 32 then 1
          else if a = 194 then (case r of b # _ \<Rightarrow> if b = 133 \<or> b = 160 then 2 else 0 | [] \<Rightarrow> 0)
          else
            (case r of
               b # c # _ \<Rightarrow>
                 if (a = 225 \<and> b = 154 \<and> c = 128)
                    \<or> (a = 226 \<and> b = 128 \<and>
                        ((128 \<le> c \<and> c \<le> 138) \<or> c = 168 \<or> c = 169 \<or> c = 175))
                    \<or> (a = 226 \<and> b = 129 \<and> c = 159)
                    \<or> (a = 227 \<and> b = 128 \<and> c = 128)
                 then 3 else 0
             | _ \<Rightarrow> 0))"

definition flush_word :: "string \<Rightarrow> string list" where
  "flush_word acc = (if acc = [] then [] else [rev acc])"

function split_ws :: "string \<Rightarrow> string \<Rightarrow> string list" where
  "split_ws acc [] = flush_word acc"
| "split_ws acc (c # cs) =
     (case ws_len (c # cs) of
        0 \<Rightarrow> split_ws (c # acc) cs
      | Suc n \<Rightarrow> flush_word acc @ split_ws [] (drop n cs))"
  by pat_completeness auto
termination
  by (relation "measure (\<lambda>(acc, s). length s)") auto

definition split_whitespace :: "string \<Rightarrow> string list" where
  "split_whitespace s = split_ws [] s"

lemma ws_len_Nil [simp]: "ws_len [] = 0"
  by (simp add: ws_len_def)

lemma split_ws_nonempty: "w \<in> set (split_ws acc s) \<Longrightarrow> w \<noteq> []"
  by (induction acc s rule: split_ws.induct)
     (auto simp: flush_word_def split: if_splits nat.splits)

lemma split_whitespace_nonempty: "w \<in> set (split_whitespace s) \<Longrightarrow> w \<noteq> []"
  by (simp add: split_whitespace_def split_ws_nonempty)

section \<open>Searching and replacing\<close>

definition starts_with :: "string \<Rightarrow> string \<Rightarrow> bool" where
  "starts_with s p \<longleftrightarrow> take (length p) s = p"

definition ends_with :: "string \<Rightarrow> string \<Rightarrow> bool" where
  "ends_with s p \<longleftrightarrow> length p \<le> length s \<and> drop (length s - length p) s = p"

fun contains_str :: "string \<Rightarrow> string \<Rightarrow> bool" where
  "contains_str [] p = (p = [])"
| "contains_str (c # cs) p = (starts_with (c # cs) p \<or> contains_str cs p)"

text \<open>\<open>s.replace(c, r)\<close> for one ASCII character \<open>c\<close>.\<close>

definition replace_char :: "char \<Rightarrow> string \<Rightarrow> string \<Rightarrow> string" where
  "replace_char c r s = concat (map (\<lambda>x. if x = c then r else [x]) s)"

lemma starts_with_iff_prefix: "starts_with s p \<longleftrightarrow> prefix p s"
  by (auto simp: starts_with_def prefix_def)
     (metis append_take_drop_id)

lemma contains_str_iff_sublist: "contains_str s p \<longleftrightarrow> sublist p s"
proof (induction s)
  case Nil
  then show ?case by auto
next
  case (Cons c cs)
  then show ?case by (auto simp: starts_with_iff_prefix sublist_Cons_right)
qed

lemma ends_with_iff_suffix: "ends_with s p \<longleftrightarrow> suffix p s"
  by (auto simp: ends_with_def suffix_def)
     (metis append_take_drop_id)

lemma replace_char_Nil [simp]: "replace_char c r [] = []"
  by (simp add: replace_char_def)

lemma replace_char_Cons [simp]:
  "replace_char c r (x # xs) = (if x = c then r @ replace_char c r xs else x # replace_char c r xs)"
  by (simp add: replace_char_def)

lemma replace_char_append [simp]:
  "replace_char c r (xs @ ys) = replace_char c r xs @ replace_char c r ys"
  by (simp add: replace_char_def)

end
