(* ===== verification/Chrono.thy ===== *)
theory Chrono
  imports Domain Rust_Str
begin

text \<open>
  What the program uses of the crates \<^verbatim>\<open>chrono\<close>, \<^verbatim>\<open>chrono_tz\<close>, \<^verbatim>\<open>croner\<close> and \<^verbatim>\<open>rand\<close>.
  Their code is not part of the repository: time-zone data, cron search and random draws are
  parameters, bundled in the record \<open>chrono_env\<close> that the evaluator takes as an argument; the
  documented behaviour the code relies on is stated by \<open>tz_ok\<close>, \<open>chrono_ok\<close> and \<open>rng_ok\<close>.
  Only the arithmetic of instants, dates and times of day is written out, with chrono's
  documented panics.
\<close>

section \<open>Local times\<close>

text \<open>
  A naive local date-time is the number of nanoseconds since 1970-01-01T00:00:00 on the local
  clock; its date is the day number, its time of day the rest.
\<close>

type_synonym naive_date = int
type_synonym naive_datetime = int

definition and_time :: "naive_date \<Rightarrow> naive_time \<Rightarrow> naive_datetime" where
  "and_time d t = d * day_ns + t"

definition date_of :: "naive_datetime \<Rightarrow> naive_date" where
  "date_of l = l div day_ns"

definition time_of :: "naive_datetime \<Rightarrow> naive_time" where
  "time_of l = l mod day_ns"

definition weekday_of :: "naive_date \<Rightarrow> weekday" where
  "weekday_of d = [Thu, Fri, Sat, Sun, Mon, Tue, Wed] ! nat (d mod 7)"

datatype local_result =
    LocalNone
  | LocalSingle instant
  | LocalAmbiguous instant instant

record tz =
  tz_local :: "instant \<Rightarrow> naive_datetime"
  tz_from_local :: "naive_datetime \<Rightarrow> local_result"

text \<open>
  The contract of a time zone: every instant has a local time that maps back to it (alone, or as
  one of the two instants of a repeated local time), and every instant a local time maps to
  shows that local time.
\<close>

definition tz_ok :: "tz \<Rightarrow> bool" where
  "tz_ok z \<longleftrightarrow>
     (\<forall>u. case tz_from_local z (tz_local z u) of
            LocalNone \<Rightarrow> False
          | LocalSingle v \<Rightarrow> v = u
          | LocalAmbiguous e l \<Rightarrow> u = e \<or> u = l)
     \<and> (\<forall>n u. tz_from_local z n = LocalSingle u \<longrightarrow> tz_local z u = n)
     \<and> (\<forall>n e l. tz_from_local z n = LocalAmbiguous e l \<longrightarrow>
            tz_local z e = n \<and> tz_local z l = n \<and> e < l)"

text \<open>A zone with a constant offset; \<open>chrono_tz::UTC\<close> is the one with offset 0.\<close>

definition fixed_tz :: "duration \<Rightarrow> tz" where
  "fixed_tz off = \<lparr>tz_local = (\<lambda>u. u + off), tz_from_local = (\<lambda>n. LocalSingle (n - off))\<rparr>"

definition utc_tz :: tz where
  "utc_tz = fixed_tz 0"

lemma fixed_tz_ok: "tz_ok (fixed_tz off)"
  by (simp add: tz_ok_def fixed_tz_def)

section \<open>The environment\<close>

datatype cron_error = InvalidTime | OtherCronError

text \<open>A parsed \<open>croner::Cron\<close> is its \<open>find_next_occurrence\<close> with \<open>inclusive = false\<close>.\<close>

type_synonym cron = "tz \<Rightarrow> instant \<Rightarrow> cron_error + instant"

record chrono_env =
  env_tz :: "string \<Rightarrow> tz option"
  env_cron :: "string \<Rightarrow> cron option"
  dt_min :: instant
  dt_max :: instant
  date_max :: naive_date

text \<open>The difference of two representable instants is a representable duration.\<close>

definition chrono_ok :: "chrono_env \<Rightarrow> bool" where
  "chrono_ok E \<longleftrightarrow> dt_min E \<le> dt_max E \<and> dt_max E - dt_min E \<le> 9223372036854775 * sec_ns"

definition in_range :: "chrono_env \<Rightarrow> instant \<Rightarrow> bool" where
  "in_range E u \<longleftrightarrow> dt_min E \<le> u \<and> u \<le> dt_max E"

text \<open>\<open>DateTime + Duration\<close> panics when the result is not representable.\<close>

definition dt_add :: "chrono_env \<Rightarrow> instant \<Rightarrow> duration \<Rightarrow> instant outcome" where
  "dt_add E u d = (if in_range E (u + d) then Ret (u + d) else Panic)"

text \<open>\<open>Duration::seconds\<close> panics beyond \<open>i64::MAX\<close> milliseconds.\<close>

definition duration_seconds :: "i64 \<Rightarrow> duration outcome" where
  "duration_seconds s = (if \<bar>s\<bar> \<le> 9223372036854775 then Ret (s * sec_ns) else Panic)"

text \<open>\<open>Tz::from_str(name).unwrap_or(chrono_tz::UTC)\<close>\<close>

definition zone :: "chrono_env \<Rightarrow> string \<Rightarrow> tz" where
  "zone E name = (case env_tz E name of Some z \<Rightarrow> z | None \<Rightarrow> utc_tz)"

text \<open>
  The draws of one evaluation: \<open>rng k n\<close> is the result of the \<open>k\<close>-th \<open>gen_range(0..n)\<close>.
\<close>

type_synonym rng = "nat \<Rightarrow> int \<Rightarrow> int"

definition rng_ok :: "rng \<Rightarrow> bool" where
  "rng_ok r \<longleftrightarrow> (\<forall>k n. 0 < n \<longrightarrow> 0 \<le> r k n \<and> r k n < n)"

section \<open>Facts\<close>

lemma date_time_split: "and_time (date_of l) (time_of l) = l"
  by (simp add: and_time_def date_of_def time_of_def)

lemma time_of_bounds: "0 \<le> time_of l" "time_of l < day_ns"
  by (simp_all add: time_of_def)

lemma date_of_and_time [simp]: "0 \<le> t \<Longrightarrow> t < day_ns \<Longrightarrow> date_of (and_time d t) = d"
  by (simp add: date_of_def and_time_def div_pos_pos_trivial)

lemma time_of_and_time [simp]: "0 \<le> t \<Longrightarrow> t < day_ns \<Longrightarrow> time_of (and_time d t) = t"
  by (simp add: time_of_def and_time_def mod_pos_pos_trivial)

lemma date_of_mono: "a \<le> b \<Longrightarrow> date_of a \<le> date_of b"
  by (simp add: date_of_def zdiv_mono1)

lemma weekday_of_period: "weekday_of (d + 7) = weekday_of d"
  by (simp add: weekday_of_def)

lemma weekday_of_shift: "weekday_of (d + 7 * k) = weekday_of d"
  by (simp add: weekday_of_def)

lemma weekday_in_week: "\<exists>k. k < 7 \<and> weekday_of (d + int k) = w"
proof -
  have "\<exists>j. 0 \<le> j \<and> j < 7 \<and> [Thu, Fri, Sat, Sun, Mon, Tue, Wed] ! nat j = w"
  proof (cases w)
    case Thu
    then show ?thesis by (intro exI [of _ 0]) simp
  next
    case Fri
    then show ?thesis by (intro exI [of _ 1]) simp
  next
    case Sat
    then show ?thesis by (intro exI [of _ 2]) simp
  next
    case Sun
    then show ?thesis by (intro exI [of _ 3]) simp
  next
    case Mon
    then show ?thesis by (intro exI [of _ 4]) simp
  next
    case Tue
    then show ?thesis by (intro exI [of _ 5]) simp
  next
    case Wed
    then show ?thesis by (intro exI [of _ 6]) simp
  qed
  then obtain j where j: "0 \<le> j" "j < 7" "[Thu, Fri, Sat, Sun, Mon, Tue, Wed] ! nat j = w"
    by blast
  let ?k = "nat ((j - d) mod 7)"
  have "(d + (j - d) mod 7) mod 7 = j"
    using j by (simp add: mod_add_right_eq)
  then have "weekday_of (d + int ?k) = w"
    using j by (simp add: weekday_of_def)
  moreover have "?k < 7" by (simp add: nat_less_iff)
  ultimately show ?thesis by blast
qed

lemma fixed_tz_simps [simp]:
  "tz_local (fixed_tz off) u = u + off"
  "tz_from_local (fixed_tz off) n = LocalSingle (n - off)"
  by (simp_all add: fixed_tz_def)

lemma utc_tz_simps [simp]:
  "tz_local utc_tz u = u"
  "tz_from_local utc_tz n = LocalSingle n"
  by (simp_all add: utc_tz_def)

lemma tz_ok_single: "tz_ok z \<Longrightarrow> tz_from_local z n = LocalSingle u \<Longrightarrow> tz_local z u = n"
  by (simp add: tz_ok_def)

lemma tz_ok_ambiguous:
  assumes "tz_ok z" and "tz_from_local z n = LocalAmbiguous e l"
  shows "tz_local z e = n" and "tz_local z l = n" and "e < l"
  using assms by (simp_all add: tz_ok_def)

lemma dt_add_Ret [outcome_simps]: "dt_add E u d = Ret v \<longleftrightarrow> v = u + d \<and> in_range E v"
  by (auto simp: dt_add_def)

lemma duration_seconds_Ret [outcome_simps]:
  "duration_seconds s = Ret d \<longleftrightarrow> d = s * sec_ns \<and> \<bar>s\<bar> \<le> 9223372036854775"
  by (auto simp: duration_seconds_def)

end
