(* ===== verification/Cron_Expr.thy ===== *)
theory Cron_Expr
  imports Chrono
begin

text \<open>
  Cron triggers of \<^verbatim>\<open>crates/scheduler/src/evaluator.rs\<close>: the lexical white list that keeps
  croner's Quartz extensions out, the parser, and the search for the next occurrence with its
  re-anchoring at daylight-saving changes.
\<close>

section \<open>The lexical white list\<close>

definition CRON_MONTH_NAMES :: "string list" where
  "CRON_MONTH_NAMES =
     [''JAN'', ''FEB'', ''MAR'', ''APR'', ''MAY'', ''JUN'',
      ''JUL'', ''AUG'', ''SEP'', ''OCT'', ''NOV'', ''DEC'']"

definition CRON_WEEKDAY_NAMES :: "string list" where
  "CRON_WEEKDAY_NAMES = [''SUN'', ''MON'', ''TUE'', ''WED'', ''THU'', ''FRI'', ''SAT'']"

definition cron_symbol :: "char \<Rightarrow> bool" where
  "cron_symbol c \<longleftrightarrow> is_ascii_digit c \<or> c \<in> set ''*?,-/''"

definition known_name :: "bool \<Rightarrow> bool \<Rightarrow> string \<Rightarrow> bool" where
  "known_name is_month is_weekday name \<longleftrightarrow>
     (let upper = map to_ascii_upper name
      in (is_month \<and> upper \<in> set CRON_MONTH_NAMES)
         \<or> (is_weekday \<and> upper \<in> set CRON_WEEKDAY_NAMES))"

text \<open>The scan over the bytes of a field; the argument is the part from index \<open>i\<close> on.\<close>

function is_standard_cron_field :: "bool \<Rightarrow> bool \<Rightarrow> string \<Rightarrow> bool" where
  "is_standard_cron_field is_month is_weekday [] = True"
| "is_standard_cron_field is_month is_weekday (c # cs) =
     (if cron_symbol c then is_standard_cron_field is_month is_weekday cs
      else if is_ascii_alphabetic c then
        (case str_get_prefix 3 (c # cs) of
           None \<Rightarrow> False
         | Some name \<Rightarrow>
             if \<not> list_all is_ascii_alphabetic name then False
             else if \<not> known_name is_month is_weekday name then False
             else is_standard_cron_field is_month is_weekday (drop 2 cs))
      else False)"
  by pat_completeness auto
termination
  by (relation "measure (\<lambda>(m, w, s). length s)") auto

section \<open>Parsing\<close>

fun fields_standard :: "nat \<Rightarrow> string list \<Rightarrow> bool" where
  "fields_standard idx [] = True"
| "fields_standard idx (f # fs) =
     (is_standard_cron_field (idx = 3) (idx = 4) f \<and> fields_standard (Suc idx) fs)"

definition parse_standard_cron :: "chrono_env \<Rightarrow> string \<Rightarrow> cron option" where
  "parse_standard_cron E expr =
     (let fields = split_whitespace expr
      in if length fields \<noteq> 5 then None
         else if \<not> fields_standard 0 fields then None
         else env_cron E expr)"

section \<open>The next occurrence\<close>

definition CRON_DST_RETRY_LIMIT :: nat where
  "CRON_DST_RETRY_LIMIT = 240"

fun cron_search ::
  "nat \<Rightarrow> chrono_env \<Rightarrow> cron \<Rightarrow> tz \<Rightarrow> instant \<Rightarrow> instant \<Rightarrow> instant option outcome" where
  "cron_search 0 E cron z after anchor = Ret None"
| "cron_search (Suc n) E cron z after anchor =
     (case cron z anchor of
        Inr candidate \<Rightarrow>
          if candidate > after then Ret (Some candidate)
          else cron_search n E cron z after candidate
      | Inl InvalidTime \<Rightarrow>
          obind (dt_add E anchor (3600 * sec_ns)) (cron_search n E cron z after)
      | Inl OtherCronError \<Rightarrow> Ret None)"

definition cron_next_occurrence ::
  "chrono_env \<Rightarrow> cron \<Rightarrow> tz \<Rightarrow> instant \<Rightarrow> instant option outcome" where
  "cron_next_occurrence E cron z after = cron_search CRON_DST_RETRY_LIMIT E cron z after after"

definition validate_cron_expression :: "chrono_env \<Rightarrow> instant \<Rightarrow> string \<Rightarrow> bool outcome" where
  "validate_cron_expression E now expr =
     (case parse_standard_cron E expr of
        None \<Rightarrow> Ret False
      | Some cron \<Rightarrow>
          obind (cron_next_occurrence E cron utc_tz now) (\<lambda>r. Ret (r \<noteq> None)))"

section \<open>What the white list accepts\<close>

text \<open>
  The specification, written out without the tables and tests of the code: the language of a field consists of
  concatenations of symbols and, in its position, of the English abbreviations of months or weekdays, each
  letter capital or small.
\<close>

definition plain_symbol :: "char \<Rightarrow> bool" where
  "plain_symbol c \<longleftrightarrow> c \<in> set ''0123456789*?,-/''"

fun any_case :: "string \<Rightarrow> string list" where
  "any_case [] = [[]]"
| "any_case (c # cs) = concat (map (\<lambda>s. [c # s, char_of (of_char c + 32 :: nat) # s]) (any_case cs))"

definition month_word :: "string \<Rightarrow> bool" where
  "month_word n \<longleftrightarrow> list_ex (\<lambda>w. n \<in> set (any_case w))
     [''JAN'', ''FEB'', ''MAR'', ''APR'', ''MAY'', ''JUN'', ''JUL'', ''AUG'', ''SEP'', ''OCT'', ''NOV'', ''DEC'']"

definition weekday_word :: "string \<Rightarrow> bool" where
  "weekday_word n \<longleftrightarrow> list_ex (\<lambda>w. n \<in> set (any_case w)) [''SUN'', ''MON'', ''TUE'', ''WED'', ''THU'', ''FRI'', ''SAT'']"

inductive cron_field :: "bool \<Rightarrow> bool \<Rightarrow> string \<Rightarrow> bool" for m :: bool and w :: bool where
  empty: "cron_field m w []"
| symbol: "plain_symbol c \<Longrightarrow> cron_field m w s \<Longrightarrow> cron_field m w (c # s)"
| month: "m \<Longrightarrow> month_word n \<Longrightarrow> cron_field m w s \<Longrightarrow> cron_field m w (n @ s)"
| weekday: "w \<Longrightarrow> weekday_word n \<Longrightarrow> cron_field m w s \<Longrightarrow> cron_field m w (n @ s)"

text \<open>The tests of the code agree with it.\<close>

lemma inj_byte: "inj byte"
  by (rule injI) (simp add: byte_def)

lemma digit_iff: "is_ascii_digit c \<longleftrightarrow> c \<in> set ''0123456789''"
proof
  assume "is_ascii_digit c"
  then have "byte c \<in> {48, 49, 50, 51, 52, 53, 54, 55, 56, 57}"
    unfolding is_ascii_digit_def by (simp only: insert_iff empty_iff) presburger
  also have "{48, 49, 50, 51, 52, 53, 54, 55, 56, 57} = byte ` set ''0123456789''" by (simp add: byte_def)
  finally show "c \<in> set ''0123456789''" unfolding inj_image_mem_iff [OF inj_byte] .
qed (auto simp: is_ascii_digit_def byte_def)

lemma cron_symbol_iff: "cron_symbol c \<longleftrightarrow> plain_symbol c"
  unfolding cron_symbol_def plain_symbol_def digit_iff by auto

lemma upper_iff:
  assumes "is_ascii_upper a"
  shows "to_ascii_upper x = a \<longleftrightarrow> x = a \<or> x = char_of (byte a + 32)"
proof
  assume u: "to_ascii_upper x = a"
  show "x = a \<or> x = char_of (byte a + 32)"
  proof (cases "is_ascii_lower x")
    case True
    then have "byte x - 32 + 32 = byte x" "byte x - 32 < 256" unfolding is_ascii_lower_def by presburger+
    with u True have "byte a + 32 = byte x" by (auto simp: to_ascii_upper_def byte_def)
    then show ?thesis by (simp add: byte_def)
  next
    case False
    with u show ?thesis by (simp add: to_ascii_upper_def)
  qed
next
  assume "x = a \<or> x = char_of (byte a + 32)"
  with assms show "to_ascii_upper x = a"
    by (auto simp: to_ascii_upper_def is_ascii_lower_def is_ascii_upper_def byte_def)
qed

lemma upper_any_case: "list_all is_ascii_upper w \<Longrightarrow> map to_ascii_upper n = w \<longleftrightarrow> n \<in> set (any_case w)"
proof (induction w arbitrary: n)
  case (Cons a w)
  then show ?case by (cases n) (auto simp: upper_iff byte_def)
qed simp

lemma names_upper: "list_all (list_all is_ascii_upper) CRON_MONTH_NAMES" "list_all (list_all is_ascii_upper) CRON_WEEKDAY_NAMES"
  by (simp_all add: CRON_MONTH_NAMES_def CRON_WEEKDAY_NAMES_def is_ascii_upper_def byte_def)

lemma any_case_member:
  "list_all (list_all is_ascii_upper) ns \<Longrightarrow> map to_ascii_upper n \<in> set ns \<longleftrightarrow> list_ex (\<lambda>w. n \<in> set (any_case w)) ns"
  by (induction ns) (simp_all add: upper_any_case)

lemma known_name_iff: "known_name m w n \<longleftrightarrow> m \<and> month_word n \<or> w \<and> weekday_word n"
  unfolding known_name_def Let_def any_case_member [OF names_upper(1)] any_case_member [OF names_upper(2)]
  unfolding CRON_MONTH_NAMES_def CRON_WEEKDAY_NAMES_def month_word_def weekday_word_def ..

lemma known_letters:
  assumes "known_name m w n"
  shows "length n = 3" and "list_all is_ascii_alphabetic n"
proof -
  have "map to_ascii_upper n \<in> set (CRON_MONTH_NAMES @ CRON_WEEKDAY_NAMES)"
    using assms by (auto simp: known_name_def)
  then obtain v where v: "map to_ascii_upper n = v" "length v = 3" "list_all is_ascii_upper v"
    using names_upper by (auto simp: list_all_iff CRON_MONTH_NAMES_def CRON_WEEKDAY_NAMES_def)
  from v(1,2) show "length n = 3" by auto
  have "is_ascii_alphabetic x" if "is_ascii_upper (to_ascii_upper x)" for x
    using that by (auto simp: to_ascii_upper_def is_ascii_alphabetic_def split: if_splits)
  with v(1,3) show "list_all is_ascii_alphabetic n" by (auto simp: list_all_iff)
qed

text \<open>The rules of the language over the tests of the code.\<close>

lemma cron_field_symbol: "cron_symbol c \<Longrightarrow> cron_field m w s \<Longrightarrow> cron_field m w (c # s)"
  by (simp add: cron_symbol_iff cron_field.symbol)

lemma cron_field_name: "known_name m w n \<Longrightarrow> cron_field m w s \<Longrightarrow> cron_field m w (n @ s)"
  by (auto simp: known_name_iff intro: cron_field.month cron_field.weekday)

lemma cron_field_cases:
  assumes "cron_field m w s"
  obtains "s = []" | c t where "s = c # t" "cron_symbol c" "cron_field m w t"
  | n t where "s = n @ t" "known_name m w n" "length n = 3" "list_all is_ascii_alphabetic n" "cron_field m w t"
  using assms
proof cases
  case (month n t)
  then have "known_name m w n" by (simp add: known_name_iff)
  with month that(3) known_letters show ?thesis by blast
next
  case (weekday n t)
  then have "known_name m w n" by (simp add: known_name_iff)
  with weekday that(3) known_letters show ?thesis by blast
qed (use that cron_symbol_iff in blast)+

lemma alphabetic_not_symbol: "is_ascii_alphabetic c \<Longrightarrow> \<not> cron_symbol c"
  by (auto simp: cron_symbol_def ascii_defs)

lemma symbol_not_continuation: "cron_symbol c \<Longrightarrow> \<not> is_continuation c"
  by (auto simp: cron_symbol_def ascii_defs is_continuation_def)

lemma alphabetic_not_continuation: "is_ascii_alphabetic c \<Longrightarrow> \<not> is_continuation c"
  by (auto simp: ascii_defs is_continuation_def)

lemma length3: "length n = 3 \<longleftrightarrow> (\<exists>a b c. n = [a, b, c])"
  by (auto simp: length_Suc_conv numeral_3_eq_3)

lemma cron_field_head: "cron_field m w (c # s) \<Longrightarrow> \<not> is_continuation c"
  by (erule cron_field_cases) (auto simp: length3 dest: symbol_not_continuation alphabetic_not_continuation)

lemma accepted_name:
  assumes "known_name m w n" and "cron_field m w s" and "is_standard_cron_field m w s"
  shows "is_standard_cron_field m w (n @ s)"
proof -
  obtain a b c where n: "n = [a, b, c]" using known_letters(1) [OF assms(1)] by (auto simp: length3)
  have "s = [] \<or> (\<exists>d s'. s = d # s' \<and> \<not> is_continuation d)"
    using assms(2) by (cases s) (auto dest: cron_field_head)
  with n have "str_get_prefix 3 (a # b # c # s) = Some n" by (auto simp: str_get_prefix_def)
  with assms(1,3) n known_letters(2) [OF assms(1)] show ?thesis by (simp add: alphabetic_not_symbol)
qed

lemma cron_field_accepted: "cron_field m w s \<Longrightarrow> is_standard_cron_field m w s"
proof (induction rule: cron_field.induct)
  case empty
  then show ?case by simp
next
  case (symbol c s)
  then show ?case by (simp add: cron_symbol_iff)
next
  case (month n s)
  then show ?case by (intro accepted_name) (simp_all add: known_name_iff)
next
  case (weekday n s)
  then show ?case by (intro accepted_name) (simp_all add: known_name_iff)
qed

lemma accepted_cron_field: "is_standard_cron_field m w s \<Longrightarrow> cron_field m w s"
proof (induction m w s rule: is_standard_cron_field.induct)
  case (1 m w)
  show ?case by (rule cron_field.empty)
next
  case (2 m w c cs)
  show ?case
  proof (cases "cron_symbol c")
    case True
    with 2 show ?thesis by (auto intro: cron_field_symbol)
  next
    case False
    with "2.prems" obtain name where get: "str_get_prefix 3 (c # cs) = Some name"
      and alpha: "is_ascii_alphabetic c" "list_all is_ascii_alphabetic name"
      and known: "known_name m w name"
      and rest: "is_standard_cron_field m w (drop 2 cs)"
      by (auto split: if_splits option.splits)
    have "cron_field m w (drop 2 cs)"
      using "2.IH"(2) [OF False alpha(1) get] alpha(2) known rest by simp
    moreover have "length name = 3" "c # cs = name @ drop 2 cs"
      using get by (auto simp: str_get_prefix_def numeral_3_eq_3 numeral_2_eq_2 split: if_splits)
    ultimately show ?thesis
      using known by (simp only: cron_field_name)
  qed
qed

lemma is_standard_cron_field_iff: "is_standard_cron_field m w s \<longleftrightarrow> cron_field m w s"
  using cron_field_accepted accepted_cron_field by blast

lemma cron_field_plain_symbols: "cron_field m w s \<Longrightarrow> \<not> m \<Longrightarrow> \<not> w \<Longrightarrow> list_all plain_symbol s"
  by (induction rule: cron_field.induct) auto

section \<open>What the search returns\<close>

lemma cron_search_future:
  "cron_search n E cron z after anchor = Ret (Some u) \<Longrightarrow> after < u"
  by (induction n arbitrary: anchor)
     (auto simp: outcome_simps split: sum.splits cron_error.splits if_splits)

text \<open>
  The anchors the loop visits: croner's candidate while it is not in the future, an hour later
  at a gap.
\<close>

fun anchor_after :: "cron \<Rightarrow> tz \<Rightarrow> instant \<Rightarrow> nat \<Rightarrow> instant" where
  "anchor_after cron z a 0 = a"
| "anchor_after cron z a (Suc k) =
     (case cron z a of
        Inr c \<Rightarrow> anchor_after cron z c k
      | Inl _ \<Rightarrow> anchor_after cron z (a + 3600 * sec_ns) k)"

text \<open>
  The loop finds the first candidate in the future if it shows up within the retry limit, with
  no fatal croner error and no overflow on the way.
\<close>

lemma cron_search_reaches:
  assumes "k < n"
    and "\<forall>j < k. (\<exists>c. cron z (anchor_after cron z a j) = Inr c \<and> c \<le> after)
              \<or> (cron z (anchor_after cron z a j) = Inl InvalidTime
                 \<and> in_range E (anchor_after cron z a j + 3600 * sec_ns))"
    and "cron z (anchor_after cron z a k) = Inr u" and "after < u"
  shows "cron_search n E cron z after a = Ret (Some u)"
  using assms
proof (induction k arbitrary: n a)
  case 0
  then show ?case by (cases n) auto
next
  case (Suc k)
  then obtain n' where n: "n = Suc n'" "k < n'" by (cases n) auto
  have step: "(\<exists>c. cron z a = Inr c \<and> c \<le> after)
      \<or> (cron z a = Inl InvalidTime \<and> in_range E (a + 3600 * sec_ns))"
    using Suc.prems(2) by (metis anchor_after.simps(1) zero_less_Suc)
  then show ?case
  proof (elim disjE exE conjE)
    fix c assume c: "cron z a = Inr c" "c \<le> after"
    have "cron_search n' E cron z after c = Ret (Some u)"
    proof (rule Suc.IH [OF n(2)])
      show "\<forall>j<k. (\<exists>d. cron z (anchor_after cron z c j) = Inr d \<and> d \<le> after)
          \<or> (cron z (anchor_after cron z c j) = Inl InvalidTime
             \<and> in_range E (anchor_after cron z c j + 3600 * sec_ns))"
        using Suc.prems(2) c(1) by (auto dest: spec [of _ "Suc _"])
      show "cron z (anchor_after cron z c k) = Inr u" using Suc.prems(3) c(1) by simp
    qed (rule Suc.prems(4))
    with n c show ?thesis by simp
  next
    assume c: "cron z a = Inl InvalidTime" "in_range E (a + 3600 * sec_ns)"
    let ?c = "a + 3600 * sec_ns"
    have "cron_search n' E cron z after ?c = Ret (Some u)"
    proof (rule Suc.IH [OF n(2)])
      show "\<forall>j<k. (\<exists>d. cron z (anchor_after cron z ?c j) = Inr d \<and> d \<le> after)
          \<or> (cron z (anchor_after cron z ?c j) = Inl InvalidTime
             \<and> in_range E (anchor_after cron z ?c j + 3600 * sec_ns))"
        using Suc.prems(2) c(1) by (auto dest: spec [of _ "Suc _"])
      show "cron z (anchor_after cron z ?c k) = Inr u" using Suc.prems(3) c(1) by simp
    qed (rule Suc.prems(4))
    with n c show ?thesis by (simp add: dt_add_def)
  qed
qed

end
