(* ===== verification/Evaluator.thy ===== *)
theory Evaluator
  imports Cron_Expr
begin

text \<open>
  The trigger evaluator of \<^verbatim>\<open>crates/scheduler/src/evaluator.rs\<close>: the next instant at which a
  trigger fires, strictly after a given one.  \<open>evaluate_next_occurrence\<close> follows the source's
  branches; its three day-by-day loops share \<open>day_loop\<close>.
\<close>

section \<open>Definitions\<close>

text \<open>
  The walk out of a daylight-saving gap: at most eight steps of 15 minutes, stopping at the
  first local time that exists.
\<close>

fun gap_search :: "nat \<Rightarrow> tz \<Rightarrow> naive_datetime \<Rightarrow> instant \<Rightarrow> instant option" where
  "gap_search 0 z shifted after = None"
| "gap_search (Suc n) z shifted after =
     (let shifted' = shifted + 15 * min_ns
      in case tz_from_local z shifted' of
           LocalSingle dt \<Rightarrow> if dt > after then Some dt else None
         | LocalAmbiguous dt _ \<Rightarrow> if dt > after then Some dt else None
         | LocalNone \<Rightarrow> gap_search n z shifted' after)"

definition resolve_candidate ::
  "tz \<Rightarrow> naive_date \<Rightarrow> naive_time \<Rightarrow> instant \<Rightarrow> instant option" where
  "resolve_candidate z date time after =
     (case tz_from_local z (and_time date time) of
        LocalSingle utc \<Rightarrow> if utc > after then Some utc else None
      | LocalAmbiguous e_utc l_utc \<Rightarrow>
          if e_utc > after then Some e_utc
          else if l_utc > after then Some l_utc
          else None
      | LocalNone \<Rightarrow> gap_search 8 z (and_time date time) after)"

text \<open>
  \<open>for _ in 0..n { if let Some(u) = body { return Some(u) }; date = date.succ_opt()? } None\<close>,
  with the number of the iteration as the body's first argument.
\<close>

fun day_loop ::
  "nat \<Rightarrow> chrono_env \<Rightarrow> nat \<Rightarrow> (nat \<Rightarrow> naive_date \<Rightarrow> instant option) \<Rightarrow> naive_date
   \<Rightarrow> instant option" where
  "day_loop 0 E i body date = None"
| "day_loop (Suc n) E i body date =
     (case body i date of
        Some u \<Rightarrow> Some u
      | None \<Rightarrow> if date < date_max E then day_loop n E (Suc i) body (date + 1) else None)"

definition pick_random_time_in_window :: "rng \<Rightarrow> nat \<Rightarrow> naive_time \<Rightarrow> naive_time \<Rightarrow> naive_time" where
  "pick_random_time_in_window r k start finish =
     (let span = max (num_seconds (finish - start)) 1;
          offset = r k span
      in (start + offset * sec_ns) mod day_ns)"

definition next_interval ::
  "chrono_env \<Rightarrow> u64 \<Rightarrow> instant option \<Rightarrow> instant \<Rightarrow> instant option outcome" where
  "next_interval E secs start after =
     (if secs = 0 then Ret None
      else
        let interval = as_i64 secs;
            base = (case start of Some b \<Rightarrow> b | None \<Rightarrow> after)
        in if after < base then Ret (Some base)
           else
             let elapsed = after - base;
                 count = i64_div (num_seconds elapsed) interval + 1
             in obind (duration_seconds (i64_mul count interval)) (\<lambda>d.
                obind (dt_add E base d) (\<lambda>u. Ret (Some u))))"

definition next_daily :: "chrono_env \<Rightarrow> tz \<Rightarrow> naive_time \<Rightarrow> instant \<Rightarrow> instant option" where
  "next_daily E z time after =
     day_loop 4 E 0 (\<lambda>_ d. resolve_candidate z d time after) (date_of (tz_local z after))"

definition next_weekly ::
  "chrono_env \<Rightarrow> tz \<Rightarrow> weekday list \<Rightarrow> naive_time \<Rightarrow> instant \<Rightarrow> instant option" where
  "next_weekly E z days time after =
     (if days = [] then None
      else day_loop 14 E 0
             (\<lambda>_ d. if weekday_of d \<in> set days then resolve_candidate z d time after else None)
             (date_of (tz_local z after)))"

definition fuzzy_body ::
  "tz \<Rightarrow> rng \<Rightarrow> fuzzy_period \<Rightarrow> naive_time \<Rightarrow> naive_time \<Rightarrow> instant \<Rightarrow> nat \<Rightarrow> naive_date
   \<Rightarrow> instant option" where
  "fuzzy_body z r period ws we after i d =
     (let local_after = tz_local z after;
          window_not_started = (d > date_of local_after \<or> ws > time_of local_after)
      in if matches_weekday period (weekday_of d) \<and> window_not_started
         then resolve_candidate z d (pick_random_time_in_window r i ws we) after
         else None)"

definition next_fuzzy ::
  "chrono_env \<Rightarrow> tz \<Rightarrow> rng \<Rightarrow> fuzzy_period \<Rightarrow> naive_time \<Rightarrow> naive_time \<Rightarrow> instant \<Rightarrow> instant option"
  where
  "next_fuzzy E z r period ws we after =
     (if we \<le> ws then None
      else day_loop 14 E 0 (fuzzy_body z r period ws we after) (date_of (tz_local z after)))"

fun evaluate_next_occurrence ::
  "chrono_env \<Rightarrow> rng \<Rightarrow> trigger_kind \<Rightarrow> instant \<Rightarrow> instant option outcome" where
  "evaluate_next_occurrence E r (Once f) after = Ret (if f > after then Some f else None)"
| "evaluate_next_occurrence E r (Interval secs start) after = next_interval E secs start after"
| "evaluate_next_occurrence E r (Daily time tzname) after =
     Ret (next_daily E (zone E tzname) time after)"
| "evaluate_next_occurrence E r (Weekly days time tzname) after =
     Ret (next_weekly E (zone E tzname) days time after)"
| "evaluate_next_occurrence E r (Cron expr tzname) after =
     (case parse_standard_cron E expr of
        None \<Rightarrow> Ret None
      | Some cron \<Rightarrow> cron_next_occurrence E cron (zone E tzname) after)"
| "evaluate_next_occurrence E r (Network _ _) after = Ret None"
| "evaluate_next_occurrence E r (Fuzzy period ws we tzname) after =
     Ret (next_fuzzy E (zone E tzname) r period ws we after)"
| "evaluate_next_occurrence E r AgentStarted after = Ret None"

text \<open>\<open>impl TriggerEvaluator for Trigger\<close>: a disabled trigger has no next occurrence.\<close>

definition trigger_next_occurrence ::
  "chrono_env \<Rightarrow> rng \<Rightarrow> trigger \<Rightarrow> instant \<Rightarrow> instant option outcome" where
  "trigger_next_occurrence E r t after =
     (if \<not> trigger_enabled t then Ret None
      else evaluate_next_occurrence E r (trigger_kind t) after)"

section \<open>Candidates\<close>

lemma gap_search_future: "gap_search n z s after = Some u \<Longrightarrow> after < u"
  by (induction n arbitrary: s) (auto simp: Let_def split: local_result.splits if_splits)

lemma resolve_candidate_future: "resolve_candidate z d t after = Some u \<Longrightarrow> after < u"
  by (auto simp: resolve_candidate_def dest: gap_search_future split: local_result.splits if_splits)

text \<open>What a candidate shows on the local clock: the wanted time, or one of the eight quarter
  hours after it when that time is skipped.\<close>

lemma gap_search_local:
  assumes "tz_ok z" and "gap_search n z s after = Some u"
  shows "\<exists>k. 1 \<le> k \<and> k \<le> int n \<and> tz_local z u = s + k * (15 * min_ns)"
  using assms(2)
proof (induction n arbitrary: s)
  case 0
  then show ?case by simp
next
  case (Suc n)
  let ?s = "s + 15 * min_ns"
  show ?case
  proof (cases "tz_from_local z ?s")
    case LocalNone
    with Suc.prems have "gap_search n z ?s after = Some u" by (simp add: Let_def)
    then obtain k where "1 \<le> k" "k \<le> int n" "tz_local z u = ?s + k * (15 * min_ns)"
      using Suc.IH by blast
    then show ?thesis by (intro exI [of _ "k + 1"]) (simp add: algebra_simps)
  next
    case (LocalSingle v)
    with Suc.prems have "u = v" by (simp add: Let_def split: if_splits)
    with LocalSingle assms(1) have "tz_local z u = s + 1 * (15 * min_ns)"
      by (simp add: tz_ok_single)
    then show ?thesis by (intro exI [of _ 1] conjI) simp_all
  next
    case (LocalAmbiguous e l)
    with Suc.prems have "u = e" by (simp add: Let_def split: if_splits)
    with LocalAmbiguous assms(1) have "tz_local z u = s + 1 * (15 * min_ns)"
      by (simp add: tz_ok_ambiguous(1))
    then show ?thesis by (intro exI [of _ 1] conjI) simp_all
  qed
qed

lemma resolve_candidate_local:
  assumes "tz_ok z" and "resolve_candidate z d t after = Some u"
  shows "tz_local z u = and_time d t
     \<or> (tz_from_local z (and_time d t) = LocalNone
        \<and> (\<exists>k. 1 \<le> k \<and> k \<le> 8 \<and> tz_local z u = and_time d t + k * (15 * min_ns)))"
proof (cases "tz_from_local z (and_time d t)")
  case LocalNone
  with assms(2) have "gap_search 8 z (and_time d t) after = Some u"
    by (simp add: resolve_candidate_def)
  from gap_search_local [OF assms(1) this] LocalNone show ?thesis by simp
next
  case (LocalSingle v)
  with assms have "u = v" by (simp add: resolve_candidate_def split: if_splits)
  with LocalSingle assms(1) show ?thesis by (simp add: tz_ok_single)
next
  case (LocalAmbiguous e l)
  with assms(2) have "u = e \<or> u = l" by (auto simp: resolve_candidate_def split: if_splits)
  with LocalAmbiguous assms(1) show ?thesis by (auto simp: tz_ok_ambiguous)
qed

lemma resolve_fixed [simp]:
  "resolve_candidate (fixed_tz off) d t after =
     (if and_time d t - off > after then Some (and_time d t - off) else None)"
  by (simp add: resolve_candidate_def)

section \<open>The day loop\<close>

lemma day_loop_Some:
  "day_loop n E i body d = Some u \<Longrightarrow>
     \<exists>k < n. body (i + k) (d + int k) = Some u \<and> (\<forall>j < k. body (i + j) (d + int j) = None)"
proof (induction n arbitrary: i d)
  case 0
  then show ?case by simp
next
  case (Suc n)
  show ?case
  proof (cases "body i d")
    case None
    with Suc.prems have "day_loop n E (Suc i) body (d + 1) = Some u" by (simp split: if_splits)
    then obtain k where k: "k < n" "body (Suc i + k) (d + 1 + int k) = Some u"
      "\<forall>j < k. body (Suc i + j) (d + 1 + int j) = None" using Suc.IH by blast
    have "\<forall>j < Suc k. body (i + j) (d + int j) = None"
    proof (intro allI impI)
      fix j assume "j < Suc k"
      with None k(3) show "body (i + j) (d + int j) = None"
        by (cases j) (auto simp: add.assoc)
    qed
    with k show ?thesis by (intro exI [of _ "Suc k"]) (simp add: add.assoc)
  next
    case (Some v)
    with Suc.prems show ?thesis by (intro exI [of _ 0]) simp
  qed
qed

lemma day_loop_hit:
  assumes "k < n" and "body (i + k) (d + int k) = Some u"
    and "\<forall>j < k. body (i + j) (d + int j) = None"
    and "d + int k \<le> date_max E"
  shows "day_loop n E i body d = Some u"
  using assms
proof (induction k arbitrary: n i d)
  case 0
  then show ?case by (cases n) auto
next
  case (Suc k)
  then obtain n' where n: "n = Suc n'" "k < n'" by (cases n) auto
  have "body i d = None" using Suc.prems(3) [rule_format, of 0] by simp
  moreover have "day_loop n' E (Suc i) body (d + 1) = Some u"
  proof (rule Suc.IH [OF n(2)])
    show "body (Suc i + k) (d + 1 + int k) = Some u"
      using Suc.prems(2) by (simp add: add.assoc)
    show "\<forall>j<k. body (Suc i + j) (d + 1 + int j) = None"
    proof (intro allI impI)
      fix j assume "j < k"
      with Suc.prems(3) have "body (i + Suc j) (d + int (Suc j)) = None" by blast
      then show "body (Suc i + j) (d + 1 + int j) = None" by (simp add: add.assoc)
    qed
    show "d + 1 + int k \<le> date_max E" using Suc.prems(4) by simp
  qed
  ultimately show ?case using n Suc.prems(4) by simp
qed

lemma day_loop_future:
  assumes "\<And>i d v. body i d = Some v \<Longrightarrow> after < v"
    and "day_loop n E i body d = Some u"
  shows "after < u"
  using day_loop_Some [OF assms(2)] assms(1) by blast

end
