(* ===== verification/Evaluator_Facts.thy ===== *)
theory Evaluator_Facts
  imports Evaluator
begin

text \<open>
  Correctness of the trigger evaluator: every result lies strictly in the future, intervals stay
  on their grid, daily and weekly triggers return the first matching instant of a zone without
  offset changes, fuzzy triggers fire inside their window and at most once a day.
\<close>

section \<open>Strictly later\<close>

text \<open>
  What a trigger needs for the arithmetic of its kind to be exact: an interval that survives the
  cast to \<open>i64\<close>, with a representable starting point.
\<close>

fun sane_kind :: "chrono_env \<Rightarrow> trigger_kind \<Rightarrow> bool" where
  "sane_kind E (Interval secs start) =
     (unat secs < 2 ^ 63 \<and> (case start of None \<Rightarrow> True | Some b \<Rightarrow> in_range E b))"
| "sane_kind E _ = True"

lemma next_daily_future: "next_daily E z t after = Some u \<Longrightarrow> after < u"
  unfolding next_daily_def
  by (erule day_loop_future [rotated]) (rule resolve_candidate_future)

lemma next_weekly_future: "next_weekly E z days t after = Some u \<Longrightarrow> after < u"
  unfolding next_weekly_def
  by (auto split: if_splits dest!: day_loop_future [rotated, where after = after]
      intro: resolve_candidate_future)

lemma fuzzy_body_future: "fuzzy_body z r p ws we after i d = Some u \<Longrightarrow> after < u"
  by (auto simp: fuzzy_body_def Let_def split: if_splits intro: resolve_candidate_future)

lemma next_fuzzy_future: "next_fuzzy E z r p ws we after = Some u \<Longrightarrow> after < u"
  unfolding next_fuzzy_def
  by (auto split: if_splits dest!: day_loop_future [rotated, where after = after]
      intro: fuzzy_body_future)

lemma cron_next_future: "cron_next_occurrence E cron z after = Ret (Some u) \<Longrightarrow> after < u"
  unfolding cron_next_occurrence_def by (rule cron_search_future)

text \<open>The arithmetic of an interval trigger, with no wrap-around and no truncation error.\<close>

lemma interval_arith:
  fixes e I :: int
  assumes e: "0 \<le> e" "e \<le> 9223372036854775 * sec_ns" and I: "0 < I" "I < 2 ^ 63"
  defines "c \<equiv> i64_div (num_seconds e) I + 1"
  shows "i64_mul c I = c * I" and "e < c * I * sec_ns" and "c * I * sec_ns \<le> e + I * sec_ns"
    and "1 \<le> c"
proof -
  let ?s = "e div sec_ns"
  have s: "num_seconds e = ?s" "0 \<le> ?s" "?s \<le> 9223372036854775"
    using e by (auto simp: num_seconds_nonneg pos_imp_zdiv_nonneg_iff sec_ns_def)
  have c: "c = ?s div I + 1"
    using s I by (simp add: c_def i64_div_nonneg)
  have q: "0 \<le> ?s div I" using s I by (simp add: pos_imp_zdiv_nonneg_iff)
  have qI: "?s div I * I \<le> ?s" "?s < (?s div I + 1) * I"
  proof -
    have "?s div I * I = ?s - ?s mod I" by (simp add: minus_mod_eq_div_mult)
    moreover have "0 \<le> ?s mod I" "?s mod I < I" using I by simp_all
    ultimately show "?s div I * I \<le> ?s" "?s < (?s div I + 1) * I"
      by (simp_all only: distrib_right mult_1)
  qed
  have cI: "c * I = ?s div I * I + I" by (simp add: c algebra_simps)
  have lt: "c * I < 2 ^ 63"
  proof (cases "I \<le> ?s")
    case True
    with qI(1) s(3) cI show ?thesis by simp
  next
    case False
    with s(2) have "?s div I = 0" by (simp add: div_pos_pos_trivial)
    with cI I show ?thesis by simp
  qed
  moreover have "0 \<le> c * I" using q I by (simp add: c)
  ultimately show "i64_mul c I = c * I" by (intro i64_mul_small) simp_all
  have split: "e = ?s * sec_ns + e mod sec_ns" by simp
  have "?s + 1 \<le> c * I" using qI(2) by (simp add: c)
  then have "(?s + 1) * sec_ns \<le> c * I * sec_ns" by (simp add: mult_right_mono)
  moreover have "e < (?s + 1) * sec_ns"
    using pos_mod_bound [OF unit_pos(1), of e] split by (simp only: distrib_right mult_1)
  ultimately show "e < c * I * sec_ns" by linarith
  have "c * I * sec_ns \<le> (?s + I) * sec_ns"
    using qI(1) cI by (simp add: mult_right_mono)
  moreover have "?s * sec_ns \<le> e"
    using pos_mod_sign [OF unit_pos(1), of e] split by linarith
  ultimately show "c * I * sec_ns \<le> e + I * sec_ns" by (simp add: algebra_simps)
  show "1 \<le> c" using q by (simp add: c)
qed

lemma in_range_diff:
  "chrono_ok E \<Longrightarrow> in_range E a \<Longrightarrow> in_range E b \<Longrightarrow> a - b \<le> 9223372036854775 * sec_ns"
  by (auto simp: chrono_ok_def in_range_def)

lemma unat_word_pos: "secs \<noteq> (0 :: u64) \<Longrightarrow> 0 < int (unat secs)"
  by (subst of_nat_0_less_iff) (simp add: unat_gt_0)

text \<open>The interval branch computed: the base, or the next point of the grid.\<close>

lemma next_interval_grid:
  assumes "chrono_ok E" and "in_range E after" and "in_range E base"
    and "secs \<noteq> 0" and "unat secs < 2 ^ 63" and "base \<le> after"
    and base: "base = (case start of None \<Rightarrow> after | Some b \<Rightarrow> b)"
  defines "I \<equiv> int (unat secs)"
  defines "c \<equiv> i64_div (num_seconds (after - base)) I + 1"
  shows "next_interval E secs start after =
           (if c * I \<le> 9223372036854775 \<and> in_range E (base + c * I * sec_ns)
            then Ret (Some (base + c * I * sec_ns)) else Panic)"
    and "after < base + c * I * sec_ns" and "base + c * I * sec_ns \<le> after + I * sec_ns"
    and "1 \<le> c"
proof -
  have I: "0 < I" "I < 2 ^ 63"
  proof -
    have "int (unat secs) < int (2 ^ 63)" using assms(5) by (rule of_nat_less_iff [THEN iffD2])
    then show "I < 2 ^ 63" by (simp add: I_def)
    show "0 < I" unfolding I_def by (rule unat_word_pos [OF assms(4)])
  qed
  have e: "0 \<le> after - base" "after - base \<le> 9223372036854775 * sec_ns"
    using assms by (auto intro: in_range_diff)
  note arith = interval_arith [OF e I, folded c_def]
  have cast: "as_i64 secs = I" using assms(5) by (simp add: I_def as_i64_small)
  have pos: "0 \<le> c * I" using arith(4) I by simp
  show "after < base + c * I * sec_ns" "base + c * I * sec_ns \<le> after + I * sec_ns" "1 \<le> c"
    using arith by linarith+
  have b: "(case start of None \<Rightarrow> after | Some b \<Rightarrow> b) = base" by (simp add: base)
  show "next_interval E secs start after =
           (if c * I \<le> 9223372036854775 \<and> in_range E (base + c * I * sec_ns)
            then Ret (Some (base + c * I * sec_ns)) else Panic)"
    using assms(4,6) arith(1) pos
    by (simp add: next_interval_def Let_def b cast duration_seconds_def dt_add_def
        c_def [symmetric])
qed

lemma next_interval_future:
  assumes "chrono_ok E" "in_range E after" "sane_kind E (Interval secs start)"
    and "next_interval E secs start after = Ret (Some u)"
  shows "after < u"
proof -
  obtain base where base: "base = (case start of None \<Rightarrow> after | Some b \<Rightarrow> b)" by blast
  have nz: "secs \<noteq> 0" using assms(4) by (auto simp: next_interval_def)
  show ?thesis
  proof (cases "base \<le> after")
    case True
    have "in_range E base" using assms(2,3) base by (auto split: option.splits)
    with next_interval_grid [OF assms(1,2) this nz _ True base] assms(3,4)
    show ?thesis by (auto split: if_splits)
  next
    case False
    with assms(4) nz base have "u = base"
      by (auto simp: next_interval_def Let_def split: option.splits)
    with False show ?thesis by simp
  qed
qed

lemma interval_panics:
  assumes "9223372036854775 < unat secs" and "unat secs < 2 ^ 63"
  shows "next_interval E secs None after = Panic" and "next_interval E secs (Some after) after = Panic"
proof -
  have "secs \<noteq> 0" using assms(1) by auto
  moreover have "as_i64 secs = int (unat secs)" using assms(2) by (rule as_i64_small)
  moreover have "i64_mul 1 (int (unat secs)) = int (unat secs)"
    using of_nat_less_iff [THEN iffD2, OF assms(2)]
    by (subst i64_mul_small) (simp_all add: order_trans [OF _ uint_ge_0])
  moreover have "\<not> \<bar>int (unat secs)\<bar> \<le> 9223372036854775" using assms(1) by linarith
  ultimately show "next_interval E secs None after = Panic" "next_interval E secs (Some after) after = Panic"
    by (auto simp: next_interval_def num_seconds_def i64_div_def duration_seconds_def simp del: of_nat_unat)
qed

lemma evaluate_future:
  assumes "chrono_ok E" and "in_range E after" and "sane_kind E k"
    and "evaluate_next_occurrence E r k after = Ret (Some u)"
  shows "after < u"
  using assms
  by (cases k)
     (auto simp del: sane_kind.simps split: if_splits option.splits
       intro: next_interval_future next_daily_future next_weekly_future next_fuzzy_future
         cron_next_future)

section \<open>Zones without offset changes\<close>

text \<open>
  A loop over dates that resolves one time of day on the dates satisfying \<open>P\<close> finds the least
  instant after \<open>after\<close> that shows that time on such a date.
\<close>

lemma fixed_day_search:
  fixes off :: duration
  defines "D \<equiv> \<lambda>v. date_of (v + off)" and "T \<equiv> \<lambda>v. time_of (v + off)"
  assumes t: "0 \<le> t" "t < day_ns"
    and k: "k < n" "P (D after + int k)" "after < and_time (D after + int k) t - off"
    and max: "D after + int k \<le> date_max E"
  shows "\<exists>u. day_loop n E 0
             (\<lambda>_ d. if P d then resolve_candidate (fixed_tz off) d t after else None) (D after) = Some u
           \<and> after < u \<and> P (D u) \<and> T u = t \<and> D u \<le> D after + int k
           \<and> (\<forall>v. after < v \<and> v < u \<longrightarrow> \<not> (P (D v) \<and> T v = t))"
proof -
  let ?ok = "\<lambda>k. P (D after + int k) \<and> after < and_time (D after + int k) t - off"
  define m where "m = (LEAST k. ?ok k)"
  have m: "?ok m" "\<And>j. j < m \<Longrightarrow> \<not> ?ok j" "m \<le> k"
    unfolding m_def using k by (auto intro: LeastI2 [of ?ok k] Least_le dest: not_less_Least)
  define u where "u = and_time (D after + int m) t - off"
  have u: "after < u" "D u = D after + int m" "T u = t"
    using m(1) t by (auto simp: u_def D_def T_def)
  have "day_loop n E 0
      (\<lambda>_ d. if P d then resolve_candidate (fixed_tz off) d t after else None) (D after) = Some u"
    by (rule day_loop_hit [where k = m]) (use m k max in \<open>auto simp: u_def\<close>)
  moreover have "\<not> (P (D v) \<and> T v = t)" if v: "after < v" "v < u" for v
  proof
    assume pv: "P (D v) \<and> T v = t"
    have veq: "and_time (D v) t = v + off" using pv date_time_split [of "v + off"]
      by (auto simp: D_def T_def)
    have "D after \<le> D v" using v(1) by (auto simp: D_def intro: date_of_mono)
    then obtain j where j: "D v = D after + int j" using zle_iff_zadd by blast
    have "and_time (D v) t < and_time (D after + int m) t" using v(2) veq by (simp add: u_def)
    then have "D v * day_ns < (D after + int m) * day_ns" by (simp add: and_time_def)
    then have "j < m" using j by simp
    moreover have "?ok j" using pv veq v(1) j by simp
    ultimately show False using m(2) by blast
  qed
  ultimately show ?thesis using u m by auto
qed

lemma later_date_later:
  assumes "0 \<le> t" and "date_of (after + off) < d"
  shows "after < and_time d t - off"
proof -
  have "after + off = date_of (after + off) * day_ns + time_of (after + off)"
    using date_time_split [of "after + off"] by (simp add: and_time_def)
  moreover have "time_of (after + off) < day_ns" by (rule time_of_bounds)
  moreover have "(date_of (after + off) + 1) * day_ns \<le> d * day_ns"
    using assms(2) by (intro mult_right_mono) (auto simp: less_imp_le)
  ultimately show ?thesis using assms(1) by (simp add: and_time_def distrib_right)
qed

lemma next_daily_fixed:
  assumes "0 \<le> t" "t < day_ns" and "date_of (after + off) < date_max E"
  shows "\<exists>u. next_daily E (fixed_tz off) t after = Some u \<and> after < u \<and> time_of (u + off) = t
           \<and> (\<forall>v. after < v \<and> v < u \<longrightarrow> time_of (v + off) \<noteq> t)"
  using fixed_day_search [of t 1 4 "\<lambda>_. True" after off E] assms
    later_date_later [of t after off "date_of (after + off) + 1"]
  by (auto simp: next_daily_def simp del: resolve_fixed)

lemma next_weekly_fixed:
  assumes "0 \<le> t" "t < day_ns" and "date_of (after + off) + 7 \<le> date_max E" and "days \<noteq> []"
  shows "\<exists>u. next_weekly E (fixed_tz off) days t after = Some u \<and> after < u
           \<and> weekday_of (date_of (u + off)) \<in> set days \<and> time_of (u + off) = t
           \<and> (\<forall>v. after < v \<and> v < u \<longrightarrow>
                \<not> (weekday_of (date_of (v + off)) \<in> set days \<and> time_of (v + off) = t))"
proof -
  let ?d = "date_of (after + off)"
  obtain k where k: "k < 7" "weekday_of (?d + 1 + int k) = hd days"
    using weekday_in_week by blast
  have "after < and_time (?d + int (Suc k)) t - off"
    by (rule later_date_later) (use assms in auto)
  moreover have "weekday_of (?d + int (Suc k)) \<in> set days"
    using k assms(4) by (simp add: add.assoc [symmetric])
  ultimately show ?thesis
    using fixed_day_search [of t "Suc k" 14 "\<lambda>d. weekday_of d \<in> set days" after off E] assms k(1)
    by (auto simp: next_weekly_def simp del: resolve_fixed)
qed

section \<open>Fuzzy windows\<close>

lemma day_loop_live:
  assumes "k < n" and "body (i + k) (d + int k) \<noteq> None" and "d + int k \<le> date_max E"
  shows "\<exists>u. day_loop n E i body d = Some u"
  using assms
proof (induction n arbitrary: i d k)
  case 0
  then show ?case by simp
next
  case (Suc n)
  show ?case
  proof (cases "body i d")
    case None
    with Suc.prems obtain k' where k': "k = Suc k'" by (cases k) auto
    with Suc.prems have "\<exists>u. day_loop n E (Suc i) body (d + 1) = Some u"
      by (intro Suc.IH [of k']) (auto simp: add.assoc)
    with None k' Suc.prems(3) show ?thesis by simp
  qed simp
qed

lemma pick_in_window:
  assumes "rng_ok r" and "0 \<le> ws" "ws < we" "we < day_ns"
  shows "ws \<le> pick_random_time_in_window r i ws we" "pick_random_time_in_window r i ws we < we"
proof -
  let ?span = "max (num_seconds (we - ws)) 1"
  let ?o = "r i ?span"
  have ns: "num_seconds (we - ws) = (we - ws) div sec_ns"
    using assms by (simp add: num_seconds_nonneg)
  have o: "0 \<le> ?o" "?o < ?span" using assms(1) by (auto simp: rng_ok_def)
  have "?o * sec_ns < we - ws"
  proof (cases "?o = 0")
    case True
    with assms show ?thesis by simp
  next
    case False
    with o ns have "?o + 1 \<le> (we - ws) div sec_ns" by linarith
    then have "(?o + 1) * sec_ns \<le> (we - ws) div sec_ns * sec_ns"
      by (rule mult_right_mono) (simp add: less_imp_le)
    also have "\<dots> \<le> we - ws" by (simp add: minus_mod_eq_div_mult [symmetric])
    finally show ?thesis using unit_pos(1) by (simp only: distrib_right mult_1)
  qed
  moreover have "0 \<le> ?o * sec_ns" using o by (simp add: less_imp_le)
  ultimately have "pick_random_time_in_window r i ws we = ws + ?o * sec_ns"
    using assms by (simp add: pick_random_time_in_window_def Let_def mod_pos_pos_trivial)
  with \<open>?o * sec_ns < we - ws\<close> \<open>0 \<le> ?o * sec_ns\<close>
  show "ws \<le> pick_random_time_in_window r i ws we" "pick_random_time_in_window r i ws we < we"
    by simp_all
qed

text \<open>A fuzzy fire lies in its window on a matching day, and that window had not begun at \<open>after\<close>.\<close>

lemma next_fuzzy_window:
  assumes "rng_ok r" and "0 \<le> ws" "we < day_ns"
    and "next_fuzzy E (fixed_tz off) r p ws we after = Some u"
  shows "ws \<le> time_of (u + off)" and "time_of (u + off) < we"
    and "matches_weekday p (weekday_of (date_of (u + off)))"
    and "date_of (after + off) < date_of (u + off)
         \<or> date_of (after + off) = date_of (u + off) \<and> time_of (after + off) < ws"
proof -
  have w: "ws < we" using assms(4) by (auto simp: next_fuzzy_def split: if_splits)
  obtain k where b: "fuzzy_body (fixed_tz off) r p ws we after k (date_of (after + off) + int k) = Some u"
    using assms(4) w by (auto simp: next_fuzzy_def dest!: day_loop_Some)
  define d where "d = date_of (after + off) + int k"
  define x where "x = pick_random_time_in_window r k ws we"
  have x: "ws \<le> x" "x < we" using pick_in_window [OF assms(1,2) w assms(3), of k]
    by (simp_all add: x_def)
  have u: "u = and_time d x - off" and m: "matches_weekday p (weekday_of d)"
    and s: "d > date_of (after + off) \<or> ws > time_of (after + off)"
    using b by (auto simp: fuzzy_body_def Let_def d_def [symmetric] x_def [symmetric] split: if_splits)
  have du: "date_of (u + off) = d" "time_of (u + off) = x"
    using u x assms(2,3) by simp_all
  show "ws \<le> time_of (u + off)" "time_of (u + off) < we"
    "matches_weekday p (weekday_of (date_of (u + off)))"
    using du x m by simp_all
  show "date_of (after + off) < date_of (u + off)
        \<or> date_of (after + off) = date_of (u + off) \<and> time_of (after + off) < ws"
    using s unfolding du d_def by auto
qed

text \<open>In any zone: the drawn local time, or up to eight quarter hours later when it is skipped.\<close>

lemma next_fuzzy_local:
  assumes z: "tz_ok z" and "rng_ok r" and "0 \<le> ws" "we < day_ns"
    and f: "next_fuzzy E z r p ws we after = Some u"
  obtains d t k where "ws \<le> t" and "t < we" and "matches_weekday p (weekday_of d)"
    and "tz_local z after < and_time d ws" and "d < date_of (tz_local z after) + 14"
    and "tz_local z u = and_time d t + k * (15 * min_ns)"
    and "k = 0 \<or> 1 \<le> k \<and> k \<le> 8 \<and> tz_from_local z (and_time d t) = LocalNone"
proof -
  let ?l = "tz_local z after"
  have w: "ws < we" using f by (auto simp: next_fuzzy_def split: if_splits)
  obtain i where i: "i < 14" "fuzzy_body z r p ws we after i (date_of ?l + int i) = Some u"
    using f w by (auto simp: next_fuzzy_def dest!: day_loop_Some)
  define d where "d = date_of ?l + int i"
  define t where "t = pick_random_time_in_window r i ws we"
  have t: "ws \<le> t" "t < we" using pick_in_window [OF assms(2,3) w assms(4), of i] by (simp_all add: t_def)
  have m: "matches_weekday p (weekday_of d)" and s: "d > date_of ?l \<or> ws > time_of ?l"
    and c: "resolve_candidate z d t after = Some u"
    using i(2) by (auto simp: fuzzy_body_def Let_def d_def t_def split: if_splits)
  have "?l < and_time d ws"
  proof (cases "i = 0")
    case True
    then have "d = date_of ?l" by (simp add: d_def)
    with s show ?thesis using date_time_split [of ?l] by (simp add: and_time_def)
  next
    case False
    then have "date_of ?l + 1 \<le> d" by (simp add: d_def)
    then have "(date_of ?l + 1) * day_ns \<le> d * day_ns" by (intro mult_right_mono) (simp_all add: unit_defs)
    then show ?thesis using date_time_split [of ?l] time_of_bounds(2) [of ?l] assms(3)
      by (simp add: and_time_def algebra_simps)
  qed
  moreover have "d < date_of ?l + 14" using i(1) by (simp add: d_def)
  ultimately show thesis
    using resolve_candidate_local [OF z c] that [OF t m, of 0] that [OF t m] by (auto 4 0)
qed

lemma next_fuzzy_live:
  assumes "rng_ok r" and "0 \<le> ws" "ws < we" "we < day_ns" and "matches_weekday p w"
    and "date_of (after + off) + 7 \<le> date_max E"
  shows "\<exists>u. next_fuzzy E (fixed_tz off) r p ws we after = Some u"
proof -
  let ?d = "date_of (after + off)"
  obtain k where k: "k < 7" "weekday_of (?d + 1 + int k) = w"
    using weekday_in_week by blast
  have "0 \<le> pick_random_time_in_window r (Suc k) ws we"
    using pick_in_window(1) [OF assms(1-4), of "Suc k"] assms(2) by linarith
  then have "after < and_time (?d + int (Suc k)) (pick_random_time_in_window r (Suc k) ws we) - off"
    by (rule later_date_later) simp
  moreover have "weekday_of (?d + int (Suc k)) = w" using k(2) by (simp add: add.assoc [symmetric])
  ultimately have "fuzzy_body (fixed_tz off) r p ws we after (0 + Suc k) (?d + int (Suc k)) \<noteq> None"
    using assms(5) by (simp add: fuzzy_body_def Let_def del: of_nat_Suc)
  then show ?thesis
    unfolding next_fuzzy_def using assms(3,6) k(1)
    by (auto intro!: day_loop_live [of "Suc k"])
qed

section \<open>Cron\<close>

lemma plain_cron_field: "cron_field False False s \<longleftrightarrow> list_all plain_symbol s"
proof
  show "cron_field False False s \<Longrightarrow> list_all plain_symbol s"
    using cron_field_plain_symbols [of False False] by blast
  show "list_all plain_symbol s \<Longrightarrow> cron_field False False s"
    by (induction s) (auto intro: cron_field.intros)
qed

lemma length5: "length xs = 5 \<longleftrightarrow> (\<exists>a b c d e. xs = [a, b, c, d, e])"
  by (auto simp: length_Suc_conv eval_nat_numeral)

lemma cron_search_step:
  "cron_search (Suc n) E cron z after a =
     (case cron z a of
        Inr c \<Rightarrow> if c > after then Ret (Some c) else cron_search n E cron z after c
      | Inl InvalidTime \<Rightarrow> obind (dt_add E a (3600 * sec_ns)) (cron_search n E cron z after)
      | Inl OtherCronError \<Rightarrow> Ret None)"
  by simp

lemmas cron_search_240 = cron_search_step [of 239, simplified]

text \<open>Candidates at least a minute apart cross a repeated stretch in as many rounds as it has minutes.\<close>

lemma cron_search_walks:
  assumes "a \<in> C" and "a < after" and "after \<le> a + int n * (60 * sec_ns)" and "after \<notin> C"
    and "\<And>a. a \<in> C \<Longrightarrow> a < after \<Longrightarrow> \<exists>c. cron z a = Inr c \<and> c \<in> C \<and> a + 60 * sec_ns \<le> c"
  shows "\<exists>u \<in> C. cron_search n E cron z after a = Ret (Some u) \<and> after < u"
  using assms(1-3)
proof (induction n arbitrary: a)
  case 0
  then show ?case by simp
next
  case (Suc n)
  obtain c where c: "cron z a = Inr c" "c \<in> C" "a + 60 * sec_ns \<le> c"
    using assms(5) Suc.prems(1,2) by blast
  show ?case
  proof (cases "after < c")
    case True
    with c show ?thesis by auto
  next
    case False
    with c(2) assms(4) have "c < after" by (metis linorder_neqE)
    moreover have "after \<le> c + int n * (60 * sec_ns)"
      using Suc.prems(3) c(3) by (simp add: algebra_simps)
    ultimately have "\<exists>u \<in> C. cron_search n E cron z after c = Ret (Some u) \<and> after < u"
      using Suc.IH c(2) by blast
    with c(1) False show ?thesis by simp
  qed
qed

end
