(* ===== verification/Evaluator_Props.thy ===== *)
theory Evaluator_Props
  imports Evaluator_Facts
begin

text \<open>
  What the trigger evaluator promises to the scheduler, kind by kind, each property followed by
  an application at a concrete trigger.
\<close>

section \<open>A concrete environment\<close>

text \<open>
  chrono's actual range (years -262143 to 262142), no zone but UTC, and a croner that knows the
  hourly schedule only.
\<close>

definition hourly :: cron where
  "hourly z a = Inr ((a div (3600 * sec_ns) + 1) * (3600 * sec_ns))"

definition utc_env :: chrono_env where
  "utc_env = \<lparr>env_tz = (\<lambda>_. None),
              env_cron = (\<lambda>e. if e = ''0 * * * *'' then Some hourly else None),
              dt_min = - 8334601228800 * sec_ns, dt_max = 8210266876799 * sec_ns,
              date_max = 95026236\<rparr>"

lemma utc_env_ok: "chrono_ok utc_env"
  by (simp add: chrono_ok_def utc_env_def sec_ns_def)

lemma utc_env_simps:
  "zone utc_env name = fixed_tz 0"
  "date_max utc_env = 95026236"
  "in_range utc_env u \<longleftrightarrow> - 8334601228800 * sec_ns \<le> u \<and> u \<le> 8210266876799 * sec_ns"
  by (simp_all add: zone_def utc_env_def utc_tz_def in_range_def)

lemma rng_first_ok: "rng_ok (\<lambda>k n. 0)"
  by (simp add: rng_ok_def)

section \<open>Every kind\<close>

text \<open>C1. Whatever the trigger kind, time zone data, cron library and random draws, the next
  occurrence lies strictly after the instant it is computed from (for an interval below 2^63
  seconds, with a representable start): the scheduler never re-fires at the same instant.\<close>

theorem evaluate_strictly_later:
  assumes "chrono_ok E" and "in_range E after" and "sane_kind E k"
    and "evaluate_next_occurrence E r k after = Ret (Some u)"
  shows "after < u"
  using assms by (rule evaluate_future)

lemma evaluate_strictly_later_witness: "(0 :: int) < 3600 * sec_ns"
  by (rule evaluate_strictly_later [where E = utc_env and r = "\<lambda>k n. 0"
        and k = "Interval 3600 (Some 0)"])
     (simp_all add: utc_env_ok utc_env_simps next_interval_def as_i64_small duration_seconds_def
        dt_add_def num_seconds_def i64_div_def i64_mul_small sec_ns_def)

section \<open>Intervals\<close>

text \<open>An interval trigger whose start has passed fires at the first point of its grid
  start, start + i, start + 2i, ... that lies strictly after the given instant, with no panic
  as long as the following grid point is representable.\<close>

theorem interval_next_grid_point:
  assumes "chrono_ok E" and "in_range E after" and "in_range E base" and "base \<le> after"
    and "secs \<noteq> 0" and "unat secs < 2 ^ 63"
    and "in_range E (after + int (unat secs) * sec_ns)"
  shows "\<exists>n u. evaluate_next_occurrence E r (Interval secs (Some base)) after = Ret (Some u)
           \<and> 1 \<le> n \<and> u = base + n * (int (unat secs) * sec_ns) \<and> after < u
           \<and> base + (n - 1) * (int (unat secs) * sec_ns) \<le> after"
proof -
  let ?I = "int (unat secs)"
  define c where "c = i64_div (num_seconds (after - base)) ?I + 1"
  note grid = next_interval_grid [OF assms(1-3,5,6,4), of "Some base", folded c_def]
  have "in_range E (base + c * ?I * sec_ns)"
    using grid(2,3) assms(2,7) by (auto simp: in_range_def)
  moreover have "c * ?I \<le> 9223372036854775"
  proof -
    have "c * ?I * sec_ns \<le> dt_max E - dt_min E"
      using \<open>in_range E (base + c * ?I * sec_ns)\<close> assms(3) by (auto simp: in_range_def)
    also have "\<dots> \<le> 9223372036854775 * sec_ns" using assms(1) by (simp add: chrono_ok_def)
    finally show ?thesis by simp
  qed
  ultimately have "evaluate_next_occurrence E r (Interval secs (Some base)) after
      = Ret (Some (base + c * ?I * sec_ns))"
    using grid(1) by simp
  moreover have "base + (c - 1) * (?I * sec_ns) \<le> after"
    using grid(3) by (simp add: algebra_simps)
  ultimately show ?thesis using grid(2,4)
    by (intro exI [of _ c] exI [of _ "base + c * (?I * sec_ns)"] conjI) (simp_all add: mult.assoc)
qed

lemma interval_next_grid_point_witness:
  "\<exists>n u. evaluate_next_occurrence utc_env (\<lambda>k n. 0) (Interval 60 (Some 5)) (1000 * sec_ns)
           = Ret (Some u)
         \<and> 1 \<le> n \<and> u = 5 + n * (int (unat (60 :: u64)) * sec_ns) \<and> 1000 * sec_ns < u
         \<and> 5 + (n - 1) * (int (unat (60 :: u64)) * sec_ns) \<le> 1000 * sec_ns"
  by (rule interval_next_grid_point) (simp_all add: utc_env_ok utc_env_simps sec_ns_def)

text \<open>An interval of \<open>2^64 - d\<close> seconds (with \<open>d\<close> up to 2^63 - 1 the cast \<open>as i64\<close> makes it
  negative) and no start is computed as \<open>d\<close> seconds BEFORE the given instant: the result is in the past,
  and the scheduler, which fires what is due, fires it again at once.\<close>

theorem interval_cast_fires_in_the_past:
  assumes "0 < d" and "d \<le> 9223372036854775" and "in_range E (after - d * sec_ns)"
  shows "evaluate_next_occurrence E r (Interval (word_of_int (2 ^ 64 - d)) None) after
           = Ret (Some (after - d * sec_ns))"
proof -
  let ?w = "word_of_int (2 ^ 64 - d) :: u64"
  have "?w = word_of_int (- d)"
    using word_of_int_2p_len [where 'a = 64] by (simp add: wi_hom_sub [symmetric] wi_hom_neg [symmetric])
  moreover have "signed_take_bit 63 (- d) = - d"
    by (rule signed_take_bit_int_eq_self) (use assms(1,2) in simp_all)
  ultimately have cast: "as_i64 ?w = - d" by (simp only: as_i64_def sint_sbintrunc') simp
  then have nz: "?w \<noteq> 0" using assms(1) by (auto simp: as_i64_def)
  have "i64_mul 1 (- d) = - d" using assms(2) by (subst i64_mul_small) (use assms(1) in simp_all)
  with cast nz assms show ?thesis
    by (simp add: next_interval_def Let_def num_seconds_def i64_div_def duration_seconds_def dt_add_def
        del: word_of_int_2p_len)
qed

lemma interval_cast_fires_in_the_past_witness:
  "evaluate_next_occurrence utc_env (\<lambda>k n. 0) (Interval (word_of_int (2 ^ 64 - 1)) None) 0
     = Ret (Some (0 - 1 * sec_ns))"
  by (rule interval_cast_fires_in_the_past) (simp_all add: utc_env_simps sec_ns_def)

text \<open>An interval above 9223372036854775 seconds (chrono's largest number of seconds) that survives the cast
  makes the evaluation panic in \<open>Duration::seconds\<close>.\<close>

theorem interval_overflow_panics:
  assumes "9223372036854775 < unat secs" and "unat secs < 2 ^ 63" and "start = None \<or> start = Some after"
  shows "evaluate_next_occurrence E r (Interval secs start) after = Panic"
  using interval_panics [OF assms(1,2)] assms(3) by auto

lemma interval_overflow_panics_witness:
  "evaluate_next_occurrence utc_env (\<lambda>k n. 0) (Interval 9223372036854776 None) 0 = Panic"
  by (rule interval_overflow_panics) simp_all

section \<open>Daily and weekly triggers\<close>

text \<open>In a zone without offset changes a daily trigger fires at the first instant after the
  given one whose local time of day is the configured one.\<close>

theorem daily_first_matching_instant:
  assumes "zone E tzname = fixed_tz off" and "0 \<le> t" "t < day_ns"
    and "date_of (after + off) < date_max E"
  shows "\<exists>u. evaluate_next_occurrence E r (Daily t tzname) after = Ret (Some u)
           \<and> after < u \<and> time_of (u + off) = t
           \<and> (\<forall>v. after < v \<and> v < u \<longrightarrow> time_of (v + off) \<noteq> t)"
  using next_daily_fixed [OF assms(2-4)] assms(1) by simp

lemma daily_first_matching_instant_witness:
  "\<exists>u. evaluate_next_occurrence utc_env (\<lambda>k n. 0) (Daily (9 * 3600 * sec_ns) ''UTC'') (10 * 3600 * sec_ns) = Ret (Some u)
     \<and> 10 * 3600 * sec_ns < u \<and> time_of (u + 0) = 9 * 3600 * sec_ns
     \<and> (\<forall>v. 10 * 3600 * sec_ns < v \<and> v < u \<longrightarrow> time_of (v + 0) \<noteq> 9 * 3600 * sec_ns)"
  by (rule daily_first_matching_instant)
     (simp_all add: utc_env_simps unit_defs date_of_def)

text \<open>In a zone without offset changes a weekly trigger with at least one day fires at the
  first instant after the given one that has the configured time of day on a listed weekday.\<close>

theorem weekly_first_matching_instant:
  assumes "zone E tzname = fixed_tz off" and "0 \<le> t" "t < day_ns" and "days \<noteq> []"
    and "date_of (after + off) + 7 \<le> date_max E"
  shows "\<exists>u. evaluate_next_occurrence E r (Weekly days t tzname) after = Ret (Some u)
           \<and> after < u \<and> weekday_of (date_of (u + off)) \<in> set days \<and> time_of (u + off) = t
           \<and> (\<forall>v. after < v \<and> v < u \<longrightarrow>
                \<not> (weekday_of (date_of (v + off)) \<in> set days \<and> time_of (v + off) = t))"
  using next_weekly_fixed [OF assms(2,3,5,4)] assms(1) by simp

lemma weekly_first_matching_instant_witness:
  "\<exists>u. evaluate_next_occurrence utc_env (\<lambda>k n. 0) (Weekly [Mon, Thu] 0 ''UTC'') 0 = Ret (Some u)
     \<and> 0 < u \<and> weekday_of (date_of (u + 0)) \<in> set [Mon, Thu] \<and> time_of (u + 0) = 0
     \<and> (\<forall>v. 0 < v \<and> v < u \<longrightarrow>
          \<not> (weekday_of (date_of (v + 0)) \<in> set [Mon, Thu] \<and> time_of (v + 0) = 0))"
  by (rule weekly_first_matching_instant) (simp_all add: utc_env_simps unit_defs date_of_def)

text \<open>C35. In any time zone, daylight saving included, a daily trigger fires when the local
  clock shows the configured time of some day, or, when the clocks skip that time, one to eight
  quarter hours later: never at another local time.\<close>

theorem daily_local_time:
  assumes "tz_ok (zone E tzname)"
    and "evaluate_next_occurrence E r (Daily t tzname) after = Ret (Some u)"
  shows "\<exists>d k. date_of (tz_local (zone E tzname) after) \<le> d
           \<and> d < date_of (tz_local (zone E tzname) after) + 4
           \<and> tz_local (zone E tzname) u = and_time d t + k * (15 * min_ns)
           \<and> (k = 0 \<or> (1 \<le> k \<and> k \<le> 8 \<and> tz_from_local (zone E tzname) (and_time d t) = LocalNone))"
proof -
  let ?z = "zone E tzname"
  let ?d = "date_of (tz_local ?z after)"
  obtain i where i: "i < 4" "resolve_candidate ?z (?d + int i) t after = Some u"
    using assms(2) by (auto simp: next_daily_def dest!: day_loop_Some)
  from resolve_candidate_local [OF assms(1) i(2)] show ?thesis
  proof (elim disjE conjE exE)
    assume "tz_local ?z u = and_time (?d + int i) t"
    with i(1) show ?thesis by (intro exI [of _ "?d + int i"] exI [of _ 0]) simp
  next
    fix k assume "tz_from_local ?z (and_time (?d + int i) t) = LocalNone" "1 \<le> k" "k \<le> 8"
      "tz_local ?z u = and_time (?d + int i) t + k * (15 * min_ns)"
    with i(1) show ?thesis by (intro exI [of _ "?d + int i"] exI [of _ k]) simp
  qed
qed

lemma daily_local_time_witness:
  "\<exists>d k. date_of (tz_local (zone utc_env ''UTC'') 0) \<le> d
     \<and> d < date_of (tz_local (zone utc_env ''UTC'') 0) + 4
     \<and> tz_local (zone utc_env ''UTC'') (5 * sec_ns) = and_time d (5 * sec_ns) + k * (15 * min_ns)
     \<and> (k = 0 \<or> (1 \<le> k \<and> k \<le> 8
          \<and> tz_from_local (zone utc_env ''UTC'') (and_time d (5 * sec_ns)) = LocalNone))"
  by (rule daily_local_time [where r = "\<lambda>k n. 0"])
     (simp_all add: utc_env_simps fixed_tz_ok next_daily_def eval_nat_numeral date_of_def and_time_def unit_defs)

section \<open>Fuzzy triggers\<close>

text \<open>C34. In any time zone a fuzzy trigger fires on a day of its period whose window had not begun, within the next
  14 days, at a local time drawn from its window (start included, end excluded), or, when the clocks skip that
  local time, one to eight quarter hours after it; so where no local time of the window is ever skipped it
  fires inside its window.\<close>

theorem fuzzy_inside_window:
  assumes "tz_ok (zone E tzname)" and "rng_ok r" and "0 \<le> ws" and "we < day_ns"
    and "evaluate_next_occurrence E r (Fuzzy p ws we tzname) after = Ret (Some u)"
  shows "\<exists>d t k. ws \<le> t \<and> t < we \<and> matches_weekday p (weekday_of d)
     \<and> tz_local (zone E tzname) after < and_time d ws \<and> d < date_of (tz_local (zone E tzname) after) + 14
     \<and> tz_local (zone E tzname) u = and_time d t + k * (15 * min_ns)
     \<and> (k = 0 \<or> 1 \<le> k \<and> k \<le> 8 \<and> tz_from_local (zone E tzname) (and_time d t) = LocalNone)
     \<and> ((\<forall>d t. ws \<le> t \<and> t < we \<longrightarrow> tz_from_local (zone E tzname) (and_time d t) \<noteq> LocalNone) \<longrightarrow>
          date_of (tz_local (zone E tzname) u) = d \<and> time_of (tz_local (zone E tzname) u) = t)"
proof -
  let ?z = "zone E tzname"
  have "next_fuzzy E ?z r p ws we after = Some u" using assms(5) by simp
  from next_fuzzy_local [OF assms(1-4) this] obtain d t k where f: "ws \<le> t" "t < we" "matches_weekday p (weekday_of d)"
    "tz_local ?z after < and_time d ws" "d < date_of (tz_local ?z after) + 14"
    "tz_local ?z u = and_time d t + k * (15 * min_ns)"
    "k = 0 \<or> 1 \<le> k \<and> k \<le> 8 \<and> tz_from_local ?z (and_time d t) = LocalNone" .
  have "date_of (tz_local ?z u) = d \<and> time_of (tz_local ?z u) = t"
    if "\<forall>d t. ws \<le> t \<and> t < we \<longrightarrow> tz_from_local ?z (and_time d t) \<noteq> LocalNone"
    using that f(1,2,6,7) assms(3,4) by auto
  with f show ?thesis by blast
qed

lemma fuzzy_inside_window_witness:
  "\<exists>d t. 9 * 3600 * sec_ns \<le> t \<and> t < 10 * 3600 * sec_ns \<and> matches_weekday FuzzyDaily (weekday_of d)
     \<and> 9 * 3600 * sec_ns = and_time d t"
proof -
  have e: "evaluate_next_occurrence utc_env (\<lambda>k n. 0) (Fuzzy FuzzyDaily (9 * 3600 * sec_ns) (10 * 3600 * sec_ns) ''UTC'') 0
      = Ret (Some (9 * 3600 * sec_ns))"
    by (simp add: utc_env_simps next_fuzzy_def eval_nat_numeral fuzzy_body_def pick_random_time_in_window_def
        date_of_def time_of_def and_time_def unit_defs)
  have z: "tz_ok (zone utc_env ''UTC'')" "(0 :: int) \<le> 9 * 3600 * sec_ns" "10 * 3600 * sec_ns < day_ns"
    by (simp_all add: utc_env_simps fixed_tz_ok unit_defs)
  have local: "tz_local (zone utc_env ''UTC'') u = u" "tz_from_local (zone utc_env ''UTC'') l \<noteq> LocalNone" for u l
    by (simp_all add: utc_env_simps fixed_tz_def)
  from fuzzy_inside_window [OF z(1) rng_first_ok z(2,3) e] local show ?thesis
    by (metis add_0_right mult_zero_left)
qed

text \<open>A zone whose clocks go from 2 to 3 o'clock: a window inside the skipped hour fires after its end.\<close>

definition spring_tz :: tz where
  "spring_tz =
     \<lparr>tz_local = (\<lambda>u. if u < 7200 * sec_ns then u else u + 3600 * sec_ns),
      tz_from_local = (\<lambda>n. if n < 7200 * sec_ns then LocalSingle n
        else if n < 10800 * sec_ns then LocalNone else LocalSingle (n - 3600 * sec_ns))\<rparr>"

lemma skipped_window_fires_after_its_end:
  "tz_ok spring_tz"
  "next_fuzzy utc_env spring_tz (\<lambda>k n. 0) FuzzyDaily (7800 * sec_ns) (9000 * sec_ns) 0 = Some (7800 * sec_ns)"
  "tz_local spring_tz (7800 * sec_ns) = 11400 * sec_ns"
proof -
  show "tz_ok spring_tz" by (auto simp: tz_ok_def spring_tz_def sec_ns_def split: if_splits)
  show "tz_local spring_tz (7800 * sec_ns) = 11400 * sec_ns" by (simp add: spring_tz_def sec_ns_def)
  show "next_fuzzy utc_env spring_tz (\<lambda>k n. 0) FuzzyDaily (7800 * sec_ns) (9000 * sec_ns) 0 = Some (7800 * sec_ns)"
    by (simp add: next_fuzzy_def eval_nat_numeral fuzzy_body_def pick_random_time_in_window_def date_of_def time_of_def
        and_time_def unit_defs resolve_candidate_def spring_tz_def)
qed

text \<open>A fuzzy trigger fires at most once per window: computed again at the instant it fired,
  it moves to a later day, for any random draws.\<close>

theorem fuzzy_once_per_window:
  assumes "zone E tzname = fixed_tz off" and "rng_ok r" and "rng_ok r'"
    and "0 \<le> ws" and "we < day_ns"
    and "evaluate_next_occurrence E r (Fuzzy p ws we tzname) after = Ret (Some u)"
    and "evaluate_next_occurrence E r' (Fuzzy p ws we tzname) u = Ret (Some v)"
  shows "date_of (u + off) < date_of (v + off)"
proof -
  have "next_fuzzy E (fixed_tz off) r p ws we after = Some u"
    "next_fuzzy E (fixed_tz off) r' p ws we u = Some v"
    using assms(1,6,7) by simp_all
  from next_fuzzy_window(1) [OF assms(2,4,5) this(1)] next_fuzzy_window(4) [OF assms(3-5) this(2)]
  show ?thesis by auto
qed

lemma fuzzy_once_per_window_witness:
  "date_of (9 * 3600 * sec_ns + 0) < date_of (33 * 3600 * sec_ns + 0)"
  by (rule fuzzy_once_per_window [where E = utc_env and r = "\<lambda>k n. 0" and r' = "\<lambda>k n. 0"
        and tzname = "''UTC''" and ws = "9 * 3600 * sec_ns" and we = "10 * 3600 * sec_ns"
        and p = FuzzyDaily and after = 0])
     (simp_all add: utc_env_simps rng_first_ok next_fuzzy_def eval_nat_numeral fuzzy_body_def
        pick_random_time_in_window_def date_of_def time_of_def and_time_def unit_defs)

text \<open>A fuzzy trigger with a proper window and a period that contains some weekday always has
  a next occurrence: the 14 iterations of its loop are enough, so it never silently stops.\<close>

theorem fuzzy_never_stops:
  assumes "zone E tzname = fixed_tz off" and "rng_ok r" and "0 \<le> ws" and "ws < we"
    and "we < day_ns" and "p \<noteq> FuzzyWeekly []" and "date_of (after + off) + 7 \<le> date_max E"
  shows "\<exists>u. evaluate_next_occurrence E r (Fuzzy p ws we tzname) after = Ret (Some u)"
proof -
  have "\<exists>w. matches_weekday p w"
  proof (cases p)
    case (FuzzyWeekly days)
    with assms(6) show ?thesis by (auto simp: neq_Nil_conv)
  qed (auto intro: exI [of _ Mon] exI [of _ Sat])
  then show ?thesis using next_fuzzy_live [OF assms(2-5) _ assms(7)] assms(1) by auto
qed

lemma fuzzy_never_stops_witness:
  "\<exists>u. evaluate_next_occurrence utc_env (\<lambda>k n. 0)
          (Fuzzy (FuzzyWeekly [Wed]) 5 (day_ns - 1) ''UTC'') 0 = Ret (Some u)"
  by (rule fuzzy_never_stops [where off = 0]) (simp_all add: utc_env_simps rng_first_ok unit_defs date_of_def)

section \<open>Cron triggers\<close>

text \<open>C36. croner is asked exactly for the expressions of the reference grammar, which is spelled out
  character by character and name by name: five fields, the first three made of digits and the
  symbols \<open>*?,-/\<close>, the fourth also of the names of months, the fifth also of those of weekdays, in any
  case; every other text (the Quartz extensions L, W and # included) is rejected before that.\<close>

theorem cron_white_list:
  "parse_standard_cron E expr =
     (if \<exists>minute hour dom month dow.
           split_whitespace expr = [minute, hour, dom, month, dow]
           \<and> list_all plain_symbol minute \<and> list_all plain_symbol hour \<and> list_all plain_symbol dom
           \<and> cron_field True False month \<and> cron_field False True dow
      then env_cron E expr else None)"
  by (auto simp: parse_standard_cron_def Let_def is_standard_cron_field_iff
      plain_cron_field length5 split: if_splits)

text \<open>A clock change never makes a cron trigger lose its next occurrence: when croner
  answers with candidates up to two hours in the past (a repeated hour), at least a minute
  apart, the re-anchoring finds the first later one within its 240 rounds.\<close>

theorem cron_survives_repeated_hours:
  assumes "cron z after = Inr c" and "c \<in> C" and "after - 7200 * sec_ns \<le> c" and "after \<notin> C"
    and "\<And>a. a \<in> C \<Longrightarrow> a < after \<Longrightarrow> \<exists>c. cron z a = Inr c \<and> c \<in> C \<and> a + 60 * sec_ns \<le> c"
  shows "\<exists>u \<in> C. cron_next_occurrence E cron z after = Ret (Some u) \<and> after < u"
proof (cases "after < c")
  case True
  with assms(1,2) show ?thesis
    by (simp add: cron_next_occurrence_def CRON_DST_RETRY_LIMIT_def eval_nat_numeral)
next
  case False
  have less: "c < after" using False assms(2,4) by (metis linorder_neqE)
  have "\<exists>u \<in> C. cron_search 239 E cron z after c = Ret (Some u) \<and> after < u"
    by (rule cron_search_walks [where C = C]) (use assms False less in \<open>auto simp: sec_ns_def\<close>)
  with assms(1) False show ?thesis
    by (simp add: cron_next_occurrence_def CRON_DST_RETRY_LIMIT_def cron_search_240)
qed

lemma cron_survives_repeated_hours_witness:
  "\<exists>u \<in> {a. a mod (60 * sec_ns) = 0}.
     cron_next_occurrence utc_env
       (\<lambda>z a. Inr (if a = 9010 * sec_ns then 5460 * sec_ns else a + 60 * sec_ns)) utc_tz (9010 * sec_ns)
       = Ret (Some u) \<and> 9010 * sec_ns < u"
  by (rule cron_survives_repeated_hours [where c = "5460 * sec_ns"]) (auto simp: sec_ns_def)

end
