(* ===== verification/Queue.thy ===== *)
theory Queue
  imports Domain
begin

text \<open>
  The schedule queue of \<^verbatim>\<open>crates/scheduler/src/queue.rs\<close>: a binary heap of scheduled items with
  lazy invalidation by a generation number per task.  std's \<open>BinaryHeap\<close> is used through the
  contract stated as the locale \<open>max_heap\<close>; its model is the list of its items in the order
  \<open>iter\<close> visits them, whose greatest element \<open>pop\<close> takes out.
\<close>

section \<open>Items\<close>

datatype scheduled_item = ScheduledItem
  (item_task_id: task_id) (item_trigger_id: trigger_id) (next_fire_at: instant) (generation: u64)

text \<open>\<open>impl Ord for ScheduledItem\<close>: reversed on the time, so that the heap's maximum is the
  earliest item; ties by task, trigger and generation.\<close>

definition item_before :: "scheduled_item \<Rightarrow> scheduled_item \<Rightarrow> bool" where
  "item_before a b \<longleftrightarrow>
     next_fire_at b < next_fire_at a
     \<or> next_fire_at b = next_fire_at a
       \<and> (item_task_id a < item_task_id b
          \<or> item_task_id a = item_task_id b
            \<and> (item_trigger_id a < item_trigger_id b
               \<or> item_trigger_id a = item_trigger_id b \<and> generation a < generation b))"

instantiation scheduled_item :: linorder
begin

definition less_scheduled_item :: "scheduled_item \<Rightarrow> scheduled_item \<Rightarrow> bool" where
  "less_scheduled_item a b = item_before a b"

definition less_eq_scheduled_item :: "scheduled_item \<Rightarrow> scheduled_item \<Rightarrow> bool" where
  "less_eq_scheduled_item a b \<longleftrightarrow> a = b \<or> a < b"

instance
proof
  fix a b c :: scheduled_item
  show "a < b \<longleftrightarrow> a \<le> b \<and> \<not> b \<le> a"
    by (auto simp: item_before_def less_scheduled_item_def less_eq_scheduled_item_def)
  show "a \<le> a" by (simp add: less_eq_scheduled_item_def)
  show "a \<le> b \<Longrightarrow> b \<le> c \<Longrightarrow> a \<le> c"
    by (auto simp: item_before_def less_scheduled_item_def less_eq_scheduled_item_def)
  show "a \<le> b \<Longrightarrow> b \<le> a \<Longrightarrow> a = b"
    by (auto simp: item_before_def less_scheduled_item_def less_eq_scheduled_item_def)
  show "a \<le> b \<or> b \<le> a"
    by (cases a; cases b) (auto simp: item_before_def less_scheduled_item_def less_eq_scheduled_item_def)
qed

end

lemma earlier_is_greater: "a \<le> b \<Longrightarrow> next_fire_at b \<le> next_fire_at a"
  by (auto simp: item_before_def less_scheduled_item_def less_eq_scheduled_item_def)

section \<open>The heap\<close>

text \<open>What the queue relies on: \<open>pop\<close> removes and returns a greatest item, \<open>peek\<close> shows it.\<close>

locale max_heap =
  fixes items :: "'h \<Rightarrow> 'a::linorder multiset"
    and insert_item :: "'a \<Rightarrow> 'h \<Rightarrow> 'h"
    and take_max :: "'h \<Rightarrow> ('a \<times> 'h) option"
    and look_max :: "'h \<Rightarrow> 'a option"
  assumes items_insert: "items (insert_item x h) = add_mset x (items h)"
    and take_max_None: "take_max h = None \<Longrightarrow> items h = {#}"
    and take_max_Some: "take_max h = Some (x, h') \<Longrightarrow> items h = add_mset x (items h')"
    and take_max_greatest: "take_max h = Some (x, h') \<Longrightarrow> y \<in># items h \<Longrightarrow> y \<le> x"
    and look_max_eq: "look_max h = map_option fst (take_max h)"
begin

text \<open>A loop that takes items out until one satisfies \<open>V\<close>.\<close>

definition first_valid :: "('a \<Rightarrow> bool) \<Rightarrow> 'h \<Rightarrow> 'a option \<Rightarrow> 'h \<Rightarrow> bool" where
  "first_valid V h r h' \<longleftrightarrow>
     (case r of
        None \<Rightarrow> filter_mset V (items h) = {#} \<and> items h' = {#}
      | Some x \<Rightarrow> x \<in># filter_mset V (items h)
          \<and> (\<forall>y \<in># filter_mset V (items h). y \<le> x)
          \<and> filter_mset V (items h') = filter_mset V (items h) - {#x#})"

lemma loop_first_valid:
  assumes unfold: "\<And>h. L h = (case take_max h of
        None \<Rightarrow> (None, h)
      | Some (x, h') \<Rightarrow> if V x then (Some x, h') else L h')"
  shows "first_valid V h (fst (L h)) (snd (L h))"
proof (induction "size (items h)" arbitrary: h rule: less_induct)
  case less
  show ?case
  proof (cases "take_max h")
    case None
    then show ?thesis using take_max_None [of h] unfold [of h] by (simp add: first_valid_def)
  next
    case (Some p)
    obtain x h' where p: "p = (x, h')" by (cases p)
    have t: "take_max h = Some (x, h')" using Some p by simp
    note add = take_max_Some [OF t] and great = take_max_greatest [OF t]
    show ?thesis
    proof (cases "V x")
      case True
      with t add great show ?thesis by (subst (1 2) unfold) (auto simp: first_valid_def)
    next
      case False
      have "first_valid V h' (fst (L h')) (snd (L h'))"
        by (rule less) (simp add: add)
      moreover have "filter_mset V (items h) = filter_mset V (items h')" using add False by simp
      moreover have "L h = L h'" using unfold [of h] t False by simp
      ultimately show ?thesis by (simp add: first_valid_def split: option.splits)
    qed
  qed
qed

text \<open>The same loop by peeking keeps the item it finds.\<close>

lemma peek_loop_first_valid:
  assumes unfold: "\<And>h. L h = (case look_max h of
        None \<Rightarrow> (None, h)
      | Some x \<Rightarrow> if V x then (look_max h, h)
          else (case take_max h of None \<Rightarrow> (None, h) | Some (_, h') \<Rightarrow> L h'))"
    and unfold': "\<And>h. L' h = (case take_max h of
        None \<Rightarrow> (None, h)
      | Some (x, h') \<Rightarrow> if V x then (Some x, h') else L' h')"
  shows "fst (L h) = fst (L' h)"
    and "filter_mset V (items (snd (L h))) = filter_mset V (items h)"
    and "\<And>x. fst (L h) = Some x \<Longrightarrow> look_max (snd (L h)) = Some x"
    and "fst (L h) = None \<Longrightarrow> items (snd (L h)) = {#}"
    and "items (snd (L h)) \<subseteq># items h"
proof -
  have "fst (L h) = fst (L' h)
      \<and> filter_mset V (items (snd (L h))) = filter_mset V (items h)
      \<and> (\<forall>x. fst (L h) = Some x \<longrightarrow> look_max (snd (L h)) = Some x)
      \<and> (fst (L h) = None \<longrightarrow> items (snd (L h)) = {#})
      \<and> items (snd (L h)) \<subseteq># items h"
  proof (induction "size (items h)" arbitrary: h rule: less_induct)
    case less
    show ?case
    proof (cases "take_max h")
      case None
      then show ?thesis
        using take_max_None [of h] unfold [of h] unfold' [of h] by (simp add: look_max_eq)
    next
      case (Some p)
      obtain x h' where p: "p = (x, h')" by (cases p)
      have t: "take_max h = Some (x, h')" using Some p by simp
      note add = take_max_Some [OF t]
      show ?thesis
      proof (cases "V x")
        case True
        with t add show ?thesis using unfold [of h] unfold' [of h] by (simp add: look_max_eq)
      next
        case False
        note IH = less [of h']
        have "L h = L h'" "L' h = L' h'" using unfold [of h] unfold' [of h] t False
          by (simp_all add: look_max_eq)
        moreover have "filter_mset V (items h) = filter_mset V (items h')" using add False by simp
        ultimately show ?thesis using IH add by (auto intro: subset_mset.trans)
      qed
    qed
  qed
  then show "fst (L h) = fst (L' h)"
    and "filter_mset V (items (snd (L h))) = filter_mset V (items h)"
    and "\<And>x. fst (L h) = Some x \<Longrightarrow> look_max (snd (L h)) = Some x"
    and "fst (L h) = None \<Longrightarrow> items (snd (L h)) = {#}"
    and "items (snd (L h)) \<subseteq># items h"
    by blast+
qed

end

text \<open>The model of \<open>BinaryHeap<ScheduledItem>\<close>.\<close>

definition heap_push :: "'a \<Rightarrow> 'a list \<Rightarrow> 'a list" where
  "heap_push x h = h @ [x]"

fun heap_peek :: "'a::linorder list \<Rightarrow> 'a option" where
  "heap_peek [] = None"
| "heap_peek (x # xs) = Some (fold max xs x)"

fun heap_pop :: "'a::linorder list \<Rightarrow> ('a \<times> 'a list) option" where
  "heap_pop [] = None"
| "heap_pop (x # xs) = (let m = fold max xs x in Some (m, remove1 m (x # xs)))"

lemma fold_max_Max: "fold max xs x = Max (set (x # xs))"
  by (rule Max.set_eq_fold [symmetric])

lemma heap_pop_cases: "heap_pop h = Some (x, h') \<Longrightarrow> x \<in> set h \<and> h' = remove1 x h \<and> (\<forall>y \<in> set h. y \<le> x)"
  using Max_in [of "set h"] Max_ge [of "set h"]
  by (cases h) (auto simp: Let_def fold_max_Max simp del: Max_insert Max_in Max_ge remove1.simps)

lemma heap_pop_shorter: "heap_pop h = Some (x, h') \<Longrightarrow> length h' < length h"
  using length_pos_if_in_set [of x h] by (auto simp: length_remove1 dest!: heap_pop_cases)

interpretation binary_heap: max_heap mset heap_push heap_pop heap_peek
proof
  show "mset (heap_push x h) = add_mset x (mset h)" for x :: 'a and h
    by (simp add: heap_push_def)
  show "heap_pop h = None \<Longrightarrow> mset h = {#}" for h :: "'a list"
    by (cases h) (simp_all add: Let_def)
  show "heap_pop h = Some (x, h') \<Longrightarrow> mset h = add_mset x (mset h')" for h h' and x :: 'a
    by (drule heap_pop_cases) simp
  show "heap_pop h = Some (x, h') \<Longrightarrow> y \<in># mset h \<Longrightarrow> y \<le> x" for h h' and x y :: 'a
    by (drule heap_pop_cases) simp
  show "heap_peek h = map_option fst (heap_pop h)" for h :: "'a list"
    by (cases h) (simp_all add: Let_def)
qed

section \<open>The queue\<close>

record schedule_queue =
  heap :: "scheduled_item list"
  generations :: "task_id \<rightharpoonup> u64"

definition empty_queue :: schedule_queue where
  "empty_queue = \<lparr>heap = [], generations = Map.empty\<rparr>"

definition current_generation :: "schedule_queue \<Rightarrow> task_id \<Rightarrow> u64" where
  "current_generation q t = get_or (generations q) t 1"

definition is_valid :: "schedule_queue \<Rightarrow> scheduled_item \<Rightarrow> bool" where
  "is_valid q item \<longleftrightarrow> get_or (generations q) (item_task_id item) 1 = generation item"

definition queue_push :: "scheduled_item \<Rightarrow> schedule_queue \<Rightarrow> schedule_queue" where
  "queue_push item q =
     (let gens = or_insert (generations q) (item_task_id item) 1;
          current_gen = the (gens (item_task_id item));
          q' = q\<lparr>generations := gens\<rparr>
      in if generation item = current_gen then q'\<lparr>heap := heap_push item (heap q)\<rparr> else q')"

text \<open>The loops of \<open>pop\<close> and \<open>peek_valid\<close>, on the heap alone: both leave the generations as they are.\<close>

function pop_loop :: "(scheduled_item \<Rightarrow> bool) \<Rightarrow> scheduled_item list
    \<Rightarrow> scheduled_item option \<times> scheduled_item list" where
  "pop_loop valid h =
     (case heap_pop h of
        None \<Rightarrow> (None, h)
      | Some (item, h') \<Rightarrow> if valid item then (Some item, h') else pop_loop valid h')"
  by pat_completeness auto
termination
  by (relation "measure (\<lambda>(v, h). length h)") (auto dest!: heap_pop_shorter)

function peek_loop :: "(scheduled_item \<Rightarrow> bool) \<Rightarrow> scheduled_item list
    \<Rightarrow> scheduled_item option \<times> scheduled_item list" where
  "peek_loop valid h =
     (case heap_peek h of
        None \<Rightarrow> (None, h)
      | Some item \<Rightarrow>
          if valid item then (heap_peek h, h)
          else (case heap_pop h of None \<Rightarrow> (None, h) | Some (_, h') \<Rightarrow> peek_loop valid h'))"
  by pat_completeness auto
termination
  by (relation "measure (\<lambda>(v, h). length h)") (auto dest!: heap_pop_shorter)

declare pop_loop.simps [simp del] peek_loop.simps [simp del]

definition queue_pop :: "schedule_queue \<Rightarrow> scheduled_item option \<times> schedule_queue" where
  "queue_pop q = (let (r, h) = pop_loop (is_valid q) (heap q) in (r, q\<lparr>heap := h\<rparr>))"

definition queue_peek :: "schedule_queue \<Rightarrow> scheduled_item option" where
  "queue_peek q = heap_peek (heap q)"

definition peek_valid :: "schedule_queue \<Rightarrow> scheduled_item option \<times> schedule_queue" where
  "peek_valid q = (let (r, h) = peek_loop (is_valid q) (heap q) in (r, q\<lparr>heap := h\<rparr>))"

definition bump_generation :: "task_id \<Rightarrow> schedule_queue \<Rightarrow> u64 \<times> schedule_queue" where
  "bump_generation t q =
     (let gens = or_insert (generations q) t 1;
          gen = the (gens t) + 1
      in (gen, q\<lparr>generations := gens(t \<mapsto> gen)\<rparr>))"

definition queue_clear :: "schedule_queue \<Rightarrow> schedule_queue" where
  "queue_clear q = q\<lparr>heap := []\<rparr>"

definition queue_len :: "schedule_queue \<Rightarrow> nat" where
  "queue_len q = length (heap q)"

definition queue_is_empty :: "schedule_queue \<Rightarrow> bool" where
  "queue_is_empty q \<longleftrightarrow> heap q = []"

type_synonym timetable = "(task_id \<times> trigger_id) \<rightharpoonup> instant"

fun note_fire :: "(scheduled_item \<Rightarrow> bool) \<Rightarrow> timetable \<Rightarrow> scheduled_item list \<Rightarrow> timetable" where
  "note_fire valid result [] = result"
| "note_fire valid result (item # rest) =
     (if \<not> valid item then note_fire valid result rest
      else
        let key = (item_task_id item, item_trigger_id item)
        in case result key of
             Some existing \<Rightarrow>
               note_fire valid
                 (if next_fire_at item < existing then result(key \<mapsto> next_fire_at item) else result) rest
           | None \<Rightarrow> note_fire valid (result(key \<mapsto> next_fire_at item)) rest)"

definition next_fire_by_trigger :: "schedule_queue \<Rightarrow> timetable" where
  "next_fire_by_trigger q = note_fire (is_valid q) Map.empty (heap q)"

fun split_task ::
  "task_id \<Rightarrow> scheduled_item list \<Rightarrow> scheduled_item list \<Rightarrow> scheduled_item list
   \<Rightarrow> scheduled_item list \<times> scheduled_item list" where
  "split_task t taken kept [] = (taken, kept)"
| "split_task t taken kept (item # rest) =
     (if item_task_id item = t then split_task t (taken @ [item]) kept rest
      else split_task t taken (heap_push item kept) rest)"

definition take_task_items :: "task_id \<Rightarrow> schedule_queue \<Rightarrow> scheduled_item list \<times> schedule_queue" where
  "take_task_items t q = (let (taken, kept) = split_task t [] [] (heap q) in (taken, q\<lparr>heap := kept\<rparr>))"

end
