(* ===== verification/Queue_Facts.thy ===== *)
theory Queue_Facts
  imports Queue
begin

text \<open>
  What the queue's operations do to its valid items, the ones whose generation is current: the
  abstraction in which the scheduler is reasoned about.
\<close>

definition valid_items :: "schedule_queue \<Rightarrow> scheduled_item multiset" where
  "valid_items q = filter_mset (is_valid q) (mset (heap q))"

text \<open>No item is ahead of its task's generation; a stale item stays stale.\<close>

definition gens_ok :: "schedule_queue \<Rightarrow> bool" where
  "gens_ok q \<longleftrightarrow> (\<forall>item \<in> set (heap q).
     unat (generation item) \<le> unat (current_generation q (item_task_id item)))"

named_theorems queue_simps "effect of the queue operations on the valid items"

lemma is_valid_iff: "is_valid q item \<longleftrightarrow> generation item = current_generation q (item_task_id item)"
  by (auto simp: is_valid_def current_generation_def)

lemma valid_items_iff:
  "item \<in># valid_items q \<longleftrightarrow>
     item \<in> set (heap q) \<and> generation item = current_generation q (item_task_id item)"
  by (simp add: valid_items_def is_valid_iff)

section \<open>push\<close>

lemma queue_push_eq:
  "heap (queue_push item q) = (if is_valid q item then heap_push item (heap q) else heap q)"
  by (simp add: queue_push_def Let_def is_valid_def)

lemma queue_push_generation [queue_simps, simp]:
  "current_generation (queue_push item q) t = current_generation q t"
  by (simp add: queue_push_def Let_def current_generation_def)

lemma queue_push_is_valid [queue_simps, simp]:
  "is_valid (queue_push item q) = is_valid q"
  by (rule ext) (simp add: is_valid_iff)

lemma queue_push_valid_items [queue_simps]:
  "valid_items (queue_push item q) =
     (if is_valid q item then add_mset item (valid_items q) else valid_items q)"
  by (simp add: valid_items_def queue_push_eq heap_push_def)

lemma queue_push_gens_ok [intro]: "gens_ok q \<Longrightarrow> gens_ok (queue_push item q)"
  by (auto simp: gens_ok_def queue_push_eq heap_push_def is_valid_iff)

section \<open>pop and peek\<close>

lemma pop_loop_spec:
  "binary_heap.first_valid V h (fst (pop_loop V h)) (snd (pop_loop V h))"
  by (rule binary_heap.loop_first_valid) (rule pop_loop.simps)

lemma pop_loop_subset: "set (snd (pop_loop V h)) \<subseteq> set h"
proof (induction V h rule: pop_loop.induct)
  case (1 V h)
  show ?case
  proof (cases "heap_pop h")
    case None
    then show ?thesis by (subst pop_loop.simps) simp
  next
    case (Some p)
    obtain x h' where p: "p = (x, h')" by (cases p)
    with Some have "set h' \<subseteq> set h" by (auto dest!: heap_pop_cases dest: subsetD [OF set_remove1_subset])
    moreover have "pop_loop V h = (if V x then (Some x, h') else pop_loop V h')"
      by (subst pop_loop.simps) (simp add: Some p)
    moreover have "\<not> V x \<Longrightarrow> set (snd (pop_loop V h')) \<subseteq> set h'"
      using 1 Some p by blast
    ultimately show ?thesis by (cases "V x") auto
  qed
qed

lemma queue_pop_eq:
  "fst (queue_pop q) = fst (pop_loop (is_valid q) (heap q))"
  "heap (snd (queue_pop q)) = snd (pop_loop (is_valid q) (heap q))"
  "generations (snd (queue_pop q)) = generations q"
  by (simp_all add: queue_pop_def case_prod_beta)

lemma queue_pop_generation [queue_simps, simp]:
  "current_generation (snd (queue_pop q)) t = current_generation q t"
  by (simp add: queue_pop_eq current_generation_def)

lemma queue_pop_is_valid [simp]: "is_valid (snd (queue_pop q)) = is_valid q"
  by (rule ext) (simp add: is_valid_iff)

lemma queue_pop_valid_items:
  "valid_items (snd (queue_pop q)) = filter_mset (is_valid q) (mset (snd (pop_loop (is_valid q) (heap q))))"
  by (simp add: valid_items_def queue_pop_eq)

lemma queue_pop_None:
  "fst (queue_pop q) = None \<Longrightarrow> valid_items q = {#} \<and> heap (snd (queue_pop q)) = []"
  using pop_loop_spec [of "is_valid q" "heap q"]
  by (auto simp: queue_pop_eq valid_items_def binary_heap.first_valid_def)

lemma queue_pop_Some:
  assumes "fst (queue_pop q) = Some item"
  shows "item \<in># valid_items q" and "\<And>y. y \<in># valid_items q \<Longrightarrow> y \<le> item"
    and "valid_items (snd (queue_pop q)) = valid_items q - {#item#}"
proof -
  have "binary_heap.first_valid (is_valid q) (heap q) (Some item) (heap (snd (queue_pop q)))"
    using pop_loop_spec [of "is_valid q" "heap q"] assms by (simp add: queue_pop_eq)
  then show "item \<in># valid_items q" "\<And>y. y \<in># valid_items q \<Longrightarrow> y \<le> item"
    "valid_items (snd (queue_pop q)) = valid_items q - {#item#}"
    by (auto simp: binary_heap.first_valid_def valid_items_def)
qed

lemma queue_pop_gens_ok [intro]: "gens_ok q \<Longrightarrow> gens_ok (snd (queue_pop q))"
  using pop_loop_subset [of "is_valid q" "heap q"]
  unfolding gens_ok_def by (auto simp: queue_pop_eq current_generation_def)

lemma peek_loop_spec:
  "fst (peek_loop V h) = fst (pop_loop V h)"
  "filter_mset V (mset (snd (peek_loop V h))) = filter_mset V (mset h)"
  "fst (peek_loop V h) = Some x \<Longrightarrow> heap_peek (snd (peek_loop V h)) = Some x"
  "fst (peek_loop V h) = None \<Longrightarrow> mset (snd (peek_loop V h)) = {#}"
  "mset (snd (peek_loop V h)) \<subseteq># mset h"
  by (rule binary_heap.peek_loop_first_valid [where L = "peek_loop V" and L' = "pop_loop V"],
      rule peek_loop.simps, rule pop_loop.simps, assumption?)+

lemma peek_valid_eq:
  "fst (peek_valid q) = fst (peek_loop (is_valid q) (heap q))"
  "heap (snd (peek_valid q)) = snd (peek_loop (is_valid q) (heap q))"
  "generations (snd (peek_valid q)) = generations q"
  by (simp_all add: peek_valid_def case_prod_beta)

lemma peek_valid_generation [queue_simps, simp]:
  "current_generation (snd (peek_valid q)) t = current_generation q t"
  by (simp add: peek_valid_eq current_generation_def)

lemma peek_valid_is_valid [simp]: "is_valid (snd (peek_valid q)) = is_valid q"
  by (rule ext) (simp add: is_valid_iff)

lemma peek_valid_items [queue_simps, simp]: "valid_items (snd (peek_valid q)) = valid_items q"
  by (simp add: valid_items_def peek_valid_eq(2) peek_loop_spec(2))

lemma peek_valid_pop: "fst (peek_valid q) = fst (queue_pop q)"
  by (simp add: peek_valid_eq queue_pop_eq peek_loop_spec(1))

lemma peek_valid_gens_ok [intro]: "gens_ok q \<Longrightarrow> gens_ok (snd (peek_valid q))"
  using set_mset_mono [OF peek_loop_spec(5) [of "is_valid q" "heap q"]]
  unfolding gens_ok_def by (auto simp: peek_valid_eq current_generation_def)

section \<open>Generations\<close>

lemma bump_generation_eq:
  "fst (bump_generation t q) = current_generation q t + 1"
  "current_generation (snd (bump_generation t q)) t' =
     (if t' = t then current_generation q t + 1 else current_generation q t')"
  "heap (snd (bump_generation t q)) = heap q"
  by (simp_all add: bump_generation_def Let_def current_generation_def)

lemma unat_Suc_le: "unat (w :: u64) + 1 < 2 ^ 64 \<Longrightarrow> unat (w + 1) = unat w + 1"
  by (simp add: unat_word_ariths)

lemma bump_valid_items:
  assumes "gens_ok q" and "unat (current_generation q t) + 1 < 2 ^ 64"
  shows "valid_items (snd (bump_generation t q)) = filter_mset (\<lambda>i. item_task_id i \<noteq> t) (valid_items q)"
proof -
  have "generation i \<noteq> current_generation q t + 1" if "i \<in> set (heap q)" "item_task_id i = t" for i
    using assms that unat_Suc_le [OF assms(2)] by (fastforce simp: gens_ok_def)
  then show ?thesis
    unfolding valid_items_def filter_filter_mset
    by (intro filter_mset_cong) (auto simp: is_valid_iff bump_generation_eq)
qed

lemma bump_gens_ok:
  assumes "gens_ok q" and "unat (current_generation q t) + 1 < 2 ^ 64"
  shows "gens_ok (snd (bump_generation t q))"
  using assms(1) unat_Suc_le [OF assms(2)]
  by (fastforce simp: gens_ok_def bump_generation_eq)

lemma queue_clear_items [queue_simps, simp]:
  "valid_items (queue_clear q) = {#}" "gens_ok (queue_clear q)"
  "current_generation (queue_clear q) t = current_generation q t"
  by (simp_all add: valid_items_def queue_clear_def gens_ok_def current_generation_def)

section \<open>The timetable\<close>

text \<open>The times of the valid items of one trigger, and the earliest of them.\<close>

definition fire_times :: "(scheduled_item \<Rightarrow> bool) \<Rightarrow> scheduled_item multiset \<Rightarrow> task_id \<times> trigger_id \<Rightarrow> instant multiset" where
  "fire_times V M k =
     image_mset next_fire_at (filter_mset (\<lambda>i. V i \<and> (item_task_id i, item_trigger_id i) = k) M)"

definition earliest :: "instant multiset \<Rightarrow> instant option" where
  "earliest M = (if M = {#} then None else Some (Min_mset M))"

lemma earliest_simps [simp]: "earliest {#} = None" "earliest {#x#} = Some x"
  by (simp_all add: earliest_def)

lemma earliest_merge:
  "earliest (add_mset (if a < x then a else x) M) = earliest (add_mset x (add_mset a M))"
  by (cases "M = {#}") (auto simp: earliest_def min_def)

lemma earliest_merge_map:
  "earliest (add_mset (if a < x then a else x) M) = earliest (add_mset a (add_mset x M))"
  by (simp add: earliest_merge add_mset_commute [of a x])

lemma note_fire_spec:
  "note_fire V r items k =
     earliest ((case r k of None \<Rightarrow> {#} | Some x \<Rightarrow> {#x#}) + fire_times V (mset items) k)"
proof (induction items arbitrary: r)
  case Nil
  then show ?case by (simp add: fire_times_def split: option.splits)
next
  case (Cons a items)
  let ?k = "(item_task_id a, item_trigger_id a)"
  show ?case
  proof (cases "V a \<and> ?k = k")
    case False
    then have "fire_times V (mset (a # items)) k = fire_times V (mset items) k"
      by (auto simp: fire_times_def)
    with False show ?thesis by (auto simp: Cons Let_def split: option.splits)
  next
    case True
    then have f: "fire_times V (mset (a # items)) k = add_mset (next_fire_at a) (fire_times V (mset items) k)"
      by (simp add: fire_times_def)
    show ?thesis
    proof (cases "r k")
      case None
      with True f show ?thesis by (simp add: Cons Let_def)
    next
      case (Some x)
      with True f show ?thesis
        using earliest_merge_map [of "next_fire_at a" x "fire_times V (mset items) k"]
        by (cases "next_fire_at a < x") (simp_all add: Cons add_mset_commute [of x "next_fire_at a"])
    qed
  qed
qed

text \<open>The table depends on the valid items only, not on the heap's internal order.\<close>

lemma next_fire_by_trigger_eq:
  "next_fire_by_trigger q k = earliest (fire_times (\<lambda>_. True) (valid_items q) k)"
  unfolding next_fire_by_trigger_def note_fire_spec
  by (simp add: fire_times_def valid_items_def filter_filter_mset conj_commute)

section \<open>Taking a task's items out\<close>

lemma split_task_spec:
  "split_task t taken kept items =
     (taken @ filter (\<lambda>i. item_task_id i = t) items, kept @ filter (\<lambda>i. item_task_id i \<noteq> t) items)"
  by (induction t taken kept items rule: split_task.induct) (auto simp: heap_push_def)

lemma take_task_items_eq:
  "fst (take_task_items t q) = filter (\<lambda>i. item_task_id i = t) (heap q)"
  "heap (snd (take_task_items t q)) = filter (\<lambda>i. item_task_id i \<noteq> t) (heap q)"
  "current_generation (snd (take_task_items t q)) t' = current_generation q t'"
  by (simp_all add: take_task_items_def split_task_spec current_generation_def)

lemma take_task_valid_items [queue_simps]:
  "valid_items (snd (take_task_items t q)) = filter_mset (\<lambda>i. item_task_id i \<noteq> t) (valid_items q)"
  by (simp add: valid_items_def is_valid_iff take_task_items_eq filter_filter_mset conj_commute
      cong: filter_mset_cong)

lemma take_task_gens_ok [intro]: "gens_ok q \<Longrightarrow> gens_ok (snd (take_task_items t q))"
  by (auto simp: gens_ok_def take_task_items_eq)

end
