(* ===== verification/Scheduler.thy ===== *)
theory Scheduler
  imports Evaluator_Facts Queue_Facts "HOL-Library.AList"
begin

text \<open>
  The scheduler of \<^verbatim>\<open>crates/scheduler/src/scheduler.rs\<close>: one turn of the \<open>select!\<close> loop of
  \<open>Scheduler::run\<close> per received command, elapsed timer or clock-check tick.  A turn is a function
  of the state and of its \<open>readings\<close>: those of the wall clock and the random draws of its
  evaluations, by number.  \<open>registered_tasks\<close> is an association list in the order in which
  \<open>HashMap::values\<close> visits it.
\<close>

section \<open>State, commands and events\<close>

datatype sched_command =
    AddTask task
  | RemoveTask task_id
  | TriggerNow task_id
  | RerollTrigger task_id trigger_id
  | ShutdownCommand

record trigger_event =
  ev_task_id :: task_id
  ev_trigger_id :: "trigger_id option"
  ev_scheduled_at :: instant

type_synonym reroll_reply = "string + instant option"

record sched =
  queue :: schedule_queue
  registered_tasks :: "(task_id \<times> task) list"
  last_wall :: instant
  last_instant :: duration
  events :: "trigger_event list"
  replies :: "(task_id \<times> trigger_id \<times> reroll_reply) list"
  stopped :: bool

record readings =
  clock :: "nat \<Rightarrow> instant"
  mono :: "nat \<Rightarrow> duration"
  draws :: "nat \<Rightarrow> rng"

type_synonym evaluation = "nat \<Rightarrow> trigger_kind \<Rightarrow> instant \<Rightarrow> instant option outcome"

definition evaluations :: "chrono_env \<Rightarrow> readings \<Rightarrow> evaluation" where
  "evaluations E orc i kind now = evaluate_next_occurrence E (draws orc i) kind now"

definition initial_sched :: "readings \<Rightarrow> sched" where
  "initial_sched orc =
     \<lparr>queue = empty_queue, registered_tasks = [], last_wall = clock orc 0,
      last_instant = mono orc 0, events = [], replies = [], stopped = False\<rparr>"

section \<open>Queueing the triggers of a task\<close>

text \<open>
  The loop over a task's triggers that \<open>AddTask\<close> and the rebuild share; \<open>now i\<close> is the instant
  used for the trigger at position \<open>i\<close>.
\<close>

fun push_triggers ::
  "evaluation \<Rightarrow> (nat \<Rightarrow> instant) \<Rightarrow> task_id \<Rightarrow> u64 \<Rightarrow> nat \<Rightarrow> trigger list \<Rightarrow> schedule_queue
   \<Rightarrow> schedule_queue outcome" where
  "push_triggers ev now t gen i [] q = Ret q"
| "push_triggers ev now t gen i (tr # trs) q =
     (if trigger_enabled tr then
        obind (ev i (trigger_kind tr) (now i)) (\<lambda>next.
          push_triggers ev now t gen (Suc i) trs
            (case next of
               Some n \<Rightarrow> queue_push (ScheduledItem t (trigger_id tr) n gen) q
             | None \<Rightarrow> q))
      else push_triggers ev now t gen (Suc i) trs q)"

section \<open>Commands\<close>

definition handle_add_task :: "chrono_env \<Rightarrow> readings \<Rightarrow> task \<Rightarrow> sched \<Rightarrow> sched outcome" where
  "handle_add_task E orc task s =
     (let (gen, q) = bump_generation (task_id task) (queue s)
      in obind (if task_enabled task
                then push_triggers (evaluations E orc) (clock orc) (task_id task) gen 0 (triggers task) q
                else Ret q) (\<lambda>q.
         Ret (s\<lparr>queue := q,
                registered_tasks := AList.update (task_id task) task (registered_tasks s)\<rparr>)))"

definition handle_remove_task :: "task_id \<Rightarrow> sched \<Rightarrow> sched" where
  "handle_remove_task t s =
     s\<lparr>registered_tasks := AList.delete t (registered_tasks s),
       queue := snd (bump_generation t (queue s))\<rparr>"

definition handle_trigger_now :: "readings \<Rightarrow> task_id \<Rightarrow> sched \<Rightarrow> sched" where
  "handle_trigger_now orc t s =
     s\<lparr>events := events s @
         [\<lparr>ev_task_id = t, ev_trigger_id = None, ev_scheduled_at = clock orc 0\<rparr>]\<rparr>"

text \<open>The loop of \<open>reroll_trigger\<close> over the task's valid items.\<close>

fun reroll_items ::
  "evaluation \<Rightarrow> (nat \<Rightarrow> instant) \<Rightarrow> trigger_kind \<Rightarrow> trigger_id \<Rightarrow> u64 \<Rightarrow> nat \<Rightarrow> scheduled_item list
   \<Rightarrow> bool \<Rightarrow> instant option \<Rightarrow> schedule_queue
   \<Rightarrow> (bool \<times> instant option \<times> schedule_queue) outcome" where
  "reroll_items ev now kind tr gen i [] rerolled new_next q = Ret (rerolled, new_next, q)"
| "reroll_items ev now kind tr gen i (item # items) rerolled new_next q =
     (if item_trigger_id item = tr then
        obind (ev i kind (now i)) (\<lambda>next.
          case next of
            Some n \<Rightarrow>
              reroll_items ev now kind tr gen (Suc i) items True (Some n)
                (queue_push (ScheduledItem (item_task_id item) (item_trigger_id item) n gen) q)
          | None \<Rightarrow> reroll_items ev now kind tr gen (Suc i) items True new_next q)
      else
        reroll_items ev now kind tr gen (Suc i) items rerolled new_next
          (queue_push (ScheduledItem (item_task_id item) (item_trigger_id item)
             (next_fire_at item) gen) q))"

definition reroll_queue ::
  "evaluation \<Rightarrow> (nat \<Rightarrow> instant) \<Rightarrow> trigger_kind \<Rightarrow> task_id \<Rightarrow> trigger_id \<Rightarrow> schedule_queue
   \<Rightarrow> (instant option \<times> schedule_queue) outcome" where
  "reroll_queue ev now kind t tr q =
     (let old_generation = current_generation q t;
          (taken, q1) = take_task_items t q;
          valid = filter (\<lambda>item. generation item = old_generation) taken;
          (new_generation, q2) = bump_generation t q1
      in obind (reroll_items ev now kind tr new_generation 0 valid False None q2)
           (\<lambda>(rerolled, new_next, q3).
              if rerolled then Ret (new_next, q3)
              else
                let n = length valid
                in obind (ev n kind (now n)) (\<lambda>next.
                     case next of
                       Some at \<Rightarrow>
                         Ret (Some at, queue_push (ScheduledItem t tr at new_generation) q3)
                     | None \<Rightarrow> Ret (new_next, q3))))"

definition reroll_trigger ::
  "chrono_env \<Rightarrow> readings \<Rightarrow> task_id \<Rightarrow> trigger_id \<Rightarrow> sched \<Rightarrow> (reroll_reply \<times> schedule_queue) outcome"
  where
  "reroll_trigger E orc t tr s =
     (case map_of (registered_tasks s) t of
        None \<Rightarrow>
          Ret (Inl (''Task '' @ quoted (uuid_string (task_uuid t))
                    @ '' is not registered to the scheduler''), queue s)
      | Some task \<Rightarrow>
          if \<not> task_enabled task then
            Ret (Inl (''Task '' @ quoted (uuid_string (task_uuid t)) @ '' is disabled''), queue s)
          else
            (case find (\<lambda>x. trigger_id x = tr) (triggers task) of
               None \<Rightarrow>
                 Ret (Inl (''Trigger '' @ quoted (uuid_string (trigger_uuid tr))
                           @ '' not found in task '' @ quoted (uuid_string (task_uuid t))), queue s)
             | Some trigger \<Rightarrow>
                 if \<not> trigger_enabled trigger then
                   Ret (Inl (''Trigger '' @ quoted (uuid_string (trigger_uuid tr)) @ '' is disabled''), queue s)
                 else
                   obind (reroll_queue (evaluations E orc) (clock orc) (trigger_kind trigger) t tr (queue s))
                     (\<lambda>(new_next, q). Ret (Inr new_next, q))))"

definition handle_reroll :: "chrono_env \<Rightarrow> readings \<Rightarrow> task_id \<Rightarrow> trigger_id \<Rightarrow> sched \<Rightarrow> sched outcome" where
  "handle_reroll E orc t tr s =
     obind (reroll_trigger E orc t tr s) (\<lambda>(result, q).
       Ret (s\<lparr>queue := q, replies := replies s @ [(t, tr, result)]\<rparr>))"

fun handle_command :: "chrono_env \<Rightarrow> readings \<Rightarrow> sched_command \<Rightarrow> sched \<Rightarrow> sched outcome" where
  "handle_command E orc (AddTask task) s = handle_add_task E orc task s"
| "handle_command E orc (RemoveTask t) s = Ret (handle_remove_task t s)"
| "handle_command E orc (TriggerNow t) s = Ret (handle_trigger_now orc t s)"
| "handle_command E orc (RerollTrigger t tr) s = handle_reroll E orc t tr s"
| "handle_command E orc ShutdownCommand s = Ret (s\<lparr>stopped := True\<rparr>)"

section \<open>The timer\<close>

text \<open>
  How long the loop sleeps before the timer branch may run: nothing when the deadline has
  passed, an hour when the queue is empty (the branch is then disabled).
\<close>

definition sleep_duration :: "scheduled_item option \<Rightarrow> instant \<Rightarrow> duration" where
  "sleep_duration next_deadline now =
     (case next_deadline of
        Some item \<Rightarrow> if next_fire_at item \<le> now then 0 else next_fire_at item - now
      | None \<Rightarrow> 3600 * sec_ns)"

text \<open>The popped item's trigger is evaluated again and queued before its event is sent.\<close>

definition requeue ::
  "chrono_env \<Rightarrow> readings \<Rightarrow> (task_id \<times> task) list \<Rightarrow> scheduled_item \<Rightarrow> schedule_queue
   \<Rightarrow> schedule_queue outcome" where
  "requeue E orc registered item q =
     (case map_of registered (item_task_id item) of
        None \<Rightarrow> Ret q
      | Some task \<Rightarrow>
          let current_gen = current_generation q (task_id task)
          in if task_enabled task \<and> generation item = current_gen then
               (case find (\<lambda>t. trigger_id t = item_trigger_id item) (triggers task) of
                  None \<Rightarrow> Ret q
                | Some trigger \<Rightarrow>
                    if trigger_enabled trigger then
                      obind (evaluations E orc 0 (trigger_kind trigger) (clock orc 0)) (\<lambda>next.
                        case next of
                          Some next_fire \<Rightarrow>
                            Ret (queue_push (ScheduledItem (task_id task) (trigger_id trigger)
                                   next_fire current_gen) q)
                        | None \<Rightarrow> Ret q)
                    else Ret q)
             else Ret q)"

definition handle_timer :: "chrono_env \<Rightarrow> readings \<Rightarrow> sched \<Rightarrow> sched outcome" where
  "handle_timer E orc s =
     (case queue_pop (queue s) of
        (None, q) \<Rightarrow> Ret (s\<lparr>queue := q\<rparr>)
      | (Some item, q) \<Rightarrow>
          obind (requeue E orc (registered_tasks s) item q) (\<lambda>q.
            Ret (s\<lparr>queue := q,
                   events := events s @
                     [\<lparr>ev_task_id = item_task_id item, ev_trigger_id = Some (item_trigger_id item),
                       ev_scheduled_at = next_fire_at item\<rparr>]\<rparr>)))"

section \<open>The clock check\<close>

text \<open>Every enabled trigger is evaluated afresh at one instant; the \<open>i\<close> counts the triggers.\<close>

fun rebuild ::
  "evaluation \<Rightarrow> instant \<Rightarrow> nat \<Rightarrow> (task_id \<times> task) list \<Rightarrow> schedule_queue \<Rightarrow> schedule_queue outcome"
  where
  "rebuild ev now i [] q = Ret q"
| "rebuild ev now i ((t, task) # rest) q =
     (if task_enabled task then
        obind (push_triggers ev (\<lambda>_. now) (task_id task) (current_generation q (task_id task)) i
                 (triggers task) q)
          (rebuild ev now (i + length (triggers task)) rest)
      else rebuild ev now (i + length (triggers task)) rest q)"

definition clock_jumped :: "readings \<Rightarrow> sched \<Rightarrow> bool" where
  "clock_jumped orc s =
     (let wall_elapsed = num_seconds (clock orc 0 - last_wall s);
          mono_elapsed = (mono orc 0 - last_instant s) div sec_ns
      in \<bar>wall_elapsed - mono_elapsed\<bar> > 30)"

definition handle_tick :: "chrono_env \<Rightarrow> readings \<Rightarrow> sched \<Rightarrow> sched outcome" where
  "handle_tick E orc s =
     obind (if clock_jumped orc s
            then rebuild (evaluations E orc) (clock orc 1) 0 (registered_tasks s) (queue_clear (queue s))
            else Ret (queue s)) (\<lambda>q.
       Ret (s\<lparr>queue := q, last_wall := clock orc 2, last_instant := mono orc 1\<rparr>))"

section \<open>The loop\<close>

datatype sched_input = Received sched_command | CommandChannelClosed | TimerElapsed | ClockTick

text \<open>
  One turn: drop the stale items at the top of the heap, then run the branch \<open>select!\<close> took.
  The timer branch is enabled only when the queue had a valid item.
\<close>

definition enabled_input :: "sched_input \<Rightarrow> sched \<Rightarrow> bool" where
  "enabled_input inp s \<longleftrightarrow>
     \<not> stopped s \<and> (inp = TimerElapsed \<longrightarrow> fst (peek_valid (queue s)) \<noteq> None)"

definition sched_turn :: "chrono_env \<Rightarrow> readings \<Rightarrow> sched_input \<Rightarrow> sched \<Rightarrow> sched outcome" where
  "sched_turn E orc inp s =
     (let s = s\<lparr>queue := snd (peek_valid (queue s))\<rparr>
      in case inp of
           Received cmd \<Rightarrow> handle_command E orc cmd s
         | CommandChannelClosed \<Rightarrow> Ret (s\<lparr>stopped := True\<rparr>)
         | TimerElapsed \<Rightarrow> handle_timer E orc s
         | ClockTick \<Rightarrow> handle_tick E orc s)"

text \<open>
  The states of the loop after \<open>n\<close> turns, each with its own clock readings and random draws;
  \<open>P\<close> is what the inputs are assumed to satisfy.  A panic ends the task, so no state follows it.
\<close>

inductive sched_reaches :: "chrono_env \<Rightarrow> (sched_input \<Rightarrow> bool) \<Rightarrow> nat \<Rightarrow> sched \<Rightarrow> bool"
  for E :: chrono_env and P :: "sched_input \<Rightarrow> bool" where
  start: "sched_reaches E P 0 (initial_sched orc)"
| turn: "sched_reaches E P n s \<Longrightarrow> P inp \<Longrightarrow> enabled_input inp s \<Longrightarrow>
     sched_turn E orc inp s = Ret s' \<Longrightarrow> sched_reaches E P (Suc n) s'"

inductive_cases sched_reaches_SucE: "sched_reaches E P (Suc n) s"

text \<open>A finite run from a given state: what is received is \<open>inps\<close>, one reading per turn.\<close>

inductive sched_run :: "chrono_env \<Rightarrow> sched \<Rightarrow> sched_input list \<Rightarrow> sched \<Rightarrow> bool"
  for E :: chrono_env where
  run_nil: "sched_run E s [] s"
| run_step: "enabled_input inp s \<Longrightarrow> sched_turn E orc inp s = Ret s1 \<Longrightarrow> sched_run E s1 inps s' \<Longrightarrow>
     sched_run E s (inp # inps) s'"

end
