(* ===== verification/Scheduler_Facts.thy ===== *)
theory Scheduler_Facts
  imports Scheduler
begin

text \<open>
  What each turn of the scheduler does to the valid items of its queue, the invariants every
  reachable state has, and the timetable (the next fire time per trigger) as an abstraction of
  the queue.
\<close>

definition item_key :: "scheduled_item \<Rightarrow> task_id \<times> trigger_id" where
  "item_key i = (item_task_id i, item_trigger_id i)"

section \<open>Queueing a task's triggers\<close>

text \<open>The items the triggers of a task give rise to.\<close>

fun planned_items ::
  "evaluation \<Rightarrow> (nat \<Rightarrow> instant) \<Rightarrow> task_id \<Rightarrow> u64 \<Rightarrow> nat \<Rightarrow> trigger list \<Rightarrow> scheduled_item list"
  where
  "planned_items ev now t gen i [] = []"
| "planned_items ev now t gen i (tr # trs) =
     (case (trigger_enabled tr, ev i (trigger_kind tr) (now i)) of
        (True, Ret (Some n)) \<Rightarrow> [ScheduledItem t (trigger_id tr) n gen]
      | _ \<Rightarrow> []) @ planned_items ev now t gen (Suc i) trs"

lemma push_triggers_valid:
  assumes "push_triggers ev now t gen i trs q = Ret q'" and "gen = current_generation q t"
  shows "valid_items q' = valid_items q + mset (planned_items ev now t gen i trs)"
    and "current_generation q' = current_generation q"
    and "gens_ok q \<Longrightarrow> gens_ok q'"
proof -
  have "valid_items q' = valid_items q + mset (planned_items ev now t gen i trs)
      \<and> current_generation q' = current_generation q \<and> (gens_ok q \<longrightarrow> gens_ok q')"
    using assms
  proof (induction trs arbitrary: i q)
    case Nil
    then show ?case by simp
  next
    case (Cons tr trs)
    let ?q = "\<lambda>next. case next of
        Some n \<Rightarrow> queue_push (ScheduledItem t (trigger_id tr) n gen) q | None \<Rightarrow> q"
    have gen: "current_generation (?q next) = current_generation q" for "next"
      by (rule ext) (simp split: option.splits)
    show ?case
    proof (cases "trigger_enabled tr")
      case True
      with Cons.prems(1) obtain "next" where n: "ev i (trigger_kind tr) (now i) = Ret next"
        "push_triggers ev now t gen (Suc i) trs (?q next) = Ret q'"
        by (cases "ev i (trigger_kind tr) (now i)") simp_all
      from Cons.IH [OF n(2)] Cons.prems(2) n True gen show ?thesis
        by (cases "next") (auto simp: queue_push_valid_items is_valid_iff)
    next
      case False
      with Cons.IH [of "Suc i" q] Cons.prems show ?thesis by simp
    qed
  qed
  then show "valid_items q' = valid_items q + mset (planned_items ev now t gen i trs)"
    and "current_generation q' = current_generation q"
    and "gens_ok q \<Longrightarrow> gens_ok q'"
    by blast+
qed

lemma planned_item_facts:
  "item \<in> set (planned_items ev now t gen i trs) \<Longrightarrow>
     item_task_id item = t \<and> generation item = gen
     \<and> (\<exists>j < length trs. trigger_enabled (trs ! j) \<and> trigger_id (trs ! j) = item_trigger_id item
          \<and> ev (i + j) (trigger_kind (trs ! j)) (now (i + j)) = Ret (Some (next_fire_at item)))"
proof (induction trs arbitrary: i)
  case Nil
  then show ?case by simp
next
  case (Cons tr trs)
  from Cons.prems consider
      "item \<in> set (planned_items ev now t gen (Suc i) trs)"
    | n where "trigger_enabled tr" "ev i (trigger_kind tr) (now i) = Ret (Some n)"
        "item = ScheduledItem t (trigger_id tr) n gen"
    by (cases "ev i (trigger_kind tr) (now i)") (auto split: bool.splits option.splits)
  then show ?case
  proof cases
    case 1
    from Cons.IH [OF this] show ?thesis by (fastforce intro: exI [of _ "Suc _"])
  next
    case (2 n)
    then show ?thesis by (intro conjI exI [of _ 0]) simp_all
  qed
qed

lemma planned_item_at:
  assumes "j < length trs" and "trigger_enabled (trs ! j)"
    and "ev (i + j) (trigger_kind (trs ! j)) (now (i + j)) = Ret (Some n)"
  shows "ScheduledItem t (trigger_id (trs ! j)) n gen \<in> set (planned_items ev now t gen i trs)"
  using assms
proof (induction trs arbitrary: i j)
  case Nil
  then show ?case by simp
next
  case (Cons tr trs)
  show ?case
  proof (cases j)
    case 0
    with Cons.prems show ?thesis by simp
  next
    case (Suc j')
    with Cons.prems Cons.IH [of j' "Suc i"] show ?thesis by simp
  qed
qed

lemma planned_keys_distinct:
  assumes "distinct (map trigger_id trs)"
  shows "distinct (map item_key (planned_items ev now t gen i trs))"
  using assms
proof (induction trs arbitrary: i)
  case Nil
  then show ?case by simp
next
  case (Cons tr trs)
  have "(t, trigger_id tr) \<notin> item_key ` set (planned_items ev now t gen (Suc i) trs)"
  proof
    assume "(t, trigger_id tr) \<in> item_key ` set (planned_items ev now t gen (Suc i) trs)"
    then obtain item where "item \<in> set (planned_items ev now t gen (Suc i) trs)"
      "item_key item = (t, trigger_id tr)" by auto
    then obtain j where "j < length trs" "trigger_id (trs ! j) = trigger_id tr"
      by (auto simp: item_key_def dest!: planned_item_facts)
    with Cons.prems show False by (metis distinct.simps(2) list.simps(9) nth_mem rev_image_eqI list.set_map)
  qed
  with Cons show ?case
    by (auto simp: item_key_def split: bool.splits outcome.splits option.splits)
qed

section \<open>Rerolling\<close>

text \<open>
  The items left after the reroll loop: the others keep their times, the rerolled trigger's get
  the new evaluation.
\<close>

fun rerolled_items ::
  "evaluation \<Rightarrow> (nat \<Rightarrow> instant) \<Rightarrow> trigger_kind \<Rightarrow> trigger_id \<Rightarrow> u64 \<Rightarrow> nat \<Rightarrow> scheduled_item list
   \<Rightarrow> scheduled_item list" where
  "rerolled_items ev now kind tr gen i [] = []"
| "rerolled_items ev now kind tr gen i (item # items) =
     (if item_trigger_id item = tr then
        (case ev i kind (now i) of
           Ret (Some n) \<Rightarrow> [ScheduledItem (item_task_id item) tr n gen]
         | _ \<Rightarrow> [])
      else [ScheduledItem (item_task_id item) (item_trigger_id item) (next_fire_at item) gen])
     @ rerolled_items ev now kind tr gen (Suc i) items"

lemma reroll_items_spec:
  assumes "reroll_items ev now kind tr gen i items rerolled new_next q = Ret (rerolled', new_next', q')"
    and "\<forall>item \<in> set items. item_task_id item = t" and "gen = current_generation q t"
  shows "valid_items q' = valid_items q + mset (rerolled_items ev now kind tr gen i items)"
    and "current_generation q' = current_generation q"
    and "gens_ok q \<Longrightarrow> gens_ok q'"
    and "rerolled' \<longleftrightarrow> rerolled \<or> (\<exists>item \<in> set items. item_trigger_id item = tr)"
proof -
  have "valid_items q' = valid_items q + mset (rerolled_items ev now kind tr gen i items)
      \<and> current_generation q' = current_generation q \<and> (gens_ok q \<longrightarrow> gens_ok q')
      \<and> (rerolled' \<longleftrightarrow> rerolled \<or> (\<exists>item \<in> set items. item_trigger_id item = tr))"
    using assms
  proof (induction items arbitrary: i rerolled new_next q)
    case Nil
    then show ?case by simp
  next
    case (Cons item items)
    have t: "item_task_id item = t" using Cons.prems(2) by simp
    show ?case
    proof (cases "item_trigger_id item = tr")
      case False
      let ?q = "queue_push (ScheduledItem (item_task_id item) (item_trigger_id item) (next_fire_at item) gen) q"
      have gen: "current_generation ?q = current_generation q" by (rule ext) simp
      have "reroll_items ev now kind tr gen (Suc i) items rerolled new_next ?q = Ret (rerolled', new_next', q')"
        using Cons.prems(1) False by simp
      from Cons.IH [OF this] Cons.prems(2,3) gen False t show ?thesis
        by (auto simp: queue_push_valid_items is_valid_iff)
    next
      case True
      then obtain r where r: "ev i kind (now i) = Ret r"
        using Cons.prems(1) by (cases "ev i kind (now i)") simp_all
      show ?thesis
      proof (cases r)
        case None
        with r True Cons.prems(1)
        have "reroll_items ev now kind tr gen (Suc i) items True new_next q = Ret (rerolled', new_next', q')"
          by simp
        from Cons.IH [OF this] Cons.prems(2,3) None r True show ?thesis by simp
      next
        case (Some n)
        let ?q = "queue_push (ScheduledItem (item_task_id item) (item_trigger_id item) n gen) q"
        have gen: "current_generation ?q = current_generation q" by (rule ext) simp
        have "reroll_items ev now kind tr gen (Suc i) items True (Some n) ?q = Ret (rerolled', new_next', q')"
          using Cons.prems(1) r Some True by simp
        from Cons.IH [OF this] Cons.prems(2,3) gen True t r Some show ?thesis
          by (auto simp: queue_push_valid_items is_valid_iff)
      qed
    qed
  qed
  then show "valid_items q' = valid_items q + mset (rerolled_items ev now kind tr gen i items)"
    and "current_generation q' = current_generation q"
    and "gens_ok q \<Longrightarrow> gens_ok q'"
    and "rerolled' \<longleftrightarrow> rerolled \<or> (\<exists>item \<in> set items. item_trigger_id item = tr)"
    by blast+
qed

lemma rerolled_item_facts:
  "item \<in> set (rerolled_items ev now kind tr gen i items) \<Longrightarrow>
     generation item = gen \<and>
     ((item_trigger_id item \<noteq> tr \<and> (\<exists>g. ScheduledItem (item_task_id item) (item_trigger_id item) (next_fire_at item) g \<in> set items))
      \<or> (item_trigger_id item = tr
         \<and> (\<exists>j < length items. item_trigger_id (items ! j) = tr \<and> item_task_id (items ! j) = item_task_id item
              \<and> ev (i + j) kind (now (i + j)) = Ret (Some (next_fire_at item)))))"
proof (induction items arbitrary: i)
  case Nil
  then show ?case by simp
next
  case (Cons a items)
  show ?case
  proof (cases "item \<in> set (rerolled_items ev now kind tr gen (Suc i) items)")
    case True
    from Cons.IH [OF this] show ?thesis by (fastforce intro: exI [of _ "Suc _"])
  next
    case False
    with Cons.prems consider "item_trigger_id a \<noteq> tr"
        "item = ScheduledItem (item_task_id a) (item_trigger_id a) (next_fire_at a) gen"
      | n where "item_trigger_id a = tr" "ev i kind (now i) = Ret (Some n)"
        "item = ScheduledItem (item_task_id a) tr n gen"
      by (cases "ev i kind (now i)") (auto split: if_splits option.splits)
    then show ?thesis
    proof cases
      case 1
      then have "ScheduledItem (item_task_id item) (item_trigger_id item) (next_fire_at item) (generation a) = a"
        by (cases a) simp
      with 1 show ?thesis by (metis list.set_intros(1) scheduled_item.sel(2,4))
    next
      case (2 n)
      then show ?thesis by (intro conjI disjI2 exI [of _ 0]) simp_all
    qed
  qed
qed

section \<open>Fire times per trigger\<close>

definition itimes :: "scheduled_item multiset \<Rightarrow> task_id \<times> trigger_id \<Rightarrow> instant multiset" where
  "itimes M k = image_mset next_fire_at (filter_mset (\<lambda>i. item_key i = k) M)"

definition ftimes :: "schedule_queue \<Rightarrow> task_id \<times> trigger_id \<Rightarrow> instant multiset" where
  "ftimes q = itimes (valid_items q)"

definition opt_mset :: "'a option \<Rightarrow> 'a multiset" where
  "opt_mset x = (case x of None \<Rightarrow> {#} | Some a \<Rightarrow> {#a#})"

named_theorems times_simps "fire times after the queue operations"

lemma opt_mset_simps [simp]: "opt_mset None = {#}" "opt_mset (Some a) = {#a#}"
  by (simp_all add: opt_mset_def)

lemma earliest_opt_mset [simp]: "earliest (opt_mset x) = x"
  by (cases x) simp_all

lemma timetable_times: "next_fire_by_trigger q k = earliest (ftimes q k)"
  by (simp add: next_fire_by_trigger_eq ftimes_def itimes_def fire_times_def item_key_def)

lemma itimes_empty [simp]: "itimes {#} k = {#}"
  by (simp add: itimes_def)

lemma itimes_add [simp]: "itimes (add_mset i M) k =
    (if item_key i = k then add_mset (next_fire_at i) (itimes M k) else itimes M k)"
  by (simp add: itimes_def)

lemma itimes_plus [simp]: "itimes (M + N) k = itimes M k + itimes N k"
  by (simp add: itimes_def)

lemma itimes_in: "i \<in># M \<Longrightarrow> next_fire_at i \<in># itimes M (item_key i)"
  by (auto simp: itimes_def)

lemma itimes_task_filter:
  "itimes (filter_mset (\<lambda>i. item_task_id i \<noteq> t) M) k = (if fst k = t then {#} else itimes M k)"
  by (cases k) (auto simp: itimes_def item_key_def filter_filter_mset intro!: arg_cong [of _ _ "image_mset _"] filter_mset_cong)

lemma itimes_of_task: "itimes (filter_mset (\<lambda>i. item_task_id i = fst k) M) k = itimes M k"
  by (cases k) (auto simp: itimes_def item_key_def filter_filter_mset intro!: arg_cong [of _ _ "image_mset _"] filter_mset_cong)

lemma itimes_no_task: "\<forall>i \<in># M. item_task_id i = t \<Longrightarrow> fst k \<noteq> t \<Longrightarrow> itimes M k = {#}"
  by (cases k) (auto simp: itimes_def item_key_def)

lemma itimes_minus:
  "i \<in># M \<Longrightarrow> itimes (M - {#i#}) k = (if item_key i = k then itimes M k - {#next_fire_at i#} else itimes M k)"
  by (auto dest!: multi_member_split simp: itimes_def)

lemma ftimes_peek [times_simps, simp]: "ftimes (snd (peek_valid q)) = ftimes q"
  by (simp add: ftimes_def)

lemma ftimes_clear [times_simps, simp]: "ftimes (queue_clear q) k = {#}"
  by (simp add: ftimes_def)

lemma ftimes_bump:
  "gens_ok q \<Longrightarrow> unat (current_generation q t) + 1 < 2 ^ 64 \<Longrightarrow>
     ftimes (snd (bump_generation t q)) k = (if fst k = t then {#} else ftimes q k)"
  by (simp add: ftimes_def bump_valid_items itimes_task_filter)

text \<open>The evaluation of the trigger \<open>tr\<close> in a task's list.\<close>

fun planned_time ::
  "evaluation \<Rightarrow> (nat \<Rightarrow> instant) \<Rightarrow> nat \<Rightarrow> trigger list \<Rightarrow> trigger_id \<Rightarrow> instant option" where
  "planned_time ev now i [] tr = None"
| "planned_time ev now i (x # xs) tr =
     (if trigger_id x = tr then
        (case (trigger_enabled x, ev i (trigger_kind x) (now i)) of
           (True, Ret r) \<Rightarrow> r
         | _ \<Rightarrow> None)
      else planned_time ev now (Suc i) xs tr)"

lemma planned_itimes:
  "distinct (map trigger_id trs) \<Longrightarrow>
     itimes (mset (planned_items ev now t gen i trs)) k =
       (if fst k = t then opt_mset (planned_time ev now i trs (snd k)) else {#})"
proof (induction trs arbitrary: i)
  case Nil
  then show ?case by (simp add: itimes_def)
next
  case (Cons x xs)
  have absent: "planned_time ev now j ys (trigger_id x) = None"
    if "trigger_id x \<notin> trigger_id ` set ys" for j ys
    using that by (induction ys arbitrary: j) auto
  from Cons show ?case
    by (cases k)
       (auto simp: item_key_def absent split: bool.splits outcome.splits option.splits)
qed

lemma rerolled_itimes_others:
  "\<forall>item \<in> set items. item_task_id item = t \<Longrightarrow> k \<noteq> (t, tr) \<Longrightarrow>
     itimes (mset (rerolled_items ev now kind tr gen i items)) k = itimes (mset items) k"
  by (induction items arbitrary: i)
     (auto simp: item_key_def split: outcome.splits option.splits)

lemma rerolled_itimes_none:
  "\<forall>item \<in> set items. item_trigger_id item \<noteq> tr \<Longrightarrow>
     itimes (mset (rerolled_items ev now kind tr gen i items)) (t, tr) = {#}"
  by (induction items arbitrary: i) (auto simp: item_key_def)

lemma reroll_items_none:
  "\<forall>item \<in> set items. item_trigger_id item \<noteq> tr \<Longrightarrow>
     reroll_items ev now kind tr gen i items rerolled nn q = Ret (rerolled', nn', q') \<Longrightarrow> nn' = nn"
  by (induction items arbitrary: i q) auto

lemma reroll_items_one:
  assumes "\<forall>item \<in> set items. item_task_id item = t"
    and "length (filter (\<lambda>item. item_trigger_id item = tr) items) = 1"
    and "reroll_items ev now kind tr gen i items rerolled None q = Ret (rerolled', nn, q')"
  shows "\<exists>m. ev m kind (now m) = Ret nn
       \<and> itimes (mset (rerolled_items ev now kind tr gen i items)) (t, tr) = opt_mset nn"
  using assms
proof (induction items arbitrary: i rerolled q)
  case Nil
  then show ?case by simp
next
  case (Cons a items)
  show ?case
  proof (cases "item_trigger_id a = tr")
    case False
    with Cons.prems obtain q2 where
      "reroll_items ev now kind tr gen (Suc i) items rerolled None q2 = Ret (rerolled', nn, q')"
      by simp
    from Cons.IH [OF _ _ this] Cons.prems(1,2) False show ?thesis
      by (simp add: item_key_def)
  next
    case True
    then have none: "\<forall>item \<in> set items. item_trigger_id item \<noteq> tr"
      using Cons.prems(2) by (auto simp: filter_empty_conv)
    obtain r where r: "ev i kind (now i) = Ret r"
      using Cons.prems(3) True by (cases "ev i kind (now i)") simp_all
    have "nn = r"
      using Cons.prems(3) True r reroll_items_none [OF none] by (cases r) auto
    with r True Cons.prems(1) show ?thesis
      by (intro exI [of _ i]) (cases r; simp add: rerolled_itimes_none [OF none] item_key_def)
  qed
qed

section \<open>Each operation on the fire times\<close>

lemma reroll_queue_times:
  assumes ok: "gens_ok q" "unat (current_generation q t) + 1 < 2 ^ 64"
    and one: "size (ftimes q (t, tr)) \<le> 1"
    and r: "reroll_queue ev now kind t tr q = Ret (nn, q')"
  shows "ftimes q' = (ftimes q)((t, tr) := opt_mset nn)"
    and "\<exists>m. ev m kind (now m) = Ret nn"
    and "gens_ok q'"
    and "current_generation q' = (current_generation q)(t := current_generation q t + 1)"
proof -
  define taken where "taken = fst (take_task_items t q)"
  define q1 where "q1 = snd (take_task_items t q)"
  define valid where "valid = filter (\<lambda>item. generation item = current_generation q t) taken"
  define gen where "gen = fst (bump_generation t q1)"
  define q2 where "q2 = snd (bump_generation t q1)"
  have cur1: "current_generation q1 = current_generation q"
    by (rule ext) (simp add: q1_def take_task_items_eq)
  have ok1: "gens_ok q1" using ok(1) by (auto simp: q1_def)
  have cur2: "current_generation q2 = (current_generation q)(t := current_generation q t + 1)"
    by (rule ext) (simp add: q2_def bump_generation_eq cur1)
  have gen: "gen = current_generation q2 t" by (simp add: gen_def bump_generation_eq cur1 cur2)
  have ok2: "gens_ok q2" using bump_gens_ok [OF ok1] ok(2) by (simp add: q2_def cur1)
  have t2: "ftimes q2 k = (if fst k = t then {#} else ftimes q k)" for k
  proof -
    have "ftimes q2 k = (if fst k = t then {#} else ftimes q1 k)"
      using ftimes_bump [OF ok1] ok(2) by (simp add: q2_def cur1)
    then show ?thesis by (simp add: ftimes_def q1_def take_task_valid_items itimes_task_filter)
  qed
  have valid: "mset valid = filter_mset (\<lambda>i. item_task_id i = t) (valid_items q)"
    unfolding valid_def taken_def valid_items_def take_task_items_eq
    by (auto simp: filter_filter_mset is_valid_iff intro!: filter_mset_cong)
  have vt: "itimes (mset valid) k = (if fst k = t then ftimes q k else {#})" for k
    using itimes_of_task [of k "valid_items q"] itimes_no_task [of "mset valid" t k]
    by (auto simp: valid ftimes_def)
  have task: "\<forall>item \<in> set valid. item_task_id item = t"
    by (auto simp: valid_def taken_def take_task_items_eq)
  have count: "length (filter (\<lambda>i. item_trigger_id i = tr) valid) = size (ftimes q (t, tr))"
  proof -
    have "size (itimes (mset valid) (t, tr)) = length (filter (\<lambda>i. item_key i = (t, tr)) valid)"
      by (simp add: itimes_def mset_filter [symmetric] del: mset_filter)
    moreover have "filter (\<lambda>i. item_key i = (t, tr)) valid = filter (\<lambda>i. item_trigger_id i = tr) valid"
      using task by (auto simp: item_key_def intro: filter_cong)
    ultimately show ?thesis using vt by simp
  qed
  let ?rest = "\<lambda>(rerolled, nn3, q3). if rerolled then Ret (nn3, q3)
        else obind (ev (length valid) kind (now (length valid))) (\<lambda>next.
          case next of
            Some at \<Rightarrow> Ret (Some at, queue_push (ScheduledItem t tr at gen) q3)
          | None \<Rightarrow> Ret (nn3, q3))"
  have "obind (reroll_items ev now kind tr gen 0 valid False None q2) ?rest = Ret (nn, q')"
    using r unfolding reroll_queue_def Let_def case_prod_beta taken_def q1_def valid_def gen_def q2_def
    by simp
  then obtain rerolled nn3 q3 where loop:
      "reroll_items ev now kind tr gen 0 valid False None q2 = Ret (rerolled, nn3, q3)"
    and rest: "?rest (rerolled, nn3, q3) = Ret (nn, q')"
    by (cases "reroll_items ev now kind tr gen 0 valid False None q2") auto
  note spec = reroll_items_spec [OF loop task gen]
  have t3: "ftimes q3 k = ftimes q2 k + itimes (mset (rerolled_items ev now kind tr gen 0 valid)) k" for k
    by (simp add: ftimes_def spec(1))
  have others: "ftimes q3 k = ftimes q k" if "k \<noteq> (t, tr)" for k
    using that t3 t2 vt rerolled_itimes_others [OF task that] by simp
  have "ftimes q' = (ftimes q)((t, tr) := opt_mset nn) \<and> (\<exists>m. ev m kind (now m) = Ret nn)
      \<and> gens_ok q' \<and> current_generation q' = current_generation q2"
  proof (cases "\<exists>item \<in> set valid. item_trigger_id item = tr")
    case True
    with spec(4) rest have "nn3 = nn" "q3 = q'" by simp_all
    moreover have "size (ftimes q (t, tr)) \<noteq> 0"
      using True count by (auto simp: filter_empty_conv)
    then have "length (filter (\<lambda>i. item_trigger_id i = tr) valid) = 1" using one count by linarith
    from reroll_items_one [OF task this loop] obtain m where
      "ev m kind (now m) = Ret nn3"
      "itimes (mset (rerolled_items ev now kind tr gen 0 valid)) (t, tr) = opt_mset nn3" by blast
    moreover from calculation have at: "ftimes q3 (t, tr) = opt_mset nn" using t3 t2 by simp
    have "ftimes q3 = (ftimes q)((t, tr) := opt_mset nn)" by (rule ext) (simp add: others at)
    ultimately show ?thesis using spec(2,3) ok2 by auto
  next
    case False
    then have none: "\<forall>item \<in> set valid. item_trigger_id item \<noteq> tr" by blast
    have "nn3 = None" by (rule reroll_items_none [OF none loop])
    moreover from rest False spec(4) obtain r where
      "ev (length valid) kind (now (length valid)) = Ret r"
      by (cases "ev (length valid) kind (now (length valid))") auto
    moreover have "ftimes q3 (t, tr) = {#}" using t3 t2 rerolled_itimes_none [OF none] by simp
    then have q3: "ftimes q3 = (ftimes q)((t, tr) := {#})" by (intro ext) (simp add: others)
    have push: "ftimes (queue_push (ScheduledItem t tr n gen) q3) = (ftimes q)((t, tr) := {#n#})" for n
      using fun_cong [OF q3] gen spec(2)
      by (intro ext) (auto simp: ftimes_def queue_push_valid_items is_valid_iff item_key_def)
    have "current_generation (queue_push (ScheduledItem t tr n gen) q3) = current_generation q3" for n
      by (rule ext) simp
    with calculation show ?thesis
      using rest False spec(2-4) ok2 q3 push by (cases r) auto
  qed
  then show "ftimes q' = (ftimes q)((t, tr) := opt_mset nn)"
    and "\<exists>m. ev m kind (now m) = Ret nn" and "gens_ok q'"
    and "current_generation q' = (current_generation q)(t := current_generation q t + 1)"
    by (simp_all add: cur2)
qed

lemma push_triggers_times:
  assumes "push_triggers ev now t gen i trs q = Ret q'" and "gen = current_generation q t"
    and "distinct (map trigger_id trs)"
  shows "ftimes q' k = ftimes q k +
      (if fst k = t then opt_mset (planned_time ev now i trs (snd k)) else {#})"
  using push_triggers_valid(1) [OF assms(1,2)] planned_itimes [OF assms(3)]
  by (simp add: ftimes_def)

text \<open>The times a rebuild plans: those of the registered, enabled tasks.\<close>

fun rebuilt_time ::
  "evaluation \<Rightarrow> instant \<Rightarrow> nat \<Rightarrow> (task_id \<times> task) list \<Rightarrow> task_id \<times> trigger_id \<Rightarrow> instant option"
  where
  "rebuilt_time ev now i [] k = None"
| "rebuilt_time ev now i ((t, task) # rest) k =
     (if fst k = t then
        (if task_enabled task then planned_time ev (\<lambda>_. now) i (triggers task) (snd k) else None)
      else rebuilt_time ev now (i + length (triggers task)) rest k)"

lemma rebuilt_time_absent: "fst k \<notin> fst ` set reg \<Longrightarrow> rebuilt_time ev now i reg k = None"
  by (induction ev now i reg k rule: rebuilt_time.induct) auto

lemma rebuild_times:
  assumes "rebuild ev now i reg q = Ret q'"
    and "distinct (map fst reg)" and "\<forall>(t, task) \<in> set reg. task_id task = t"
    and "\<forall>(t, task) \<in> set reg. distinct (map trigger_id (triggers task))"
  shows "ftimes q' k = ftimes q k + opt_mset (rebuilt_time ev now i reg k)"
  using assms
proof (induction ev now i reg q rule: rebuild.induct)
  case (1 ev now i q)
  then show ?case by simp
next
  case (2 ev now i t task rest q)
  have tid: "task_id task = t" and d: "distinct (map trigger_id (triggers task))"
    using 2 by auto
  show ?case
  proof (cases "task_enabled task")
    case True
    with "2.prems"(1) tid obtain q1 where
      q1: "push_triggers ev (\<lambda>_. now) t (current_generation q t) i (triggers task) q = Ret q1"
      and rest: "rebuild ev now (i + length (triggers task)) rest q1 = Ret q'"
      by (auto simp: outcome_simps)
    have "ftimes q' k = ftimes q1 k + opt_mset (rebuilt_time ev now (i + length (triggers task)) rest k)"
      using "2.IH"(1) [OF True rest] "2.prems" by auto
    moreover have "ftimes q1 k = ftimes q k +
        (if fst k = t then opt_mset (planned_time ev (\<lambda>_. now) i (triggers task) (snd k)) else {#})"
      by (rule push_triggers_times [OF q1 refl d])
    moreover have "fst k = t \<Longrightarrow> rebuilt_time ev now (i + length (triggers task)) rest k = None"
      using "2.prems"(2) by (auto intro: rebuilt_time_absent)
    ultimately show ?thesis using True by auto
  next
    case False
    have "fst k = t \<Longrightarrow> rebuilt_time ev now (i + length (triggers task)) rest k = None"
      using "2.prems"(2) by (auto intro: rebuilt_time_absent)
    with False 2 show ?thesis by auto
  qed
qed

lemma rebuild_generation:
  "rebuild ev now i reg q = Ret q' \<Longrightarrow>
     current_generation q' = current_generation q \<and> (gens_ok q \<longrightarrow> gens_ok q')"
proof (induction ev now i reg q rule: rebuild.induct)
  case (1 ev now i q)
  then show ?case by simp
next
  case (2 ev now i t task rest q)
  show ?case
  proof (cases "task_enabled task")
    case True
    with "2.prems" obtain q1 where
      q1: "push_triggers ev (\<lambda>_. now) (task_id task) (current_generation q (task_id task)) i
             (triggers task) q = Ret q1"
      and rest: "rebuild ev now (i + length (triggers task)) rest q1 = Ret q'"
      by (auto simp: outcome_simps)
    from "2.IH"(1) [OF True rest] push_triggers_valid(2,3) [OF q1 refl] show ?thesis by auto
  next
    case False
    with 2 show ?thesis by simp
  qed
qed

end
