(* ===== verification/Scheduler_Inv.thy ===== *)
theory Scheduler_Inv
  imports Scheduler_Facts
begin

text \<open>
  The invariants of the scheduler's reachable states and the effect of each handler on the fire
  times, from which the properties of the component follow.
\<close>

section \<open>Invariants\<close>

text \<open>The trigger of a key is registered and enabled, in an enabled task.\<close>

definition armed :: "(task_id \<times> task) list \<Rightarrow> task_id \<times> trigger_id \<Rightarrow> bool" where
  "armed reg k \<longleftrightarrow>
     (case map_of reg (fst k) of
        None \<Rightarrow> False
      | Some task \<Rightarrow> task_enabled task
          \<and> (case find (\<lambda>x. trigger_id x = snd k) (triggers task) of
               None \<Rightarrow> False
             | Some tr \<Rightarrow> trigger_enabled tr))"

definition registry_ok :: "(task_id \<times> task) list \<Rightarrow> bool" where
  "registry_ok reg \<longleftrightarrow> distinct (map fst reg)
     \<and> (\<forall>(t, task) \<in> set reg. task_id task = t \<and> distinct (map trigger_id (triggers task)))"

definition queue_inv :: "(task_id \<times> task) list \<Rightarrow> schedule_queue \<Rightarrow> bool" where
  "queue_inv reg q \<longleftrightarrow> gens_ok q
     \<and> (\<forall>k. size (ftimes q k) \<le> 1) \<and> (\<forall>k. ftimes q k \<noteq> {#} \<longrightarrow> armed reg k)"

definition gens_below :: "nat \<Rightarrow> schedule_queue \<Rightarrow> bool" where
  "gens_below n q \<longleftrightarrow> (\<forall>t. unat (current_generation q t) \<le> n)"

definition sched_inv :: "nat \<Rightarrow> sched \<Rightarrow> bool" where
  "sched_inv n s \<longleftrightarrow> queue_inv (registered_tasks s) (queue s) \<and> registry_ok (registered_tasks s)
     \<and> gens_below (Suc n) (queue s)"

text \<open>What the store guarantees of the tasks it hands over: trigger ids are a primary key.\<close>

fun distinct_triggers :: "sched_input \<Rightarrow> bool" where
  "distinct_triggers (Received (AddTask task)) = distinct (map trigger_id (triggers task))"
| "distinct_triggers _ = True"

named_theorems inv_intros "the invariants from their parts"

lemma registry_okD:
  "registry_ok reg \<Longrightarrow> map_of reg t = Some task \<Longrightarrow>
     task_id task = t \<and> distinct (map trigger_id (triggers task))"
  by (auto simp: registry_ok_def dest!: map_of_SomeD)

lemma registry_ok_update:
  assumes "registry_ok reg" and "distinct (map trigger_id (triggers task))"
  shows "registry_ok (AList.update (task_id task) task reg)"
proof -
  have d: "distinct (map fst (AList.update (task_id task) task reg))"
    using assms(1) by (auto simp: registry_ok_def distinct_update)
  moreover have "task_id x = t \<and> distinct (map trigger_id (triggers x))"
    if "(t, x) \<in> set (AList.update (task_id task) task reg)" for t x
  proof -
    have "map_of (AList.update (task_id task) task reg) t = Some x"
      using that d by (rule map_of_is_SomeI [rotated])
    with assms registry_okD [OF assms(1), of t x] show ?thesis
      by (auto simp: update_conv' split: if_splits)
  qed
  ultimately show ?thesis by (auto simp: registry_ok_def)
qed

lemma registry_ok_delete: "registry_ok reg \<Longrightarrow> registry_ok (AList.delete t reg)"
  using distinct_delete [of reg t] by (auto simp: registry_ok_def AList.delete_eq)

lemma armed_update_other: "fst k \<noteq> t \<Longrightarrow> armed (AList.update t task reg) k = armed reg k"
  by (simp add: armed_def update_conv')

lemma armed_delete_other: "fst k \<noteq> t \<Longrightarrow> armed (AList.delete t reg) k = armed reg k"
  by (simp add: armed_def delete_conv')

lemma planned_time_armed:
  "planned_time ev now i trs tr = Some n \<Longrightarrow>
     \<exists>x m. find (\<lambda>x. trigger_id x = tr) trs = Some x \<and> trigger_enabled x
         \<and> ev m (trigger_kind x) (now m) = Ret (Some n)"
  by (induction trs arbitrary: i) (auto split: if_splits bool.splits outcome.splits)

lemma rebuilt_time_armed:
  "rebuilt_time ev now i reg k = Some n \<Longrightarrow> armed reg k"
  by (induction ev now i reg k rule: rebuilt_time.induct)
     (auto simp: armed_def dest!: planned_time_armed split: if_splits)

lemma queue_invD:
  assumes "queue_inv reg q"
  shows "gens_ok q" and "size (ftimes q k) \<le> 1" and "ftimes q k \<noteq> {#} \<Longrightarrow> armed reg k"
  using assms unfolding queue_inv_def by blast+

lemma queue_invI:
  assumes "gens_ok q" and "\<And>k. size (ftimes q k) \<le> 1" and "\<And>k. ftimes q k \<noteq> {#} \<Longrightarrow> armed reg k"
  shows "queue_inv reg q"
  using assms unfolding queue_inv_def by blast

lemma sched_invD:
  assumes "sched_inv n s"
  shows "queue_inv (registered_tasks s) (queue s)" and "registry_ok (registered_tasks s)"
    and "gens_below (Suc n) (queue s)"
  using assms by (simp_all add: sched_inv_def)

lemma size_opt_mset [simp]: "size (opt_mset x) \<le> Suc 0"
  by (cases x) simp_all

lemma opt_mset_nonempty: "opt_mset x \<noteq> {#} \<longleftrightarrow> (\<exists>a. x = Some a)"
  by (cases x) simp_all

lemma rebuilt_time_eval:
  "rebuilt_time ev now i reg (t, tr) = Some n \<Longrightarrow>
     \<exists>task x m. map_of reg t = Some task \<and> find (\<lambda>x. trigger_id x = tr) (triggers task) = Some x
       \<and> ev m (trigger_kind x) now = Ret (Some n)"
  by (induction ev now i reg "(t, tr)" rule: rebuilt_time.induct)
     (auto dest!: planned_time_armed split: if_splits)

section \<open>What each handler does\<close>

text \<open>One turn bumps a generation at most once, and there are 2^64 of them.\<close>

lemma sched_inv_bump:
  assumes "sched_inv n s" and "n + 2 < 2 ^ 64"
  shows "gens_ok (queue s)" and "unat (current_generation (queue s) t) + 1 < 2 ^ 64"
proof -
  show "gens_ok (queue s)" using assms(1) by (simp add: sched_inv_def queue_inv_def)
  have "unat (current_generation (queue s) t) \<le> Suc n"
    using assms(1) by (simp add: sched_inv_def gens_below_def)
  then show "unat (current_generation (queue s) t) + 1 < 2 ^ 64" using assms(2) by linarith
qed

lemma gens_below_bump:
  assumes "gens_below n q" and "current_generation q' = (current_generation q)(t := current_generation q t + 1)"
    and "unat (current_generation q t) + 1 < 2 ^ 64"
  shows "gens_below (Suc n) q'"
  using assms(1,2) unat_Suc_le [OF assms(3)] by (auto simp: gens_below_def intro: le_SucI)

lemma gens_below_mono: "gens_below n q \<Longrightarrow> gens_below (Suc n) q"
  by (auto simp: gens_below_def le_Suc_eq)

lemma add_task_effect:
  assumes inv: "sched_inv n s" "n + 2 < 2 ^ 64" and d: "distinct (map trigger_id (triggers task))"
    and r: "handle_add_task E orc task s = Ret s'"
  shows "ftimes (queue s') k =
      (if fst k = task_id task
       then (if task_enabled task
             then opt_mset (planned_time (evaluations E orc) (clock orc) 0 (triggers task) (snd k))
             else {#})
       else ftimes (queue s) k)"
    and "sched_inv (Suc n) s'"
    and "registered_tasks s' = AList.update (task_id task) task (registered_tasks s)"
    and "events s' = events s"
proof -
  define t where "t = task_id task"
  define gen where "gen = fst (bump_generation t (queue s))"
  define q1 where "q1 = snd (bump_generation t (queue s))"
  note b = sched_inv_bump [OF inv]
  have cur: "current_generation q1 = (current_generation (queue s))(t := current_generation (queue s) t + 1)"
    by (rule ext) (simp add: q1_def bump_generation_eq)
  have gen: "gen = current_generation q1 t" by (simp add: gen_def cur bump_generation_eq)
  have ok1: "gens_ok q1" unfolding q1_def by (rule bump_gens_ok [OF b])
  have f1: "ftimes q1 k = (if fst k = t then {#} else ftimes (queue s) k)" for k
    unfolding q1_def by (rule ftimes_bump [OF b])
  obtain q2 where q2: "(if task_enabled task
        then push_triggers (evaluations E orc) (clock orc) t gen 0 (triggers task) q1
        else Ret q1) = Ret q2"
    and s': "s' = s\<lparr>queue := q2, registered_tasks := AList.update t task (registered_tasks s)\<rparr>"
    using r unfolding handle_add_task_def case_prod_beta Let_def t_def gen_def q1_def
    by (auto simp: outcome_simps)
  have f2: "ftimes q2 k = (if fst k = t
       then (if task_enabled task
             then opt_mset (planned_time (evaluations E orc) (clock orc) 0 (triggers task) (snd k))
             else {#})
       else ftimes (queue s) k)" for k
    using q2 f1 push_triggers_times [OF _ gen d] by (auto split: if_splits)
  have g2: "gens_ok q2" "current_generation q2 = current_generation q1"
    using q2 ok1 push_triggers_valid(2,3) [OF _ gen] by (auto split: if_splits)
  show "ftimes (queue s') k =
      (if fst k = task_id task
       then (if task_enabled task
             then opt_mset (planned_time (evaluations E orc) (clock orc) 0 (triggers task) (snd k))
             else {#})
       else ftimes (queue s) k)"
    using f2 s' by (simp add: t_def)
  show "registered_tasks s' = AList.update (task_id task) task (registered_tasks s)"
    "events s' = events s"
    using s' by (simp_all add: t_def)
  have "queue_inv (registered_tasks s') q2"
  proof (rule queue_invI [OF g2(1)])
    fix k
    show "size (ftimes q2 k) \<le> 1"
      using f2 [of k] queue_invD(2) [OF sched_invD(1) [OF inv(1)], of k] by simp
    assume k: "ftimes q2 k \<noteq> {#}"
    show "armed (registered_tasks s') k"
    proof (cases "fst k = t")
      case True
      with k f2 obtain x where "planned_time (evaluations E orc) (clock orc) 0 (triggers task) (snd k) = Some x"
        and "task_enabled task" by (auto simp: opt_mset_nonempty split: if_splits)
      with True s' show ?thesis by (auto simp: armed_def update_conv' dest!: planned_time_armed)
    next
      case False
      with k f2 queue_invD(3) [OF sched_invD(1) [OF inv(1)], of k] s' show ?thesis
        by (simp add: armed_update_other)
    qed
  qed
  moreover have "registry_ok (registered_tasks s')"
    using registry_ok_update [OF _ d] inv(1) s' by (simp add: sched_inv_def t_def)
  moreover have "gens_below (Suc (Suc n)) q2"
    by (rule gens_below_bump [of _ "queue s" _ t]) (use inv(1) g2(2) cur b(2) in \<open>auto simp: sched_inv_def\<close>)
  ultimately show "sched_inv (Suc n) s'" using s' by (simp add: sched_inv_def)
qed

lemma remove_task_effect:
  assumes inv: "sched_inv n s" "n + 2 < 2 ^ 64"
  shows "ftimes (queue (handle_remove_task t s)) k = (if fst k = t then {#} else ftimes (queue s) k)"
    and "sched_inv (Suc n) (handle_remove_task t s)"
proof -
  note b = sched_inv_bump [OF inv]
  show f: "ftimes (queue (handle_remove_task t s)) k = (if fst k = t then {#} else ftimes (queue s) k)" for k
    using ftimes_bump [OF b, of t] by (simp add: handle_remove_task_def)
  have "gens_below (Suc (Suc n)) (queue (handle_remove_task t s))"
    by (rule gens_below_bump [of _ "queue s" _ t])
       (use inv(1) b(2) in \<open>auto simp: sched_inv_def handle_remove_task_def bump_generation_eq fun_eq_iff\<close>)
  moreover have "queue_inv (registered_tasks (handle_remove_task t s)) (queue (handle_remove_task t s))"
  proof (rule queue_invI)
    show "gens_ok (queue (handle_remove_task t s))"
      using bump_gens_ok [OF b, of t] by (simp add: handle_remove_task_def)
    fix k
    show "size (ftimes (queue (handle_remove_task t s)) k) \<le> 1"
      using queue_invD(2) [OF sched_invD(1) [OF inv(1)], of k] by (simp add: f)
    assume "ftimes (queue (handle_remove_task t s)) k \<noteq> {#}"
    then have "fst k \<noteq> t" "ftimes (queue s) k \<noteq> {#}" by (simp_all add: f split: if_splits)
    with queue_invD(3) [OF sched_invD(1) [OF inv(1)], of k]
    show "armed (registered_tasks (handle_remove_task t s)) k"
      by (simp add: handle_remove_task_def armed_delete_other)
  qed
  ultimately show "sched_inv (Suc n) (handle_remove_task t s)"
    using registry_ok_delete [OF sched_invD(2) [OF inv(1)]]
    by (simp add: sched_inv_def handle_remove_task_def)
qed

lemma reroll_effect:
  assumes inv: "sched_inv n s" "n + 2 < 2 ^ 64"
    and r: "handle_reroll E orc t tr s = Ret s'"
  shows "sched_inv (Suc n) s'" and "registered_tasks s' = registered_tasks s" and "events s' = events s"
    and "armed (registered_tasks s) (t, tr) \<Longrightarrow>
      \<exists>task x m nn. map_of (registered_tasks s) t = Some task
        \<and> find (\<lambda>x. trigger_id x = tr) (triggers task) = Some x
        \<and> evaluate_next_occurrence E (draws orc m) (trigger_kind x) (clock orc m) = Ret nn
        \<and> replies s' = replies s @ [(t, tr, Inr nn)]
        \<and> ftimes (queue s') = (ftimes (queue s))((t, tr) := opt_mset nn)"
    and "\<not> armed (registered_tasks s) (t, tr) \<Longrightarrow>
      \<exists>msg. replies s' = replies s @ [(t, tr, Inl msg)] \<and> queue s' = queue s"
proof -
  note b = sched_inv_bump [OF inv]
  have "sched_inv (Suc n) s' \<and> registered_tasks s' = registered_tasks s \<and> events s' = events s
    \<and> (if armed (registered_tasks s) (t, tr)
       then \<exists>task x m nn. map_of (registered_tasks s) t = Some task
        \<and> find (\<lambda>x. trigger_id x = tr) (triggers task) = Some x
        \<and> evaluate_next_occurrence E (draws orc m) (trigger_kind x) (clock orc m) = Ret nn
        \<and> replies s' = replies s @ [(t, tr, Inr nn)]
        \<and> ftimes (queue s') = (ftimes (queue s))((t, tr) := opt_mset nn)
       else \<exists>msg. replies s' = replies s @ [(t, tr, Inl msg)] \<and> queue s' = queue s)"
  proof (cases "armed (registered_tasks s) (t, tr)")
    case False
    then have "\<exists>msg. reroll_trigger E orc t tr s = Ret (Inl msg, queue s)"
      by (auto simp: reroll_trigger_def armed_def split: option.splits)
    then obtain msg where "s' = s\<lparr>replies := replies s @ [(t, tr, Inl msg)]\<rparr>"
      using r by (auto simp: handle_reroll_def)
    with False inv(1) show ?thesis by (auto simp: sched_inv_def intro: gens_below_mono)
  next
    case True
    then obtain task x where x: "map_of (registered_tasks s) t = Some task" "task_enabled task"
      "find (\<lambda>x. trigger_id x = tr) (triggers task) = Some x" "trigger_enabled x"
      by (auto simp: armed_def split: option.splits)
    then obtain nn q' where q': "reroll_queue (evaluations E orc) (clock orc) (trigger_kind x) t tr (queue s) = Ret (nn, q')"
      and s': "s' = s\<lparr>queue := q', replies := replies s @ [(t, tr, Inr nn)]\<rparr>"
      using r by (auto simp: handle_reroll_def reroll_trigger_def outcome_simps)
    note spec = reroll_queue_times [OF b queue_invD(2) [OF sched_invD(1) [OF inv(1)]] q']
    have "queue_inv (registered_tasks s) q'"
    proof (rule queue_invI [OF spec(3)])
      fix k
      show "size (ftimes q' k) \<le> 1"
        using queue_invD(2) [OF sched_invD(1) [OF inv(1)], of k] by (simp add: spec(1))
      show "ftimes q' k \<noteq> {#} \<Longrightarrow> armed (registered_tasks s) k"
        using queue_invD(3) [OF sched_invD(1) [OF inv(1)], of k] True
        by (auto simp: spec(1) split: if_splits)
    qed
    moreover have "gens_below (Suc (Suc n)) q'"
      by (rule gens_below_bump [OF sched_invD(3) [OF inv(1)] spec(4) b(2)])
    ultimately show ?thesis
      using True x s' spec(1,2) sched_invD(2) [OF inv(1)] by (auto simp: sched_inv_def evaluations_def)
  qed
  then show "sched_inv (Suc n) s'" and "registered_tasks s' = registered_tasks s" and "events s' = events s"
    and "armed (registered_tasks s) (t, tr) \<Longrightarrow>
      \<exists>task x m nn. map_of (registered_tasks s) t = Some task
        \<and> find (\<lambda>x. trigger_id x = tr) (triggers task) = Some x
        \<and> evaluate_next_occurrence E (draws orc m) (trigger_kind x) (clock orc m) = Ret nn
        \<and> replies s' = replies s @ [(t, tr, Inr nn)]
        \<and> ftimes (queue s') = (ftimes (queue s))((t, tr) := opt_mset nn)"
    and "\<not> armed (registered_tasks s) (t, tr) \<Longrightarrow>
      \<exists>msg. replies s' = replies s @ [(t, tr, Inl msg)] \<and> queue s' = queue s"
    by (simp_all split: if_splits)
qed

text \<open>The timer: the earliest item fires, and only its trigger's time changes.\<close>

lemma requeue_effect:
  assumes "requeue E orc reg item q = Ret q'" and "registry_ok reg" and "armed reg (item_key item)"
    and "generation item = current_generation q (item_task_id item)"
  shows "\<exists>task x nn. map_of reg (item_task_id item) = Some task
      \<and> find (\<lambda>x. trigger_id x = item_trigger_id item) (triggers task) = Some x
      \<and> evaluate_next_occurrence E (draws orc 0) (trigger_kind x) (clock orc 0) = Ret nn
      \<and> ftimes q' k = ftimes q k + (if k = item_key item then opt_mset nn else {#})"
    and "gens_ok q \<Longrightarrow> gens_ok q'" and "current_generation q' = current_generation q"
proof -
  obtain task x where x: "map_of reg (item_task_id item) = Some task" "task_enabled task"
    "find (\<lambda>x. trigger_id x = item_trigger_id item) (triggers task) = Some x" "trigger_enabled x"
    using assms(3) by (auto simp: armed_def item_key_def split: option.splits)
  have t: "task_id task = item_task_id item" using registry_okD [OF assms(2) x(1)] by simp
  have tx: "trigger_id x = item_trigger_id item" using find_Some_in [OF x(3)] by simp
  let ?push = "\<lambda>n. queue_push (ScheduledItem (item_task_id item) (item_trigger_id item) n (generation item)) q"
  obtain nn where nn: "evaluate_next_occurrence E (draws orc 0) (trigger_kind x) (clock orc 0) = Ret nn"
    and q': "q' = (case nn of Some n \<Rightarrow> ?push n | None \<Rightarrow> q)"
    using assms(1,4) x t tx
    by (cases "evaluate_next_occurrence E (draws orc 0) (trigger_kind x) (clock orc 0)")
       (auto simp: requeue_def Let_def evaluations_def split: option.splits)
  show "\<exists>task x nn. map_of reg (item_task_id item) = Some task
      \<and> find (\<lambda>x. trigger_id x = item_trigger_id item) (triggers task) = Some x
      \<and> evaluate_next_occurrence E (draws orc 0) (trigger_kind x) (clock orc 0) = Ret nn
      \<and> ftimes q' k = ftimes q k + (if k = item_key item then opt_mset nn else {#})"
  proof (intro exI conjI)
    show "map_of reg (item_task_id item) = Some task"
      "find (\<lambda>x. trigger_id x = item_trigger_id item) (triggers task) = Some x"
      "evaluate_next_occurrence E (draws orc 0) (trigger_kind x) (clock orc 0) = Ret nn"
      by fact+
    show "ftimes q' k = ftimes q k + (if k = item_key item then opt_mset nn else {#})"
      using q' assms(4)
      by (cases nn) (auto simp: ftimes_def queue_push_valid_items is_valid_iff item_key_def)
  qed
  show "gens_ok q \<Longrightarrow> gens_ok q'" using q' by (auto split: option.splits)
  show "current_generation q' = current_generation q"
    using q' by (intro ext) (auto split: option.splits)
qed

lemma ftimes_pop:
  assumes "fst (queue_pop q) = Some item"
  shows "ftimes (snd (queue_pop q)) k =
      (if k = item_key item then ftimes q k - {#next_fire_at item#} else ftimes q k)"
  using queue_pop_Some [OF assms] by (auto simp: ftimes_def itimes_minus)

lemma timer_effect:
  assumes inv: "sched_inv n s" and r: "handle_timer E orc s = Ret s'"
    and item: "fst (queue_pop (queue s)) = Some item"
  shows "\<exists>task x nn. map_of (registered_tasks s) (item_task_id item) = Some task
      \<and> find (\<lambda>x. trigger_id x = item_trigger_id item) (triggers task) = Some x
      \<and> evaluate_next_occurrence E (draws orc 0) (trigger_kind x) (clock orc 0) = Ret nn
      \<and> ftimes (queue s') = (ftimes (queue s))(item_key item := opt_mset nn)"
    and "events s' = events s @
      [\<lparr>ev_task_id = item_task_id item, ev_trigger_id = Some (item_trigger_id item),
        ev_scheduled_at = next_fire_at item\<rparr>]"
    and "ftimes (queue s) (item_key item) = {#next_fire_at item#}"
    and "\<And>k t. t \<in># ftimes (queue s) k \<Longrightarrow> next_fire_at item \<le> t"
    and "armed (registered_tasks s) (item_key item)"
    and "registered_tasks s' = registered_tasks s" and "sched_inv n s'"
proof -
  note qi = queue_invD [OF sched_invD(1) [OF inv]]
  note pop = queue_pop_Some [OF item]
  define q1 where "q1 = snd (queue_pop (queue s))"
  have mem: "next_fire_at item \<in># ftimes (queue s) (item_key item)"
    using pop(1) by (simp add: ftimes_def itimes_in)
  show single: "ftimes (queue s) (item_key item) = {#next_fire_at item#}"
    using mem qi(2) [of "item_key item"] by (auto dest!: multi_member_split)
  show "next_fire_at item \<le> t" if "t \<in># ftimes (queue s) k" for k t
    using that pop(2) by (auto simp: ftimes_def itimes_def dest: earlier_is_greater)
  show arm: "armed (registered_tasks s) (item_key item)" 
    by (rule qi(3)) (simp add: single)
  have valid: "generation item = current_generation q1 (item_task_id item)"
    using pop(1) by (simp add: q1_def valid_items_iff)
  obtain q2 where q2: "requeue E orc (registered_tasks s) item q1 = Ret q2"
    and s': "s' = s\<lparr>queue := q2, events := events s @
      [\<lparr>ev_task_id = item_task_id item, ev_trigger_id = Some (item_trigger_id item),
        ev_scheduled_at = next_fire_at item\<rparr>]\<rparr>"
    using r item unfolding handle_timer_def q1_def
    by (cases "queue_pop (queue s)") (auto simp: outcome_simps)
  note rq = requeue_effect [OF q2 sched_invD(2) [OF inv] arm valid]
  from rq(1) obtain task x nn where x:
    "map_of (registered_tasks s) (item_task_id item) = Some task"
    "find (\<lambda>x. trigger_id x = item_trigger_id item) (triggers task) = Some x"
    "evaluate_next_occurrence E (draws orc 0) (trigger_kind x) (clock orc 0) = Ret nn" by blast
  have f2: "ftimes q2 = (ftimes (queue s))(item_key item := opt_mset nn)"
  proof
    fix k
    have "ftimes q2 k = ftimes q1 k + (if k = item_key item then opt_mset nn else {#})"
      using rq(1) [of k] x by auto
    then show "ftimes q2 k = ((ftimes (queue s))(item_key item := opt_mset nn)) k"
      by (simp add: q1_def ftimes_pop [OF item] single)
  qed
  with x s' show "\<exists>task x nn. map_of (registered_tasks s) (item_task_id item) = Some task
      \<and> find (\<lambda>x. trigger_id x = item_trigger_id item) (triggers task) = Some x
      \<and> evaluate_next_occurrence E (draws orc 0) (trigger_kind x) (clock orc 0) = Ret nn
      \<and> ftimes (queue s') = (ftimes (queue s))(item_key item := opt_mset nn)"
    by auto
  show "events s' = events s @
      [\<lparr>ev_task_id = item_task_id item, ev_trigger_id = Some (item_trigger_id item),
        ev_scheduled_at = next_fire_at item\<rparr>]" "registered_tasks s' = registered_tasks s"
    using s' by simp_all
  have "queue_inv (registered_tasks s) q2"
  proof (rule queue_invI)
    show "gens_ok q2" using rq(2) queue_pop_gens_ok [OF qi(1)] by (simp add: q1_def)
    fix k
    show "size (ftimes q2 k) \<le> 1" using qi(2) [of k] by (simp add: f2)
    show "ftimes q2 k \<noteq> {#} \<Longrightarrow> armed (registered_tasks s) k"
      using qi(3) [of k] arm by (auto simp: f2 split: if_splits)
  qed
  moreover have "gens_below (Suc n) q2"
    using sched_invD(3) [OF inv] rq(3) by (simp add: gens_below_def q1_def)
  ultimately show "sched_inv n s'" using s' sched_invD(2) [OF inv] by (simp add: sched_inv_def)
qed

text \<open>The clock check: nothing changes, or everything is planned afresh.\<close>

lemma tick_effect:
  assumes inv: "sched_inv n s" and r: "handle_tick E orc s = Ret s'"
  shows "ftimes (queue s') k =
      (if clock_jumped orc s
       then opt_mset (rebuilt_time (evaluations E orc) (clock orc 1) 0 (registered_tasks s) k)
       else ftimes (queue s) k)"
    and "registered_tasks s' = registered_tasks s" and "events s' = events s" and "sched_inv n s'"
proof -
  note qi = queue_invD [OF sched_invD(1) [OF inv]]
  obtain q' where q': "(if clock_jumped orc s
      then rebuild (evaluations E orc) (clock orc 1) 0 (registered_tasks s) (queue_clear (queue s))
      else Ret (queue s)) = Ret q'"
    and s': "s' = s\<lparr>queue := q', last_wall := clock orc 2, last_instant := mono orc 1\<rparr>"
    using r by (auto simp: handle_tick_def outcome_simps)
  have f: "ftimes q' k =
      (if clock_jumped orc s
       then opt_mset (rebuilt_time (evaluations E orc) (clock orc 1) 0 (registered_tasks s) k)
       else ftimes (queue s) k)" for k
  proof (cases "clock_jumped orc s")
    case True
    have "distinct (map fst (registered_tasks s))" "\<forall>(t, task) \<in> set (registered_tasks s). task_id task = t"
      "\<forall>(t, task) \<in> set (registered_tasks s). distinct (map trigger_id (triggers task))"
      using sched_invD(2) [OF inv] by (auto simp: registry_ok_def)
    note rebuild_times [OF _ this, of "evaluations E orc" "clock orc 1" 0 "queue_clear (queue s)" q' k]
    with q' True show ?thesis by simp
  next
    case False
    with q' show ?thesis by simp
  qed
  then show "ftimes (queue s') k =
      (if clock_jumped orc s
       then opt_mset (rebuilt_time (evaluations E orc) (clock orc 1) 0 (registered_tasks s) k)
       else ftimes (queue s) k)" using s' by simp
  show "registered_tasks s' = registered_tasks s" "events s' = events s" using s' by simp_all
  have "gens_ok q' \<and> current_generation q' = current_generation (queue s)"
    using q' qi(1) rebuild_generation [of _ _ 0 "registered_tasks s"]
    by (fastforce split: if_splits)
  moreover have "queue_inv (registered_tasks s) q'"
  proof (rule queue_invI)
    show "gens_ok q'" using calculation by simp
    fix k
    show "size (ftimes q' k) \<le> 1" using qi(2) [of k] by (simp add: f)
    show "ftimes q' k \<noteq> {#} \<Longrightarrow> armed (registered_tasks s) k"
      using qi(3) [of k] by (auto simp: f opt_mset_nonempty dest: rebuilt_time_armed split: if_splits)
  qed
  ultimately show "sched_inv n s'"
    using s' sched_invD(2,3) [OF inv] by (simp add: sched_inv_def gens_below_def)
qed

section \<open>Every turn\<close>

lemma peeked_inv: "sched_inv n s \<Longrightarrow> sched_inv n (s\<lparr>queue := snd (peek_valid (queue s))\<rparr>)"
  by (auto simp: sched_inv_def queue_inv_def gens_below_def)

lemma sched_inv_Suc: "sched_inv n s \<Longrightarrow> sched_inv (Suc n) s"
  by (auto simp: sched_inv_def intro: gens_below_mono)

lemma turn_inv:
  assumes inv: "sched_inv n s" "n + 2 < 2 ^ 64" and d: "distinct_triggers inp"
    and en: "enabled_input inp s" and r: "sched_turn E orc inp s = Ret s'"
  shows "sched_inv (Suc n) s'"
proof -
  let ?s = "s\<lparr>queue := snd (peek_valid (queue s))\<rparr>"
  note inv' = peeked_inv [OF inv(1)] inv(2)
  show ?thesis
  proof (cases inp)
    case (Received cmd)
    with r have "handle_command E orc cmd ?s = Ret s'" by (simp add: sched_turn_def)
    then show ?thesis
      using add_task_effect(2) [OF inv'] remove_task_effect(2) [OF inv'] reroll_effect(1) [OF inv']
        sched_inv_Suc [OF inv'(1)] d Received
      by (cases cmd) (auto simp: handle_trigger_now_def sched_inv_def)
  next
    case CommandChannelClosed
    with r sched_inv_Suc [OF inv'(1)] show ?thesis by (auto simp: sched_turn_def sched_inv_def)
  next
    case TimerElapsed
    with en obtain item where "fst (queue_pop (queue s)) = Some item"
      by (auto simp: enabled_input_def peek_valid_pop)
    then obtain item' where "fst (queue_pop (queue ?s)) = Some item'"
      using queue_pop_None [of "queue ?s"] queue_pop_Some(1) [of "queue s" item]
      by (cases "fst (queue_pop (queue ?s))") auto
    with r TimerElapsed timer_effect(7) [OF inv'(1)] show ?thesis
      by (auto simp: sched_turn_def intro: sched_inv_Suc)
  next
    case ClockTick
    with r tick_effect(4) [OF inv'(1)] show ?thesis
      by (auto simp: sched_turn_def intro: sched_inv_Suc)
  qed
qed

lemma initial_inv: "sched_inv 0 (initial_sched orc)"
  by (simp add: sched_inv_def initial_sched_def queue_inv_def gens_ok_def empty_queue_def ftimes_def
      valid_items_def registry_ok_def gens_below_def current_generation_def)

lemma reaches_inv:
  "sched_reaches E distinct_triggers n s \<Longrightarrow> n < 2 ^ 64 - 2 \<Longrightarrow> sched_inv n s"
  by (induction rule: sched_reaches.induct) (simp_all add: initial_inv turn_inv)

section \<open>Runs without a task\<close>

text \<open>A turn that does not add \<open>t\<close> keeps it unregistered and sends no timed event for it.\<close>

lemma turn_without_task:
  assumes inv: "sched_inv n s" "n + 2 < 2 ^ 64" and no: "map_of (registered_tasks s) t = None"
    and en: "enabled_input inp s" and d: "distinct_triggers inp"
    and other: "\<forall>task. inp = Received (AddTask task) \<longrightarrow> task_id task \<noteq> t"
    and r: "sched_turn E orc inp s = Ret s'"
  shows "map_of (registered_tasks s') t = None"
    and "\<exists>es. events s' = events s @ es
           \<and> list_all (\<lambda>e. ev_task_id e = t \<longrightarrow> ev_trigger_id e = None) es"
proof -
  let ?s = "s\<lparr>queue := snd (peek_valid (queue s))\<rparr>"
  note inv' = peeked_inv [OF inv(1)] inv(2)
  have "map_of (registered_tasks s') t = None
    \<and> (\<exists>es. events s' = events s @ es
         \<and> list_all (\<lambda>e. ev_task_id e = t \<longrightarrow> ev_trigger_id e = None) es)"
  proof (cases inp)
    case (Received cmd)
    with r have c: "handle_command E orc cmd ?s = Ret s'" by (simp add: sched_turn_def)
    then show ?thesis
      using add_task_effect(3,4) [OF inv'] reroll_effect(2,3) [OF inv'] d other no Received
      by (cases cmd)
         (auto simp: handle_trigger_now_def handle_remove_task_def update_conv' delete_conv')
  next
    case CommandChannelClosed
    with r no show ?thesis by (auto simp: sched_turn_def)
  next
    case ClockTick
    with r no tick_effect(2,3) [OF inv'(1)] show ?thesis by (auto simp: sched_turn_def)
  next
    case TimerElapsed
    with en obtain item where item: "fst (queue_pop (queue ?s)) = Some item"
      using queue_pop_None [of "queue ?s"] queue_pop_Some(1) [of "queue s"]
      by (cases "fst (queue_pop (queue ?s))") (auto simp: enabled_input_def peek_valid_pop)
    have h: "handle_timer E orc ?s = Ret s'" using r TimerElapsed by (simp add: sched_turn_def)
    note eff = timer_effect(2,5,6) [OF inv'(1) h item]
    have "item_task_id item \<noteq> t" using eff(2) no by (auto simp: armed_def item_key_def)
    with eff no show ?thesis by simp
  qed
  then show "map_of (registered_tasks s') t = None"
    and "\<exists>es. events s' = events s @ es
           \<and> list_all (\<lambda>e. ev_task_id e = t \<longrightarrow> ev_trigger_id e = None) es"
    by blast+
qed

lemma run_without_task:
  assumes "sched_run E s inps s'" and "sched_inv n s" and "n + length inps < 2 ^ 64 - 2"
    and "map_of (registered_tasks s) t = None" and "list_all distinct_triggers inps"
    and "list_all (\<lambda>inp. \<forall>task. inp = Received (AddTask task) \<longrightarrow> task_id task \<noteq> t) inps"
  shows "\<exists>es. events s' = events s @ es
     \<and> list_all (\<lambda>e. ev_task_id e = t \<longrightarrow> ev_trigger_id e = None) es"
  using assms
proof (induction arbitrary: n rule: sched_run.induct)
  case (run_nil s)
  then show ?case by simp
next
  case (run_step inp s orc s1 inps s')
  have n: "n + 2 < 2 ^ 64" using run_step.prems(2) by simp
  have d: "distinct_triggers inp" and o: "\<forall>task. inp = Received (AddTask task) \<longrightarrow> task_id task \<noteq> t"
    using run_step.prems(4,5) by simp_all
  note t = turn_without_task [OF run_step.prems(1) n run_step.prems(3) run_step.hyps(1) d o run_step.hyps(2)]
  have "sched_inv (Suc n) s1"
    by (rule turn_inv [OF run_step.prems(1) n d run_step.hyps(1,2)])
  then obtain es where es: "events s' = events s1 @ es"
    "list_all (\<lambda>e. ev_task_id e = t \<longrightarrow> ev_trigger_id e = None) es"
    using run_step.IH [of "Suc n"] run_step.prems t(1) by auto
  from t(2) obtain es1 where "events s1 = events s @ es1"
    "list_all (\<lambda>e. ev_task_id e = t \<longrightarrow> ev_trigger_id e = None) es1" by blast
  with es show ?case by (intro exI [of _ "es1 @ es"]) simp
qed

section \<open>Panics\<close>

lemma push_triggers_panics:
  assumes "x \<in> set trs" and "trigger_enabled x"
    and "\<And>i now. ev i (trigger_kind x) now = Panic"
  shows "push_triggers ev now t gen i trs q = Panic"
  using assms(1)
proof (induction trs arbitrary: i q)
  case Nil
  then show ?case by simp
next
  case (Cons a trs)
  show ?case
  proof (cases "x = a")
    case True
    with assms(2,3) show ?thesis by simp
  next
    case False
    with Cons have "push_triggers ev now t gen i trs q = Panic" for i q by simp
    then show ?thesis by (cases "ev i (trigger_kind a) (now i)") simp_all
  qed
qed

end
