(* ===== verification/Scheduler_Props.thy ===== *)
theory Scheduler_Props
  imports Scheduler_Inv Evaluator_Props
begin

text \<open>
  The properties of the schedule queue and of the scheduler loop, and a small concrete run on
  which each is applied.
\<close>

section \<open>A concrete run\<close>

text \<open>One task with a \<open>Once\<close> trigger at 10 s and an hourly interval, registered at time 0.\<close>

definition demo_trigger :: trigger where
  "demo_trigger =
     \<lparr>trigger_id = TriggerId 1, trigger_task_id = TaskId 7, trigger_enabled = True,
      trigger_kind = Once (10 * sec_ns), trigger_created_at = 0, trigger_updated_at = 0\<rparr>"

definition demo_interval :: trigger where
  "demo_interval =
     \<lparr>trigger_id = TriggerId 2, trigger_task_id = TaskId 7, trigger_enabled = True,
      trigger_kind = Interval 3600 (Some 0), trigger_created_at = 0, trigger_updated_at = 0\<rparr>"

definition demo_task :: task where
  "demo_task =
     \<lparr>task_id = TaskId 7, task_name = ''demo'', task_description = None, task_enabled = True,
      triggers = [demo_trigger, demo_interval], actions = [],
      execution_policy = default_execution_policy, working_directory = None, environment = [],
      task_version = 1, task_created_at = 0, task_updated_at = 0\<rparr>"

definition demo_at :: "instant \<Rightarrow> readings" where
  "demo_at now = \<lparr>clock = (\<lambda>_. now), mono = (\<lambda>_. 0), draws = (\<lambda>_ _ _. 0)\<rparr>"

definition demo_items :: "scheduled_item list" where
  "demo_items =
     [ScheduledItem (TaskId 7) (TriggerId 1) (10 * sec_ns) 2,
      ScheduledItem (TaskId 7) (TriggerId 2) (3600 * sec_ns) 2]"

definition demo_state :: sched where
  "demo_state = (initial_sched (demo_at 0))\<lparr>
     queue := \<lparr>heap = demo_items, generations = [TaskId 7 \<mapsto> 2]\<rparr>,
     registered_tasks := [(TaskId 7, demo_task)]\<rparr>"

lemmas demo_defs = demo_trigger_def demo_interval_def demo_task_def demo_at_def demo_items_def
  demo_state_def initial_sched_def empty_queue_def

lemma demo_interval_eval:
  "next_interval utc_env 3600 (Some 0) 0 = Ret (Some (3600 * sec_ns))"
  by (simp add: next_interval_def as_i64_small duration_seconds_def dt_add_def num_seconds_def
      i64_div_def i64_mul_small utc_env_simps sec_ns_def)

lemma demo_add:
  "handle_add_task utc_env (demo_at 0) demo_task (initial_sched (demo_at 0)) = Ret demo_state"
  by (simp add: handle_add_task_def demo_defs evaluations_def bump_generation_def queue_push_def
      or_insert_def heap_push_def demo_interval_eval Let_def sec_ns_def)

lemma demo_peek: "peek_loop V [] = (None, [])"
  by (subst peek_loop.simps) simp

lemma demo_turn:
  "sched_turn utc_env (demo_at 0) (Received (AddTask demo_task)) (initial_sched (demo_at 0))
     = Ret demo_state"
proof -
  have "(initial_sched (demo_at 0))\<lparr>queue := snd (peek_valid (queue (initial_sched (demo_at 0))))\<rparr>
      = initial_sched (demo_at 0)"
    by (simp add: initial_sched_def peek_valid_def empty_queue_def demo_peek)
  then show ?thesis by (simp add: sched_turn_def demo_add)
qed

lemma demo_reached: "sched_reaches utc_env distinct_triggers (Suc 0) demo_state"
  by (rule sched_reaches.turn [OF sched_reaches.start [of _ _ "demo_at 0"] _ _ demo_turn])
     (simp_all add: enabled_input_def demo_defs)

lemma demo_valid: "valid_items (queue demo_state) = mset demo_items"
  by (simp add: valid_items_def demo_defs is_valid_def)

section \<open>The queue\<close>

text \<open>\<open>pop\<close> returns a valid item with the earliest fire time and removes exactly it from the
  valid items, or nothing when no valid item is left; \<open>peek_valid\<close> shows the same item and
  loses no valid one.\<close>

theorem queue_pop_earliest_valid:
  "fst (peek_valid q) = fst (queue_pop q) \<and> valid_items (snd (peek_valid q)) = valid_items q
   \<and> (case fst (queue_pop q) of
        None \<Rightarrow> valid_items q = {#}
      | Some item \<Rightarrow> item \<in># valid_items q
          \<and> (\<forall>i \<in># valid_items q. next_fire_at item \<le> next_fire_at i)
          \<and> valid_items (snd (queue_pop q)) = valid_items q - {#item#})"
  using queue_pop_None [of q] queue_pop_Some [of q] earlier_is_greater
  by (auto simp: peek_valid_pop split: option.splits)

lemma queue_pop_earliest_valid_witness:
  "case fst (queue_pop (queue demo_state)) of
      None \<Rightarrow> False
    | Some item \<Rightarrow> \<forall>i \<in> set demo_items. next_fire_at item \<le> next_fire_at i"
  using queue_pop_earliest_valid [of "queue demo_state"]
  by (auto simp: demo_valid split: option.splits) (simp_all add: demo_items_def)

text \<open>\<open>bump_generation\<close> makes every queued item of its task stale, for good, and leaves the
  valid items of every other task as they are.\<close>

theorem bump_invalidates_only_its_task:
  assumes "gens_ok q" and "unat (current_generation q t) < 2 ^ 64 - 1"
  shows "valid_items (snd (bump_generation t q)) = filter_mset (\<lambda>i. item_task_id i \<noteq> t) (valid_items q)
     \<and> gens_ok (snd (bump_generation t q))"
  using bump_valid_items [OF assms(1)] bump_gens_ok [OF assms(1)] assms(2) by simp

lemma bump_invalidates_only_its_task_witness:
  "valid_items (snd (bump_generation (TaskId 7) (queue demo_state)))
     = filter_mset (\<lambda>i. item_task_id i \<noteq> TaskId 7) (mset demo_items)
   \<and> gens_ok (snd (bump_generation (TaskId 7) (queue demo_state)))"
  unfolding demo_valid [symmetric]
  by (rule bump_invalidates_only_its_task) (simp_all add: gens_ok_def demo_defs current_generation_def)

section \<open>The scheduler\<close>

text \<open>C2. In every state the scheduler loop reaches, each valid item of the queue belongs to an
  enabled trigger of a registered, enabled task, and no trigger has two valid items.\<close>

theorem scheduler_queue_invariant:
  assumes "sched_reaches E distinct_triggers n s" and "n < 2 ^ 64 - 2"
    and "item \<in># valid_items (queue s)"
  shows "armed (registered_tasks s) (item_key item)
     \<and> filter_mset (\<lambda>i. item_key i = item_key item) (valid_items (queue s)) = {#item#}"
proof -
  note q = queue_invD(2,3) [OF sched_invD(1) [OF reaches_inv [OF assms(1,2)]], of "item_key item"]
  have mem: "item \<in># filter_mset (\<lambda>i. item_key i = item_key item) (valid_items (queue s))"
    using assms(3) by simp
  moreover have "size (filter_mset (\<lambda>i. item_key i = item_key item) (valid_items (queue s))) \<le> 1"
    using q(1) by (simp add: ftimes_def itimes_def)
  ultimately have "filter_mset (\<lambda>i. item_key i = item_key item) (valid_items (queue s)) = {#item#}"
    by (auto dest!: multi_member_split)
  moreover from this have "ftimes (queue s) (item_key item) \<noteq> {#}" by (simp add: ftimes_def itimes_def)
  ultimately show ?thesis using q(2) by simp
qed

lemma scheduler_queue_invariant_witness:
  "armed (registered_tasks demo_state) (item_key (hd demo_items))
   \<and> filter_mset (\<lambda>i. item_key i = item_key (hd demo_items)) (valid_items (queue demo_state))
       = {#hd demo_items#}"
  by (rule scheduler_queue_invariant [OF demo_reached]) (simp_all add: demo_valid demo_items_def)

text \<open>C10. Adding (or updating) a task replaces its rows of the timetable by the fresh evaluations
  of its enabled triggers, none if the task is disabled, and touches no other task's.\<close>

theorem add_task_timetable:
  assumes "sched_reaches E distinct_triggers n s" and "n < 2 ^ 64 - 2"
    and "distinct (map trigger_id (triggers task))"
    and "handle_add_task E orc task s = Ret s'"
  shows "next_fire_by_trigger (queue s') =
     (\<lambda>k. if fst k = task_id task
          then (if task_enabled task
                then planned_time (evaluations E orc) (clock orc) 0 (triggers task) (snd k)
                else None)
          else next_fire_by_trigger (queue s) k)"
  using add_task_effect(1) [OF reaches_inv [OF assms(1,2)] _ assms(3,4)] assms(2)
  by (intro ext) (simp add: timetable_times)

lemma add_task_timetable_witness:
  "next_fire_by_trigger (queue demo_state) =
     (\<lambda>k. if fst k = task_id demo_task
          then (if task_enabled demo_task
                then planned_time (evaluations utc_env (demo_at 0)) (clock (demo_at 0)) 0
                       (triggers demo_task) (snd k)
                else None)
          else next_fire_by_trigger (queue (initial_sched (demo_at 0))) k)"
  by (rule add_task_timetable [OF sched_reaches.start _ _ demo_add])
     (simp_all add: demo_task_def demo_trigger_def demo_interval_def)

text \<open>C11. Rerolling a trigger changes its own row of the timetable only, to the fresh evaluation
  that is also the answer; for an unknown, disabled or missing trigger the answer is an error
  and the queue stays as it is.\<close>

theorem reroll_changes_its_trigger_only:
  assumes "sched_reaches E distinct_triggers n s" and "n < 2 ^ 64 - 2"
    and "handle_reroll E orc t tr s = Ret s'"
  shows "if armed (registered_tasks s) (t, tr)
     then \<exists>task x m nn. map_of (registered_tasks s) t = Some task
       \<and> find (\<lambda>x. trigger_id x = tr) (triggers task) = Some x
       \<and> evaluate_next_occurrence E (draws orc m) (trigger_kind x) (clock orc m) = Ret nn
       \<and> replies s' = replies s @ [(t, tr, Inr nn)]
       \<and> next_fire_by_trigger (queue s') = (next_fire_by_trigger (queue s))((t, tr) := nn)
     else \<exists>msg. replies s' = replies s @ [(t, tr, Inl msg)] \<and> queue s' = queue s"
proof -
  have "next_fire_by_trigger (queue s') = (next_fire_by_trigger (queue s))((t, tr) := nn)"
    if "ftimes (queue s') = (ftimes (queue s))((t, tr) := opt_mset nn)" for nn
    using fun_cong [OF that] by (intro ext) (simp add: timetable_times)
  moreover have "n + 2 < 2 ^ 64" using assms(2) by simp
  note reroll_effect(4,5) [OF reaches_inv [OF assms(1,2)] this assms(3)]
  ultimately show ?thesis by (auto; blast)
qed

lemma demo_reroll_runs:
  "\<exists>s'. handle_reroll utc_env (demo_at (5 * sec_ns)) (TaskId 7) (TriggerId 1) demo_state = Ret s'"
  by (simp add: handle_reroll_def reroll_trigger_def reroll_queue_def take_task_items_def
      split_task_spec bump_generation_def current_generation_def evaluations_def demo_defs Let_def
      or_insert_def sec_ns_def)

lemma reroll_changes_its_trigger_only_witness:
  "\<exists>s' :: sched. if armed (registered_tasks demo_state) (TaskId 7, TriggerId 1)
     then \<exists>task x m nn. map_of (registered_tasks demo_state) (TaskId 7) = Some task
       \<and> find (\<lambda>x. trigger_id x = TriggerId 1) (triggers task) = Some x
       \<and> evaluate_next_occurrence utc_env (draws (demo_at (5 * sec_ns)) m) (trigger_kind x)
           (clock (demo_at (5 * sec_ns)) m) = Ret nn
       \<and> replies s' = replies demo_state @ [(TaskId 7, TriggerId 1, Inr nn)]
       \<and> next_fire_by_trigger (queue s')
           = (next_fire_by_trigger (queue demo_state))((TaskId 7, TriggerId 1) := nn)
     else \<exists>msg. replies s' = replies demo_state @ [(TaskId 7, TriggerId 1, Inl msg)]
       \<and> queue s' = queue demo_state"
proof -
  from demo_reroll_runs obtain s' where
    s': "handle_reroll utc_env (demo_at (5 * sec_ns)) (TaskId 7) (TriggerId 1) demo_state = Ret s'"
    by blast
  have "Suc 0 < 2 ^ 64 - (2 :: nat)" by simp
  from reroll_changes_its_trigger_only [OF demo_reached this s'] show ?thesis by (rule exI [of _ s'])
qed

text \<open>C9. Once a task is removed, none of its triggers fires again until it is added back: every
  later event for it is a manual one.\<close>

theorem removed_task_never_fires:
  assumes "sched_reaches E distinct_triggers n s" and "n + length inps + 1 < 2 ^ 64 - 2"
    and "sched_run E (handle_remove_task t s) inps s'"
    and "list_all distinct_triggers inps"
    and "list_all (\<lambda>inp. \<forall>task. inp = Received (AddTask task) \<longrightarrow> task_id task \<noteq> t) inps"
  shows "\<exists>es. events s' = events s @ es
     \<and> list_all (\<lambda>e. ev_task_id e = t \<longrightarrow> ev_trigger_id e = None) es"
proof -
  have "sched_inv (Suc n) (handle_remove_task t s)"
    using remove_task_effect(2) [OF reaches_inv [OF assms(1)]] assms(2) by simp
  moreover have "map_of (registered_tasks (handle_remove_task t s)) t = None"
    by (simp add: handle_remove_task_def delete_conv')
  moreover have "events (handle_remove_task t s) = events s" by (simp add: handle_remove_task_def)
  ultimately show ?thesis
    using run_without_task [OF assms(3), of "Suc n" t] assms(2,4,5) by simp
qed

text \<open>The demo task is removed while two of its times are planned; the commands that follow are still served.\<close>

lemma trigger_now_turn: "\<exists>q. sched_turn E orc (Received (TriggerNow t)) s = Ret (handle_trigger_now orc t (s\<lparr>queue := q\<rparr>))"
  by (auto simp: sched_turn_def Let_def)

lemma removed_task_never_fires_witness:
  "\<exists>s' :: sched. \<exists>es. sched_run utc_env (handle_remove_task (TaskId 7) demo_state)
         [Received (TriggerNow (TaskId 7)), Received (TriggerNow (TaskId 8))] s'
     \<and> events s' = events demo_state @ es \<and> length es = 2
     \<and> list_all (\<lambda>e. ev_task_id e = TaskId 7 \<longrightarrow> ev_trigger_id e = None) es"
proof -
  let ?s = "handle_remove_task (TaskId 7) demo_state" and ?o = "demo_at (20 * sec_ns)"
  obtain q1 where t1: "sched_turn utc_env ?o (Received (TriggerNow (TaskId 7))) ?s
      = Ret (handle_trigger_now ?o (TaskId 7) (?s\<lparr>queue := q1\<rparr>))" using trigger_now_turn by blast
  let ?s1 = "handle_trigger_now ?o (TaskId 7) (?s\<lparr>queue := q1\<rparr>)"
  obtain q2 where t2: "sched_turn utc_env ?o (Received (TriggerNow (TaskId 8))) ?s1
      = Ret (handle_trigger_now ?o (TaskId 8) (?s1\<lparr>queue := q2\<rparr>))" using trigger_now_turn by blast
  let ?s2 = "handle_trigger_now ?o (TaskId 8) (?s1\<lparr>queue := q2\<rparr>)"
  have up: "enabled_input (Received c) ?s" "enabled_input (Received c) ?s1" for c
    by (simp_all add: enabled_input_def handle_remove_task_def handle_trigger_now_def demo_state_def initial_sched_def)
  have run: "sched_run utc_env ?s [Received (TriggerNow (TaskId 7)), Received (TriggerNow (TaskId 8))] ?s2"
    by (rule run_step [OF up(1) t1 run_step [OF up(2) t2 run_nil]])
  have "length (events ?s2) = length (events demo_state) + 2"
    by (simp add: handle_remove_task_def handle_trigger_now_def)
  with removed_task_never_fires [OF demo_reached _ run] run show ?thesis by (intro exI [of _ ?s2]) auto
qed

lemma earliest_in: "earliest M = Some t \<Longrightarrow> t \<in># M"
  by (auto simp: earliest_def split: if_splits)

text \<open>C3. The timer branch sends the event of the earliest entry of the timetable, with its planned
  time, and replaces only that entry, by the trigger's evaluation at the current clock reading.\<close>

theorem timer_fires_the_earliest:
  assumes "sched_reaches E distinct_triggers n s" and "n < 2 ^ 64 - 2"
    and "fst (queue_pop (queue s)) = Some item" and "handle_timer E orc s = Ret s'"
  shows "next_fire_by_trigger (queue s) (item_key item) = Some (next_fire_at item)
     \<and> (\<nexists>k t. next_fire_by_trigger (queue s) k = Some t \<and> t < next_fire_at item)
     \<and> events s' = events s @
         [\<lparr>ev_task_id = item_task_id item, ev_trigger_id = Some (item_trigger_id item),
           ev_scheduled_at = next_fire_at item\<rparr>]
     \<and> (\<exists>task x nn. map_of (registered_tasks s) (item_task_id item) = Some task
          \<and> find (\<lambda>x. trigger_id x = item_trigger_id item) (triggers task) = Some x
          \<and> evaluate_next_occurrence E (draws orc 0) (trigger_kind x) (clock orc 0) = Ret nn
          \<and> next_fire_by_trigger (queue s') = (next_fire_by_trigger (queue s))(item_key item := nn))"
proof -
  note eff = timer_effect [OF reaches_inv [OF assms(1,2)] assms(4,3)]
  have tt: "next_fire_by_trigger (queue s') = (next_fire_by_trigger (queue s))(item_key item := nn)"
    if "ftimes (queue s') = (ftimes (queue s))(item_key item := opt_mset nn)" for nn
    using fun_cong [OF that] by (intro ext) (simp add: timetable_times)
  have "\<not> t < next_fire_at item" if "next_fire_by_trigger (queue s) k = Some t" for k t
    using eff(4) [of t k] that by (auto simp: timetable_times dest!: earliest_in)
  moreover have "next_fire_by_trigger (queue s) (item_key item) = Some (next_fire_at item)"
    by (simp add: timetable_times eff(3))
  ultimately show ?thesis using eff(1,2) tt by blast
qed

lemma demo_pop_loop:
  assumes "is_valid q x" and "heap_pop (heap q) = Some (x, h)"
  shows "queue_pop q = (Some x, q\<lparr>heap := h\<rparr>)"
proof -
  have "pop_loop (is_valid q) (heap q) = (Some x, h)"
    by (subst pop_loop.simps) (simp add: assms)
  then show ?thesis by (simp add: queue_pop_def)
qed

lemma demo_pop:
  "queue_pop (queue demo_state) =
     (Some (hd demo_items), (queue demo_state)\<lparr>heap := tl demo_items\<rparr>)"
  by (rule demo_pop_loop)
     (simp_all add: demo_defs is_valid_def max_def less_eq_scheduled_item_def less_scheduled_item_def
        item_before_def sec_ns_def)

definition demo_fired :: sched where
  "demo_fired = demo_state\<lparr>queue := (queue demo_state)\<lparr>heap := tl demo_items\<rparr>,
     events := [\<lparr>ev_task_id = TaskId 7, ev_trigger_id = Some (TriggerId 1),
                 ev_scheduled_at = 10 * sec_ns\<rparr>]\<rparr>"

lemma demo_fires: "handle_timer utc_env (demo_at (10 * sec_ns)) demo_state = Ret demo_fired"
  unfolding handle_timer_def demo_pop
  by (simp add: requeue_def evaluations_def current_generation_def demo_fired_def demo_defs)

lemma timer_fires_the_earliest_witness:
  "next_fire_by_trigger (queue demo_state) (item_key (hd demo_items)) = Some (next_fire_at (hd demo_items))
   \<and> (\<nexists>k t. next_fire_by_trigger (queue demo_state) k = Some t \<and> t < next_fire_at (hd demo_items))
   \<and> events demo_fired = events demo_state @
       [\<lparr>ev_task_id = item_task_id (hd demo_items), ev_trigger_id = Some (item_trigger_id (hd demo_items)),
         ev_scheduled_at = next_fire_at (hd demo_items)\<rparr>]
   \<and> (\<exists>task x nn. map_of (registered_tasks demo_state) (item_task_id (hd demo_items)) = Some task
        \<and> find (\<lambda>x. trigger_id x = item_trigger_id (hd demo_items)) (triggers task) = Some x
        \<and> evaluate_next_occurrence utc_env (draws (demo_at (10 * sec_ns)) 0) (trigger_kind x)
            (clock (demo_at (10 * sec_ns)) 0) = Ret nn
        \<and> next_fire_by_trigger (queue demo_fired)
            = (next_fire_by_trigger (queue demo_state))(item_key (hd demo_items) := nn))"
  by (rule timer_fires_the_earliest [OF demo_reached _ _ demo_fires]) (simp_all add: demo_pop)

text \<open>A trigger that has just fired is planned strictly after the clock reading at which it was
  evaluated: the loop cannot fire it again at the same instant (for sane kinds, see the
  interval properties).\<close>

theorem fired_trigger_is_planned_later:
  assumes "sched_reaches E distinct_triggers n s" and "n < 2 ^ 64 - 2" and "chrono_ok E"
    and "in_range E (clock orc 0)"
    and "\<And>task x. map_of (registered_tasks s) (item_task_id item) = Some task \<Longrightarrow>
           x \<in> set (triggers task) \<Longrightarrow> sane_kind E (trigger_kind x)"
    and "fst (queue_pop (queue s)) = Some item" and "handle_timer E orc s = Ret s'"
    and "next_fire_by_trigger (queue s') (item_key item) = Some t"
  shows "clock orc 0 < t"
proof -
  note eff = timer_effect [OF reaches_inv [OF assms(1,2)] assms(7,6)]
  from eff(1) obtain task x nn where x: "map_of (registered_tasks s) (item_task_id item) = Some task"
    "find (\<lambda>x. trigger_id x = item_trigger_id item) (triggers task) = Some x"
    "evaluate_next_occurrence E (draws orc 0) (trigger_kind x) (clock orc 0) = Ret nn"
    "ftimes (queue s') = (ftimes (queue s))(item_key item := opt_mset nn)" by blast
  have "nn = Some t" using assms(8) x(4) by (simp add: timetable_times)
  moreover have "sane_kind E (trigger_kind x)" using assms(5) [OF x(1)] find_Some_in [OF x(2)] by simp
  ultimately show ?thesis using evaluate_future [OF assms(3,4)] x(3) by blast
qed

definition demo_refired :: sched where
  "demo_refired = demo_fired\<lparr>queue := (queue demo_state)\<lparr>heap := tl demo_items @ [hd demo_items]\<rparr>\<rparr>"

lemma demo_refires: "handle_timer utc_env (demo_at (5 * sec_ns)) demo_state = Ret demo_refired"
  unfolding handle_timer_def demo_pop
  by (simp add: requeue_def evaluations_def current_generation_def demo_refired_def demo_fired_def
      demo_defs queue_push_def or_insert_def heap_push_def sec_ns_def Let_def)

lemma fired_trigger_is_planned_later_witness: "clock (demo_at (5 * sec_ns)) 0 < 10 * sec_ns"
proof (rule fired_trigger_is_planned_later [OF demo_reached _ utc_env_ok _ _ _ demo_refires])
  show "fst (queue_pop (queue demo_state)) = Some (hd demo_items)" by (simp add: demo_pop)
  show "next_fire_by_trigger (queue demo_refired) (item_key (hd demo_items)) = Some (10 * sec_ns)"
    by (simp add: next_fire_by_trigger_def demo_refired_def demo_defs item_key_def is_valid_def)
  show "sane_kind utc_env (trigger_kind x)"
    if "map_of (registered_tasks demo_state) (item_task_id (hd demo_items)) = Some task"
      "x \<in> set (triggers task)" for task x
    using that by (auto simp: demo_defs utc_env_simps sec_ns_def)
qed (simp_all add: demo_at_def utc_env_simps sec_ns_def)

text \<open>The loop sleeps exactly until the earliest valid item is due, never past any other, and not at
  all when one is overdue.\<close>

theorem sleeps_until_the_earliest:
  "case fst (peek_valid q) of
     None \<Rightarrow> valid_items q = {#}
   | Some item \<Rightarrow>
       item \<in># valid_items q
       \<and> now + sleep_duration (Some item) now = max now (next_fire_at item)
       \<and> (\<forall>i \<in># valid_items q. now + sleep_duration (Some item) now \<le> max now (next_fire_at i))"
proof (cases "fst (queue_pop q)")
  case None
  with queue_pop_None [of q] show ?thesis by (simp add: peek_valid_pop)
next
  case (Some item)
  have d: "now + sleep_duration (Some item) now = max now (next_fire_at item)"
    by (simp add: sleep_duration_def)
  have "max now (next_fire_at item) \<le> max now (next_fire_at i)" if "i \<in># valid_items q" for i
    using earlier_is_greater [OF queue_pop_Some(2) [OF Some that]] by simp
  with Some queue_pop_Some(1) [OF Some] d show ?thesis by (simp add: peek_valid_pop)
qed

lemma sleeps_until_the_earliest_witness:
  "\<exists>item. fst (peek_valid (queue demo_state)) = Some item
     \<and> 3 + sleep_duration (Some item) 3 = max 3 (next_fire_at item)"
  using sleeps_until_the_earliest [of "queue demo_state" 3]
  by (simp add: peek_valid_pop demo_pop)

text \<open>C12. When the wall clock and the monotonic clock have drifted apart by more than 30 s, the
  clock check plans every enabled trigger of every registered enabled task afresh at the new
  time; otherwise it leaves the timetable alone.\<close>

theorem clock_check_rebuilds:
  assumes "sched_reaches E distinct_triggers n s" and "n < 2 ^ 64 - 2" and "handle_tick E orc s = Ret s'"
  shows "next_fire_by_trigger (queue s') =
     (if clock_jumped orc s
      then rebuilt_time (evaluations E orc) (clock orc 1) 0 (registered_tasks s)
      else next_fire_by_trigger (queue s))
     \<and> last_wall s' = clock orc 2 \<and> registered_tasks s' = registered_tasks s"
proof -
  note eff = tick_effect [OF reaches_inv [OF assms(1,2)] assms(3)]
  have "last_wall s' = clock orc 2" using assms(3) by (auto simp: handle_tick_def outcome_simps)
  with eff show ?thesis by (auto simp: timetable_times)
qed

text \<open>A one-shot trigger that fell due while the clock jumped over it (a resume from sleep) is dropped
  by the rebuild: it was in the timetable before, it is not afterwards, and no event was sent,
  although the default policy for missed runs is \<open>RunOnce\<close>.\<close>

theorem overdue_once_is_lost_on_clock_jump:
  assumes "sched_reaches E distinct_triggers n s" and "n < 2 ^ 64 - 2" and "handle_tick E orc s = Ret s'"
    and "clock_jumped orc s"
    and "map_of (registered_tasks s) t = Some task" and "x \<in> set (triggers task)"
    and "trigger_kind x = Once f" and "f \<le> clock orc 1"
  shows "next_fire_by_trigger (queue s') (t, trigger_id x) = None \<and> events s' = events s"
proof -
  note inv = reaches_inv [OF assms(1,2)]
  note eff = tick_effect [OF inv assms(3)]
  have d: "distinct (map trigger_id (triggers task))"
    using registry_okD [OF sched_invD(2) [OF inv] assms(5)] by simp
  have "rebuilt_time (evaluations E orc) (clock orc 1) 0 (registered_tasks s) (t, trigger_id x) = None"
  proof (rule ccontr)
    assume "\<not> ?thesis"
    then obtain u where "rebuilt_time (evaluations E orc) (clock orc 1) 0 (registered_tasks s) (t, trigger_id x) = Some u"
      by blast
    from rebuilt_time_eval [OF this] assms(5) find_distinct_key [OF d assms(6)] assms(7,8)
    show False by (auto simp: evaluations_def split: if_splits)
  qed
  with eff(1,3) assms(4) show ?thesis by (simp add: timetable_times)
qed

definition demo_resume :: readings where
  "demo_resume = \<lparr>clock = (\<lambda>_. 1000 * sec_ns), mono = (\<lambda>_. 0), draws = (\<lambda>_ _ _. 0)\<rparr>"

lemma demo_resume_runs: "\<exists>s'. handle_tick utc_env demo_resume demo_state = Ret s'"
  by (simp add: handle_tick_def demo_resume_def clock_jumped_def num_seconds_def i64_div_def demo_defs
      current_generation_def queue_clear_def evaluations_def next_interval_def as_i64_small
      duration_seconds_def dt_add_def i64_mul_small utc_env_simps sec_ns_def Let_def)

lemma clock_check_rebuilds_witness:
  "\<exists>s' :: sched. next_fire_by_trigger (queue s') =
     (if clock_jumped demo_resume demo_state
      then rebuilt_time (evaluations utc_env demo_resume) (clock demo_resume 1) 0 (registered_tasks demo_state)
      else next_fire_by_trigger (queue demo_state))
     \<and> last_wall s' = clock demo_resume 2 \<and> registered_tasks s' = registered_tasks demo_state"
proof -
  have n: "Suc 0 < 2 ^ 64 - (2 :: nat)" by simp
  obtain s' where "handle_tick utc_env demo_resume demo_state = Ret s'" using demo_resume_runs by blast
  from clock_check_rebuilds [OF demo_reached n this] show ?thesis by (rule exI [of _ s'])
qed

lemma overdue_once_is_lost_on_clock_jump_witness:
  "\<exists>s' :: sched. next_fire_by_trigger (queue s') (TaskId 7, trigger_id demo_trigger) = None
     \<and> events s' = events demo_state"
proof -
  have n: "Suc 0 < 2 ^ 64 - (2 :: nat)" by simp
  obtain s' where s': "handle_tick utc_env demo_resume demo_state = Ret s'" using demo_resume_runs by blast
  have "next_fire_by_trigger (queue s') (TaskId 7, trigger_id demo_trigger) = None \<and> events s' = events demo_state"
    by (rule overdue_once_is_lost_on_clock_jump [OF demo_reached n s', where task = demo_task and f = "10 * sec_ns"])
       (simp_all add: demo_resume_def clock_jumped_def num_seconds_def i64_div_def demo_defs sec_ns_def)
  then show ?thesis by (rule exI [of _ s'])
qed

text \<open>Registering one enabled task with one enabled interval trigger above 9223372036854775 seconds
  panics in the scheduler's task: the whole loop ends, for every other task too.\<close>

theorem huge_interval_kills_the_scheduler:
  assumes "task_enabled task" and "x \<in> set (triggers task)" and "trigger_enabled x"
    and "trigger_kind x = Interval secs None"
    and "9223372036854775 < unat secs" and "unat secs < 2 ^ 63"
  shows "sched_turn E orc (Received (AddTask task)) s = Panic"
proof -
  have "evaluations E orc i (trigger_kind x) now = Panic" for i now
    by (simp add: evaluations_def assms(4) interval_panics [OF assms(5,6)])
  then have "push_triggers (evaluations E orc) (clock orc) t gen i (triggers task) q = Panic" for t gen i q
    using push_triggers_panics [OF assms(2,3)] by blast
  then show ?thesis
    using assms(1) by (simp add: sched_turn_def Let_def handle_add_task_def case_prod_beta)
qed

lemma huge_interval_kills_the_scheduler_witness:
  "sched_turn utc_env (demo_at 0)
     (Received (AddTask (demo_task\<lparr>triggers := [demo_interval\<lparr>trigger_kind := Interval 9223372036854776 None\<rparr>]\<rparr>)))
     demo_state = Panic"
  by (rule huge_interval_kills_the_scheduler
        [where x = "demo_interval\<lparr>trigger_kind := Interval 9223372036854776 None\<rparr>"
           and secs = 9223372036854776])
     (simp_all add: demo_task_def demo_interval_def)

end
