(* ===== verification/Store.thy ===== *)
theory Store
  imports Domain "HOL-Library.List_Lexorder" "HOL-Library.Char_ord"
begin

text \<open>
  The persistence layer of \<^verbatim>\<open>crates/persistence\<close> over the schema of \<^verbatim>\<open>migrations\<close>: tables are
  lists of rows in row order, every repository method is a function of the tables.  SQLite, sqlx and
  serde are not part of the repository: the JSON and RFC 3339 text of values is a parameter
  (\<open>codec\<close>), and so is the failure of any single database call (\<open>faults\<close>).  A key column holds the
  text of an identifier; the model keeps the identifier itself.
\<close>

section \<open>Parameters\<close>

type_synonym 'a result = "error + 'a"

record codec =
  enc_policy :: "execution_policy \<Rightarrow> string result"
  dec_policy :: "string \<Rightarrow> execution_policy result"
  enc_env :: "(string \<times> string) list \<Rightarrow> string result"
  dec_env :: "string \<Rightarrow> (string \<times> string) list result"
  enc_trigger :: "trigger \<Rightarrow> string result"
  dec_trigger :: "string \<Rightarrow> trigger result"
  enc_action :: "action \<Rightarrow> string result"
  dec_action :: "string \<Rightarrow> action result"
  enc_settings :: "system_settings \<Rightarrow> string result"
  dec_settings :: "string \<Rightarrow> system_settings result"
  debug_kind :: "action_kind \<Rightarrow> string"
  to_rfc3339 :: "instant \<Rightarrow> string"
  parse_time :: "string \<Rightarrow> instant option"
  path_lossy :: "string \<Rightarrow> string"

text \<open>The failure of the \<open>n\<close>-th database call of a method, with the error text.\<close>

type_synonym faults = "nat \<Rightarrow> string option"

definition no_faults :: faults where
  "no_faults n = None"

definition call_db :: "faults \<Rightarrow> nat \<Rightarrow> unit result" where
  "call_db f n = (case f n of Some msg \<Rightarrow> Inl (Database msg) | None \<Rightarrow> Inr ())"

text \<open>A constraint violation reported by SQLite.\<close>

definition unique_error :: error where
  "unique_error = Database ''UNIQUE constraint failed''"

definition foreign_key_error :: error where
  "foreign_key_error = Database ''FOREIGN KEY constraint failed''"

text \<open>serde writes a unit variant of an enum as its quoted name.\<close>

fun status_name :: "execution_status \<Rightarrow> string" where
  "status_name Queued = ''Queued''"
| "status_name Running = ''Running''"
| "status_name Succeeded = ''Succeeded''"
| "status_name Failed = ''Failed''"
| "status_name TimedOut = ''TimedOut''"
| "status_name Cancelled = ''Cancelled''"
| "status_name Skipped = ''Skipped''"
| "status_name Interrupted = ''Interrupted''"

definition status_json :: "execution_status \<Rightarrow> string" where
  "status_json s = CHR 0x22 # status_name s @ [CHR 0x22]"

definition all_statuses :: "execution_status list" where
  "all_statuses =
     [Queued, Running, Succeeded, Failed, TimedOut, Cancelled, Skipped, Interrupted]"

definition status_from_json :: "string \<Rightarrow> execution_status result" where
  "status_from_json j =
     (case find (\<lambda>s. status_json s = j) all_statuses of
        Some s \<Rightarrow> Inr s
      | None \<Rightarrow> Inl (Serialization ''unknown variant''))"

section \<open>Tables\<close>

record task_row =
  row_task_id :: task_id
  row_name :: string
  row_description :: "string option"
  row_enabled :: int
  row_policy_json :: string
  row_working_directory :: "string option"
  row_environment_json :: string
  row_version :: int
  row_created_at :: string
  row_updated_at :: string

record trigger_row =
  trow_id :: trigger_id
  trow_task_id :: task_id
  trow_kind :: string
  trow_config_json :: string
  trow_enabled :: int
  trow_created_at :: string
  trow_updated_at :: string

record action_row =
  arow_id :: action_id
  arow_task_id :: task_id
  arow_sequence :: u32
  arow_kind :: string
  arow_config_json :: string
  arow_enabled :: int

record run_row =
  run_id :: execution_id
  run_task_id :: task_id
  run_trigger_id :: "trigger_id option"
  run_status :: string
  run_scheduled_at :: "string option"
  run_started_at :: string
  run_finished_at :: "string option"
  run_duration_ms :: "int option"
  run_exit_code :: "int option"
  run_error_message :: "string option"

record output_row =
  out_id :: nat
  out_run_id :: execution_id
  out_stream :: string
  out_content :: string
  out_created_at :: string

record db =
  tasks :: "task_row list"
  trigger_rows :: "trigger_row list"
  action_rows :: "action_row list"
  runs :: "run_row list"
  outputs :: "output_row list"
  next_output_id :: nat
  settings_rows :: "(string \<times> string \<times> string) list"

definition empty_db :: db where
  "empty_db = \<lparr>tasks = [], trigger_rows = [], action_rows = [], runs = [], outputs = [],
               next_output_id = 1, settings_rows = []\<rparr>"

section \<open>SqliteTaskRepository\<close>

definition bool_column :: "bool \<Rightarrow> int" where
  "bool_column b = (if b then 1 else 0)"

text \<open>\<open>INSERT ... ON CONFLICT(id) DO UPDATE\<close>\<close>

definition upsert_task :: "task_row \<Rightarrow> task_row list \<Rightarrow> task_row list" where
  "upsert_task excluded rows =
     (if row_task_id excluded \<in> set (map row_task_id rows)
      then map (\<lambda>old. if row_task_id old = row_task_id excluded
                      then excluded\<lparr>row_version := row_version old + 1,
                                    row_created_at := row_created_at old\<rparr>
                      else old) rows
      else rows @ [excluded])"

definition task_to_row :: "codec \<Rightarrow> task \<Rightarrow> string \<Rightarrow> string \<Rightarrow> task_row" where
  "task_to_row K t policy_json env_json =
     \<lparr>row_task_id = task_id t, row_name = task_name t, row_description = task_description t,
      row_enabled = bool_column (task_enabled t), row_policy_json = policy_json,
      row_working_directory = map_option (path_lossy K) (working_directory t),
      row_environment_json = env_json, row_version = task_version t,
      row_created_at = to_rfc3339 K (task_created_at t),
      row_updated_at = to_rfc3339 K (task_updated_at t)\<rparr>"

fun insert_triggers ::
  "codec \<Rightarrow> faults \<Rightarrow> nat \<Rightarrow> task_id \<Rightarrow> trigger list \<Rightarrow> trigger_row list
   \<Rightarrow> (nat \<times> trigger_row list) result" where
  "insert_triggers K f n t [] rows = Inr (n, rows)"
| "insert_triggers K f n t (tr # trs) rows =
     rbind (enc_trigger K tr) (\<lambda>config_json.
     rbind (call_db f n) (\<lambda>_.
       if trigger_id tr \<in> set (map trow_id rows) then Inl unique_error
       else insert_triggers K f (Suc n) t trs (rows @
         [\<lparr>trow_id = trigger_id tr, trow_task_id = t, trow_kind = kind_name (trigger_kind tr),
           trow_config_json = config_json, trow_enabled = bool_column (trigger_enabled tr),
           trow_created_at = to_rfc3339 K (trigger_created_at tr),
           trow_updated_at = to_rfc3339 K (trigger_updated_at tr)\<rparr>])))"

fun insert_actions ::
  "codec \<Rightarrow> faults \<Rightarrow> nat \<Rightarrow> task_id \<Rightarrow> action list \<Rightarrow> action_row list
   \<Rightarrow> (nat \<times> action_row list) result" where
  "insert_actions K f n t [] rows = Inr (n, rows)"
| "insert_actions K f n t (a # as) rows =
     rbind (enc_action K a) (\<lambda>config_json.
     rbind (call_db f n) (\<lambda>_.
       if action_id a \<in> set (map arow_id rows) then Inl unique_error
       else insert_actions K f (Suc n) t as (rows @
         [\<lparr>arow_id = action_id a, arow_task_id = t, arow_sequence = action_sequence a,
           arow_kind = debug_kind K (action_kind a), arow_config_json = config_json,
           arow_enabled = bool_column (action_enabled a)\<rparr>])))"

text \<open>
  \<open>save\<close> runs in one transaction: what it returns besides an error is the committed state, an
  error rolls everything back.
\<close>

definition save_task_tx :: "codec \<Rightarrow> faults \<Rightarrow> task \<Rightarrow> db \<Rightarrow> db result" where
  "save_task_tx K f t d =
     rbind (call_db f 0) (\<lambda>_.
     rbind (enc_policy K (execution_policy t)) (\<lambda>policy_json.
     rbind (enc_env K (environment t)) (\<lambda>env_json.
     rbind (call_db f 1) (\<lambda>_.
     let ts = upsert_task (task_to_row K t policy_json env_json) (tasks d)
     in rbind (call_db f 2) (\<lambda>_.
        let tr0 = filter (\<lambda>r. trow_task_id r \<noteq> task_id t) (trigger_rows d)
        in rbind (insert_triggers K f 3 (task_id t) (triggers t) tr0) (\<lambda>(n, tr1).
           rbind (call_db f n) (\<lambda>_.
           let ar0 = filter (\<lambda>r. arow_task_id r \<noteq> task_id t) (action_rows d)
           in rbind (insert_actions K f (Suc n) (task_id t) (actions t) ar0) (\<lambda>(n, ar1).
              rbind (call_db f n) (\<lambda>_.
              Inr (d\<lparr>tasks := ts, trigger_rows := tr1, action_rows := ar1\<rparr>))))))))))"

definition save_task :: "codec \<Rightarrow> faults \<Rightarrow> task \<Rightarrow> db \<Rightarrow> unit result \<times> db" where
  "save_task K f t d =
     (case save_task_tx K f t d of
        Inr d' \<Rightarrow> (Inr (), d')
      | Inl e \<Rightarrow> (Inl e, d))"

text \<open>\<open>now\<close> replaces a time column that does not parse.\<close>

definition row_to_task ::
  "codec \<Rightarrow> instant \<Rightarrow> trigger list \<Rightarrow> action list \<Rightarrow> task_row \<Rightarrow> task result" where
  "row_to_task K now trs as r =
     rbind (dec_policy K (row_policy_json r)) (\<lambda>policy.
     rbind (dec_env K (row_environment_json r)) (\<lambda>env.
     Inr \<lparr>task_id = row_task_id r, task_name = row_name r, task_description = row_description r,
          task_enabled = (row_enabled r = 1), triggers = trs, actions = as,
          execution_policy = policy, working_directory = row_working_directory r,
          environment = env, task_version = row_version r,
          task_created_at = (case parse_time K (row_created_at r) of Some u \<Rightarrow> u | None \<Rightarrow> now),
          task_updated_at = (case parse_time K (row_updated_at r) of Some u \<Rightarrow> u | None \<Rightarrow> now)\<rparr>))"

definition find_task_by_id :: "codec \<Rightarrow> faults \<Rightarrow> instant \<Rightarrow> task_id \<Rightarrow> db \<Rightarrow> task option result" where
  "find_task_by_id K f now t d =
     rbind (call_db f 0) (\<lambda>_.
     case find (\<lambda>r. row_task_id r = t) (tasks d) of
       None \<Rightarrow> Inr None
     | Some r \<Rightarrow>
         rbind (call_db f 1) (\<lambda>_.
         rbind (rmap_list (\<lambda>r. dec_trigger K (trow_config_json r))
                  (filter (\<lambda>r. trow_task_id r = t) (trigger_rows d))) (\<lambda>trs.
         rbind (call_db f 2) (\<lambda>_.
         rbind (rmap_list (\<lambda>r. dec_action K (arow_config_json r))
                  (sort_key (\<lambda>r. arow_sequence r) (filter (\<lambda>r. arow_task_id r = t) (action_rows d)))) (\<lambda>as.
         rbind (row_to_task K now trs as r) (\<lambda>task. Inr (Some task)))))))"

text \<open>The loop of \<open>find_all\<close> and \<open>find_all_enabled\<close>: each id is read by its own queries.\<close>

fun find_each ::
  "codec \<Rightarrow> (nat \<Rightarrow> faults) \<Rightarrow> instant \<Rightarrow> db \<Rightarrow> nat \<Rightarrow> task_id list \<Rightarrow> task list result" where
  "find_each K f now d i [] = Inr []"
| "find_each K f now d i (t # ts) =
     rbind (find_task_by_id K (f i) now t d) (\<lambda>found.
     rbind (find_each K f now d (Suc i) ts) (\<lambda>rest.
     Inr (case found of Some task \<Rightarrow> task # rest | None \<Rightarrow> rest)))"

definition order_desc :: "('a \<Rightarrow> string) \<Rightarrow> 'a list \<Rightarrow> 'a list" where
  "order_desc k xs = rev (sort_key k (rev xs))"

definition find_all_tasks :: "codec \<Rightarrow> (nat \<Rightarrow> faults) \<Rightarrow> instant \<Rightarrow> db \<Rightarrow> task list result" where
  "find_all_tasks K f now d =
     rbind (call_db (f 0) 0) (\<lambda>_.
       find_each K f now d 1 (map row_task_id (order_desc row_created_at (tasks d))))"

definition find_all_enabled :: "codec \<Rightarrow> (nat \<Rightarrow> faults) \<Rightarrow> instant \<Rightarrow> db \<Rightarrow> task list result" where
  "find_all_enabled K f now d =
     rbind (call_db (f 0) 0) (\<lambda>_.
       find_each K f now d 1 (map row_task_id (filter (\<lambda>r. row_enabled r = 1) (tasks d))))"

text \<open>\<open>ON DELETE CASCADE\<close>: triggers, actions and runs go with the task, outputs with their run.\<close>

definition cascade_runs :: "(run_row \<Rightarrow> bool) \<Rightarrow> db \<Rightarrow> db" where
  "cascade_runs dead d =
     (let gone = map run_id (filter dead (runs d))
      in d\<lparr>runs := filter (\<lambda>r. \<not> dead r) (runs d),
           outputs := filter (\<lambda>o'. out_run_id o' \<notin> set gone) (outputs d)\<rparr>)"

definition delete_task :: "faults \<Rightarrow> task_id \<Rightarrow> db \<Rightarrow> unit result \<times> db" where
  "delete_task f t d =
     (case call_db f 0 of
        Inl e \<Rightarrow> (Inl e, d)
      | Inr _ \<Rightarrow>
          (Inr (), cascade_runs (\<lambda>r. run_task_id r = t)
             (d\<lparr>tasks := filter (\<lambda>r. row_task_id r \<noteq> t) (tasks d),
                trigger_rows := filter (\<lambda>r. trow_task_id r \<noteq> t) (trigger_rows d),
                action_rows := filter (\<lambda>r. arow_task_id r \<noteq> t) (action_rows d)\<rparr>)))"

section \<open>SqliteExecutionRepository\<close>

text \<open>The \<open>duration_ms\<close> column holds \<open>d as i64\<close>.\<close>

definition create_run :: "codec \<Rightarrow> faults \<Rightarrow> execution \<Rightarrow> db \<Rightarrow> unit result \<times> db" where
  "create_run K f e d =
     (case call_db f 0 of
        Inl err \<Rightarrow> (Inl err, d)
      | Inr _ \<Rightarrow>
          if execution_id e \<in> set (map run_id (runs d)) then (Inl unique_error, d)
          else if execution_task_id e \<notin> set (map row_task_id (tasks d)) then (Inl foreign_key_error, d)
          else (Inr (), d\<lparr>runs := runs d @
            [\<lparr>run_id = execution_id e, run_task_id = execution_task_id e,
              run_trigger_id = execution_trigger_id e, run_status = status_json (status e),
              run_scheduled_at = map_option (to_rfc3339 K) (scheduled_at e),
              run_started_at = to_rfc3339 K (started_at e),
              run_finished_at = map_option (to_rfc3339 K) (finished_at e),
              run_duration_ms = map_option as_i64 (duration_ms e),
              run_exit_code = exit_code e, run_error_message = error_message e\<rparr>]\<rparr>))"

definition update_run :: "codec \<Rightarrow> faults \<Rightarrow> execution \<Rightarrow> db \<Rightarrow> unit result \<times> db" where
  "update_run K f e d =
     (case call_db f 0 of
        Inl err \<Rightarrow> (Inl err, d)
      | Inr _ \<Rightarrow>
          (Inr (), d\<lparr>runs := map (\<lambda>r. if run_id r = execution_id e
             then r\<lparr>run_status := status_json (status e),
                    run_finished_at := map_option (to_rfc3339 K) (finished_at e),
                    run_duration_ms := map_option as_i64 (duration_ms e),
                    run_exit_code := exit_code e, run_error_message := error_message e\<rparr>
             else r) (runs d)\<rparr>))"

definition row_to_execution :: "codec \<Rightarrow> instant \<Rightarrow> run_row \<Rightarrow> execution result" where
  "row_to_execution K now r =
     rbind (status_from_json (run_status r)) (\<lambda>st.
     Inr \<lparr>execution_id = run_id r, execution_task_id = run_task_id r,
          execution_trigger_id = run_trigger_id r, status = st,
          scheduled_at = Option.bind (run_scheduled_at r) (parse_time K),
          started_at = (case parse_time K (run_started_at r) of Some u \<Rightarrow> u | None \<Rightarrow> now),
          finished_at = Option.bind (run_finished_at r) (parse_time K),
          duration_ms = map_option word_of_int (run_duration_ms r),
          exit_code = run_exit_code r, error_message = run_error_message r\<rparr>)"

definition find_run_by_id :: "codec \<Rightarrow> faults \<Rightarrow> instant \<Rightarrow> execution_id \<Rightarrow> db \<Rightarrow> execution option result" where
  "find_run_by_id K f now e d =
     rbind (call_db f 0) (\<lambda>_.
     case find (\<lambda>r. run_id r = e) (runs d) of
       None \<Rightarrow> Inr None
     | Some r \<Rightarrow> rbind (row_to_execution K now r) (\<lambda>x. Inr (Some x)))"

definition find_recent_runs :: "codec \<Rightarrow> faults \<Rightarrow> instant \<Rightarrow> u32 \<Rightarrow> db \<Rightarrow> execution list result" where
  "find_recent_runs K f now limit d =
     rbind (call_db f 0) (\<lambda>_.
       rmap_list (row_to_execution K now) (take (unat limit) (order_desc run_started_at (runs d))))"

definition append_output ::
  "codec \<Rightarrow> faults \<Rightarrow> instant \<Rightarrow> execution_id \<Rightarrow> string \<Rightarrow> string \<Rightarrow> db \<Rightarrow> unit result \<times> db" where
  "append_output K f now e stream content d =
     (case call_db f 0 of
        Inl err \<Rightarrow> (Inl err, d)
      | Inr _ \<Rightarrow>
          if e \<notin> set (map run_id (runs d)) then (Inl foreign_key_error, d)
          else (Inr (), d\<lparr>outputs := outputs d @
            [\<lparr>out_id = next_output_id d, out_run_id = e, out_stream = stream,
              out_content = content, out_created_at = to_rfc3339 K now\<rparr>],
            next_output_id := Suc (next_output_id d)\<rparr>))"

record output_record =
  stream :: string
  content :: string
  created_at :: string

definition get_outputs :: "faults \<Rightarrow> execution_id \<Rightarrow> db \<Rightarrow> output_record list result" where
  "get_outputs f e d =
     rbind (call_db f 0) (\<lambda>_.
       Inr (map (\<lambda>r. \<lparr>stream = out_stream r, content = out_content r, created_at = out_created_at r\<rparr>)
              (sort_key out_id (filter (\<lambda>r. out_run_id r = e) (outputs d)))))"

definition expired :: "codec \<Rightarrow> task_id \<Rightarrow> instant \<Rightarrow> run_row \<Rightarrow> bool" where
  "expired K t before r \<longleftrightarrow>
     run_task_id r = t \<and> run_started_at r < to_rfc3339 K before
     \<and> run_status r \<noteq> CHR 0x22 # ''Running'' @ [CHR 0x22]"

definition purge_expired_runs ::
  "codec \<Rightarrow> faults \<Rightarrow> task_id \<Rightarrow> instant \<Rightarrow> db \<Rightarrow> nat result \<times> db" where
  "purge_expired_runs K f t before d =
     (case call_db f 0 of
        Inl err \<Rightarrow> (Inl err, d)
      | Inr _ \<Rightarrow> (Inr (length (filter (expired K t before) (runs d))), cascade_runs (expired K t before) d))"

text \<open>
  \<open>ROW_NUMBER() OVER (PARTITION BY task_id ORDER BY started_at DESC, id DESC) = 1\<close>: the row of
  each listed task that comes last in the order of start time and id text.
\<close>

definition later_run :: "run_row \<Rightarrow> run_row \<Rightarrow> bool" where
  "later_run a b \<longleftrightarrow>
     run_started_at b < run_started_at a
     \<or> run_started_at b = run_started_at a
       \<and> uuid_string (execution_uuid (run_id b)) < uuid_string (execution_uuid (run_id a))"

definition row_number_one :: "run_row list \<Rightarrow> run_row \<Rightarrow> bool" where
  "row_number_one rows r \<longleftrightarrow>
     list_all (\<lambda>r'. run_task_id r' = run_task_id r \<longrightarrow> \<not> later_run r' r) rows"

definition find_latest_run_per_task ::
  "codec \<Rightarrow> faults \<Rightarrow> instant \<Rightarrow> task_id list \<Rightarrow> db \<Rightarrow> (task_id \<rightharpoonup> execution) result" where
  "find_latest_run_per_task K f now ts d =
     (if ts = [] then Inr Map.empty
      else
        rbind (call_db f 0) (\<lambda>_.
        let listed = filter (\<lambda>r. run_task_id r \<in> set ts) (runs d)
        in rbind (rmap_list (row_to_execution K now) (filter (row_number_one listed) listed)) (\<lambda>es.
           Inr (fold (\<lambda>e m. m(execution_task_id e \<mapsto> e)) es Map.empty))))"

section \<open>Recovery and settings\<close>

definition recover_dangling_executions :: "faults \<Rightarrow> db \<Rightarrow> nat result \<times> db" where
  "recover_dangling_executions f d =
     (case call_db f 0 of
        Inl err \<Rightarrow> (Inl err, d)
      | Inr _ \<Rightarrow>
          (Inr (length (filter (\<lambda>r. run_status r = status_json Running) (runs d))),
           d\<lparr>runs := map (\<lambda>r. if run_status r = status_json Running
             then r\<lparr>run_status := status_json Interrupted,
                    run_error_message := Some ''Agent restarted unexpectedly''\<rparr>
             else r) (runs d)\<rparr>))"

definition system_settings_key :: string where
  "system_settings_key = ''system_settings''"

definition get_system_settings :: "codec \<Rightarrow> faults \<Rightarrow> db \<Rightarrow> system_settings result" where
  "get_system_settings K f d =
     rbind (call_db f 0) (\<lambda>_.
     case find (\<lambda>(k, v, u). k = system_settings_key) (settings_rows d) of
       Some (k, v, u) \<Rightarrow> dec_settings K v
     | None \<Rightarrow> Inr default_system_settings)"

definition save_system_settings ::
  "codec \<Rightarrow> faults \<Rightarrow> instant \<Rightarrow> system_settings \<Rightarrow> db \<Rightarrow> unit result \<times> db" where
  "save_system_settings K f now s d =
     (case rbind (enc_settings K s) (\<lambda>j. rbind (call_db f 0) (\<lambda>_. Inr j)) of
        Inl err \<Rightarrow> (Inl err, d)
      | Inr j \<Rightarrow>
          let new = (system_settings_key, j, to_rfc3339 K now)
          in (Inr (), d\<lparr>settings_rows :=
               (if system_settings_key \<in> set (map fst (settings_rows d))
                then map (\<lambda>r. if fst r = system_settings_key then new else r) (settings_rows d)
                else settings_rows d @ [new])\<rparr>))"

end
