(* ===== verification/Store_Facts.thy ===== *)
theory Store_Facts
  imports Store
begin

text \<open>
  The tables' integrity invariant and what each repository method guarantees: what was saved is
  read back, a deleted task leaves nothing behind, purging and recovery touch exactly the rows
  they should.
\<close>

section \<open>What serde and chrono guarantee\<close>

text \<open>Times whose RFC 3339 text has a four-digit year.\<close>

definition db_time :: "instant \<Rightarrow> bool" where
  "db_time u \<longleftrightarrow> - 62167219200 * sec_ns \<le> u \<and> u < 253402300800 * sec_ns"

definition codec_ok :: "codec \<Rightarrow> bool" where
  "codec_ok K \<longleftrightarrow>
     (\<forall>p. \<exists>s. enc_policy K p = Inr s \<and> dec_policy K s = Inr p)
     \<and> (\<forall>e. \<exists>s e'. enc_env K e = Inr s \<and> dec_env K s = Inr e' \<and> map_of e' = map_of e)
     \<and> (\<forall>x. \<exists>s. enc_trigger K x = Inr s \<and> dec_trigger K s = Inr x)
     \<and> (\<forall>x. \<exists>s. enc_action K x = Inr s \<and> dec_action K s = Inr x)
     \<and> (\<forall>x. \<exists>s. enc_settings K x = Inr s \<and> dec_settings K s = Inr x)
     \<and> (\<forall>u. db_time u \<longrightarrow> parse_time K (to_rfc3339 K u) = Some u)
     \<and> (\<forall>a b. db_time a \<longrightarrow> db_time b \<longrightarrow> (to_rfc3339 K a < to_rfc3339 K b \<longleftrightarrow> a < b))"

lemma codec_okD:
  assumes "codec_ok K"
  shows "enc_policy K p = Inr s \<Longrightarrow> dec_policy K s = Inr p"
    and "enc_env K e = Inr s \<Longrightarrow> \<exists>e'. dec_env K s = Inr e' \<and> map_of e' = map_of e"
    and "enc_trigger K x = Inr s \<Longrightarrow> dec_trigger K s = Inr x"
    and "enc_action K a = Inr s \<Longrightarrow> dec_action K s = Inr a"
    and "enc_settings K y = Inr s \<Longrightarrow> dec_settings K s = Inr y"
    and "db_time u \<Longrightarrow> parse_time K (to_rfc3339 K u) = Some u"
    and "db_time u \<Longrightarrow> db_time v \<Longrightarrow> to_rfc3339 K u < to_rfc3339 K v \<longleftrightarrow> u < v"
  using assms unfolding codec_ok_def by (metis sum.inject(2))+

lemma status_from_json_of: "status_from_json (status_json s) = Inr s"
  by (cases s) (simp_all add: status_from_json_def all_statuses_def status_json_def)

lemma status_json_inj: "status_json a = status_json b \<longleftrightarrow> a = b"
  by (metis status_from_json_of sum.inject(2))

section \<open>Integrity\<close>

text \<open>Primary keys are unique and foreign keys refer to existing rows.\<close>

definition db_ok :: "db \<Rightarrow> bool" where
  "db_ok d \<longleftrightarrow>
     distinct (map row_task_id (tasks d))
     \<and> distinct (map trow_id (trigger_rows d)) \<and> distinct (map arow_id (action_rows d))
     \<and> distinct (map run_id (runs d)) \<and> distinct (map out_id (outputs d))
     \<and> (\<forall>x \<in> set (trigger_rows d). trow_task_id x \<in> row_task_id ` set (tasks d))
     \<and> (\<forall>x \<in> set (action_rows d). arow_task_id x \<in> row_task_id ` set (tasks d))
     \<and> (\<forall>x \<in> set (runs d). run_task_id x \<in> row_task_id ` set (tasks d))
     \<and> (\<forall>x \<in> set (outputs d). out_run_id x \<in> run_id ` set (runs d))
     \<and> (\<forall>r \<in> set (outputs d). out_id r < next_output_id d)"

lemma db_okD:
  assumes "db_ok d"
  shows "distinct (map row_task_id (tasks d))"
    and "distinct (map trow_id (trigger_rows d))" and "distinct (map arow_id (action_rows d))"
    and "distinct (map run_id (runs d))" and "distinct (map out_id (outputs d))"
    and "(\<forall>x \<in> set (trigger_rows d). trow_task_id x \<in> row_task_id ` set (tasks d))"
    and "(\<forall>x \<in> set (action_rows d). arow_task_id x \<in> row_task_id ` set (tasks d))"
    and "(\<forall>x \<in> set (runs d). run_task_id x \<in> row_task_id ` set (tasks d))"
    and "(\<forall>x \<in> set (outputs d). out_run_id x \<in> run_id ` set (runs d))"
    and "\<forall>r \<in> set (outputs d). out_id r < next_output_id d"
  using assms by (auto simp: db_ok_def)

section \<open>Saving a task\<close>

lemma upsert_map_ids:
  "map row_task_id (upsert_task r rows) =
     (if row_task_id r \<in> set (map row_task_id rows) then map row_task_id rows
      else map row_task_id rows @ [row_task_id r])"
  by (auto simp: upsert_task_def)

lemma upsert_ids: "row_task_id ` set (upsert_task r rows) = insert (row_task_id r) (row_task_id ` set rows)"
  by (simp only: set_map [symmetric] upsert_map_ids) auto

lemma upsert_distinct: "distinct (map row_task_id rows) \<Longrightarrow> distinct (map row_task_id (upsert_task r rows))"
  by (simp add: upsert_map_ids)

lemma find_upsert:
  "find (\<lambda>x. row_task_id x = t) (upsert_task r rows) =
     (if t = row_task_id r
      then Some (case find (\<lambda>x. row_task_id x = t) rows of
                   Some old \<Rightarrow> r\<lparr>row_version := row_version old + 1, row_created_at := row_created_at old\<rparr>
                 | None \<Rightarrow> r)
      else find (\<lambda>x. row_task_id x = t) rows)"
proof (cases "row_task_id r \<in> set (map row_task_id rows)")
  case True
  let ?g = "\<lambda>old. if row_task_id old = row_task_id r
      then r\<lparr>row_version := row_version old + 1, row_created_at := row_created_at old\<rparr> else old"
  have "upsert_task r rows = map ?g rows" using True by (simp add: upsert_task_def)
  moreover have "find (\<lambda>x. row_task_id x = t) (map ?g rows)
      = map_option ?g (find (\<lambda>x. row_task_id x = t) rows)"
    by (rule find_map_same) auto
  moreover have "find (\<lambda>x. row_task_id x = t) rows \<noteq> None" if "t = row_task_id r"
    using True that by (auto simp: find_None_iff)
  ultimately show ?thesis
    by (cases "find (\<lambda>x. row_task_id x = t) rows") (auto dest: find_Some_in)
next
  case False
  then have none: "find (\<lambda>x. row_task_id x = row_task_id r) rows = None"
    by (simp add: find_None_iff) (metis image_eqI)
  with False show ?thesis by (auto simp: upsert_task_def find_append split: option.splits)
qed

lemma insert_triggers_spec:
  assumes "insert_triggers K f n t trs rows = Inr (n', rows')"
  shows "\<exists>new. rows' = rows @ new
      \<and> list_all2 (\<lambda>x r. trow_task_id r = t \<and> trow_id r = trigger_id x
           \<and> enc_trigger K x = Inr (trow_config_json r)) trs new"
    and "distinct (map trow_id rows) \<Longrightarrow> distinct (map trow_id rows')"
proof -
  have "(\<exists>new. rows' = rows @ new
      \<and> list_all2 (\<lambda>x r. trow_task_id r = t \<and> trow_id r = trigger_id x
           \<and> enc_trigger K x = Inr (trow_config_json r)) trs new)
    \<and> (distinct (map trow_id rows) \<longrightarrow> distinct (map trow_id rows'))"
    using assms
    by (induction K f n t trs rows rule: insert_triggers.induct)
       (fastforce simp: outcome_simps split: if_splits)+
  then show "\<exists>new. rows' = rows @ new
      \<and> list_all2 (\<lambda>x r. trow_task_id r = t \<and> trow_id r = trigger_id x
           \<and> enc_trigger K x = Inr (trow_config_json r)) trs new"
    and "distinct (map trow_id rows) \<Longrightarrow> distinct (map trow_id rows')" by blast+
qed

lemma insert_actions_spec:
  assumes "insert_actions K f n t as rows = Inr (n', rows')"
  shows "\<exists>new. rows' = rows @ new
      \<and> list_all2 (\<lambda>x r. arow_task_id r = t \<and> arow_id r = action_id x \<and> arow_sequence r = action_sequence x
           \<and> enc_action K x = Inr (arow_config_json r)) as new"
    and "distinct (map arow_id rows) \<Longrightarrow> distinct (map arow_id rows')"
proof -
  have "(\<exists>new. rows' = rows @ new
      \<and> list_all2 (\<lambda>x r. arow_task_id r = t \<and> arow_id r = action_id x \<and> arow_sequence r = action_sequence x
           \<and> enc_action K x = Inr (arow_config_json r)) as new)
    \<and> (distinct (map arow_id rows) \<longrightarrow> distinct (map arow_id rows'))"
    using assms
    by (induction K f n t as rows rule: insert_actions.induct)
       (fastforce simp: outcome_simps split: if_splits)+
  then show "\<exists>new. rows' = rows @ new
      \<and> list_all2 (\<lambda>x r. arow_task_id r = t \<and> arow_id r = action_id x \<and> arow_sequence r = action_sequence x
           \<and> enc_action K x = Inr (arow_config_json r)) as new"
    and "distinct (map arow_id rows) \<Longrightarrow> distinct (map arow_id rows')" by blast+
qed

text \<open>A successful save, unfolded.\<close>

definition trigger_saved :: "codec \<Rightarrow> task_id \<Rightarrow> trigger \<Rightarrow> trigger_row \<Rightarrow> bool" where
  "trigger_saved K t x r \<longleftrightarrow> trow_task_id r = t \<and> trow_id r = trigger_id x
     \<and> enc_trigger K x = Inr (trow_config_json r)"

definition action_saved :: "codec \<Rightarrow> task_id \<Rightarrow> action \<Rightarrow> action_row \<Rightarrow> bool" where
  "action_saved K t x r \<longleftrightarrow> arow_task_id r = t \<and> arow_id r = action_id x
     \<and> arow_sequence r = action_sequence x \<and> enc_action K x = Inr (arow_config_json r)"

lemma save_task_ok:
  assumes "save_task K f t d = (Inr (), d')"
  shows "\<exists>policy_json env_json tnew anew.
    enc_policy K (execution_policy t) = Inr policy_json
    \<and> enc_env K (environment t) = Inr env_json
    \<and> d' = d\<lparr>tasks := upsert_task (task_to_row K t policy_json env_json) (tasks d),
        trigger_rows := filter (\<lambda>r. trow_task_id r \<noteq> task_id t) (trigger_rows d) @ tnew,
        action_rows := filter (\<lambda>r. arow_task_id r \<noteq> task_id t) (action_rows d) @ anew\<rparr>
    \<and> list_all2 (trigger_saved K (task_id t)) (triggers t) tnew
    \<and> list_all2 (action_saved K (task_id t)) (actions t) anew
    \<and> (distinct (map trow_id (trigger_rows d)) \<longrightarrow> distinct (map trow_id (trigger_rows d')))
    \<and> (distinct (map arow_id (action_rows d)) \<longrightarrow> distinct (map arow_id (action_rows d')))"
proof -
  from assms have "save_task_tx K f t d = Inr d'" by (auto simp: save_task_def split: sum.splits)
  then obtain policy_json env_json n tr1 n2 ar1 where
    enc: "enc_policy K (execution_policy t) = Inr policy_json" "enc_env K (environment t) = Inr env_json"
    and tr: "insert_triggers K f 3 (task_id t) (triggers t)
        (filter (\<lambda>r. trow_task_id r \<noteq> task_id t) (trigger_rows d)) = Inr (n, tr1)"
    and ar: "insert_actions K f (Suc n) (task_id t) (actions t)
        (filter (\<lambda>r. arow_task_id r \<noteq> task_id t) (action_rows d)) = Inr (n2, ar1)"
    and d': "d' = d\<lparr>tasks := upsert_task (task_to_row K t policy_json env_json) (tasks d),
        trigger_rows := tr1, action_rows := ar1\<rparr>"
    by (auto simp: save_task_tx_def Let_def outcome_simps)
  from insert_triggers_spec(1) [OF tr] obtain tnew where t:
    "tr1 = filter (\<lambda>r. trow_task_id r \<noteq> task_id t) (trigger_rows d) @ tnew"
    "list_all2 (trigger_saved K (task_id t)) (triggers t) tnew"
    unfolding trigger_saved_def by blast
  from insert_actions_spec(1) [OF ar] obtain anew where a:
    "ar1 = filter (\<lambda>r. arow_task_id r \<noteq> task_id t) (action_rows d) @ anew"
    "list_all2 (action_saved K (task_id t)) (actions t) anew"
    unfolding action_saved_def by blast
  have "distinct (map trow_id (trigger_rows d)) \<longrightarrow> distinct (map trow_id (trigger_rows d'))"
    "distinct (map arow_id (action_rows d)) \<longrightarrow> distinct (map arow_id (action_rows d'))"
    using insert_triggers_spec(2) [OF tr] insert_actions_spec(2) [OF ar] d'
    by (simp_all add: distinct_map_filter)
  with enc d' t a show ?thesis by blast
qed

lemma saved_rows_own:
  "list_all2 (trigger_saved K t) xs rs \<Longrightarrow> \<forall>r \<in> set rs. trow_task_id r = t"
  "list_all2 (action_saved K t) as ars \<Longrightarrow> \<forall>r \<in> set ars. arow_task_id r = t"
  by (auto simp: list_all2_conv_all_nth in_set_conv_nth trigger_saved_def action_saved_def)

text \<open>The row-wise relations of a save, for reading the rows back.\<close>

lemma filter_own_rows:
  assumes "\<forall>r \<in> set new. key r = t"
  shows "filter (\<lambda>r. key r = t) (filter (\<lambda>r. key r \<noteq> t) old @ new) = new"
  using assms by simp

lemma sort_key_list_all2:
  assumes "list_all2 (\<lambda>x r. k x = l r \<and> Q x r) xs rs"
  shows "list_all2 (\<lambda>x r. k x = l r \<and> Q x r) (sort_key k xs) (sort_key l rs)"
proof -
  have ins: "list_all2 (\<lambda>x r. k x = l r \<and> Q x r) (insort_key k x xs) (insort_key l r rs)"
    if "list_all2 (\<lambda>x r. k x = l r \<and> Q x r) xs rs" "k x = l r" "Q x r" for x r xs rs
    using that by (induction rule: list_all2_induct) auto
  from assms show ?thesis
  proof (induction rule: list_all2_induct)
    case Nil
    then show ?case by simp
  next
    case (Cons x xs r rs)
    then show ?case by (simp add: ins)
  qed
qed

lemma find_after_save:
  assumes K: "codec_ok K" and s: "save_task K f t d = (Inr (), d')"
    and times: "db_time (task_created_at t)" "db_time (task_updated_at t)"
  shows "\<exists>env. map_of env = map_of (environment t)
    \<and> find_task_by_id K no_faults now (task_id t) d' = Inr (Some
        (t\<lparr>actions := sort_key action_sequence (actions t),
           working_directory := map_option (path_lossy K) (working_directory t),
           environment := env,
           task_version := (case find (\<lambda>r. row_task_id r = task_id t) (tasks d) of
             None \<Rightarrow> task_version t | Some r \<Rightarrow> row_version r + 1),
           task_created_at := (case find (\<lambda>r. row_task_id r = task_id t) (tasks d) of
             None \<Rightarrow> task_created_at t
           | Some r \<Rightarrow> (case parse_time K (row_created_at r) of Some u \<Rightarrow> u | None \<Rightarrow> now))\<rparr>))"
proof -
  note cd = codec_okD [OF K]
  obtain policy_json env_json tnew anew where
    p: "enc_policy K (execution_policy t) = Inr policy_json"
    and e: "enc_env K (environment t) = Inr env_json"
    and d': "d' = d\<lparr>tasks := upsert_task (task_to_row K t policy_json env_json) (tasks d),
        trigger_rows := filter (\<lambda>r. trow_task_id r \<noteq> task_id t) (trigger_rows d) @ tnew,
        action_rows := filter (\<lambda>r. arow_task_id r \<noteq> task_id t) (action_rows d) @ anew\<rparr>"
    and tnew: "list_all2 (trigger_saved K (task_id t)) (triggers t) tnew"
    and anew: "list_all2 (action_saved K (task_id t)) (actions t) anew"
    using save_task_ok [OF s] by blast
  obtain env where env: "dec_env K env_json = Inr env" "map_of env = map_of (environment t)"
    using cd(2) [OF e] by blast
  have ts: "tasks d' = upsert_task (task_to_row K t policy_json env_json) (tasks d)" by (simp add: d')
  have own_t: "filter (\<lambda>r. trow_task_id r = task_id t) (trigger_rows d') = tnew"
    using filter_own_rows [OF saved_rows_own(1) [OF tnew]] by (simp add: d')
  have own_a: "filter (\<lambda>r. arow_task_id r = task_id t) (action_rows d') = anew"
    using filter_own_rows [OF saved_rows_own(2) [OF anew]] by (simp add: d')
  have rt: "rmap_list (\<lambda>r. dec_trigger K (trow_config_json r)) tnew = Inr (triggers t)"
    unfolding rmap_list_Inr using tnew
    by (simp add: list_all2_conv_all_nth trigger_saved_def cd(3))
  have "list_all2 (\<lambda>x r. action_sequence x = arow_sequence r \<and> enc_action K x = Inr (arow_config_json r))
      (sort_key action_sequence (actions t)) (sort_key arow_sequence anew)"
    by (rule sort_key_list_all2) (use anew in \<open>auto simp: action_saved_def elim: list_all2_mono\<close>)
  then have ra: "rmap_list (\<lambda>r. dec_action K (arow_config_json r)) (sort_key arow_sequence anew)
      = Inr (sort_key action_sequence (actions t))"
    unfolding rmap_list_Inr by (simp add: list_all2_conv_all_nth cd(4))
  let ?row = "task_to_row K t policy_json env_json"
  have id: "row_task_id ?row = task_id t" by (simp add: task_to_row_def)
  show ?thesis
  proof (cases "find (\<lambda>r. row_task_id r = task_id t) (tasks d)")
    case None
    then have "find (\<lambda>r. row_task_id r = task_id t) (tasks d') = Some ?row"
      by (simp add: ts find_upsert id)
    with None show ?thesis
      using env own_t own_a rt ra cd(1) [OF p] cd(6) [OF times(1)] cd(6) [OF times(2)]
      by (intro exI [of _ env])
         (simp add: find_task_by_id_def call_db_def no_faults_def row_to_task_def task_to_row_def bool_column_def)
  next
    case (Some r)
    then have "find (\<lambda>r. row_task_id r = task_id t) (tasks d')
        = Some (?row\<lparr>row_version := row_version r + 1, row_created_at := row_created_at r\<rparr>)"
      by (simp add: ts find_upsert id)
    with Some show ?thesis
      using env own_t own_a rt ra cd(1) [OF p] cd(6) [OF times(2)]
      by (intro exI [of _ env])
         (simp add: find_task_by_id_def call_db_def no_faults_def row_to_task_def task_to_row_def bool_column_def)
  qed
qed

lemma find_other_after_save:
  assumes s: "save_task K f t d = (Inr (), d')" and "t' \<noteq> task_id t"
  shows "find_task_by_id K g now t' d' = find_task_by_id K g now t' d"
proof -
  obtain policy_json env_json tnew anew where
    d': "d' = d\<lparr>tasks := upsert_task (task_to_row K t policy_json env_json) (tasks d),
        trigger_rows := filter (\<lambda>r. trow_task_id r \<noteq> task_id t) (trigger_rows d) @ tnew,
        action_rows := filter (\<lambda>r. arow_task_id r \<noteq> task_id t) (action_rows d) @ anew\<rparr>"
    and new: "\<forall>r \<in> set tnew. trow_task_id r = task_id t" "\<forall>r \<in> set anew. arow_task_id r = task_id t"
    using save_task_ok [OF s] saved_rows_own by metis
  have "filter (\<lambda>r. trow_task_id r = t') tnew = []" "filter (\<lambda>r. arow_task_id r = t') anew = []"
    using new assms(2) by (auto simp: filter_empty_conv)
  moreover have "(trow_task_id r \<noteq> task_id t \<and> trow_task_id r = t') = (trow_task_id r = t')" for r :: trigger_row
    using assms(2) by auto
  moreover have "(arow_task_id r \<noteq> task_id t \<and> arow_task_id r = t') = (arow_task_id r = t')" for r :: action_row
    using assms(2) by auto
  moreover have "find (\<lambda>r. row_task_id r = t') (tasks d') = find (\<lambda>r. row_task_id r = t') (tasks d)"
    using assms(2) by (simp add: d' find_upsert task_to_row_def)
  ultimately show ?thesis
    by (simp add: find_task_by_id_def d' cong: option.case_cong)
qed

section \<open>The other operations keep the tables well-formed\<close>

lemma save_task_db_ok:
  assumes ok: "db_ok d" and s: "save_task K f t d = (r, d')"
  shows "db_ok d'"
proof (cases r)
  case (Inl e)
  with s ok show ?thesis by (auto simp: save_task_def split: sum.splits)
next
  case (Inr u)
  then have s': "save_task K f t d = (Inr (), d')" using s by simp
  obtain policy_json env_json tnew anew where
    d': "d' = d\<lparr>tasks := upsert_task (task_to_row K t policy_json env_json) (tasks d),
        trigger_rows := filter (\<lambda>r. trow_task_id r \<noteq> task_id t) (trigger_rows d) @ tnew,
        action_rows := filter (\<lambda>r. arow_task_id r \<noteq> task_id t) (action_rows d) @ anew\<rparr>"
    and new: "\<forall>r \<in> set tnew. trow_task_id r = task_id t" "\<forall>r \<in> set anew. arow_task_id r = task_id t"
    and dt: "distinct (map trow_id (trigger_rows d'))" and da: "distinct (map arow_id (action_rows d'))"
    using save_task_ok [OF s'] saved_rows_own db_okD(2,3) [OF ok] by metis
  have ids: "row_task_id ` set (tasks d') = insert (task_id t) (row_task_id ` set (tasks d))"
    by (simp add: d' upsert_ids task_to_row_def)
  have "(\<forall>x \<in> set (trigger_rows d'). trow_task_id x \<in> row_task_id ` set (tasks d'))"
    unfolding ids using new(1) db_okD(6) [OF ok] by (auto simp: d')
  moreover have "(\<forall>x \<in> set (action_rows d'). arow_task_id x \<in> row_task_id ` set (tasks d'))"
    unfolding ids using new(2) db_okD(7) [OF ok] by (auto simp: d')
  moreover have "(\<forall>x \<in> set (runs d'). run_task_id x \<in> row_task_id ` set (tasks d'))"
    unfolding ids using db_okD(8) [OF ok] by (auto simp: d')
  moreover have "distinct (map row_task_id (tasks d'))"
    using upsert_distinct db_okD(1) [OF ok] by (simp add: d')
  ultimately show ?thesis
    using dt da db_okD(4,5,9,10) [OF ok] unfolding db_ok_def by (simp add: d')
qed

lemma cascade_runs_ok:
  assumes "db_ok d" shows "db_ok (cascade_runs dead d)"
proof -
  have "out_run_id o' \<in> run_id ` {r \<in> set (runs d). \<not> dead r}"
    if "o' \<in> set (outputs d)" "out_run_id o' \<notin> run_id ` {r \<in> set (runs d). dead r}" for o'
  proof -
    have "out_run_id o' \<in> run_id ` set (runs d)" using db_okD(9) [OF assms] that(1) by blast
    with that(2) show ?thesis by blast
  qed
  then show ?thesis
    using assms unfolding db_ok_def by (auto simp: cascade_runs_def Let_def distinct_map_filter)
qed

lemma delete_task_ok:
  assumes "delete_task f t d = (Inr (), d')"
  shows "tasks d' = filter (\<lambda>r. row_task_id r \<noteq> t) (tasks d)"
    and "trigger_rows d' = filter (\<lambda>r. trow_task_id r \<noteq> t) (trigger_rows d)"
    and "action_rows d' = filter (\<lambda>r. arow_task_id r \<noteq> t) (action_rows d)"
    and "runs d' = filter (\<lambda>r. run_task_id r \<noteq> t) (runs d)"
    and "outputs d' = filter (\<lambda>x. out_run_id x \<notin> run_id ` {r \<in> set (runs d). run_task_id r = t}) (outputs d)"
    and "next_output_id d' = next_output_id d" and "settings_rows d' = settings_rows d"
  using assms by (auto simp: delete_task_def cascade_runs_def Let_def split: sum.splits)

lemma delete_task_db_ok:
  assumes ok: "db_ok d" and s: "delete_task f t d = (r, d')"
  shows "db_ok d'"
proof (cases r)
  case (Inl e)
  with s ok show ?thesis by (auto simp: delete_task_def split: sum.splits)
next
  case (Inr u)
  let ?d = "d\<lparr>runs := filter (\<lambda>r. run_task_id r \<noteq> t) (runs d),
    outputs := filter (\<lambda>x. out_run_id x \<notin> run_id ` {r \<in> set (runs d). run_task_id r = t}) (outputs d)\<rparr>"
  have "?d = cascade_runs (\<lambda>r. run_task_id r = t) d" by (simp add: cascade_runs_def Let_def)
  then have c: "db_ok ?d" using cascade_runs_ok [OF ok] by simp
  have s': "delete_task f t d = (Inr (), d')" using s Inr by simp
  note eqs = delete_task_ok [OF s']
  show ?thesis
    using c db_okD(1-3) [OF ok] db_okD(6-8) [OF ok] unfolding db_ok_def eqs
    by (auto simp: distinct_map_filter)
qed

lemma create_run_db_ok:
  assumes "db_ok d" and "create_run K f e d = (r, d')"
  shows "db_ok d'"
  using assms by (auto simp: create_run_def db_ok_def split: sum.splits if_splits)

lemma map_runs_db_ok:
  assumes "db_ok d" and "\<And>r. run_id (g r) = run_id r" and "\<And>r. run_task_id (g r) = run_task_id r"
  shows "db_ok (d\<lparr>runs := map g (runs d)\<rparr>)"
proof -
  have "map run_id (map g (runs d)) = map run_id (runs d)" using assms(2) by simp
  moreover from this have "run_id ` set (map g (runs d)) = run_id ` set (runs d)"
    by (simp only: set_map [symmetric])
  ultimately show ?thesis
    using assms(1,3) by (simp add: db_ok_def del: map_map set_map) simp
qed

lemma update_run_db_ok:
  assumes "db_ok d" and "update_run K f e d = (r, d')"
  shows "db_ok d'"
  using assms by (auto simp: update_run_def intro!: map_runs_db_ok split: sum.splits)

lemma append_output_db_ok:
  assumes "db_ok d" and "append_output K f now e st c d = (r, d')"
  shows "db_ok d'"
proof -
  have "next_output_id d \<notin> out_id ` set (outputs d)" using db_okD(10) [OF assms(1)] by auto
  with assms show ?thesis
    by (auto simp: append_output_def db_ok_def less_Suc_eq split: sum.splits if_splits)
qed

lemma purge_db_ok:
  assumes "db_ok d" and "purge_expired_runs K f t before d = (r, d')"
  shows "db_ok d'"
  using assms cascade_runs_ok [OF assms(1)] by (auto simp: purge_expired_runs_def split: sum.splits)

lemma recover_db_ok:
  assumes "db_ok d" and "recover_dangling_executions f d = (r, d')"
  shows "db_ok d'"
  using assms by (auto simp: recover_dangling_executions_def intro!: map_runs_db_ok split: sum.splits)

lemma save_settings_db_ok:
  assumes "db_ok d" and "save_system_settings K f now s d = (r, d')"
  shows "db_ok d'"
  using assms by (auto simp: save_system_settings_def db_ok_def Let_def split: sum.splits)

section \<open>Runs\<close>

lemma find_run_key: "distinct (map run_id rs) \<Longrightarrow> r \<in> set rs \<Longrightarrow> find (\<lambda>x. run_id x = run_id r) rs = Some r"
  by (rule find_distinct_key)

text \<open>Every time in a run record is in the range of the text format.\<close>

definition run_times_ok :: "execution \<Rightarrow> bool" where
  "run_times_ok e \<longleftrightarrow> db_time (started_at e)
     \<and> (case scheduled_at e of None \<Rightarrow> True | Some u \<Rightarrow> db_time u)
     \<and> (case finished_at e of None \<Rightarrow> True | Some u \<Rightarrow> db_time u)"

lemma word_of_as_i64 [simp]: "word_of_int (as_i64 w) = w"
  by (simp add: as_i64_def)

lemma bind_parse_time:
  assumes "codec_ok K" and "case u of None \<Rightarrow> True | Some v \<Rightarrow> db_time v"
  shows "Option.bind (map_option (to_rfc3339 K) u) (parse_time K) = u"
  using assms by (cases u) (simp_all add: codec_okD(6))

lemma find_after_create:
  assumes K: "codec_ok K" and c: "create_run K f e d = (Inr (), d')" and e: "run_times_ok e"
  shows "find_run_by_id K no_faults now (execution_id e) d' = Inr (Some e)"
proof -
  have new: "execution_id e \<notin> set (map run_id (runs d))"
    using c by (auto simp: create_run_def split: sum.splits if_splits)
  then have "find (\<lambda>r. run_id r = execution_id e) (runs d) = None"
    by (simp add: find_None_iff) (metis image_eqI)
  then show ?thesis
    using c e bind_parse_time [OF K] codec_okD(6) [OF K] new
    by (auto simp: create_run_def find_run_by_id_def call_db_def no_faults_def row_to_execution_def
        status_from_json_of run_times_ok_def option.map_comp o_def option.map_ident find_append
        intro!: execution.equality split: sum.splits if_splits)
qed

text \<open>The fields \<open>update_run\<close> writes.\<close>

definition merge_update :: "execution \<Rightarrow> execution \<Rightarrow> execution" where
  "merge_update e old =
     old\<lparr>status := status e, finished_at := finished_at e, duration_ms := duration_ms e,
         exit_code := exit_code e, error_message := error_message e\<rparr>"

lemma find_after_update:
  assumes K: "codec_ok K" and u: "update_run K f e d = (Inr (), d')" and e: "run_times_ok e"
    and old: "find_run_by_id K no_faults now (execution_id e) d = Inr (Some old)"
  shows "find_run_by_id K no_faults now (execution_id e) d' = Inr (Some (merge_update e old))"
proof -
  let ?g = "\<lambda>r. if run_id r = execution_id e
     then r\<lparr>run_status := status_json (status e),
            run_finished_at := map_option (to_rfc3339 K) (finished_at e),
            run_duration_ms := map_option as_i64 (duration_ms e),
            run_exit_code := exit_code e, run_error_message := error_message e\<rparr>
     else r"
  obtain r where r: "find (\<lambda>r. run_id r = execution_id e) (runs d) = Some r"
    and row: "row_to_execution K now r = Inr old"
    using old by (auto simp: find_run_by_id_def call_db_def no_faults_def outcome_simps split: option.splits)
  have d': "runs d' = map ?g (runs d)" using u by (auto simp: update_run_def split: sum.splits)
  have "find (\<lambda>r. run_id r = execution_id e) (map ?g (runs d))
      = map_option ?g (find (\<lambda>r. run_id r = execution_id e) (runs d))"
    by (rule find_map_same) simp
  with r have "find (\<lambda>r. run_id r = execution_id e) (runs d') = Some (?g r)" by (simp add: d')
  moreover have "run_id r = execution_id e" using find_Some_in [OF r] by simp
  ultimately show ?thesis
    using row bind_parse_time [OF K, of "finished_at e"] e
    by (auto simp: find_run_by_id_def call_db_def no_faults_def row_to_execution_def outcome_simps
        status_from_json_of merge_update_def run_times_ok_def option.map_comp o_def option.map_ident)
qed

lemma update_keeps_others:
  assumes "update_run K f e d = (r, d')" and "x \<noteq> execution_id e"
  shows "find_run_by_id K g now x d' = find_run_by_id K g now x d"
proof (cases r)
  case (Inl err)
  with assms(1) show ?thesis by (auto simp: update_run_def split: sum.splits)
next
  case (Inr u)
  let ?g = "\<lambda>r. if run_id r = execution_id e
     then r\<lparr>run_status := status_json (status e),
            run_finished_at := map_option (to_rfc3339 K) (finished_at e),
            run_duration_ms := map_option as_i64 (duration_ms e),
            run_exit_code := exit_code e, run_error_message := error_message e\<rparr>
     else r"
  have d': "runs d' = map ?g (runs d)" using assms(1) Inr by (auto simp: update_run_def split: sum.splits)
  have "find (\<lambda>r. run_id r = x) (map ?g (runs d)) = map_option ?g (find (\<lambda>r. run_id r = x) (runs d))"
    by (rule find_map_same) simp
  moreover have "map_option ?g (find (\<lambda>r. run_id r = x) (runs d)) = find (\<lambda>r. run_id r = x) (runs d)"
    using assms(2) by (cases "find (\<lambda>r. run_id r = x) (runs d)") (auto dest: find_Some_in)
  ultimately show ?thesis by (simp add: find_run_by_id_def d')
qed

section \<open>The latest run of each task\<close>

lemma fold_latest:
  "fold (\<lambda>e m. m(execution_task_id e \<mapsto> e)) es m t =
     (case find (\<lambda>e. execution_task_id e = t) (rev es) of Some e \<Rightarrow> Some e | None \<Rightarrow> m t)"
  by (induction es arbitrary: m) (auto simp: find_append split: option.splits)

lemma later_run_trans: "later_run a b \<Longrightarrow> later_run b c \<Longrightarrow> later_run a c"
  by (auto simp: later_run_def)

lemma latest_exists:
  "rs \<noteq> [] \<Longrightarrow> \<exists>r \<in> set rs. \<forall>r' \<in> set rs. \<not> later_run r' r"
proof (induction rs)
  case Nil
  then show ?case by simp
next
  case (Cons a rs)
  have irrefl: "\<not> later_run x x" for x by (simp add: later_run_def)
  show ?case
  proof (cases "rs = []")
    case True
    with irrefl show ?thesis by simp
  next
    case False
    then obtain r where r: "r \<in> set rs" "\<forall>r' \<in> set rs. \<not> later_run r' r" using Cons.IH by blast
    show ?thesis
    proof (cases "later_run a r")
      case True
      with r irrefl later_run_trans [of _ a r] show ?thesis by (intro bexI [of _ a]) auto
    next
      case False
      with r show ?thesis by (intro bexI [of _ r]) auto
    qed
  qed
qed

lemma row_to_execution_task: "row_to_execution K now r = Inr e \<Longrightarrow> execution_task_id e = run_task_id r"
  by (auto simp: row_to_execution_def outcome_simps)

lemma find_latest_spec:
  assumes "find_latest_run_per_task K f now ts d = Inr m"
  shows "m t = Some e \<Longrightarrow> t \<in> set ts \<and> (\<exists>r \<in> set (runs d). run_task_id r = t
           \<and> row_to_execution K now r = Inr e
           \<and> (\<forall>r' \<in> set (runs d). run_task_id r' = t \<longrightarrow> \<not> later_run r' r))"
    and "m t = None \<longleftrightarrow> t \<notin> set ts \<or> (\<forall>r \<in> set (runs d). run_task_id r \<noteq> t)"
proof -
  let ?listed = "filter (\<lambda>r. run_task_id r \<in> set ts) (runs d)"
  obtain es where
    rows: "list_all2 (\<lambda>r e. row_to_execution K now r = Inr e) (filter (row_number_one ?listed) ?listed) es"
    and m: "m = fold (\<lambda>e m. m(execution_task_id e \<mapsto> e)) es Map.empty"
  proof (cases "ts = []")
    case True
    with assms have "m = Map.empty" by (simp add: find_latest_run_per_task_def)
    with True show thesis by (intro that [of "[]"]) simp_all
  next
    case False
    with assms show thesis
      by (auto simp: find_latest_run_per_task_def Let_def outcome_simps rmap_list_Inr intro: that)
  qed
  have fwd: "\<exists>r \<in> set ?listed. row_number_one ?listed r \<and> row_to_execution K now r = Inr e" if "e \<in> set es" for e
    using list_all2_in2 [OF rows that] by auto
  have bwd: "\<exists>e \<in> set es. row_to_execution K now r = Inr e" if "r \<in> set ?listed" "row_number_one ?listed r" for r
  proof -
    have "r \<in> set (filter (row_number_one ?listed) ?listed)" using that by simp
    from list_all2_in1 [OF rows this] show ?thesis .
  qed
  have top: "\<forall>r' \<in> set (runs d). run_task_id r' = run_task_id r \<longrightarrow> \<not> later_run r' r"
    if "r \<in> set ?listed" "row_number_one ?listed r" for r
    using that by (auto simp: row_number_one_def list_all_iff)
  show "t \<in> set ts \<and> (\<exists>r \<in> set (runs d). run_task_id r = t \<and> row_to_execution K now r = Inr e
      \<and> (\<forall>r' \<in> set (runs d). run_task_id r' = t \<longrightarrow> \<not> later_run r' r))" if "m t = Some e"
  proof -
    have "find (\<lambda>e. execution_task_id e = t) (rev es) = Some e"
      using that by (simp add: m fold_latest split: option.splits)
    then have e: "e \<in> set es" "execution_task_id e = t" by (auto dest: find_Some_in)
    from fwd [OF e(1)] obtain r where r: "r \<in> set ?listed" "row_number_one ?listed r"
      "row_to_execution K now r = Inr e" by blast
    have "run_task_id r = t" using row_to_execution_task [OF r(3)] e(2) by simp
    with r(1,3) top [OF r(1,2)] show ?thesis by auto
  qed
  have "m t \<noteq> None" if "t \<in> set ts" "r \<in> set (runs d)" "run_task_id r = t" for r
  proof -
    have "filter (\<lambda>r. run_task_id r = t) ?listed \<noteq> []" using that by (auto simp: filter_empty_conv)
    from latest_exists [OF this] obtain x where x: "x \<in> set ?listed" "run_task_id x = t"
      "\<forall>r' \<in> set ?listed. run_task_id r' = t \<longrightarrow> \<not> later_run r' x" by auto
    then have "row_number_one ?listed x" by (auto simp: row_number_one_def list_all_iff)
    from bwd [OF x(1) this] obtain e where "e \<in> set es" "execution_task_id e = t"
      using row_to_execution_task x(2) by metis
    then show ?thesis by (auto simp: m fold_latest find_None_iff split: option.splits)
  qed
  moreover have "m t = None" if "t \<notin> set ts \<or> (\<forall>r \<in> set (runs d). run_task_id r \<noteq> t)"
  proof -
    have "execution_task_id e \<noteq> t" if "e \<in> set es" for e
      using fwd [OF that] \<open>t \<notin> set ts \<or> _\<close> row_to_execution_task by fastforce
    then have "find (\<lambda>e. execution_task_id e = t) (rev es) = None" by (auto simp: find_None_iff)
    then show ?thesis by (simp add: m fold_latest)
  qed
  ultimately show "m t = None \<longleftrightarrow> t \<notin> set ts \<or> (\<forall>r \<in> set (runs d). run_task_id r \<noteq> t)" by blast
qed

end
