(* ===== verification/Text_Codec.thy ===== *)
theory Text_Codec
  imports Store_Facts "HOL-Library.Countable"
begin

text \<open>
  A concrete codec that meets the contract \<open>codec_ok\<close>, for the instances of the properties that
  assume it: values are numbered and a number is written in unary, so that texts of times are
  ordered like the times.
\<close>

instance task_id :: countable by countable_datatype
instance trigger_id :: countable by countable_datatype
instance action_id :: countable by countable_datatype
instance weekday :: countable by countable_datatype
instance fuzzy_period :: countable by countable_datatype
instance network_event_kind :: countable by countable_datatype
instance trigger_kind :: countable by countable_datatype
instance script_encoding :: countable by countable_datatype
instance action_kind :: countable by countable_datatype
instance task_notification_policy :: countable by countable_datatype
instance concurrency_policy :: countable by countable_datatype
instance missed_run_policy :: countable by countable_datatype
instance log_retention_policy :: countable by countable_datatype
instance system_log_retention :: countable by countable_datatype

definition unary :: "nat \<Rightarrow> string" where
  "unary n = replicate n (CHR ''1'')"

lemma unary_less: "unary m < unary n \<longleftrightarrow> m < n"
proof (induction m arbitrary: n)
  case 0
  then show ?case by (cases n) (simp_all add: unary_def)
next
  case (Suc m)
  show ?case
  proof (cases n)
    case 0
    then show ?thesis by (simp add: unary_def)
  next
    case (Suc n')
    then have "unary (Suc m) < unary n \<longleftrightarrow> unary m < unary n'" by (simp add: unary_def)
    with Suc.IH [of n'] Suc show ?thesis by simp
  qed
qed

definition unary_text :: "'a::countable \<Rightarrow> string" where
  "unary_text x = unary (to_nat x)"

definition of_unary_text :: "string \<Rightarrow> 'a::countable" where
  "of_unary_text s = from_nat (length s)"

lemma of_unary_text_inverse [simp]: "of_unary_text (unary_text x) = x"
  by (simp add: of_unary_text_def unary_text_def unary_def)

definition text_codec :: codec where
  "text_codec =
     \<lparr>enc_policy = (\<lambda>p. Inr (unary_text
          (concurrency_policy p, missed_run_policy p, max_retries (retry_policy p),
           delay_secs (retry_policy p), timeout_secs p, notification p, log_retention p))),
      dec_policy = (\<lambda>s. case of_unary_text s of (c, m, r, d, t, n, l) \<Rightarrow>
          Inr \<lparr>concurrency_policy = c, missed_run_policy = m,
               retry_policy = \<lparr>max_retries = r, delay_secs = d\<rparr>, timeout_secs = t,
               notification = n, log_retention = l\<rparr>),
      enc_env = (\<lambda>e. Inr (unary_text e)), dec_env = (\<lambda>s. Inr (of_unary_text s)),
      enc_trigger = (\<lambda>x. Inr (unary_text
          (trigger_id x, trigger_task_id x, trigger_enabled x, trigger_kind x,
           trigger_created_at x, trigger_updated_at x))),
      dec_trigger = (\<lambda>s. case of_unary_text s of (i, t, e, k, c, u) \<Rightarrow>
          Inr \<lparr>trigger_id = i, trigger_task_id = t, trigger_enabled = e, trigger_kind = k,
               trigger_created_at = c, trigger_updated_at = u\<rparr>),
      enc_action = (\<lambda>x. Inr (unary_text
          (action_id x, action_task_id x, action_sequence x, action_enabled x, action_kind x))),
      dec_action = (\<lambda>s. case of_unary_text s of (i, t, n, e, k) \<Rightarrow>
          Inr \<lparr>action_id = i, action_task_id = t, action_sequence = n, action_enabled = e,
               action_kind = k\<rparr>),
      enc_settings = (\<lambda>x. Inr (unary_text (default_log_retention x))),
      dec_settings = (\<lambda>s. Inr \<lparr>default_log_retention = of_unary_text s\<rparr>),
      debug_kind = (\<lambda>_. []),
      to_rfc3339 = (\<lambda>u. unary (nat (u + 62167219200 * sec_ns))),
      parse_time = (\<lambda>s. Some (int (length s) - 62167219200 * sec_ns)),
      path_lossy = (\<lambda>p. p)\<rparr>"

lemma text_codec_ok: "codec_ok text_codec"
  unfolding codec_ok_def
proof (intro conjI allI impI)
  fix u v assume "db_time u" "db_time v"
  then have "0 \<le> u + 62167219200 * sec_ns" "0 \<le> v + 62167219200 * sec_ns" by (auto simp: db_time_def)
  then show "(to_rfc3339 text_codec u < to_rfc3339 text_codec v) = (u < v)"
    by (auto simp: text_codec_def unary_less nat_less_eq_zless)
next
  fix u assume "db_time u"
  then show "parse_time text_codec (to_rfc3339 text_codec u) = Some u"
    by (simp add: text_codec_def unary_def db_time_def)
qed (simp_all add: text_codec_def split: prod.splits)

end
