(* ===== verification/Store_Props.thy ===== *)
theory Store_Props
  imports Store_Facts Text_Codec
begin

text \<open>
  What the rest of the program relies on in the persistence layer: the contract of the repository
  traits as locales, their interpretation on the SQLite model, and the properties of the tables.
\<close>

section \<open>The repository traits\<close>

text \<open>What a caller of \<open>trait ExecutionRepository\<close> relies on.\<close>

locale execution_repository =
  fixes create :: "execution \<Rightarrow> 'd \<Rightarrow> unit result \<times> 'd"
    and update :: "execution \<Rightarrow> 'd \<Rightarrow> unit result \<times> 'd"
    and append :: "execution_id \<Rightarrow> string \<Rightarrow> string \<Rightarrow> 'd \<Rightarrow> unit result \<times> 'd"
    and lookup :: "execution_id \<Rightarrow> 'd \<Rightarrow> execution option"
    and storable :: "execution \<Rightarrow> bool"
  assumes create_lookup:
      "create e d = (Inr (), d') \<Longrightarrow> storable e \<Longrightarrow> lookup (execution_id e) d' = Some e"
    and create_failed: "create e d = (Inl err, d') \<Longrightarrow> d' = d"
    and update_lookup:
      "update e d = (Inr (), d') \<Longrightarrow> storable e \<Longrightarrow> lookup (execution_id e) d = Some old \<Longrightarrow>
         lookup (execution_id e) d' = Some (merge_update e old)"
    and append_lookup: "append i s c d = (r, d') \<Longrightarrow> lookup j d' = lookup j d"
begin

text \<open>A run's record between its creation and its update, whatever output is appended.\<close>

fun append_all :: "execution_id \<Rightarrow> (string \<times> string) list \<Rightarrow> 'd \<Rightarrow> 'd" where
  "append_all i [] d = d"
| "append_all i ((s, c) # rest) d = append_all i rest (snd (append i s c d))"

lemma append_all_lookup: "lookup j (append_all i xs d) = lookup j d"
  by (induction xs arbitrary: d) (auto simp: append_lookup [OF surjective_pairing])

lemma recorded_run:
  assumes "create e d = (Inr (), d1)" and "update e' (append_all (execution_id e) out d1) = (Inr (), d2)"
    and "storable e" and "storable e'" and "execution_id e' = execution_id e"
  shows "lookup (execution_id e) d2 = Some (merge_update e' e)"
proof -
  have "lookup (execution_id e') (append_all (execution_id e) out d1) = Some e"
    using create_lookup [OF assms(1,3)] by (simp add: append_all_lookup assms(5))
  from update_lookup [OF assms(2,4) this] show ?thesis by (simp add: assms(5))
qed

end

text \<open>The SQLite repository keeps that contract.\<close>

definition stored_run :: "codec \<Rightarrow> execution_id \<Rightarrow> db \<Rightarrow> execution option" where
  "stored_run K i d = (case find_run_by_id K no_faults 0 i d of Inr r \<Rightarrow> r | Inl _ \<Rightarrow> None)"

lemma append_output_runs: "append_output K f now i s c d = (r, d') \<Longrightarrow> runs d' = runs d"
  by (auto simp: append_output_def split: sum.splits if_splits)

lemma sqlite_execution_repository:
  assumes "codec_ok K"
  shows "execution_repository (create_run K f) (update_run K f) (append_output K f now) (stored_run K) run_times_ok"
proof
  fix e old :: execution and d d' :: db and err i s c r j
  show "stored_run K (execution_id e) d' = Some e"
    if "create_run K f e d = (Inr (), d')" "run_times_ok e"
    using find_after_create [OF assms that, of 0] by (simp add: stored_run_def)
  show "d' = d" if "create_run K f e d = (Inl err, d')"
    using that by (auto simp: create_run_def split: sum.splits if_splits)
  show "stored_run K (execution_id e) d' = Some (merge_update e old)"
    if "update_run K f e d = (Inr (), d')" "run_times_ok e" "stored_run K (execution_id e) d = Some old"
  proof -
    have "find_run_by_id K no_faults 0 (execution_id e) d = Inr (Some old)"
      using that(3) by (auto simp: stored_run_def split: sum.splits)
    from find_after_update [OF assms that(1,2) this] show ?thesis by (simp add: stored_run_def)
  qed
  show "stored_run K j d' = stored_run K j d" if "append_output K f now i s c d = (r, d')"
    using append_output_runs [OF that] by (simp add: stored_run_def find_run_by_id_def)
qed

locale sqlite_store =
  fixes K :: codec and f :: faults and now :: instant
  assumes codec: "codec_ok K"

sublocale sqlite_store \<subseteq> repo: execution_repository
  "create_run K f" "update_run K f" "append_output K f now" "stored_run K" run_times_ok
  by (rule sqlite_execution_repository [OF codec])

interpretation text_store: sqlite_store text_codec no_faults 0
  by unfold_locales (rule text_codec_ok)

section \<open>Integrity\<close>

text \<open>Every statement sequence the repositories can run, faults included.\<close>

datatype store_op =
    SaveTask task
  | DeleteTask task_id
  | CreateRun execution
  | UpdateRun execution
  | AppendOutput execution_id string string
  | PurgeRuns task_id instant
  | RecoverRuns
  | SaveSettings system_settings

fun apply_op :: "codec \<Rightarrow> faults \<Rightarrow> instant \<Rightarrow> store_op \<Rightarrow> db \<Rightarrow> db" where
  "apply_op K f now (SaveTask t) d = snd (save_task K f t d)"
| "apply_op K f now (DeleteTask t) d = snd (delete_task f t d)"
| "apply_op K f now (CreateRun e) d = snd (create_run K f e d)"
| "apply_op K f now (UpdateRun e) d = snd (update_run K f e d)"
| "apply_op K f now (AppendOutput i s c) d = snd (append_output K f now i s c d)"
| "apply_op K f now (PurgeRuns t u) d = snd (purge_expired_runs K f t u d)"
| "apply_op K f now RecoverRuns d = snd (recover_dangling_executions f d)"
| "apply_op K f now (SaveSettings s) d = snd (save_system_settings K f now s d)"

lemma apply_op_ok: "db_ok d \<Longrightarrow> db_ok (apply_op K f now x d)"
  by (cases x)
     (auto intro: save_task_db_ok [OF _ surjective_pairing] delete_task_db_ok [OF _ surjective_pairing]
        create_run_db_ok [OF _ surjective_pairing] update_run_db_ok [OF _ surjective_pairing]
        append_output_db_ok [OF _ surjective_pairing] purge_db_ok [OF _ surjective_pairing]
        recover_db_ok [OF _ surjective_pairing] save_settings_db_ok [OF _ surjective_pairing])

text \<open>C13. From the empty database, whatever sequence of repository calls runs and whichever database calls
  fail on the way, primary keys stay unique and no trigger, action, run or output is left without its
  parent row.\<close>

theorem store_integrity:
  "db_ok (fold (\<lambda>(f, now, x). apply_op K f now x) history empty_db)"
proof -
  have "db_ok (fold (\<lambda>(f, now, x). apply_op K f now x) history d)" if "db_ok d" for d
    using that by (induction history arbitrary: d) (auto simp: apply_op_ok)
  moreover have "db_ok empty_db" by (simp add: db_ok_def empty_db_def)
  ultimately show ?thesis .
qed

section \<open>Tasks\<close>

text \<open>C15. A task that was saved is read back with every field as saved, its actions in the order of
  their sequence numbers; saving again counts the version up and keeps the creation time; other
  tasks read as before.\<close>

theorem saved_task_is_found:
  assumes "codec_ok K" and "save_task K f t d = (Inr (), d')"
    and "db_time (task_created_at t)" and "db_time (task_updated_at t)" and "t' \<noteq> task_id t"
  shows "(\<exists>env. map_of env = map_of (environment t)
      \<and> find_task_by_id K no_faults now (task_id t) d' = Inr (Some
          (t\<lparr>actions := sort_key action_sequence (actions t),
             working_directory := map_option (path_lossy K) (working_directory t),
             environment := env,
             task_version := (case find (\<lambda>r. row_task_id r = task_id t) (tasks d) of
               None \<Rightarrow> task_version t | Some r \<Rightarrow> row_version r + 1),
             task_created_at := (case find (\<lambda>r. row_task_id r = task_id t) (tasks d) of
               None \<Rightarrow> task_created_at t
             | Some r \<Rightarrow> (case parse_time K (row_created_at r) of Some u \<Rightarrow> u | None \<Rightarrow> now))\<rparr>)))
    \<and> find_task_by_id K g now t' d' = find_task_by_id K g now t' d"
  using find_after_save [OF assms(1-4)] find_other_after_save [OF assms(2,5)] by blast

definition small_task :: task where
  "small_task =
     \<lparr>task_id = TaskId 7, task_name = ''backup'', task_description = None, task_enabled = True,
      triggers = [], actions = [], execution_policy = default_execution_policy,
      working_directory = None, environment = [], task_version = 1, task_created_at = 0,
      task_updated_at = 0\<rparr>"

lemma small_task_saves: "\<exists>d'. save_task text_codec no_faults small_task empty_db = (Inr (), d')"
  by (simp add: save_task_def save_task_tx_def small_task_def text_codec_def call_db_def no_faults_def Let_def)

lemma saved_task_is_found_witness:
  "\<exists>d' env. map_of env = map_of (environment small_task)
      \<and> find_task_by_id text_codec no_faults 0 (task_id small_task) d' = Inr (Some
          (small_task\<lparr>actions := sort_key action_sequence (actions small_task),
             working_directory := map_option (path_lossy text_codec) (working_directory small_task),
             environment := env, task_version := 1, task_created_at := 0\<rparr>))"
proof -
  obtain d' where d': "save_task text_codec no_faults small_task empty_db = (Inr (), d')"
    using small_task_saves by blast
  have "db_time 0" by (simp add: db_time_def sec_ns_def)
  then have "db_time (task_created_at small_task)" "db_time (task_updated_at small_task)"
    by (simp_all add: small_task_def)
  from saved_task_is_found [OF text_codec_ok d' this, of "TaskId 8" 0 no_faults]
  show ?thesis by (auto simp: small_task_def empty_db_def)
qed

text \<open>A deleted task leaves nothing behind: it is not found, none of its triggers, actions, runs
  or outputs of its runs remains, and nothing of any other task is touched.\<close>

theorem deleted_task_leaves_nothing:
  assumes "delete_task f t d = (Inr (), d')" and "db_ok d"
  shows "find_task_by_id K no_faults now t d' = Inr None
    \<and> trigger_rows d' = filter (\<lambda>r. trow_task_id r \<noteq> t) (trigger_rows d)
    \<and> action_rows d' = filter (\<lambda>r. arow_task_id r \<noteq> t) (action_rows d)
    \<and> runs d' = filter (\<lambda>r. run_task_id r \<noteq> t) (runs d)
    \<and> outputs d' = filter (\<lambda>x. \<exists>r \<in> set (runs d'). run_id r = out_run_id x) (outputs d)
    \<and> tasks d' = filter (\<lambda>r. row_task_id r \<noteq> t) (tasks d)"
proof -
  note eqs = delete_task_ok [OF assms(1)]
  have "find (\<lambda>r. row_task_id r = t) (tasks d') = None" by (simp add: eqs(1) find_None_iff)
  then have "find_task_by_id K no_faults now t d' = Inr None"
    by (simp add: find_task_by_id_def call_db_def no_faults_def)
  moreover have "outputs d' = filter (\<lambda>x. \<exists>r \<in> set (runs d'). run_id r = out_run_id x) (outputs d)"
    unfolding eqs(5)
  proof (rule filter_cong [OF refl])
    fix x assume "x \<in> set (outputs d)"
    then obtain r where "r \<in> set (runs d)" "out_run_id x = run_id r"
      using db_okD(9) [OF assms(2)] by blast
    then show "(out_run_id x \<notin> run_id ` {r \<in> set (runs d). run_task_id r = t})
        = (\<exists>r \<in> set (runs d'). run_id r = out_run_id x)"
      using db_okD(4) [OF assms(2)] by (auto simp: eqs(4) distinct_map dest: inj_onD)
  qed
  ultimately show ?thesis using eqs by simp
qed

definition demo_run :: run_row where
  "demo_run = \<lparr>run_id = ExecutionId 3, run_task_id = TaskId 7, run_trigger_id = None,
     run_status = status_json Running, run_scheduled_at = None, run_started_at = ''1'',
     run_finished_at = None, run_duration_ms = None, run_exit_code = None, run_error_message = None\<rparr>"

definition demo_db :: db where
  "demo_db = empty_db\<lparr>
     tasks := [task_to_row text_codec small_task ''p'' ''e''], runs := [demo_run],
     outputs := [\<lparr>out_id = 1, out_run_id = ExecutionId 3, out_stream = ''stdout'', out_content = ''x'',
                  out_created_at = ''1''\<rparr>], next_output_id := 2\<rparr>"

lemma demo_db_ok: "db_ok demo_db"
  by (simp add: demo_db_def db_ok_def empty_db_def task_to_row_def small_task_def demo_run_def)

lemma deleted_task_leaves_nothing_witness:
  "find_task_by_id text_codec no_faults 0 (TaskId 7) (snd (delete_task no_faults (TaskId 7) demo_db)) = Inr None
   \<and> runs (snd (delete_task no_faults (TaskId 7) demo_db)) = []
   \<and> outputs (snd (delete_task no_faults (TaskId 7) demo_db)) = []"
  using deleted_task_leaves_nothing [of no_faults "TaskId 7" demo_db
      "snd (delete_task no_faults (TaskId 7) demo_db)" text_codec 0] demo_db_ok
  by (simp add: delete_task_def call_db_def no_faults_def demo_db_def empty_db_def demo_run_def)

section \<open>Runs\<close>

text \<open>Purging deletes exactly the finished runs of its task that started before the cut-off: no
  running one, none of another task, none younger.\<close>

lemma purge_exact:
  assumes "codec_ok K" and "purge_expired_runs K f t before d = (Inr n, d')"
    and "r \<in> set (runs d)" and "run_started_at r = to_rfc3339 K u" and "db_time u" and "db_time before"
  shows "r \<in> set (runs d') \<longleftrightarrow>
     \<not> (run_task_id r = t \<and> u < before \<and> run_status r \<noteq> status_json Running)"
proof -
  have "runs d' = filter (\<lambda>r. \<not> expired K t before r) (runs d)"
    using assms(2) by (auto simp: purge_expired_runs_def cascade_runs_def Let_def split: sum.splits)
  with assms(3) have "r \<in> set (runs d') \<longleftrightarrow> \<not> expired K t before r" by simp
  also have "expired K t before r \<longleftrightarrow> run_task_id r = t \<and> u < before \<and> run_status r \<noteq> status_json Running"
    using codec_okD(7) [OF assms(1,5,6)] assms(4) by (auto simp: expired_def status_json_def)
  finally show ?thesis .
qed

text \<open>After a restart no run is left as running: each dangling one reads as interrupted, with the
  reason as its error message, and every other run reads as before.\<close>

theorem recovery_interrupts_dangling_runs:
  assumes "recover_dangling_executions f d = (Inr n, d')"
  shows "find_run_by_id K no_faults now i d' =
     rbind (find_run_by_id K no_faults now i d) (\<lambda>found.
       Inr (map_option (\<lambda>e. if status e = Running
              then e\<lparr>status := Interrupted, error_message := Some ''Agent restarted unexpectedly''\<rparr>
              else e) found))"
proof -
  let ?g = "\<lambda>r. if run_status r = status_json Running
     then r\<lparr>run_status := status_json Interrupted,
            run_error_message := Some ''Agent restarted unexpectedly''\<rparr> else r"
  have d': "runs d' = map ?g (runs d)"
    using assms by (auto simp: recover_dangling_executions_def split: sum.splits)
  have f: "find (\<lambda>r. run_id r = i) (runs d') = map_option ?g (find (\<lambda>r. run_id r = i) (runs d))"
    unfolding d' by (rule find_map_same) simp
  have row: "row_to_execution K now (?g r) =
      rbind (row_to_execution K now r) (\<lambda>e. Inr (if status e = Running
         then e\<lparr>status := Interrupted, error_message := Some ''Agent restarted unexpectedly''\<rparr> else e))" for r
  proof (cases "run_status r = status_json Running")
    case True
    then show ?thesis by (simp add: row_to_execution_def status_from_json_of)
  next
    case False
    have "status_from_json (run_status r) \<noteq> Inr Running"
      using False by (auto simp: status_from_json_def dest: find_Some_in split: option.splits)
    with False show ?thesis by (cases "status_from_json (run_status r)") (auto simp: row_to_execution_def)
  qed
  show ?thesis
  proof (cases "find (\<lambda>r. run_id r = i) (runs d)")
    case None
    with f show ?thesis by (simp add: find_run_by_id_def call_db_def no_faults_def)
  next
    case (Some r)
    with f row [of r] show ?thesis
      by (cases "row_to_execution K now r") (simp_all add: find_run_by_id_def call_db_def no_faults_def)
  qed
qed

lemma recovery_interrupts_dangling_runs_witness:
  "find_run_by_id text_codec no_faults 0 (ExecutionId 3) (snd (recover_dangling_executions no_faults demo_db)) =
     rbind (find_run_by_id text_codec no_faults 0 (ExecutionId 3) demo_db) (\<lambda>found.
       Inr (map_option (\<lambda>e. if status e = Running
              then e\<lparr>status := Interrupted, error_message := Some ''Agent restarted unexpectedly''\<rparr>
              else e) found))"
  by (rule recovery_interrupts_dangling_runs [of no_faults demo_db 1])
     (simp add: recover_dangling_executions_def call_db_def no_faults_def demo_db_def demo_run_def)

text \<open>The overview's batch query returns, for each listed task with a run, a run of that task such
  that none of its runs started later; a task without runs, or not listed, has no entry.\<close>

theorem latest_run_is_the_latest:
  assumes "codec_ok K" and "find_latest_run_per_task K f now ts d = Inr m"
    and "\<forall>r \<in> set (runs d). \<exists>u. db_time u \<and> run_started_at r = to_rfc3339 K u"
  shows "(m t = None \<longleftrightarrow> t \<notin> set ts \<or> (\<forall>r \<in> set (runs d). run_task_id r \<noteq> t))
     \<and> (\<forall>e. m t = Some e \<longrightarrow> (\<exists>r \<in> set (runs d). run_task_id r = t \<and> row_to_execution K now r = Inr e)
          \<and> (\<forall>r \<in> set (runs d). \<forall>u. run_task_id r = t \<longrightarrow> db_time u \<longrightarrow>
               run_started_at r = to_rfc3339 K u \<longrightarrow> u \<le> started_at e))"
proof -
  note spec = find_latest_spec [OF assms(2)]
  have "(\<exists>r \<in> set (runs d). run_task_id r = t \<and> row_to_execution K now r = Inr e)
      \<and> (\<forall>r \<in> set (runs d). \<forall>u. run_task_id r = t \<longrightarrow> db_time u \<longrightarrow>
           run_started_at r = to_rfc3339 K u \<longrightarrow> u \<le> started_at e)" if "m t = Some e" for e
  proof -
    from spec(1) [OF that] obtain r where r: "r \<in> set (runs d)" "run_task_id r = t"
      "row_to_execution K now r = Inr e"
      "\<forall>r' \<in> set (runs d). run_task_id r' = t \<longrightarrow> \<not> later_run r' r" by blast
    obtain v where v: "db_time v" "run_started_at r = to_rfc3339 K v" using assms(3) r(1) by blast
    have e: "started_at e = v"
      using r(3) v codec_okD(6) [OF assms(1) v(1)] by (auto simp: row_to_execution_def outcome_simps)
    have "u \<le> v" if "r' \<in> set (runs d)" "run_task_id r' = t" "db_time u" "run_started_at r' = to_rfc3339 K u" for r' u
    proof (rule ccontr)
      assume "\<not> u \<le> v"
      then have "run_started_at r < run_started_at r'"
        using codec_okD(7) [OF assms(1) v(1) that(3)] v(2) that(4) by simp
      with r(4) that(1,2) show False by (auto simp: later_run_def)
    qed
    with r e show ?thesis by blast
  qed
  with spec(2) [of t] show ?thesis by blast
qed

lemma latest_run_is_the_latest_witness:
  "\<exists>(m :: task_id \<rightharpoonup> execution) e. m (TaskId 7) = Some e \<and> started_at e = 0 \<and> execution_task_id e = TaskId 7"
proof -
  let ?d = "demo_db\<lparr>runs := [demo_run\<lparr>run_started_at := to_rfc3339 text_codec 0\<rparr>]\<rparr>"
  have z: "db_time 0" by (simp add: db_time_def sec_ns_def)
  obtain m where m: "find_latest_run_per_task text_codec no_faults 0 [TaskId 7] ?d = Inr m"
    by (auto simp: find_latest_run_per_task_def call_db_def no_faults_def row_number_one_def later_run_def
        row_to_execution_def demo_run_def status_from_json_of)
  have "\<forall>r \<in> set (runs ?d). \<exists>u. db_time u \<and> run_started_at r = to_rfc3339 text_codec u"
    using z by auto
  note w = latest_run_is_the_latest [OF text_codec_ok m this, of "TaskId 7"]
  have "m (TaskId 7) \<noteq> None" using w [THEN conjunct1] by (simp add: demo_run_def)
  then obtain e where e: "m (TaskId 7) = Some e" by auto
  from mp [OF spec [OF conjunct2 [OF w], of e] e, THEN conjunct1]
  obtain r where "r \<in> set (runs ?d)" "row_to_execution text_codec 0 r = Inr e" by (elim bexE conjE)
  then have row: "row_to_execution text_codec 0 (demo_run\<lparr>run_started_at := to_rfc3339 text_codec 0\<rparr>) = Inr e"
    by simp
  have "started_at e = 0"
    using row codec_okD(6) [OF text_codec_ok z] unfolding row_to_execution_def rbind_Inr_iff
    by (elim exE conjE) (drule sum.inject(2) [THEN iffD1], erule subst, simp)
  moreover have "execution_task_id e = TaskId 7"
    using row_to_execution_task [OF row] by (simp add: demo_run_def)
  ultimately have "started_at e = 0 \<and> execution_task_id e = TaskId 7" by blast
  with e show ?thesis by (intro exI [of _ m] exI [of _ e]) simp
qed

end
