(* ===== verification/Exec_Manager.thy ===== *)
theory Exec_Manager
  imports Domain "HOL-Library.AList"
begin

text \<open>
  The execution manager of \<^verbatim>\<open>crates/executor/src/manager.rs\<close>: a global semaphore and a number of
  running executions per task.  The semaphore is its number of free permits, the counts are an
  association list.
\<close>

section \<open>Definitions\<close>

record execution_request =
  req_task_id :: task_id
  req_policy :: concurrency_policy

definition new_request :: "task_id \<Rightarrow> concurrency_policy \<Rightarrow> execution_request" where
  "new_request t p = \<lparr>req_task_id = t, req_policy = p\<rparr>"

record exec_manager =
  global_limiter :: nat
  task_running_counts :: "(task_id \<times> nat) list"

definition new_manager :: "nat \<Rightarrow> exec_manager" where
  "new_manager max_concurrent = \<lparr>global_limiter = max_concurrent, task_running_counts = []\<rparr>"

definition count_of :: "exec_manager \<Rightarrow> task_id \<Rightarrow> nat" where
  "count_of m t = get_or (map_of (task_running_counts m)) t 0"

text \<open>\<open>entry(t).or_insert(0)\<close>, then the policy decides whether the count is raised.\<close>

definition set_count :: "task_id \<Rightarrow> nat \<Rightarrow> exec_manager \<Rightarrow> exec_manager" where
  "set_count t n m = m\<lparr>task_running_counts := AList.update t n (task_running_counts m)\<rparr>"

definition try_acquire_slot :: "task_id \<Rightarrow> concurrency_policy \<Rightarrow> exec_manager \<Rightarrow> bool \<times> exec_manager" where
  "try_acquire_slot t policy m =
     (let running = count_of m t;
          m = set_count t running m
      in case policy of
           AllowParallel \<Rightarrow> (True, set_count t (running + 1) m)
         | SkipIfRunning \<Rightarrow> if running > 0 then (False, m) else (True, set_count t (running + 1) m)
         | QueueOne \<Rightarrow> if running \<ge> 2 then (False, m) else (True, set_count t (running + 1) m))"

definition try_acquire_request :: "execution_request \<Rightarrow> exec_manager \<Rightarrow> bool \<times> exec_manager" where
  "try_acquire_request r m = try_acquire_slot (req_task_id r) (req_policy r) m"

definition release_slot :: "task_id \<Rightarrow> exec_manager \<Rightarrow> exec_manager" where
  "release_slot t m =
     (case map_of (task_running_counts m) t of
        None \<Rightarrow> m
      | Some old \<Rightarrow>
          let running = (if old > 0 then old - 1 else old);
              m = set_count t running m
          in if running = 0
             then m\<lparr>task_running_counts := AList.delete t (task_running_counts m)\<rparr>
             else m)"

definition running_count :: "exec_manager \<Rightarrow> task_id \<Rightarrow> nat" where
  "running_count m t = count_of m t"

definition total_running_count :: "exec_manager \<Rightarrow> nat" where
  "total_running_count m = sum_list (map snd (task_running_counts m))"

text \<open>\<open>try_acquire_owned\<close> on the global semaphore, and dropping the permit.\<close>

definition try_acquire_owned :: "exec_manager \<Rightarrow> bool \<times> exec_manager" where
  "try_acquire_owned m =
     (if 0 < global_limiter m then (True, m\<lparr>global_limiter := global_limiter m - 1\<rparr>) else (False, m))"

definition drop_permit :: "exec_manager \<Rightarrow> exec_manager" where
  "drop_permit m = m\<lparr>global_limiter := global_limiter m + 1\<rparr>"

section \<open>Well-formedness\<close>

text \<open>At most one entry per task, and none that counts zero.\<close>

definition counts_ok :: "exec_manager \<Rightarrow> bool" where
  "counts_ok m \<longleftrightarrow> distinct (map fst (task_running_counts m))
     \<and> (\<forall>(t, n) \<in> set (task_running_counts m). 0 < n)"

definition policy_allows :: "concurrency_policy \<Rightarrow> nat \<Rightarrow> bool" where
  "policy_allows p n =
     (case p of AllowParallel \<Rightarrow> True | SkipIfRunning \<Rightarrow> n = 0 | QueueOne \<Rightarrow> n < 2)"

lemma count_set [simp]: "count_of (set_count t n m) t' = (if t' = t then n else count_of m t')"
  by (simp add: count_of_def set_count_def update_conv' get_or_def)

lemma limiter_set [simp]: "global_limiter (set_count t n m) = global_limiter m"
  by (simp add: set_count_def)

lemma acquire_spec:
  "fst (try_acquire_slot t p m) = policy_allows p (count_of m t)"
  "count_of (snd (try_acquire_slot t p m)) t' =
     (if t' = t \<and> policy_allows p (count_of m t) then count_of m t + 1 else count_of m t')"
  "global_limiter (snd (try_acquire_slot t p m)) = global_limiter m"
  by (auto simp: try_acquire_slot_def Let_def policy_allows_def split: concurrency_policy.splits)

lemma release_spec:
  "count_of (release_slot t m) t' = (if t' = t then count_of m t - 1 else count_of m t')"
  "global_limiter (release_slot t m) = global_limiter m"
  by (auto simp: release_slot_def Let_def count_of_def get_or_def set_count_def update_conv' delete_conv'
      split: option.splits)

lemma update_entries:
  "distinct (map fst xs) \<Longrightarrow>
     (x, n) \<in> set (AList.update t k xs) \<longleftrightarrow> (if x = t then n = k else (x, n) \<in> set xs)"
  by (induction xs) (auto simp: image_iff)

lemma acquire_counts_ok: "counts_ok m \<Longrightarrow> counts_ok (snd (try_acquire_slot t p m))"
proof -
  assume ok: "counts_ok m"
  have dist: "distinct (map fst (AList.update t k (task_running_counts m)))" for k
    using ok by (simp add: counts_ok_def distinct_update)
  have twice: "AList.update t k (AList.update t j xs) = AList.update t k xs" for k j :: nat and xs
    by (induction xs) auto
  have set1: "counts_ok (set_count t k m)" if "0 < k" for k
    using ok that dist update_entries [of "task_running_counts m" _ _ t k]
    by (auto simp: counts_ok_def set_count_def split: if_splits)
  have "set_count t k (set_count t j m) = set_count t k m" for k j
    by (simp add: set_count_def twice)
  with set1 show ?thesis
    by (auto simp: try_acquire_slot_def Let_def split: concurrency_policy.splits)
qed

lemma release_counts_ok:
  assumes ok: "counts_ok m" shows "counts_ok (release_slot t m)"
proof (cases "map_of (task_running_counts m) t")
  case None
  then show ?thesis using ok by (simp add: release_slot_def)
next
  case (Some n)
  let ?xs = "task_running_counts m"
  have d: "distinct (map fst ?xs)" using ok by (simp add: counts_ok_def)
  have entries: "(x, k) \<in> set (AList.update t j ?xs) \<longleftrightarrow> (if x = t then k = j else (x, k) \<in> set ?xs)" for x k j
    by (rule update_entries [OF d])
  have dist: "distinct (map fst (AList.update t j ?xs))" for j using d by (simp add: distinct_update)
  show ?thesis
  proof (cases "n - 1 = 0")
    case True
    then have "release_slot t m = m\<lparr>task_running_counts := AList.delete t (AList.update t 0 ?xs)\<rparr>"
      using Some by (simp add: release_slot_def Let_def set_count_def)
    then show ?thesis
      using ok dist entries distinct_delete [OF dist [of 0], of t]
      by (auto simp: counts_ok_def AList.delete_eq split: if_splits)
  next
    case False
    then have "release_slot t m = m\<lparr>task_running_counts := AList.update t (n - 1) ?xs\<rparr>"
      using Some by (simp add: release_slot_def Let_def set_count_def)
    then show ?thesis using ok dist entries False by (auto simp: counts_ok_def split: if_splits)
  qed
qed

section \<open>The interface\<close>

text \<open>What a client relies on: how the counts move.\<close>

locale slot_manager =
  fixes acquire :: "task_id \<Rightarrow> concurrency_policy \<Rightarrow> 'm \<Rightarrow> bool \<times> 'm"
    and release :: "task_id \<Rightarrow> 'm \<Rightarrow> 'm"
    and slots :: "'m \<Rightarrow> task_id \<Rightarrow> nat"
  assumes acquire_allowed: "fst (acquire t p m) = policy_allows p (slots m t)"
    and acquire_slots: "slots (snd (acquire t p m)) t' =
      (if t' = t \<and> policy_allows p (slots m t) then slots m t + 1 else slots m t')"
    and release_slots: "slots (release t m) t' = (if t' = t then slots m t - 1 else slots m t')"
begin

text \<open>The holders of slots, as a multiset of tasks, agree with the counts.\<close>

definition counts_holders :: "task_id multiset \<Rightarrow> 'm \<Rightarrow> bool" where
  "counts_holders H m \<longleftrightarrow> (\<forall>t. slots m t = count H t)"

lemma holders_acquire:
  assumes "counts_holders H m" and "acquire t p m = (True, m')"
  shows "counts_holders (add_mset t H) m'" and "policy_allows p (count H t)"
  using assms acquire_allowed [of t p m] acquire_slots [of t p m] by (auto simp: counts_holders_def)

lemma holders_refused:
  assumes "counts_holders H m" and "acquire t p m = (False, m')"
  shows "counts_holders H m'" and "\<not> policy_allows p (count H t)"
  using assms acquire_allowed [of t p m] acquire_slots [of t p m] by (auto simp: counts_holders_def)

lemma holders_release:
  assumes "counts_holders (add_mset t H) m"
  shows "counts_holders H (release t m)"
  using assms by (auto simp: counts_holders_def release_slots)

end

interpretation counting: slot_manager try_acquire_slot release_slot count_of
  by unfold_locales (simp_all add: acquire_spec release_spec)

end
