(* ===== verification/Job_System.thy ===== *)
theory Job_System
  imports Exec_Manager
begin

text \<open>
  The concurrency of executions in \<^verbatim>\<open>apps/agent/src/service.rs\<close>: the dispatcher and the
  \<open>task.trigger_now\<close> handler start jobs that share the execution manager and the map of active
  executions.  Every access is one step of an interleaving; a job is where it stands between
  acquiring its permit and dropping it.
\<close>

section \<open>Steps\<close>

datatype stage =
    HasPermit task_id concurrency_policy
  | HasSlot task_id
  | Registered task_id execution_id
  | Unregistered task_id execution_id
  | SlotFreed task_id
  | Over

record job_system =
  manager :: exec_manager
  active_executions :: "(execution_id \<times> task_id) list"
  jobs :: "stage list"

definition initial_jobs :: "nat \<Rightarrow> job_system" where
  "initial_jobs max_concurrent =
     \<lparr>manager = new_manager max_concurrent, active_executions = [], jobs = []\<rparr>"

text \<open>
  The steps of one job, in the order of the code: take a permit, take a slot or give the permit
  back, create the run and register it or free the slot, and at the end unregister, release the
  slot, drop the permit.
\<close>

inductive job_step :: "job_system \<Rightarrow> job_system \<Rightarrow> bool" where
  permit: "try_acquire_owned (manager s) = (True, m) \<Longrightarrow>
     job_step s (s\<lparr>manager := m, jobs := jobs s @ [HasPermit t p]\<rparr>)"
| slot: "i < length (jobs s) \<Longrightarrow> jobs s ! i = HasPermit t p \<Longrightarrow>
     try_acquire_slot t p (manager s) = (True, m) \<Longrightarrow>
     job_step s (s\<lparr>manager := m, jobs := (jobs s)[i := HasSlot t]\<rparr>)"
| refused: "i < length (jobs s) \<Longrightarrow> jobs s ! i = HasPermit t p \<Longrightarrow>
     try_acquire_slot t p (manager s) = (False, m) \<Longrightarrow>
     job_step s (s\<lparr>manager := drop_permit m, jobs := (jobs s)[i := Over]\<rparr>)"
| register: "i < length (jobs s) \<Longrightarrow> jobs s ! i = HasSlot t \<Longrightarrow>
     e \<notin> set (map fst (active_executions s)) \<Longrightarrow>
     job_step s (s\<lparr>active_executions := AList.update e t (active_executions s),
                   jobs := (jobs s)[i := Registered t e]\<rparr>)"
| create_failed: "i < length (jobs s) \<Longrightarrow> jobs s ! i = HasSlot t \<Longrightarrow>
     job_step s (s\<lparr>manager := release_slot t (manager s), jobs := (jobs s)[i := SlotFreed t]\<rparr>)"
| unregister: "i < length (jobs s) \<Longrightarrow> jobs s ! i = Registered t e \<Longrightarrow>
     job_step s (s\<lparr>active_executions := AList.delete e (active_executions s),
                   jobs := (jobs s)[i := Unregistered t e]\<rparr>)"
| release: "i < length (jobs s) \<Longrightarrow> jobs s ! i = Unregistered t e \<Longrightarrow>
     job_step s (s\<lparr>manager := release_slot t (manager s), jobs := (jobs s)[i := SlotFreed t]\<rparr>)"
| drop: "i < length (jobs s) \<Longrightarrow> jobs s ! i = SlotFreed t \<Longrightarrow>
     job_step s (s\<lparr>manager := drop_permit (manager s), jobs := (jobs s)[i := Over]\<rparr>)"

inductive jobs_reach :: "nat \<Rightarrow> job_system \<Rightarrow> bool" for max_concurrent :: nat where
  jobs_start: "jobs_reach max_concurrent (initial_jobs max_concurrent)"
| jobs_step: "jobs_reach max_concurrent s \<Longrightarrow> job_step s s' \<Longrightarrow> jobs_reach max_concurrent s'"

section \<open>What the stages hold\<close>

fun slot_of :: "stage \<Rightarrow> task_id multiset" where
  "slot_of (HasSlot t) = {#t#}"
| "slot_of (Registered t e) = {#t#}"
| "slot_of (Unregistered t e) = {#t#}"
| "slot_of _ = {#}"

fun permit_of :: "stage \<Rightarrow> nat" where
  "permit_of Over = 0"
| "permit_of _ = 1"

fun entry_of :: "stage \<Rightarrow> (execution_id \<times> task_id) multiset" where
  "entry_of (Registered t e) = {#(e, t)#}"
| "entry_of _ = {#}"

definition slots_held :: "stage list \<Rightarrow> task_id multiset" where
  "slots_held js = sum_list (map slot_of js)"

definition permits_held :: "stage list \<Rightarrow> nat" where
  "permits_held js = sum_list (map permit_of js)"

definition entries_held :: "stage list \<Rightarrow> (execution_id \<times> task_id) multiset" where
  "entries_held js = sum_list (map entry_of js)"

lemma sum_list_update_at:
  fixes f :: "stage \<Rightarrow> 'b::comm_monoid_add"
  assumes "i < length js"
  shows "sum_list (map f (js[i := y])) + f (js ! i) = sum_list (map f js) + f y"
  using assms
proof (induction js arbitrary: i)
  case Nil
  then show ?case by simp
next
  case (Cons j js)
  then show ?case by (cases i) (auto simp: ac_simps)
qed

lemma held_update:
  assumes "i < length js"
  shows "slots_held (js[i := y]) + slot_of (js ! i) = slots_held js + slot_of y"
    and "permits_held (js[i := y]) + permit_of (js ! i) = permits_held js + permit_of y"
    and "entries_held (js[i := y]) + entry_of (js ! i) = entries_held js + entry_of y"
  using sum_list_update_at [OF assms] by (simp_all add: slots_held_def permits_held_def entries_held_def)

text \<open>The invariant: nothing leaks, nothing is counted twice.\<close>

definition jobs_inv :: "nat \<Rightarrow> job_system \<Rightarrow> bool" where
  "jobs_inv max_concurrent s \<longleftrightarrow>
     global_limiter (manager s) + permits_held (jobs s) = max_concurrent
     \<and> counting.counts_holders (slots_held (jobs s)) (manager s)
     \<and> counts_ok (manager s)
     \<and> mset (active_executions s) = entries_held (jobs s)
     \<and> distinct (map fst (active_executions s))"

lemma jobs_invI:
  assumes "global_limiter (manager s) + permits_held (jobs s) = n"
    and "counting.counts_holders (slots_held (jobs s)) (manager s)" and "counts_ok (manager s)"
    and "mset (active_executions s) = entries_held (jobs s)" and "distinct (map fst (active_executions s))"
  shows "jobs_inv n s"
  using assms by (simp add: jobs_inv_def)

lemma mset_update_new: "k \<notin> set (map fst xs) \<Longrightarrow> mset (AList.update k v xs) = add_mset (k, v) (mset xs)"
  by (induction xs) auto

lemma mset_delete: "distinct (map fst xs) \<Longrightarrow> (k, v) \<in> set xs \<Longrightarrow> mset (AList.delete k xs) = mset xs - {#(k, v)#}"
proof (induction xs)
  case Nil
  then show ?case by simp
next
  case (Cons x xs)
  show ?case
  proof (cases "fst x = k")
    case True
    then have "k \<notin> fst ` set xs" using Cons.prems(1) by auto
    then have "x = (k, v)" using True Cons.prems(2) by (auto simp: image_iff)
    moreover have "AList.delete k xs = xs"
      using \<open>k \<notin> fst ` set xs\<close> by (simp add: delete_idem)
    ultimately show ?thesis by simp
  next
    case False
    with Cons show ?thesis by (auto simp: AList.delete_eq)
  qed
qed

lemma jobs_inv_start: "jobs_inv n (initial_jobs n)"
  by (simp add: jobs_inv_def initial_jobs_def new_manager_def permits_held_def slots_held_def
      entries_held_def counting.counts_holders_def counts_ok_def count_of_def get_or_def)

lemma held_append:
  "slots_held (js @ [j]) = slots_held js + slot_of j"
  "permits_held (js @ [j]) = permits_held js + permit_of j"
  "entries_held (js @ [j]) = entries_held js + entry_of j"
  by (simp_all add: slots_held_def permits_held_def entries_held_def)

lemma entry_registered:
  assumes "i < length js" and "js ! i = Registered t e" and "mset xs = entries_held js"
  shows "(e, t) \<in> set xs"
proof -
  have "entries_held js = entries_held (js[i := Over]) + {#(e, t)#}"
    using held_update(3) [OF assms(1), of Over] assms(2) by simp
  then have "(e, t) \<in># mset xs" using assms(3) by simp
  then show ?thesis by simp
qed

lemma drop_permit_simps [simp]:
  "global_limiter (drop_permit m) = global_limiter m + 1"
  "count_of (drop_permit m) t = count_of m t"
  "counts_ok (drop_permit m) = counts_ok m"
  by (simp_all add: drop_permit_def count_of_def counts_ok_def)

lemma counts_drop [simp]: "counting.counts_holders H (drop_permit m) = counting.counts_holders H m"
  by (simp add: counting.counts_holders_def)

lemma take_permit:
  assumes "try_acquire_owned m = (True, m')"
  shows "global_limiter m = global_limiter m' + 1" and "counts_ok m' = counts_ok m"
    and "counting.counts_holders H m' = counting.counts_holders H m"
  using assms by (auto simp: try_acquire_owned_def counts_ok_def counting.counts_holders_def count_of_def
      split: if_splits)

theorem job_step_inv:
  assumes "job_step s s'" and inv: "jobs_inv n s"
  shows "jobs_inv n s'"
  using assms(1)
proof cases
  case (permit m t p)
  then show ?thesis using inv take_permit [OF permit(2)] by (simp add: jobs_inv_def held_append)
next
  case (slot i t p m)
  note u = held_update [OF slot(2), of "HasSlot t"]
  have "counts_ok m" using acquire_counts_ok [of "manager s" t p] slot(4) inv by (simp add: jobs_inv_def)
  moreover have "global_limiter m = global_limiter (manager s)"
    using acquire_spec(3) [of t p "manager s"] slot(4) by simp
  moreover have "counting.counts_holders (add_mset t (slots_held (jobs s))) m"
    using counting.holders_acquire(1) [OF _ slot(4)] inv by (simp add: jobs_inv_def)
  ultimately show ?thesis using inv u slot(1,3) by (simp add: jobs_inv_def)
next
  case (refused i t p m)
  note u = held_update [OF refused(2), of Over]
  have "counts_ok m" using acquire_counts_ok [of "manager s" t p] refused(4) inv by (simp add: jobs_inv_def)
  moreover have "global_limiter m = global_limiter (manager s)"
    using acquire_spec(3) [of t p "manager s"] refused(4) by simp
  moreover have "counting.counts_holders (slots_held (jobs s)) m"
    using counting.holders_refused(1) [OF _ refused(4)] inv by (simp add: jobs_inv_def)
  moreover have "global_limiter (manager s) + permits_held (jobs s) = n" using inv by (simp add: jobs_inv_def)
  ultimately have "global_limiter (drop_permit m) + permits_held ((jobs s)[i := Over]) = n"
    using u(2) refused(3) by simp
  moreover have "slots_held ((jobs s)[i := Over]) = slots_held (jobs s)"
    "entries_held ((jobs s)[i := Over]) = entries_held (jobs s)" using u refused(3) by simp_all
  ultimately show ?thesis
    using inv refused(1) \<open>counts_ok m\<close> \<open>counting.counts_holders (slots_held (jobs s)) m\<close>
    by (simp add: jobs_inv_def)
next
  case (register i t e)
  note u = held_update [OF register(2), of "Registered t e"]
  show ?thesis using inv u register(1,3,4)
    by (simp add: jobs_inv_def mset_update_new distinct_update)
next
  case (create_failed i t)
  note u = held_update [OF create_failed(2), of "SlotFreed t"]
  have "counting.counts_holders (slots_held ((jobs s)[i := SlotFreed t])) (release_slot t (manager s))"
    using inv u(1) create_failed(3) by (intro counting.holders_release) (simp add: jobs_inv_def)
  then show ?thesis using inv u create_failed(1,3)
    by (simp add: jobs_inv_def release_counts_ok release_spec)
next
  case (unregister i t e)
  note u = held_update [OF unregister(2), of "Unregistered t e"]
  have mem: "(e, t) \<in> set (active_executions s)"
    using entry_registered [OF unregister(2,3)] inv by (simp add: jobs_inv_def)
  then have "mset (AList.delete e (active_executions s)) = entries_held (jobs s) - {#(e, t)#}"
    using inv by (simp add: jobs_inv_def mset_delete)
  moreover have "entries_held ((jobs s)[i := Unregistered t e]) + {#(e, t)#} = entries_held (jobs s)"
    using u(3) unregister(3) by simp
  ultimately have "mset (AList.delete e (active_executions s)) = entries_held ((jobs s)[i := Unregistered t e])"
    by (metis add_diff_cancel_right')
  then show ?thesis using inv u unregister(1,3)
    by (simp add: jobs_inv_def distinct_delete)
next
  case (release i t e)
  note u = held_update [OF release(2), of "SlotFreed t"]
  have "counting.counts_holders (slots_held ((jobs s)[i := SlotFreed t])) (release_slot t (manager s))"
    using inv u(1) release(3) by (intro counting.holders_release) (simp add: jobs_inv_def)
  then show ?thesis using inv u release(1,3)
    by (simp add: jobs_inv_def release_counts_ok release_spec)
next
  case (drop i t)
  note u = held_update [OF drop(2), of Over]
  show ?thesis using inv u drop(1,3) by (simp add: jobs_inv_def)
qed

lemma jobs_reach_inv: "jobs_reach n s \<Longrightarrow> jobs_inv n s"
  by (induction rule: jobs_reach.induct) (auto intro: jobs_inv_start job_step_inv)

section \<open>Progress\<close>

fun steps_left :: "stage \<Rightarrow> nat" where
  "steps_left (HasPermit t p) = 5"
| "steps_left (HasSlot t) = 4"
| "steps_left (Registered t e) = 3"
| "steps_left (Unregistered t e) = 2"
| "steps_left (SlotFreed t) = 1"
| "steps_left Over = 0"

definition work_left :: "job_system \<Rightarrow> nat" where
  "work_left s = sum_list (map steps_left (jobs s))"

lemma work_left_update:
  assumes "i < length (jobs s)" and "steps_left y < steps_left (jobs s ! i)" and "jobs s' = (jobs s)[i := y]"
  shows "work_left s' < work_left s"
  using sum_list_update_at [OF assms(1), of steps_left y] assms(2,3) by (simp add: work_left_def)

lemma infinite_execution_ids: "infinite (UNIV :: execution_id set)"
proof
  assume "finite (UNIV :: execution_id set)"
  then have "finite (range ExecutionId)" by (rule rev_finite_subset) simp
  then have "finite (UNIV :: nat set)" by (rule finite_imageD) (simp add: inj_on_def)
  then show False by simp
qed

text \<open>A job that is not over can always take its next step, here the one of a database that works.\<close>

lemma job_can_step:
  assumes "i < length (jobs s)" and "jobs s ! i \<noteq> Over"
  shows "\<exists>s' y. job_step s s' \<and> jobs s' = (jobs s)[i := y] \<and> steps_left y < steps_left (jobs s ! i)"
proof (cases "jobs s ! i")
  case (HasPermit t p)
  obtain ok m where a: "try_acquire_slot t p (manager s) = (ok, m)" by fastforce
  show ?thesis
  proof (cases ok)
    case True
    with job_step.slot [OF assms(1) HasPermit, of m] a HasPermit show ?thesis by fastforce
  next
    case False
    with job_step.refused [OF assms(1) HasPermit, of m] a HasPermit show ?thesis by fastforce
  qed
next
  case (HasSlot t)
  obtain e where "e \<notin> set (map fst (active_executions s))"
    using ex_new_if_finite [OF infinite_execution_ids] by (meson List.finite_set)
  with job_step.register [OF assms(1) HasSlot] HasSlot show ?thesis by fastforce
next
  case (Registered t e)
  with job_step.unregister [OF assms(1) Registered] show ?thesis by fastforce
next
  case (Unregistered t e)
  with job_step.release [OF assms(1) Unregistered] show ?thesis by fastforce
next
  case (SlotFreed t)
  with job_step.drop [OF assms(1) SlotFreed] show ?thesis by fastforce
next
  case Over
  with assms(2) show ?thesis by simp
qed

lemma jobs_can_finish: "\<exists>s'. job_step\<^sup>*\<^sup>* s s' \<and> (\<forall>j \<in> set (jobs s'). j = Over)"
proof (induction "work_left s" arbitrary: s rule: less_induct)
  case less
  show ?case
  proof (cases "\<forall>j \<in> set (jobs s). j = Over")
    case True
    then show ?thesis by blast
  next
    case False
    then obtain i where i: "i < length (jobs s)" "jobs s ! i \<noteq> Over" by (metis in_set_conv_nth)
    from job_can_step [OF this] obtain s' y where s': "job_step s s'" "jobs s' = (jobs s)[i := y]"
      "steps_left y < steps_left (jobs s ! i)" by blast
    from less(1) [OF work_left_update [OF i(1) s'(3,2)]] s'(1) show ?thesis
      by (meson converse_rtranclp_into_rtranclp)
  qed
qed

lemma jobs_reach_steps: "job_step\<^sup>*\<^sup>* s s' \<Longrightarrow> jobs_reach n s \<Longrightarrow> jobs_reach n s'"
  by (induction rule: rtranclp_induct) (auto intro: jobs_step)

lemma held_over:
  "\<forall>j \<in> set js. j = Over \<Longrightarrow> slots_held js = {#} \<and> permits_held js = 0 \<and> entries_held js = {#}"
  by (induction js) (auto simp: slots_held_def permits_held_def entries_held_def)

lemma all_over_empty:
  assumes inv: "jobs_inv n s" and over: "\<forall>j \<in> set (jobs s). j = Over"
  shows "global_limiter (manager s) = n" and "task_running_counts (manager s) = []" and "active_executions s = []"
proof -
  have none: "slots_held (jobs s) = {#}" "permits_held (jobs s) = 0" "entries_held (jobs s) = {#}"
    using held_over [OF over] by auto
  show "global_limiter (manager s) = n" "active_executions s = []"
    using inv none by (simp_all add: jobs_inv_def)
  have zero: "count_of (manager s) t = 0" for t
    using inv none by (simp add: jobs_inv_def counting.counts_holders_def)
  have "False" if "(t, k) \<in> set (task_running_counts (manager s))" for t k
  proof -
    have "map_of (task_running_counts (manager s)) t = Some k" "0 < k"
      using that inv by (auto simp: jobs_inv_def counts_ok_def)
    with zero [of t] show False by (simp add: count_of_def get_or_def)
  qed
  then show "task_running_counts (manager s) = []" by (cases "task_running_counts (manager s)") fastforce+
qed

lemma live_jobs: "permits_held js = length [j \<leftarrow> js. j \<noteq> Over]"
proof (induction js)
  case Nil
  then show ?case by (simp add: permits_held_def)
next
  case (Cons j js)
  then show ?case by (cases j) (simp_all add: permits_held_def)
qed

lemma registered_entry:
  assumes "jobs_inv n s" and "Registered t e \<in> set (jobs s)"
  shows "map_of (active_executions s) e = Some t"
proof -
  obtain i where "i < length (jobs s)" "jobs s ! i = Registered t e" using assms(2) by (metis in_set_conv_nth)
  from entry_registered [OF this] assms(1) show ?thesis by (simp add: jobs_inv_def)
qed

lemma entry_is_registered:
  assumes "jobs_inv n s" and "map_of (active_executions s) e = Some t"
  shows "Registered t e \<in> set (jobs s)"
proof -
  have held: "(e, t) \<in># entries_held js \<Longrightarrow> Registered t e \<in> set js" for js
  proof (induction js)
    case Nil
    then show ?case by (simp add: entries_held_def)
  next
    case (Cons j js)
    then show ?case by (cases j) (auto simp: entries_held_def)
  qed
  have "(e, t) \<in># mset (active_executions s)" using map_of_SomeD [OF assms(2)] by simp
  then show ?thesis using held assms(1) by (metis jobs_inv_def)
qed

section \<open>Properties\<close>

text \<open>The jobs of a task that hold a slot, counted over the stages.\<close>

definition holds_slot :: "task_id \<Rightarrow> stage \<Rightarrow> bool" where
  "holds_slot t j = (case j of HasSlot u \<Rightarrow> u = t | Registered u e \<Rightarrow> u = t | Unregistered u e \<Rightarrow> u = t | _ \<Rightarrow> False)"

lemma slots_count: "count (slots_held js) t = length (filter (holds_slot t) js)"
proof (induction js)
  case Nil
  then show ?case by (simp add: slots_held_def)
next
  case (Cons j js)
  then show ?case by (cases j) (auto simp: slots_held_def holds_slot_def)
qed

end
