(* ===== verification/Job_Props.thy ===== *)
theory Job_Props
  imports Job_System
begin

text \<open>
  What the interleavings of jobs guarantee: slots, permits and registrations are accounted for, the
  concurrency policy of a task decides on every slot, and nothing is left when the jobs are over.
\<close>

section \<open>A run of two jobs\<close>

definition demo_job_task :: task_id where "demo_job_task = TaskId 7"

definition two_jobs :: job_system where
  "two_jobs =
     \<lparr>manager = \<lparr>global_limiter = 0, task_running_counts = [(demo_job_task, 1)]\<rparr>,
      active_executions = [(ExecutionId 1, demo_job_task)],
      jobs = [Registered demo_job_task (ExecutionId 1), HasPermit demo_job_task QueueOne]\<rparr>"

lemma two_jobs_reached: "jobs_reach 2 two_jobs"
proof -
  let ?t = demo_job_task and ?e = "ExecutionId 1"
  let ?s1 = "\<lparr>manager = \<lparr>global_limiter = 1, task_running_counts = []\<rparr>,
    active_executions = [], jobs = [HasPermit ?t QueueOne]\<rparr>"
  let ?s2 = "\<lparr>manager = \<lparr>global_limiter = 1, task_running_counts = [(?t, 1)]\<rparr>,
    active_executions = [], jobs = [HasSlot ?t]\<rparr>"
  let ?s3 = "\<lparr>manager = \<lparr>global_limiter = 1, task_running_counts = [(?t, 1)]\<rparr>,
    active_executions = [(?e, ?t)], jobs = [Registered ?t ?e]\<rparr>"
  have "job_step (initial_jobs 2) ?s1"
    using permit [of "initial_jobs 2" "\<lparr>global_limiter = 1, task_running_counts = []\<rparr>" ?t QueueOne]
    by (simp add: initial_jobs_def new_manager_def try_acquire_owned_def)
  moreover have "job_step ?s1 ?s2"
    using slot [of 0 ?s1 ?t QueueOne "\<lparr>global_limiter = 1, task_running_counts = [(?t, 1)]\<rparr>"]
    by (simp add: try_acquire_slot_def Let_def set_count_def count_of_def get_or_def)
  moreover have "job_step ?s2 ?s3" using register [of 0 ?s2 ?t ?e] by simp
  moreover have "job_step ?s3 two_jobs"
    using permit [of ?s3 "\<lparr>global_limiter = 0, task_running_counts = [(?t, 1)]\<rparr>" ?t QueueOne]
    by (simp add: try_acquire_owned_def two_jobs_def)
  ultimately show ?thesis by (meson jobs_start jobs_step)
qed

section \<open>Properties\<close>

text \<open>Whatever the interleaving of scheduled and manual jobs, run creations that fail included: free
  permits plus jobs under way make up the configured limit, the running count of a task is the number of its
  jobs between taking and releasing their slot, and the active executions are the registered jobs.\<close>

theorem executions_never_leak:
  assumes "jobs_reach n s"
  shows "global_limiter (manager s) + length [j \<leftarrow> jobs s. j \<noteq> Over] = n
    \<and> (\<forall>t. running_count (manager s) t = length (filter (holds_slot t) (jobs s)))
    \<and> (\<forall>e t. map_of (active_executions s) e = Some t \<longleftrightarrow> Registered t e \<in> set (jobs s))"
proof -
  have inv: "jobs_inv n s" by (rule jobs_reach_inv [OF assms])
  then have "global_limiter (manager s) + length [j \<leftarrow> jobs s. j \<noteq> Over] = n"
    and "running_count (manager s) t = length (filter (holds_slot t) (jobs s))" for t
    by (simp_all add: jobs_inv_def live_jobs running_count_def counting.counts_holders_def slots_count)
  then show ?thesis using registered_entry [OF inv] entry_is_registered [OF inv] by blast
qed

theorem executions_never_leak_witness:
  "running_count (manager two_jobs) demo_job_task = 1 \<and> global_limiter (manager two_jobs) = 0
    \<and> map_of (active_executions two_jobs) (ExecutionId 1) = Some demo_job_task"
  using executions_never_leak [OF two_jobs_reached]
  by (simp add: two_jobs_def holds_slot_def)

text \<open>A job that holds a permit moves on exactly as its task's policy says about the jobs of that task
  that hold a slot: it gets a slot if the policy allows one more, and is over otherwise.\<close>

theorem policy_decides_every_slot:
  assumes "jobs_reach n s" and "i < length (jobs s)" and "jobs s ! i = HasPermit t p"
    and "job_step s s'" and "jobs s' ! i \<noteq> jobs s ! i"
  shows "jobs s' ! i =
    (if policy_allows p (length (filter (holds_slot t) (jobs s))) then HasSlot t else Over)"
proof -
  have H: "counting.counts_holders (slots_held (jobs s)) (manager s)"
    using jobs_reach_inv [OF assms(1)] by (simp add: jobs_inv_def)
  from assms(4) show ?thesis
  proof cases
    case (slot k t' p' m)
    with assms(2,3,5) have "k = i" by (cases "k = i") auto
    with slot counting.holders_acquire(2) [OF H slot(4)] assms(2,3) show ?thesis by (simp add: slots_count)
  next
    case (refused k t' p' m)
    with assms(2,3,5) have "k = i" by (cases "k = i") auto
    with refused counting.holders_refused(2) [OF H refused(4)] assms(2,3) show ?thesis by (simp add: slots_count)
  next
    case (permit m t' p')
    with assms(2,5) show ?thesis by (simp add: nth_append)
  next
    case (register k t' e)
    with assms(2,3,5) show ?thesis by (cases "k = i") auto
  next
    case (create_failed k t')
    with assms(2,3,5) show ?thesis by (cases "k = i") auto
  next
    case (unregister k t' e)
    with assms(2,3,5) show ?thesis by (cases "k = i") auto
  next
    case (release k t' e)
    with assms(2,3,5) show ?thesis by (cases "k = i") auto
  next
    case (drop k t')
    with assms(2,3,5) show ?thesis by (cases "k = i") auto
  qed
qed

definition two_running :: job_system where
  "two_running =
     \<lparr>manager = \<lparr>global_limiter = 0, task_running_counts = [(demo_job_task, 2)]\<rparr>,
      active_executions = [(ExecutionId 1, demo_job_task)],
      jobs = [Registered demo_job_task (ExecutionId 1), HasSlot demo_job_task]\<rparr>"

lemma two_jobs_step: "job_step two_jobs two_running"
  using slot [of 1 two_jobs demo_job_task QueueOne
      "\<lparr>global_limiter = 0, task_running_counts = [(demo_job_task, 2)]\<rparr>"]
  by (simp add: two_jobs_def two_running_def try_acquire_slot_def Let_def set_count_def count_of_def
      get_or_def numeral_2_eq_2)

theorem policy_decides_every_slot_witness:
  "policy_allows QueueOne (length (filter (holds_slot demo_job_task) (jobs two_jobs)))
    \<and> jobs two_running ! 1 = HasSlot demo_job_task"
  using policy_decides_every_slot [OF two_jobs_reached _ _ two_jobs_step, of 1 demo_job_task QueueOne]
  by (simp add: two_jobs_def two_running_def policy_allows_def holds_slot_def)

text \<open>\<open>QueueOne\<close> does not queue: while one execution of the task is registered and running, a second one
  is given its slot and starts at once, so two executions of the task run in parallel.\<close>

theorem queue_one_runs_two_in_parallel:
  "\<exists>s s' s'' :: job_system. jobs_reach 2 s
    \<and> jobs s = [Registered demo_job_task (ExecutionId 1), HasPermit demo_job_task QueueOne]
    \<and> job_step s s' \<and> job_step s' s''
    \<and> jobs s'' = [Registered demo_job_task (ExecutionId 1), Registered demo_job_task (ExecutionId 2)]"
proof -
  have "job_step two_running (two_running
      \<lparr>active_executions := AList.update (ExecutionId 2) demo_job_task (active_executions two_running),
       jobs := (jobs two_running)[1 := Registered demo_job_task (ExecutionId 2)]\<rparr>)"
    by (rule register) (simp_all add: two_running_def)
  moreover have "jobs (two_running
      \<lparr>active_executions := AList.update (ExecutionId 2) demo_job_task (active_executions two_running),
       jobs := (jobs two_running)[1 := Registered demo_job_task (ExecutionId 2)]\<rparr>)
     = [Registered demo_job_task (ExecutionId 1), Registered demo_job_task (ExecutionId 2)]"
    by (simp add: two_running_def)
  moreover have "jobs two_jobs = [Registered demo_job_task (ExecutionId 1), HasPermit demo_job_task QueueOne]"
    by (simp add: two_jobs_def)
  ultimately show ?thesis using two_jobs_reached two_jobs_step by blast
qed

text \<open>No reachable state is stuck: the jobs under way can all be taken to their end, and then every permit
  is back, no slot is counted, and nothing is registered, which is what the shutdown waits for.\<close>

theorem executions_drain:
  assumes "jobs_reach n s"
  shows "\<exists>s' :: job_system. job_step\<^sup>*\<^sup>* s s' \<and> (\<forall>j \<in> set (jobs s'). j = Over)
    \<and> manager s' = new_manager n \<and> total_running_count (manager s') = 0 \<and> active_executions s' = []"
proof -
  obtain s' where s': "job_step\<^sup>*\<^sup>* s s'" "\<forall>j \<in> set (jobs s'). j = Over" using jobs_can_finish by blast
  then have "jobs_inv n s'" using jobs_reach_inv jobs_reach_steps assms by blast
  from all_over_empty [OF this s'(2)] have "manager s' = new_manager n" "active_executions s' = []"
    by (simp_all add: new_manager_def)
  with s' show ?thesis by (auto simp: total_running_count_def new_manager_def)
qed

theorem executions_drain_witness:
  "\<exists>s' :: job_system. job_step\<^sup>*\<^sup>* two_jobs s' \<and> manager s' = new_manager 2"
  using executions_drain [OF two_jobs_reached] by blast

end
