(* ===== verification/Platform_Process.thy ===== *)
theory Platform_Process
  imports Domain Rust_Str
begin

text \<open>
  Child processes as \<^verbatim>\<open>crates/platform/src/process.rs\<close>, \<^verbatim>\<open>unix.rs\<close> and \<^verbatim>\<open>windows.rs\<close> see them: the command
  an action becomes, the decoding of its output bytes, and the termination of a process tree.  The
  platform a build is for, the code page conversion of Windows and the presence of \<^verbatim>\<open>/bin/zsh\<close> are a
  parameter.
\<close>

datatype os = Unix | Windows

record platform =
  os :: os
  code_page_936 :: "string \<Rightarrow> string option"
  zsh_exists :: bool

section \<open>UTF-8\<close>

text \<open>
  \<open>String::from_utf8_lossy\<close>: every maximal prefix of an ill-formed sequence becomes U+FFFD.  One step
  reads a character, or says how much of the input an ill-formed one uses up.
\<close>

definition cont_byte :: "char \<Rightarrow> bool" where
  "cont_byte c \<longleftrightarrow> 128 \<le> byte c \<and> byte c \<le> 191"

definition second_byte_ok :: "char \<Rightarrow> char \<Rightarrow> bool" where
  "second_byte_ok a b \<longleftrightarrow>
     (if byte a = 224 then 160 \<le> byte b \<and> byte b \<le> 191
      else if byte a = 237 then 128 \<le> byte b \<and> byte b \<le> 159
      else if byte a = 240 then 144 \<le> byte b \<and> byte b \<le> 191
      else if byte a = 244 then 128 \<le> byte b \<and> byte b \<le> 143
      else cont_byte b)"

definition utf8_width :: "char \<Rightarrow> nat" where
  "utf8_width a =
     (if byte a < 128 then 1
      else if 194 \<le> byte a \<and> byte a \<le> 223 then 2
      else if 224 \<le> byte a \<and> byte a \<le> 239 then 3
      else if 240 \<le> byte a \<and> byte a \<le> 244 then 4
      else 0)"

fun utf8_step :: "char \<Rightarrow> string \<Rightarrow> string option \<times> string" where
  "utf8_step a s =
     (if utf8_width a = 1 then (Some [a], s)
      else if utf8_width a = 0 then (None, s)
      else (case s of
              [] \<Rightarrow> (None, s)
            | b # s1 \<Rightarrow>
                if \<not> second_byte_ok a b then (None, s)
                else if utf8_width a = 2 then (Some [a, b], s1)
                else (case s1 of
                        [] \<Rightarrow> (None, s1)
                      | c # s2 \<Rightarrow>
                          if \<not> cont_byte c then (None, s1)
                          else if utf8_width a = 3 then (Some [a, b, c], s2)
                          else (case s2 of
                                  [] \<Rightarrow> (None, s2)
                                | d # s3 \<Rightarrow>
                                    if cont_byte d then (Some [a, b, c, d], s3) else (None, s2)))))"

declare utf8_step.simps [simp del]

lemma utf8_step_shorter: "(x, y) = utf8_step a s \<Longrightarrow> length y \<le> length s"
  by (auto simp: utf8_step.simps split: list.splits if_splits)

definition replacement_character :: string where
  "replacement_character = [CHR 0xEF, CHR 0xBF, CHR 0xBD]"

function from_utf8_lossy :: "string \<Rightarrow> string" where
  "from_utf8_lossy [] = []"
| "from_utf8_lossy (a # s) =
     (case utf8_step a s of
        (Some c, rest) \<Rightarrow> c @ from_utf8_lossy rest
      | (None, rest) \<Rightarrow> replacement_character @ from_utf8_lossy rest)"
  by pat_completeness auto
termination
  by (relation "measure length") (auto dest: utf8_step_shorter)

function valid_utf8 :: "string \<Rightarrow> bool" where
  "valid_utf8 [] = True"
| "valid_utf8 (a # s) =
     (case utf8_step a s of (Some c, rest) \<Rightarrow> valid_utf8 rest | (None, rest) \<Rightarrow> False)"
  by pat_completeness auto
termination
  by (relation "measure length") (auto dest: utf8_step_shorter)

text \<open>A character that was read is the head of the input, and reading it again does not depend on what follows.\<close>

lemma utf8_step_char:
  assumes "utf8_step a s = (Some c, rest)"
  shows "a # s = c @ rest" and "\<exists>r. c = a # r \<and> (\<forall>t. utf8_step a (r @ t) = (Some c, t))"
  using assms by (auto simp: utf8_step.simps split: list.splits if_splits)

lemma from_utf8_lossy_valid: "valid_utf8 s \<Longrightarrow> from_utf8_lossy s = s"
proof (induction s rule: from_utf8_lossy.induct)
  case 1
  then show ?case by simp
next
  case (2 a s)
  obtain o' rest where st: "utf8_step a s = (o', rest)" by fastforce
  with "2.prems" obtain c where c: "o' = Some c" by (cases o') auto
  have "from_utf8_lossy (a # s) = c @ from_utf8_lossy rest" using st c by simp
  also have "\<dots> = c @ rest" using 2 st c by simp
  also have "\<dots> = a # s" using utf8_step_char(1) [of a s c rest] st c by simp
  finally show ?case .
qed

lemma valid_utf8_char: "utf8_step a s = (Some c, rest) \<Longrightarrow> valid_utf8 (c @ t) = valid_utf8 t"
  using utf8_step_char(2) [of a s c rest] by auto

lemma valid_replacement: "valid_utf8 (replacement_character @ t) = valid_utf8 t"
proof -
  have "utf8_step (CHR 0xEF) (CHR 0xBF # CHR 0xBD # t) = (Some replacement_character, t)"
    by (simp add: utf8_step.simps utf8_width_def second_byte_ok_def cont_byte_def byte_def replacement_character_def)
  then show ?thesis by (simp add: replacement_character_def)
qed

lemma lossy_is_valid: "valid_utf8 (from_utf8_lossy s)"
proof (induction s rule: from_utf8_lossy.induct)
  case 1
  then show ?case by simp
next
  case (2 a s)
  obtain o' rest where st: "utf8_step a s = (o', rest)" by fastforce
  with 2 show ?case by (cases o') (auto simp: valid_replacement valid_utf8_char)
qed

lemma lossy_length: "length (from_utf8_lossy s) \<le> 3 * length s"
proof (induction s rule: from_utf8_lossy.induct)
  case 1
  then show ?case by simp
next
  case (2 a s)
  obtain o' rest where st: "utf8_step a s = (o', rest)" by fastforce
  show ?case
  proof (cases o')
    case None
    then show ?thesis using 2 st utf8_step_shorter [of o' rest a s]
      by (auto simp: replacement_character_def)
  next
    case (Some c)
    then have "length (a # s) = length c + length rest" using utf8_step_char(1) [of a s c rest] st
      by (metis length_append)
    then show ?thesis using 2 st Some by auto
  qed
qed

section \<open>Decoding\<close>

definition decode_utf8 :: "string \<Rightarrow> string" where
  "decode_utf8 bytes = (if valid_utf8 bytes then bytes else from_utf8_lossy bytes)"

definition decode_gbk :: "platform \<Rightarrow> string \<Rightarrow> string" where
  "decode_gbk P bytes =
     (case os P of
        Windows \<Rightarrow>
          if bytes = [] then []
          else (case code_page_936 P bytes of Some s \<Rightarrow> s | None \<Rightarrow> from_utf8_lossy bytes)
      | Unix \<Rightarrow> from_utf8_lossy bytes)"

definition default_decode :: "platform \<Rightarrow> string \<Rightarrow> string" where
  "default_decode P bytes = (case os P of Windows \<Rightarrow> decode_gbk P bytes | Unix \<Rightarrow> decode_utf8 bytes)"

fun decode_output :: "platform \<Rightarrow> string \<Rightarrow> script_encoding option \<Rightarrow> string" where
  "decode_output P bytes (Some Utf8) = decode_utf8 bytes"
| "decode_output P bytes (Some Gbk) = decode_gbk P bytes"
| "decode_output P bytes None = default_decode P bytes"

section \<open>Commands\<close>

record command =
  cmd_program :: string
  cmd_args :: "string list"
  cmd_current_dir :: "string option"
  cmd_envs :: "(string \<times> string) list"
  cmd_process_group :: bool
  cmd_no_window :: bool

definition command_new :: "string \<Rightarrow> command" where
  "command_new p = \<lparr>cmd_program = p, cmd_args = [], cmd_current_dir = None, cmd_envs = [],
                    cmd_process_group = False, cmd_no_window = False\<rparr>"

definition add_args :: "string list \<Rightarrow> command \<Rightarrow> command" where
  "add_args as c = c\<lparr>cmd_args := cmd_args c @ as\<rparr>"

definition configure_unix_command :: "command \<Rightarrow> command" where
  "configure_unix_command c = c\<lparr>cmd_process_group := True\<rparr>"

definition configure_windows_command :: "command \<Rightarrow> command" where
  "configure_windows_command c = c\<lparr>cmd_no_window := True\<rparr>"

definition configure :: "platform \<Rightarrow> command \<Rightarrow> command" where
  "configure P c = (case os P of Windows \<Rightarrow> configure_windows_command c | Unix \<Rightarrow> configure_unix_command c)"

fun codepage_prefix :: "script_encoding option \<Rightarrow> string" where
  "codepage_prefix (Some Utf8) = ''chcp 65001 >nul & ''"
| "codepage_prefix _ = ''chcp 936 >nul & ''"

fun chcp_powershell_prefix :: "script_encoding option \<Rightarrow> string" where
  "chcp_powershell_prefix (Some Utf8) = ''[Console]::OutputEncoding = [Text.Encoding]::utf8''"
| "chcp_powershell_prefix _ = ''[Console]::OutputEncoding = [Text.Encoding]::GetEncoding(936)''"

definition new_shell :: "platform \<Rightarrow> string \<Rightarrow> command" where
  "new_shell P script_text =
     (case os P of
        Windows \<Rightarrow> configure_windows_command (add_args [''/c'', script_text] (command_new ''cmd.exe''))
      | Unix \<Rightarrow>
          let shell = (if zsh_exists P then ''/bin/zsh'' else ''/bin/sh'')
          in configure_unix_command (add_args [''-c'', script_text] (command_new shell)))"

definition new_cmd :: "platform \<Rightarrow> string \<Rightarrow> script_encoding option \<Rightarrow> command" where
  "new_cmd P cmd_text encoding =
     (let cmd = command_new ''cmd.exe'';
          cmd = (case os P of
                   Windows \<Rightarrow> add_args [''/c'', codepage_prefix encoding @ cmd_text] cmd
                 | Unix \<Rightarrow> add_args [''/c'', cmd_text] cmd)
      in configure P cmd)"

definition new_powershell ::
  "platform \<Rightarrow> string \<Rightarrow> bool \<Rightarrow> script_encoding option \<Rightarrow> command" where
  "new_powershell P script_text no_profile_flag encoding =
     (let cmd = command_new ''powershell.exe'';
          cmd = (if no_profile_flag then add_args [''-NoProfile''] cmd else cmd);
          cmd = add_args [''-NonInteractive'', ''-ExecutionPolicy'', ''Bypass'', ''-Command''] cmd;
          cmd = (case os P of
                   Windows \<Rightarrow> add_args [chcp_powershell_prefix encoding @ ''; '' @ script_text] cmd
                 | Unix \<Rightarrow> add_args [script_text] cmd)
      in configure P cmd)"

definition new_program :: "platform \<Rightarrow> string \<Rightarrow> string list \<Rightarrow> command" where
  "new_program P p as = configure P (add_args as (command_new p))"

section \<open>Process trees\<close>

text \<open>What the termination of a process tree does, in order.\<close>

datatype kill_op =
    SignalTerm int
  | SignalKill int
  | SleepMs nat
  | Taskkill "string list"

definition kill_unix_process_tree :: "u32 \<Rightarrow> error + kill_op list" where
  "kill_unix_process_tree pid =
     (if pid \<le> 1 \<or> 2147483647 < pid
      then Inl (Process (''Refusing to kill system or invalid process with PID '' @ nat_string (unat pid)))
      else
        let pgid = uint pid
        in Inr [SignalTerm (- pgid), SignalTerm pgid, SleepMs 500, SignalKill (- pgid), SignalKill pgid])"

definition kill_windows_process_tree :: "u32 \<Rightarrow> error + kill_op list" where
  "kill_windows_process_tree pid =
     (if pid = 0 then Inl (Process ''Invalid PID 0 for process tree kill'')
      else Inr [Taskkill [''/F'', ''/T'', ''/PID'', nat_string (unat pid)]])"

definition kill_process_tree :: "platform \<Rightarrow> u32 \<Rightarrow> error + kill_op list" where
  "kill_process_tree P pid =
     (case os P of Unix \<Rightarrow> kill_unix_process_tree pid | Windows \<Rightarrow> kill_windows_process_tree pid)"

end
