(* ===== verification/Runner.thy ===== *)
theory Runner
  imports Platform_Process
begin

text \<open>
  The process runner of \<^verbatim>\<open>crates/executor/src/runner.rs\<close>: one action becomes a child process whose
  output is read up to a cap, and whose end, timeout or cancellation becomes a \<open>run_result\<close>.  What the
  child does is an argument of the model: when it ends, what it writes before its pipes are drained.
\<close>

section \<open>Capped output\<close>

definition MAX_OUTPUT_BYTES :: nat where
  "MAX_OUTPUT_BYTES = 2 * 1024 * 1024"

definition TRUNCATION_SUFFIX :: string where
  "TRUNCATION_SUFFIX = CHR 0x0A # ''... [output truncated]''"

text \<open>One round of the read loop on the shared buffer and the local flag \<open>truncated\<close>.\<close>

definition read_chunk :: "string \<Rightarrow> string \<times> bool \<Rightarrow> string \<times> bool" where
  "read_chunk chunk st =
     (case st of (buf, truncated) \<Rightarrow>
        if truncated then (buf, truncated)
        else if length buf + length chunk \<le> MAX_OUTPUT_BYTES then (buf @ chunk, truncated)
        else
          let rem = MAX_OUTPUT_BYTES - length buf
          in (buf @ take rem chunk @ TRUNCATION_SUFFIX, True))"

text \<open>
  The chunks are what \<open>read\<close> returns, at most 4096 bytes each, until end of file (an empty read), an
  error, or the abort of the reader when the drain timeout elapses; \<open>None\<close> is a missing pipe.
\<close>

fun read_loop :: "string list \<Rightarrow> string \<times> bool \<Rightarrow> string \<times> bool" where
  "read_loop [] st = st"
| "read_loop (chunk # chunks) st = (if chunk = [] then st else read_loop chunks (read_chunk chunk st))"

definition read_stream_capped :: "string list option \<Rightarrow> string" where
  "read_stream_capped pipe =
     (case pipe of None \<Rightarrow> [] | Some chunks \<Rightarrow> fst (read_loop chunks ([], False)))"

definition collect_pipe_output :: "platform \<Rightarrow> script_encoding option \<Rightarrow> string list option \<Rightarrow> string" where
  "collect_pipe_output P encoding pipe = decode_output P (read_stream_capped pipe) encoding"

section \<open>Running an action\<close>

record run_result =
  result_status :: execution_status
  result_exit_code :: "int option"
  result_stdout :: string
  result_stderr :: string
  result_error :: "string option"

text \<open>
  What happens around one call of \<open>run_action\<close>: whether the token was cancelled before it, whether the
  spawn fails, the process id, the two pipes, the time after which the child ends and with which code
  (or an error of \<open>wait\<close>), and the time after which the token is cancelled.  At equal times \<open>select!\<close>
  picks a ready branch at random.
\<close>

record child_run =
  cancelled_before :: bool
  spawn_error :: "string option"
  child_pid :: "u32 option"
  stdout_pipe :: "string list option"
  stderr_pipe :: "string list option"
  exit_after :: "duration option"
  exit_with :: "string + int option"
  cancel_after :: "duration option"
  select_cancel :: bool

fun action_encoding :: "action_kind \<Rightarrow> script_encoding option" where
  "action_encoding (ExecuteCmd _ e) = e"
| "action_encoding (ExecutePowerShell _ _ e) = e"
| "action_encoding _ = None"

fun action_command :: "platform \<Rightarrow> action_kind \<Rightarrow> command" where
  "action_command P (ExecuteProgram p as) = new_program P p as"
| "action_command P (ExecuteShell c) = new_shell P c"
| "action_command P (ExecuteCmd c e) = new_cmd P c e"
| "action_command P (ExecutePowerShell s np e) = new_powershell P s np e"

definition command_for ::
  "platform \<Rightarrow> action_kind \<Rightarrow> string option \<Rightarrow> (string \<times> string) list \<Rightarrow> command" where
  "command_for P k working_dir env =
     (let cmd = action_command P k;
          cmd = (case working_dir of Some wd \<Rightarrow> cmd\<lparr>cmd_current_dir := Some wd\<rparr> | None \<Rightarrow> cmd)
      in cmd\<lparr>cmd_envs := cmd_envs cmd @ env\<rparr>)"

definition cancelled_message :: string where
  "cancelled_message = ''Cancelled by user''"

definition timeout_seconds :: "u64 option \<Rightarrow> u64" where
  "timeout_seconds t = (case t of Some s \<Rightarrow> s | None \<Rightarrow> 86400)"

definition timeout_duration :: "u64 option \<Rightarrow> duration" where
  "timeout_duration t = uint (timeout_seconds t) * sec_ns"

datatype child_end = EndCancelled | EndTimedOut | EndExited "string + int option"

text \<open>\<open>timeout\<close> polls the child before its own deadline.\<close>

definition child_ends :: "u64 option \<Rightarrow> child_run \<Rightarrow> child_end" where
  "child_ends t w =
     (let limit = timeout_duration t;
          wait_done = (case exit_after w of Some x \<Rightarrow> min x limit | None \<Rightarrow> limit);
          cancelled = (case cancel_after w of
                         Some c \<Rightarrow> c < wait_done \<or> c = wait_done \<and> select_cancel w
                       | None \<Rightarrow> False)
      in if cancelled then EndCancelled
         else (case exit_after w of
                 Some x \<Rightarrow> if x \<le> limit then EndExited (exit_with w) else EndTimedOut
               | None \<Rightarrow> EndTimedOut))"

text \<open>\<open>{:?}\<close> of an optional exit code.\<close>

definition int_string :: "int \<Rightarrow> string" where
  "int_string i = (if i < 0 then ''-'' @ nat_string (nat (- i)) else nat_string (nat i))"

definition debug_code :: "int option \<Rightarrow> string" where
  "debug_code c = (case c of None \<Rightarrow> ''None'' | Some i \<Rightarrow> ''Some('' @ int_string i @ '')'')"

definition kill_ops :: "platform \<Rightarrow> child_run \<Rightarrow> kill_op list" where
  "kill_ops P w =
     (case child_pid w of
        None \<Rightarrow> []
      | Some p \<Rightarrow> (case kill_process_tree P p of Inr ops \<Rightarrow> ops | Inl e \<Rightarrow> []))"

text \<open>The result and what was done to the process tree.\<close>

definition run_action ::
  "platform \<Rightarrow> child_run \<Rightarrow> action \<Rightarrow> u64 option \<Rightarrow> (error + run_result) \<times> kill_op list" where
  "run_action P w a t =
     (if cancelled_before w
      then (Inr \<lparr>result_status = Cancelled, result_exit_code = None, result_stdout = [],
                 result_stderr = [], result_error = Some cancelled_message\<rparr>, [])
      else (case spawn_error w of
              Some e \<Rightarrow> (Inl (Process e), [])
            | None \<Rightarrow>
                let encoding = action_encoding (action_kind a);
                    out = collect_pipe_output P encoding (stdout_pipe w);
                    err = collect_pipe_output P encoding (stderr_pipe w)
                in (case child_ends t w of
                      EndCancelled \<Rightarrow>
                        (Inr \<lparr>result_status = Cancelled, result_exit_code = None, result_stdout = out,
                              result_stderr = err, result_error = Some cancelled_message\<rparr>,
                         kill_ops P w)
                    | EndTimedOut \<Rightarrow>
                        (Inr \<lparr>result_status = TimedOut, result_exit_code = None, result_stdout = out,
                              result_stderr = err,
                              result_error = Some (''Timed out after ''
                                @ nat_string (unat (timeout_seconds t)) @ '' seconds'')\<rparr>,
                         kill_ops P w)
                    | EndExited (Inl e) \<Rightarrow> (Inl (Process e), [])
                    | EndExited (Inr status_code) \<Rightarrow>
                        let success = (status_code = Some 0)
                        in (Inr \<lparr>result_status = (if success then Succeeded else Failed),
                                 result_exit_code = status_code, result_stdout = out,
                                 result_stderr = err,
                                 result_error = (if success then None
                                   else Some (''Exited with code '' @ debug_code status_code))\<rparr>, []))))"

section \<open>Facts\<close>

lemma read_loop_truncated: "read_loop chunks (buf, True) = (buf, True)"
  by (induction chunks) (auto simp: read_chunk_def)

lemma read_loop_spec:
  assumes "\<forall>c \<in> set chunks. c \<noteq> []" and "length buf \<le> MAX_OUTPUT_BYTES"
  shows "fst (read_loop chunks (buf, False)) =
    (let all = buf @ concat chunks
     in if length all \<le> MAX_OUTPUT_BYTES then all else take MAX_OUTPUT_BYTES all @ TRUNCATION_SUFFIX)"
  using assms
proof (induction chunks arbitrary: buf)
  case Nil
  then show ?case by simp
next
  case (Cons c cs)
  show ?case
  proof (cases "length buf + length c \<le> MAX_OUTPUT_BYTES")
    case True
    with Cons show ?thesis by (simp add: read_chunk_def Let_def)
  next
    case False
    with Cons show ?thesis by (simp add: read_chunk_def Let_def read_loop_truncated)
  qed
qed

lemma read_stream_capped_length:
  "length (read_stream_capped pipe) \<le> MAX_OUTPUT_BYTES + length TRUNCATION_SUFFIX"
proof -
  have step: "length (fst (read_loop chunks st)) \<le> MAX_OUTPUT_BYTES + length TRUNCATION_SUFFIX"
    if "length (fst st) \<le> MAX_OUTPUT_BYTES + (if snd st then length TRUNCATION_SUFFIX else 0)" for chunks st
    using that
  proof (induction chunks arbitrary: st)
    case Nil
    then show ?case by (auto split: if_splits)
  next
    case (Cons c cs)
    obtain buf truncated where st: "st = (buf, truncated)" by fastforce
    have "length (fst (read_chunk c st)) \<le>
        MAX_OUTPUT_BYTES + (if snd (read_chunk c st) then length TRUNCATION_SUFFIX else 0)"
      using Cons.prems st by (auto simp: read_chunk_def Let_def split: if_splits)
    from Cons.IH [OF this] Cons.prems show ?case by (auto split: if_splits)
  qed
  show ?thesis using step [of "([], False)"] by (auto simp: read_stream_capped_def split: option.splits)
qed

end
