(* ===== verification/Protocol.thy ===== *)
theory Protocol
  imports Domain Rust_Str
begin

text \<open>
  The messages of \<^verbatim>\<open>crates/ipc/src/protocol.rs\<close> and their JSON form.  A \<open>serde_json::Value\<close> is a
  datatype (an object is its entries in order); parsing text into a value is serde's, the derived
  conversions between values and messages are written out, and so is the length of the text that
  serde writes for a value, because the transport limits it.
\<close>

section \<open>JSON values\<close>

datatype json =
    JNull
  | JBool bool
  | JInt int
  | JFloat string
  | JStr string
  | JArr "json list"
  | JObj "(string \<times> json) list"

fun json_get :: "string \<Rightarrow> json \<Rightarrow> json option" where
  "json_get k (JObj fs) = map_of fs k"
| "json_get k _ = None"

fun is_object :: "json \<Rightarrow> bool" where
  "is_object (JObj _) = True"
| "is_object _ = False"

fun is_number :: "json \<Rightarrow> bool" where
  "is_number (JInt _) = True"
| "is_number (JFloat _) = True"
| "is_number _ = False"

fun as_u64 :: "json \<Rightarrow> u64 option" where
  "as_u64 (JInt i) = (if 0 \<le> i \<and> i < 2 ^ 64 then Some (word_of_int i) else None)"
| "as_u64 _ = None"

fun opt_json :: "('a \<Rightarrow> json) \<Rightarrow> 'a option \<Rightarrow> json" where
  "opt_json f None = JNull"
| "opt_json f (Some x) = f x"

section \<open>Text\<close>

text \<open>The escapes of serde\_json: the two-byte ones, and the six-byte form for other control characters.\<close>

definition escape_char :: "char \<Rightarrow> string" where
  "escape_char c =
     (if byte c = 34 then CHR 0x5C # [CHR 0x22]
      else if byte c = 92 then CHR 0x5C # [CHR 0x5C]
      else if byte c = 8 then CHR 0x5C # ''b''
      else if byte c = 9 then CHR 0x5C # ''t''
      else if byte c = 10 then CHR 0x5C # ''n''
      else if byte c = 12 then CHR 0x5C # ''f''
      else if byte c = 13 then CHR 0x5C # ''r''
      else if byte c < 32 then CHR 0x5C # ''u'' @ hex_digits 4 (byte c)
      else [c])"

definition quote_json :: "string \<Rightarrow> string" where
  "quote_json s = CHR 0x22 # concat (map escape_char s) @ [CHR 0x22]"

fun join_with :: "string \<Rightarrow> string list \<Rightarrow> string" where
  "join_with sep [] = []"
| "join_with sep [s] = s"
| "join_with sep (s # t # rest) = s @ sep @ join_with sep (t # rest)"

definition json_int :: "int \<Rightarrow> string" where
  "json_int i = (if i < 0 then ''-'' @ nat_string (nat (- i)) else nat_string (nat i))"

fun json_text :: "json \<Rightarrow> string" where
  "json_text JNull = ''null''"
| "json_text (JBool b) = (if b then ''true'' else ''false'')"
| "json_text (JInt i) = json_int i"
| "json_text (JFloat s) = s"
| "json_text (JStr s) = quote_json s"
| "json_text (JArr xs) = ''['' @ join_with '','' (map json_text xs) @ '']''"
| "json_text (JObj fs) =
     ''{'' @ join_with '','' (map (\<lambda>(k, v). quote_json k @ '':'' @ json_text v) fs) @ ''}''"

section \<open>Messages\<close>

record ipc_request =
  request_id :: string
  request_method :: string
  request_params :: json

record ipc_response =
  response_id :: string
  response_ok :: bool
  response_data :: "json option"
  response_error :: "string option"

record ipc_event =
  event_name :: string
  event_data :: json

definition request_new :: "string \<Rightarrow> string \<Rightarrow> json \<Rightarrow> ipc_request" where
  "request_new fresh m p = \<lparr>request_id = fresh, request_method = m, request_params = p\<rparr>"

definition response_success :: "string \<Rightarrow> json \<Rightarrow> ipc_response" where
  "response_success i d =
     \<lparr>response_id = i, response_ok = True, response_data = Some d, response_error = None\<rparr>"

definition response_failure :: "string \<Rightarrow> string \<Rightarrow> ipc_response" where
  "response_failure i msg =
     \<lparr>response_id = i, response_ok = False, response_data = None, response_error = Some msg\<rparr>"

definition event_new :: "string \<Rightarrow> json \<Rightarrow> ipc_event" where
  "event_new n d = \<lparr>event_name = n, event_data = d\<rparr>"

record agent_status =
  agent_version :: string
  uptime_secs :: nat
  active_tasks :: nat
  running_executions :: nat

section \<open>Derived conversions\<close>

definition request_to_json :: "ipc_request \<Rightarrow> json" where
  "request_to_json r =
     JObj [(''id'', JStr (request_id r)), (''method'', JStr (request_method r)),
           (''params'', request_params r)]"

definition response_to_json :: "ipc_response \<Rightarrow> json" where
  "response_to_json r =
     JObj [(''id'', JStr (response_id r)), (''ok'', JBool (response_ok r)),
           (''data'', opt_json id (response_data r)), (''error'', opt_json JStr (response_error r))]"

definition event_to_json :: "ipc_event \<Rightarrow> json" where
  "event_to_json e = JObj [(''event'', JStr (event_name e)), (''data'', event_data e)]"

definition agent_status_json :: "agent_status \<Rightarrow> json" where
  "agent_status_json s =
     JObj [(''version'', JStr (agent_version s)), (''uptime_secs'', JInt (int (uptime_secs s))),
           (''active_tasks'', JInt (int (active_tasks s))),
           (''running_executions'', JInt (int (running_executions s)))]"

fun str_field :: "string \<Rightarrow> json \<Rightarrow> string option" where
  "str_field k j = (case json_get k j of Some (JStr s) \<Rightarrow> Some s | _ \<Rightarrow> None)"

text \<open>An \<open>Option\<close> field may be missing or null; a value of the wrong type is an error.\<close>

definition optional_text :: "string \<Rightarrow> json \<Rightarrow> string option option" where
  "optional_text k j =
     (case json_get k j of
        None \<Rightarrow> Some None
      | Some JNull \<Rightarrow> Some None
      | Some (JStr s) \<Rightarrow> Some (Some s)
      | Some _ \<Rightarrow> None)"

definition optional_value :: "string \<Rightarrow> json \<Rightarrow> json option" where
  "optional_value k j = (case json_get k j of Some JNull \<Rightarrow> None | x \<Rightarrow> x)"

definition request_of_json :: "json \<Rightarrow> ipc_request option" where
  "request_of_json j =
     (case (str_field ''id'' j, str_field ''method'' j, json_get ''params'' j) of
        (Some i, Some m, Some p) \<Rightarrow>
          Some \<lparr>request_id = i, request_method = m, request_params = p\<rparr>
      | _ \<Rightarrow> None)"

definition response_of_json :: "json \<Rightarrow> ipc_response option" where
  "response_of_json j =
     (case (str_field ''id'' j, json_get ''ok'' j, optional_text ''error'' j) of
        (Some i, Some (JBool ok), Some err) \<Rightarrow>
          Some \<lparr>response_id = i, response_ok = ok, response_data = optional_value ''data'' j,
                response_error = err\<rparr>
      | _ \<Rightarrow> None)"

definition event_of_json :: "json \<Rightarrow> ipc_event option" where
  "event_of_json j =
     (case (str_field ''event'' j, json_get ''data'' j) of
        (Some n, Some d) \<Rightarrow> Some \<lparr>event_name = n, event_data = d\<rparr>
      | _ \<Rightarrow> None)"

section \<open>Transport\<close>

definition MAX_FRAME_LENGTH :: nat where
  "MAX_FRAME_LENGTH = 4 * 1024 * 1024"

text \<open>\<open>LinesCodec::new_with_max_length\<close>: a longer line is an error of the reading side.\<close>

definition frame_fits :: "json \<Rightarrow> bool" where
  "frame_fits j \<longleftrightarrow> length (json_text j) \<le> MAX_FRAME_LENGTH"

section \<open>Facts\<close>

lemma response_not_event [simp]: "response_of_json (event_to_json e) = None"
  by (simp add: response_of_json_def event_to_json_def)

lemma event_not_response [simp]: "event_of_json (response_to_json r) = None"
  by (simp add: event_of_json_def response_to_json_def)

lemma event_roundtrip [simp]: "event_of_json (event_to_json e) = Some e"
  by (simp add: event_of_json_def event_to_json_def)

lemma request_roundtrip [simp]: "request_of_json (request_to_json r) = Some r"
  by (simp add: request_of_json_def request_to_json_def)

definition read_back :: "ipc_response \<Rightarrow> ipc_response" where
  "read_back r = (if response_data r = Some JNull then r\<lparr>response_data := None\<rparr> else r)"

lemma response_roundtrip [simp]: "response_of_json (response_to_json r) = Some (read_back r)"
  by (cases "response_data r"; cases "response_error r")
     (auto simp: response_of_json_def response_to_json_def optional_text_def optional_value_def read_back_def
        split: json.splits)

lemma escape_nonempty: "1 \<le> length (escape_char c)"
  by (simp add: escape_char_def)

lemma length_quote_json: "length (quote_json s) = 2 + sum_list (map (length \<circ> escape_char) s)"
  by (induction s) (auto simp: quote_json_def)

lemma length_escaped_quotes: "length (quote_json (replicate n (CHR 0x22))) = 2 + 2 * n"
  by (simp add: length_quote_json escape_char_def byte_def sum_list_replicate)

end
