(* ===== verification/Job_Run.thy ===== *)
theory Job_Run
  imports Runner Protocol Chrono Store
begin

text \<open>
  The body of one job in \<^verbatim>\<open>apps/agent/src/service.rs\<close>, shared word for word by the dispatcher and the
  \<open>task.trigger_now\<close> handler: run the enabled actions in order, store and broadcast their output, record
  the verdict, purge expired runs.
\<close>

section \<open>Events\<close>

definition execution_id_json :: "execution_id \<Rightarrow> json" where
  "execution_id_json e = JStr (uuid_string (execution_uuid e))"

definition task_id_json :: "task_id \<Rightarrow> json" where
  "task_id_json t = JStr (uuid_string (task_uuid t))"

fun notification_name :: "task_notification_policy \<Rightarrow> string" where
  "notification_name NotifyNone = ''None''"
| "notification_name OnlySuccess = ''OnlySuccess''"
| "notification_name OnlyFailure = ''OnlyFailure''"
| "notification_name NotifyAll = ''All''"

definition started_event :: "execution \<Rightarrow> ipc_event" where
  "started_event e = event_new ''execution.started''
     (JObj [(''execution_id'', execution_id_json (execution_id e)),
            (''task_id'', task_id_json (execution_task_id e))])"

definition output_event :: "execution \<Rightarrow> string \<Rightarrow> string \<Rightarrow> ipc_event" where
  "output_event e strm out = event_new ''execution.output''
     (JObj [(''execution_id'', execution_id_json (execution_id e)),
            (''task_id'', task_id_json (execution_task_id e)),
            (''stream'', JStr strm), (''content'', JStr out)])"

definition finished_event :: "task \<Rightarrow> execution \<Rightarrow> u64 \<Rightarrow> ipc_event" where
  "finished_event t e duration = event_new ''execution.finished''
     (JObj [(''execution_id'', execution_id_json (execution_id e)),
            (''task_id'', task_id_json (execution_task_id e)),
            (''task_name'', JStr (task_name t)),
            (''status'', JStr (status_name (status e))),
            (''exit_code'', opt_json JInt (exit_code e)),
            (''duration_ms'', JInt (uint duration)),
            (''error_message'', opt_json JStr (error_message e)),
            (''notification_policy'', JStr (notification_name (notification (execution_policy t))))])"

section \<open>The environment of a job\<close>

text \<open>
  What happens to the job from outside: the child process of its \<open>i\<close>-th action, the faults and clock
  readings of its database calls, the clock when it starts and finishes, its fresh identifier.
\<close>

record job_world =
  fresh_execution :: execution_id
  created_time :: instant
  start_time :: instant
  finish_time :: instant
  child_at :: "nat \<Rightarrow> child_run"
  create_faults :: faults
  output_faults :: "nat \<Rightarrow> faults"
  output_time :: "nat \<Rightarrow> instant"
  update_faults :: faults

section \<open>The action loop\<close>

record job_loop =
  loop_db :: db
  loop_events :: "ipc_event list"
  final_status :: execution_status
  final_exit_code :: "int option"
  final_error :: "string option"

definition loop_start :: "db \<Rightarrow> job_loop" where
  "loop_start d = \<lparr>loop_db = d, loop_events = [], final_status = Succeeded,
                   final_exit_code = Some 0, final_error = None\<rparr>"

definition emit_output ::
  "codec \<Rightarrow> faults \<Rightarrow> instant \<Rightarrow> execution \<Rightarrow> string \<Rightarrow> string \<Rightarrow> job_loop \<Rightarrow> job_loop" where
  "emit_output K f now e strm out s =
     (if out = [] then s
      else s\<lparr>loop_db := snd (append_output K f now (execution_id e) strm out (loop_db s)),
             loop_events := loop_events s @ [output_event e strm out]\<rparr>)"

fun run_actions ::
  "codec \<Rightarrow> platform \<Rightarrow> job_world \<Rightarrow> task \<Rightarrow> execution \<Rightarrow> nat \<Rightarrow> action list \<Rightarrow> job_loop \<Rightarrow> job_loop" where
  "run_actions K P w t e i [] s = s"
| "run_actions K P w t e i (a # as) s =
     (if \<not> action_enabled a then run_actions K P w t e (Suc i) as s
      else (case fst (run_action P (child_at w i) a (timeout_secs (execution_policy t))) of
              Inr r \<Rightarrow>
                let s = emit_output K (output_faults w (2 * i)) (output_time w (2 * i)) e
                          ''stdout'' (result_stdout r) s;
                    s = emit_output K (output_faults w (2 * i + 1)) (output_time w (2 * i + 1)) e
                          ''stderr'' (result_stderr r) s;
                    s = s\<lparr>final_exit_code := result_exit_code r\<rparr>
                in if result_status r \<noteq> Succeeded
                   then s\<lparr>final_status := result_status r, final_error := result_error r\<rparr>
                   else run_actions K P w t e (Suc i) as s
            | Inl err \<Rightarrow> s\<lparr>final_status := Failed, final_error := Some (error_to_string err)\<rparr>))"

section \<open>The job\<close>

text \<open>\<open>Execution::new\<close> with the status and start time the job sets before \<open>create_run\<close>.\<close>

definition new_run :: "job_world \<Rightarrow> task \<Rightarrow> trigger_id option \<Rightarrow> instant option \<Rightarrow> execution" where
  "new_run w t tr sched =
     (new_execution (fresh_execution w) (created_time w) (task_id t) tr sched)
       \<lparr>status := Running, started_at := start_time w\<rparr>"

definition finish_run :: "job_world \<Rightarrow> job_loop \<Rightarrow> execution \<Rightarrow> execution" where
  "finish_run w s e =
     e\<lparr>status := final_status s, finished_at := Some (finish_time w),
       duration_ms := Some (of_nat (nat (max (num_milliseconds (finish_time w - started_at e)) 0))),
       exit_code := final_exit_code s, error_message := final_error s\<rparr>"

text \<open>From the registration of the job to the broadcast of its end; a failed \<open>update_run\<close> is only logged.\<close>

definition job_body ::
  "codec \<Rightarrow> platform \<Rightarrow> job_world \<Rightarrow> task \<Rightarrow> execution \<Rightarrow> db \<Rightarrow> execution \<times> db \<times> ipc_event list" where
  "job_body K P w t e d =
     (let s = run_actions K P w t e 0 (actions t) (loop_start d);
          e' = finish_run w s e;
          d' = snd (update_run K (update_faults w) e' (loop_db s));
          duration = (case duration_ms e' of Some n \<Rightarrow> n | None \<Rightarrow> 0)
      in (e', d', started_event e # loop_events s @ [finished_event t e' duration]))"

text \<open>
  The job of \<open>task.trigger_now\<close>: its record exists, and its start was announced by the request.
\<close>

definition manual_job ::
  "codec \<Rightarrow> platform \<Rightarrow> job_world \<Rightarrow> task \<Rightarrow> execution \<Rightarrow> db \<Rightarrow> execution \<times> db \<times> ipc_event list" where
  "manual_job K P w t e d =
     (let s = run_actions K P w t e 0 (actions t) (loop_start d);
          finished = finish_run w s e;
          d' = snd (update_run K (update_faults w) finished (loop_db s));
          duration = (case duration_ms finished of Some n \<Rightarrow> n | None \<Rightarrow> 0)
      in (finished, d', loop_events s @ [finished_event t finished duration]))"

definition dispatch_job ::
  "codec \<Rightarrow> platform \<Rightarrow> job_world \<Rightarrow> task \<Rightarrow> trigger_id option \<Rightarrow> instant \<Rightarrow> db
   \<Rightarrow> (error + execution) \<times> db \<times> ipc_event list" where
  "dispatch_job K P w t tr sched d =
     (let e = new_run w t tr (Some sched)
      in case create_run K (create_faults w) e d of
           (Inl err, d) \<Rightarrow> (Inl err, d, [])
         | (Inr _, d) \<Rightarrow> (case job_body K P w t e d of (e', d, evs) \<Rightarrow> (Inr e', d, evs)))"

section \<open>Log retention\<close>

definition retention_days :: "codec \<Rightarrow> faults \<Rightarrow> task \<Rightarrow> db \<Rightarrow> u32 option" where
  "retention_days K f t d =
     (case log_retention (execution_policy t) of
        SystemDefault \<Rightarrow>
          let sys = (case get_system_settings K f d of Inr s \<Rightarrow> s | Inl _ \<Rightarrow> default_system_settings)
          in (case default_log_retention sys of SysKeepDays n \<Rightarrow> Some n | SysPermanent \<Rightarrow> None)
      | KeepDays n \<Rightarrow> Some n
      | Permanent \<Rightarrow> None)"

text \<open>The spawned purge: a panic of the subtraction ends it before it deletes anything.\<close>

definition trigger_log_retention_purge ::
  "codec \<Rightarrow> chrono_env \<Rightarrow> faults \<Rightarrow> faults \<Rightarrow> instant \<Rightarrow> task \<Rightarrow> db \<Rightarrow> db outcome" where
  "trigger_log_retention_purge K E settings_fault purge_fault now t d =
     (case retention_days K settings_fault t d of
        None \<Rightarrow> Ret d
      | Some days \<Rightarrow>
          obind (dt_add E now (- (uint days * day_ns))) (\<lambda>cutoff.
          Ret (snd (purge_expired_runs K purge_fault (task_id t) cutoff d))))"

end
