(* ===== verification/Job_Run_Facts.thy ===== *)
theory Job_Run_Facts
  imports Job_Run Store_Props
begin

text \<open>
  The action loop against its reference: the results of the enabled actions in order, of which those up to
  the first failure are executed, give the verdict, the stored output and the broadcast events.
\<close>

section \<open>Results and verdict\<close>

fun action_results ::
  "platform \<Rightarrow> job_world \<Rightarrow> u64 option \<Rightarrow> nat \<Rightarrow> action list \<Rightarrow> (error + run_result) list" where
  "action_results P w t i [] = []"
| "action_results P w t i (a # as) =
     (if action_enabled a then [fst (run_action P (child_at w i) a t)] else [])
     @ action_results P w t (Suc i) as"

definition succeeded :: "error + run_result \<Rightarrow> bool" where
  "succeeded r = (case r of Inr x \<Rightarrow> result_status x = Succeeded | Inl e \<Rightarrow> False)"

definition executed :: "(error + run_result) list \<Rightarrow> (error + run_result) list" where
  "executed rs = takeWhile succeeded rs @ take 1 (dropWhile succeeded rs)"

definition verdict ::
  "(error + run_result) list \<Rightarrow> execution_status \<times> int option \<times> string option" where
  "verdict rs =
     (case find (\<lambda>r. \<not> succeeded r) rs of
        None \<Rightarrow> (Succeeded, Some 0, None)
      | Some (Inr r) \<Rightarrow> (result_status r, result_exit_code r, result_error r)
      | Some (Inl e) \<Rightarrow> (Failed, Some 0, Some (error_to_string e)))"

definition outputs_of :: "error + run_result \<Rightarrow> (string \<times> string) list" where
  "outputs_of r =
     (case r of
        Inl e \<Rightarrow> []
      | Inr x \<Rightarrow> (if result_stdout x = [] then [] else [(''stdout'', result_stdout x)])
                @ (if result_stderr x = [] then [] else [(''stderr'', result_stderr x)]))"

definition job_outputs :: "(error + run_result) list \<Rightarrow> (string \<times> string) list" where
  "job_outputs rs = concat (map outputs_of (executed rs))"

lemma executed_simps [simp]:
  "executed [] = []"
  "executed (r # rs) = r # (if succeeded r then executed rs else [])"
  by (simp_all add: executed_def)

lemma verdict_simps:
  "verdict [] = (Succeeded, Some 0, None)"
  "succeeded r \<Longrightarrow> verdict (r # rs) = verdict rs"
  "\<not> succeeded r \<Longrightarrow> verdict (r # rs) = verdict [r]"
  by (simp_all add: verdict_def)

lemma job_outputs_simps:
  "job_outputs [] = []"
  "job_outputs (r # rs) = outputs_of r @ (if succeeded r then job_outputs rs else [])"
  by (simp_all add: job_outputs_def)

lemma run_action_exit_code:
  assumes "fst (run_action P w a t) = Inr r" and "result_status r = Succeeded"
  shows "result_exit_code r = Some 0" and "result_error r = None"
  using assms
  by (auto simp: run_action_def Let_def split: if_splits option.splits child_end.splits sum.splits)

lemma emit_output_simps [simp]:
  "final_status (emit_output K f now e strm out s) = final_status s"
  "final_exit_code (emit_output K f now e strm out s) = final_exit_code s"
  "final_error (emit_output K f now e strm out s) = final_error s"
  by (simp_all add: emit_output_def)

lemma run_actions_verdict:
  assumes "final_status s = Succeeded" and "final_exit_code s = Some 0" and "final_error s = None"
  shows "(final_status (run_actions K P w t e i as s), final_exit_code (run_actions K P w t e i as s),
      final_error (run_actions K P w t e i as s))
    = verdict (action_results P w (timeout_secs (execution_policy t)) i as)"
  using assms
proof (induction as arbitrary: i s)
  case Nil
  then show ?case by (simp add: verdict_simps)
next
  case (Cons a as)
  let ?r = "fst (run_action P (child_at w i) a (timeout_secs (execution_policy t)))"
  show ?case
  proof (cases "action_enabled a")
    case False
    with Cons show ?thesis by simp
  next
    case True
    show ?thesis
    proof (cases ?r)
      case (Inl err)
      then show ?thesis using True Cons.prems by (simp add: verdict_def succeeded_def)
    next
      case (Inr r)
      show ?thesis
      proof (cases "result_status r = Succeeded")
        case ok: True
        have c: "result_exit_code r = Some 0" using run_action_exit_code [OF Inr ok] by simp
        have "succeeded ?r" using Inr ok by (simp add: succeeded_def)
        then show ?thesis
          using True Inr ok c Cons.prems by (simp add: Let_def verdict_simps Cons.IH)
      next
        case bad: False
        have "\<not> succeeded ?r" using Inr bad by (simp add: succeeded_def)
        then show ?thesis using True Inr bad by (simp add: Let_def verdict_def)
      qed
    qed
  qed
qed

section \<open>Events and output rows\<close>

lemma emit_output_events:
  "loop_events (emit_output K f now e strm out s) =
     loop_events s @ map (\<lambda>(st, c). output_event e st c) (if out = [] then [] else [(strm, out)])"
  by (simp add: emit_output_def)

lemma run_actions_events:
  "loop_events (run_actions K P w t e i as s) = loop_events s
     @ map (\<lambda>(st, c). output_event e st c)
         (job_outputs (action_results P w (timeout_secs (execution_policy t)) i as))"
proof (induction as arbitrary: i s)
  case Nil
  then show ?case by (simp add: job_outputs_simps)
next
  case (Cons a as)
  let ?r = "fst (run_action P (child_at w i) a (timeout_secs (execution_policy t)))"
  show ?case
  proof (cases "action_enabled a")
    case False
    with Cons show ?thesis by simp
  next
    case True
    with Cons show ?thesis
      by (cases ?r) (auto simp: Let_def job_outputs_simps outputs_of_def succeeded_def emit_output_events)
  qed
qed

text \<open>The rows of one run, in the order in which they were appended.\<close>

definition run_outputs :: "execution_id \<Rightarrow> db \<Rightarrow> output_row list" where
  "run_outputs e d = filter (\<lambda>r. out_run_id r = e) (outputs d)"

definition outputs_inv :: "execution_id \<Rightarrow> (string \<times> string) list \<Rightarrow> db \<Rightarrow> bool" where
  "outputs_inv e acc d \<longleftrightarrow>
     e \<in> run_id ` set (runs d)
     \<and> sorted_wrt (<) (map out_id (run_outputs e d))
     \<and> (\<forall>r \<in> set (run_outputs e d). out_id r < next_output_id d)
     \<and> map (\<lambda>r. (out_stream r, out_content r)) (run_outputs e d) = acc"

lemma append_output_inv:
  assumes "outputs_inv e acc d" and "f 0 = None"
  shows "outputs_inv e (acc @ [(strm, out)]) (snd (append_output K f now e strm out d))"
  using assms
  by (auto simp: outputs_inv_def append_output_def call_db_def run_outputs_def sorted_wrt_append)

lemma emit_output_inv:
  assumes "outputs_inv (execution_id e) acc (loop_db s)" and "f 0 = None"
  shows "outputs_inv (execution_id e) (acc @ (if out = [] then [] else [(strm, out)]))
    (loop_db (emit_output K f now e strm out s))"
  using assms append_output_inv [where strm = strm and out = out and K = K and now = now and f = f, OF assms]
  by (simp add: emit_output_def)

lemma run_actions_outputs:
  assumes "outputs_inv (execution_id e) acc (loop_db s)" and "\<forall>j. output_faults w j 0 = None"
  shows "outputs_inv (execution_id e)
    (acc @ job_outputs (action_results P w (timeout_secs (execution_policy t)) i as))
    (loop_db (run_actions K P w t e i as s))"
  using assms
proof (induction as arbitrary: i s acc)
  case Nil
  then show ?case by (simp add: job_outputs_simps)
next
  case (Cons a as)
  let ?r = "fst (run_action P (child_at w i) a (timeout_secs (execution_policy t)))"
  show ?case
  proof (cases "action_enabled a")
    case False
    with Cons show ?thesis by simp
  next
    case True
    show ?thesis
    proof (cases ?r)
      case (Inl err)
      then show ?thesis using True Cons.prems
        by (simp add: job_outputs_simps outputs_of_def succeeded_def)
    next
      case (Inr r)
      let ?s1 = "emit_output K (output_faults w (2 * i)) (output_time w (2 * i)) e ''stdout'' (result_stdout r) s"
      let ?s2 = "emit_output K (output_faults w (2 * i + 1)) (output_time w (2 * i + 1)) e ''stderr'' (result_stderr r) ?s1"
      have "outputs_inv (execution_id e) (acc @ outputs_of ?r) (loop_db ?s2)"
        using emit_output_inv [where f = "output_faults w (2 * i + 1)",
            OF emit_output_inv [where f = "output_faults w (2 * i)", OF Cons.prems(1)]] Cons.prems(2) Inr
        by (simp add: outputs_of_def)
      then show ?thesis
        using True Inr Cons.IH [of "acc @ outputs_of ?r" "?s2\<lparr>final_exit_code := result_exit_code r\<rparr>"] Cons.prems(2)
        by (simp add: Let_def job_outputs_simps succeeded_def)
    qed
  qed
qed

text \<open>What the loop does to the store is a sequence of appends, which the contract of the repository covers.\<close>

lemma emit_output_stored: "stored_run K x (loop_db (emit_output K f now e strm out s)) = stored_run K x (loop_db s)"
proof -
  have "runs (snd (append_output K f now (execution_id e) strm out (loop_db s))) = runs (loop_db s)"
    by (rule append_output_runs [OF surjective_pairing])
  then show ?thesis by (simp add: emit_output_def stored_run_def find_run_by_id_def)
qed

lemma run_actions_stored: "stored_run K x (loop_db (run_actions K P w t e i as s)) = stored_run K x (loop_db s)"
proof (induction as arbitrary: i s)
  case Nil
  then show ?case by simp
next
  case (Cons a as)
  then show ?case by (auto simp: Let_def emit_output_stored split: sum.splits)
qed

end
