(* ===== verification/Job_Run_Props.thy ===== *)
theory Job_Run_Props
  imports Job_Run_Facts
begin

text \<open>
  What a job leaves behind: the capped output of its children, the verdict and the output in the store, the
  broadcast events, and the runs that survive the purge after it.
\<close>

section \<open>Children\<close>

text \<open>C18. Whatever a child writes and in whatever portions, the reader keeps all of it up to 2 MiB, and
  exactly the first 2 MiB with the truncation mark if there is more.\<close>

theorem output_is_capped:
  assumes "\<forall>c \<in> set chunks. c \<noteq> []"
  shows "read_stream_capped (Some chunks) =
    (if length (concat chunks) \<le> MAX_OUTPUT_BYTES then concat chunks
     else take MAX_OUTPUT_BYTES (concat chunks) @ TRUNCATION_SUFFIX)"
  using read_loop_spec [OF assms, of "[]"] by (simp add: read_stream_capped_def Let_def)

lemma output_is_capped_witness:
  "read_stream_capped (Some [''ab'', ''c'']) = ''abc''"
  using output_is_capped [of "[''ab'', ''c'']"] by (simp add: MAX_OUTPUT_BYTES_def)

text \<open>C17. An action succeeds exactly when its child could be started and ended with code 0 no later than the
  timeout, and the cancellation did not come first; every other end is a failure with a message, and only
  a cancelled or timed-out child has its process tree killed.\<close>

theorem action_succeeds_iff:
  "((\<exists>r. fst (run_action P w a t) = Inr r \<and> result_status r = Succeeded) \<longleftrightarrow>
     \<not> cancelled_before w \<and> spawn_error w = None \<and> exit_with w = Inr (Some 0)
     \<and> (\<exists>x. exit_after w = Some x \<and> x \<le> timeout_duration t
          \<and> (\<forall>c. cancel_after w = Some c \<longrightarrow> x \<le> c \<and> (x = c \<longrightarrow> \<not> select_cancel w))))
   \<and> (\<forall>r. fst (run_action P w a t) = Inr r \<longrightarrow> (result_error r = None \<longleftrightarrow> result_status r = Succeeded))
   \<and> (snd (run_action P w a t) \<noteq> [] \<longrightarrow>
        (\<exists>r. fst (run_action P w a t) = Inr r \<and> result_status r \<in> {Cancelled, TimedOut}))"
proof -
  let ?R = "\<exists>x. exit_after w = Some x \<and> x \<le> timeout_duration t
          \<and> (\<forall>c. cancel_after w = Some c \<longrightarrow> x \<le> c \<and> (x = c \<longrightarrow> \<not> select_cancel w))"
  have ends: "child_ends t w = EndExited (Inr (Some 0)) \<longleftrightarrow> exit_with w = Inr (Some 0) \<and> ?R"
    by (auto simp: child_ends_def Let_def min_def split: option.splits if_splits)
  have "(\<exists>r. fst (run_action P w a t) = Inr r \<and> result_status r = Succeeded) \<longleftrightarrow>
      \<not> cancelled_before w \<and> spawn_error w = None \<and> child_ends t w = EndExited (Inr (Some 0))"
    by (auto simp: run_action_def Let_def split: option.splits child_end.splits sum.splits if_splits)
  moreover have "result_error r = None \<longleftrightarrow> result_status r = Succeeded" if "fst (run_action P w a t) = Inr r" for r
    using that by (auto simp: run_action_def Let_def split: option.splits child_end.splits sum.splits if_splits)
  moreover have "\<exists>r. fst (run_action P w a t) = Inr r \<and> result_status r \<in> {Cancelled, TimedOut}"
    if "snd (run_action P w a t) \<noteq> []"
    using that by (auto simp: run_action_def Let_def split: option.splits child_end.splits sum.splits if_splits)
  ultimately show ?thesis unfolding ends by blast
qed

section \<open>The recorded run\<close>

lemma dispatch_job_Inr:
  assumes "dispatch_job K P w t tr sched d = (Inr e, d', evs)"
  shows "\<exists>d1. create_run K (create_faults w) (new_run w t tr (Some sched)) d = (Inr (), d1)
    \<and> job_body K P w t (new_run w t tr (Some sched)) d1 = (e, d', evs)"
  using assms by (auto simp: dispatch_job_def Let_def split: prod.splits sum.splits)

lemma job_body_execution:
  assumes "job_body K P w t e0 d = (e, d', evs)"
  shows "e = finish_run w (run_actions K P w t e0 0 (actions t) (loop_start d)) e0"
    and "execution_id e = execution_id e0" and "execution_task_id e = execution_task_id e0"
  using assms by (auto simp: job_body_def Let_def finish_run_def)

lemma loop_start_verdict:
  "(final_status (run_actions K P w t e i as (loop_start d)), final_exit_code (run_actions K P w t e i as (loop_start d)),
      final_error (run_actions K P w t e i as (loop_start d)))
    = verdict (action_results P w (timeout_secs (execution_policy t)) i as)"
  by (rule run_actions_verdict) (simp_all add: loop_start_def)

lemma finished_run_recorded:
  assumes "codec_ok K" and "s = run_actions K P w t e0 0 (actions t) (loop_start d)"
    and "stored_run K (execution_id e0) d = Some e0" and "run_times_ok e0"
    and "db_time (finish_time w)" and "update_faults w 0 = None"
  shows "stored_run K (execution_id e0) (snd (update_run K (update_faults w) (finish_run w s e0)
           (loop_db s))) = Some (finish_run w s e0)"
    and "(status (finish_run w s e0), exit_code (finish_run w s e0),
          error_message (finish_run w s e0))
        = verdict (action_results P w (timeout_secs (execution_policy t)) 0 (actions t))"
proof -
  let ?e = "finish_run w s e0"
  note repo = sqlite_execution_repository [OF assms(1)]
  have fields: "execution_id ?e = execution_id e0" "merge_update ?e e0 = ?e" "run_times_ok ?e"
    using assms(4,5) by (simp_all add: finish_run_def merge_update_def run_times_ok_def)
  have "stored_run K (execution_id ?e) (loop_db s) = Some e0"
    using assms(3) unfolding fields(1) by (simp add: assms(2) run_actions_stored loop_start_def)
  moreover have "update_run K (update_faults w) ?e (loop_db s)
      = (Inr (), snd (update_run K (update_faults w) ?e (loop_db s)))"
    by (simp add: update_run_def call_db_def assms(6))
  ultimately have "stored_run K (execution_id ?e) (snd (update_run K (update_faults w) ?e (loop_db s)))
      = Some (merge_update ?e e0)"
    using execution_repository.update_lookup [OF repo _ fields(3)] by blast
  then show "stored_run K (execution_id e0) (snd (update_run K (update_faults w) ?e (loop_db s))) = Some ?e"
    by (simp add: fields)
  show "(status ?e, exit_code ?e, error_message ?e)
      = verdict (action_results P w (timeout_secs (execution_policy t)) 0 (actions t))"
    using loop_start_verdict [of K P w t e0 0 "actions t" d] by (simp add: finish_run_def assms(2))
qed

lemma dispatched_run_recorded:
  assumes "codec_ok K" and "dispatch_job K P w t tr sched d = (Inr e, d', evs)"
    and "update_faults w 0 = None"
    and "db_time sched" and "db_time (start_time w)" and "db_time (finish_time w)"
  shows "stored_run K (fresh_execution w) d' = Some e
    \<and> (status e, exit_code e, error_message e)
        = verdict (action_results P w (timeout_secs (execution_policy t)) 0 (actions t))
    \<and> execution_task_id e = task_id t \<and> execution_trigger_id e = tr \<and> scheduled_at e = Some sched
    \<and> started_at e = start_time w \<and> finished_at e = Some (finish_time w)"
proof -
  let ?e0 = "new_run w t tr (Some sched)"
  obtain d1 where c: "create_run K (create_faults w) ?e0 d = (Inr (), d1)"
    and b: "job_body K P w t ?e0 d1 = (e, d', evs)"
    using dispatch_job_Inr [OF assms(2)] by blast
  have times: "run_times_ok ?e0" using assms(4,5) by (simp add: new_run_def new_execution_def run_times_ok_def)
  have "stored_run K (execution_id ?e0) d1 = Some ?e0"
    using execution_repository.create_lookup [OF sqlite_execution_repository [OF assms(1)] c times] .
  from finished_run_recorded [OF assms(1) refl this times assms(6,3), of P t] show ?thesis
    using b by (auto simp: job_body_def Let_def finish_run_def new_run_def new_execution_def)
qed

text \<open>The run that a job leaves in the store is the verdict of its enabled actions: succeeded if all
  succeeded, otherwise status, exit code and message of the first that did not, with the identifiers and
  times of the job.  Output rows that cannot be stored do not change it.\<close>

theorem job_verdict_recorded:
  assumes "codec_ok K" and "dispatch_job K P w t tr sched d = (Inr e, d', evs)"
    and "update_faults w 0 = None"
    and "db_time sched" and "db_time (start_time w)" and "db_time (finish_time w)"
  shows "stored_run K (fresh_execution w) d' = Some e
    \<and> (status e, exit_code e, error_message e)
        = verdict (action_results P w (timeout_secs (execution_policy t)) 0 (actions t))
    \<and> execution_task_id e = task_id t \<and> execution_trigger_id e = tr \<and> scheduled_at e = Some sched
    \<and> started_at e = start_time w \<and> finished_at e = Some (finish_time w)"
  by (rule dispatched_run_recorded [OF assms])

definition quiet_child :: child_run where
  "quiet_child =
     \<lparr>cancelled_before = False, spawn_error = None, child_pid = Some 4321, stdout_pipe = Some [''done''],
      stderr_pipe = Some [], exit_after = Some 5, exit_with = Inr (Some 0), cancel_after = None,
      select_cancel = False\<rparr>"

definition unix_build :: platform where
  "unix_build = \<lparr>os = Unix, code_page_936 = (\<lambda>_. None), zsh_exists = False\<rparr>"

definition demo_world :: job_world where
  "demo_world =
     \<lparr>fresh_execution = ExecutionId 5, created_time = 0, start_time = 10, finish_time = 20,
      child_at = (\<lambda>_. quiet_child), create_faults = no_faults, output_faults = (\<lambda>_. no_faults),
      output_time = (\<lambda>_. 15), update_faults = no_faults\<rparr>"

definition shell_action :: action where
  "shell_action = \<lparr>action_id = ActionId 1, action_task_id = TaskId 7, action_sequence = 1,
     action_enabled = True, action_kind = ExecuteShell ''make''\<rparr>"

definition job_task :: task where
  "job_task = small_task\<lparr>actions := [shell_action]\<rparr>"

definition job_db :: db where
  "job_db = empty_db\<lparr>tasks := [task_to_row text_codec job_task ''p'' ''e'']\<rparr>"

lemma job_db_ok: "db_ok job_db"
  by (simp add: job_db_def db_ok_def empty_db_def)

lemma quiet_result:
  "run_action unix_build quiet_child shell_action None =
     (Inr \<lparr>result_status = Succeeded, result_exit_code = Some 0, result_stdout = ''done'',
           result_stderr = [], result_error = None\<rparr>, [])"
proof -
  have "child_ends None quiet_child = EndExited (Inr (Some 0))"
    by (simp add: child_ends_def quiet_child_def timeout_duration_def timeout_seconds_def sec_ns_def)
  then show ?thesis
    by (simp add: run_action_def Let_def quiet_child_def shell_action_def collect_pipe_output_def
        read_stream_capped_def read_chunk_def MAX_OUTPUT_BYTES_def unix_build_def default_decode_def
        decode_utf8_def utf8_step.simps utf8_width_def byte_def)
qed

lemma action_succeeds_iff_witness:
  "\<exists>r. fst (run_action unix_build quiet_child shell_action None) = Inr r \<and> result_status r = Succeeded"
  using action_succeeds_iff [of unix_build quiet_child shell_action None]
  by (simp add: quiet_child_def timeout_duration_def timeout_seconds_def sec_ns_def)

lemma job_task_simps: "task_id job_task = TaskId 7" "actions job_task = [shell_action]"
  "timeout_secs (execution_policy job_task) = None"
  by (simp_all add: job_task_def small_task_def default_execution_policy_def)

lemma demo_dispatch: "\<exists>e d' evs. dispatch_job text_codec unix_build demo_world job_task None 5 job_db = (Inr e, d', evs)"
  by (simp add: dispatch_job_def Let_def create_run_def call_db_def demo_world_def no_faults_def job_db_def
      empty_db_def new_run_def new_execution_def task_to_row_def job_task_simps split: prod.splits)

lemma demo_results: "action_results unix_build demo_world None 0 [shell_action] =
    [Inr \<lparr>result_status = Succeeded, result_exit_code = Some 0, result_stdout = ''done'',
          result_stderr = [], result_error = None\<rparr>]"
  using quiet_result by (simp add: demo_world_def) (simp add: shell_action_def)

lemma job_verdict_recorded_witness:
  "\<exists>e d' evs. dispatch_job text_codec unix_build demo_world job_task None 5 job_db = (Inr e, d', evs)
     \<and> stored_run text_codec (ExecutionId 5) d' = Some e \<and> status e = Succeeded"
proof -
  obtain e d' evs where r: "dispatch_job text_codec unix_build demo_world job_task None 5 job_db = (Inr e, d', evs)"
    using demo_dispatch by blast
  have times: "db_time 5" "db_time (start_time demo_world)" "db_time (finish_time demo_world)"
    by (simp_all add: demo_world_def db_time_def sec_ns_def)
  have "update_faults demo_world 0 = None" by (simp add: demo_world_def no_faults_def)
  from job_verdict_recorded [OF text_codec_ok r this times]
  have "stored_run text_codec (fresh_execution demo_world) d' = Some e"
    "(status e, exit_code e, error_message e) = verdict (action_results unix_build demo_world
        (timeout_secs (execution_policy job_task)) 0 (actions job_task))" by auto
  then have "stored_run text_codec (ExecutionId 5) d' = Some e" "status e = Succeeded"
    unfolding job_task_simps demo_results
    by (simp_all add: verdict_def succeeded_def) (simp add: demo_world_def)
  with r show ?thesis by blast
qed

section \<open>Output and events\<close>

text \<open>If its output rows can be stored, the output of a job is what its executed actions wrote, in their
  order, standard output before standard error and empty ones left out; the broadcast is the start, the
  same output, and the end of the run as recorded.\<close>

theorem job_output_recorded:
  assumes "dispatch_job K P w t tr sched d = (Inr e, d', evs)" and "db_ok d"
    and "\<forall>j. output_faults w j 0 = None"
  shows "\<exists>recs duration. get_outputs no_faults (execution_id e) d' = Inr recs
    \<and> map (\<lambda>r. (stream r, content r)) recs
        = job_outputs (action_results P w (timeout_secs (execution_policy t)) 0 (actions t))
    \<and> evs = started_event e # map (\<lambda>r. output_event e (stream r) (content r)) recs @ [finished_event t e duration]"
proof -
  let ?e0 = "new_run w t tr (Some sched)"
  let ?outs = "job_outputs (action_results P w (timeout_secs (execution_policy t)) 0 (actions t))"
  obtain d1 where c: "create_run K (create_faults w) ?e0 d = (Inr (), d1)"
    and b: "job_body K P w t ?e0 d1 = (e, d', evs)"
    using dispatch_job_Inr [OF assms(1)] by blast
  let ?s = "run_actions K P w t ?e0 0 (actions t) (loop_start d1)"
  have ids: "execution_id ?e0 = execution_id e" "execution_task_id ?e0 = execution_task_id e"
    using job_body_execution [OF b] by simp_all
  have fresh: "execution_id ?e0 \<notin> run_id ` set (runs d)" "execution_id ?e0 \<in> run_id ` set (runs d1)"
    "outputs d1 = outputs d"
    using c by (auto simp: create_run_def split: sum.splits if_splits)
  have none: "run_outputs (execution_id ?e0) d1 = []"
    using db_okD(9) [OF assms(2)] fresh(1) unfolding run_outputs_def filter_empty_conv fresh(3) by metis
  have "outputs_inv (execution_id ?e0) [] (loop_db (loop_start d1))"
    using fresh(2) none by (simp add: outputs_inv_def loop_start_def)
  from run_actions_outputs [OF this assms(3), where K = K and P = P and t = t and i = 0 and as = "actions t"]
  have inv: "outputs_inv (execution_id e) ?outs (loop_db ?s)" by (simp add: ids)
  have "outputs d' = outputs (loop_db ?s)"
    using b by (auto simp: job_body_def Let_def update_run_def split: sum.splits)
  then have rows: "run_outputs (execution_id e) d' = run_outputs (execution_id e) (loop_db ?s)"
    by (simp add: run_outputs_def)
  have "sorted (map out_id (run_outputs (execution_id e) d'))"
    using inv by (auto simp: rows outputs_inv_def intro: sorted_wrt_mono_rel [of _ "(<)"])
  then have "sort_key out_id (run_outputs (execution_id e) d') = run_outputs (execution_id e) d'"
    by (rule sort_key_id_if_sorted)
  then have recs: "get_outputs no_faults (execution_id e) d' = Inr (map (\<lambda>r. \<lparr>stream = out_stream r,
      content = out_content r, created_at = out_created_at r\<rparr>) (run_outputs (execution_id e) d'))" (is "_ = Inr ?recs")
    by (simp add: get_outputs_def call_db_def no_faults_def run_outputs_def)
  have outs: "map (\<lambda>r. (stream r, content r)) ?recs = ?outs"
    using inv by (simp add: rows outputs_inv_def o_def)
  have ev: "output_event ?e0 = output_event e" "started_event ?e0 = started_event e"
    by (simp_all add: fun_eq_iff output_event_def started_event_def ids)
  have "loop_events ?s = map (\<lambda>(st, c). output_event e st c) (map (\<lambda>r. (stream r, content r)) ?recs)"
    unfolding outs using run_actions_events [of K P w t ?e0 0 "actions t" "loop_start d1"] ev
    by (simp add: loop_start_def)
  then have "loop_events ?s = map (\<lambda>r. output_event e (stream r) (content r)) ?recs" by (simp add: o_def)
  moreover obtain duration where "evs = started_event ?e0 # loop_events ?s @ [finished_event t e duration]"
    using b by (auto simp: job_body_def Let_def)
  ultimately have "evs = started_event e # map (\<lambda>r. output_event e (stream r) (content r)) ?recs
      @ [finished_event t e duration]" using ev(2) by simp
  with recs outs show ?thesis by blast
qed

lemma job_output_recorded_witness:
  "\<exists>e d' evs recs. dispatch_job text_codec unix_build demo_world job_task None 5 job_db = (Inr e, d', evs)
     \<and> get_outputs no_faults (execution_id e) d' = Inr recs
     \<and> map (\<lambda>r. (stream r, content r)) recs = [(''stdout'', ''done'')]"
proof -
  obtain e d' evs where r: "dispatch_job text_codec unix_build demo_world job_task None 5 job_db = (Inr e, d', evs)"
    using demo_dispatch by blast
  have "\<forall>j. output_faults demo_world j 0 = None" by (simp add: demo_world_def no_faults_def)
  from job_output_recorded [OF r job_db_ok this] r show ?thesis
    unfolding job_task_simps demo_results by (auto simp: job_outputs_def outputs_of_def)
qed

text \<open>A run whose first action cannot be started carries the initial exit code 0.\<close>

lemma unstarted_job_has_exit_code_zero:
  assumes "actions t = a # as" and "action_enabled a" and "\<not> cancelled_before (child_at w 0)"
    and "spawn_error (child_at w 0) = Some msg"
  shows "verdict (action_results P w (timeout_secs (execution_policy t)) 0 (actions t))
    = (Failed, Some 0, Some (''Process execution error: '' @ msg))"
  using assms by (simp add: run_action_def verdict_def succeeded_def)

section \<open>Output frames\<close>

lemma join_length: "x \<in> set xs \<Longrightarrow> length x \<le> length (join_with sep xs)"
proof (induction xs)
  case Nil
  then show ?case by simp
next
  case (Cons s xs)
  show ?case
  proof (cases xs)
    case Nil
    with Cons.prems show ?thesis by simp
  next
    case c: (Cons y ys)
    then have eq: "join_with sep (s # xs) = s @ sep @ join_with sep xs" by simp
    from Cons.prems consider "x = s" | "x \<in> set xs" by auto
    then show ?thesis
    proof cases
      case 1
      then show ?thesis unfolding eq by simp
    next
      case 2
      then show ?thesis unfolding eq using Cons.IH by simp
    qed
  qed
qed

lemma json_field_length:
  assumes "(k, v) \<in> set fs" shows "length (json_text v) \<le> length (json_text (JObj fs))"
proof -
  let ?f = "\<lambda>(k, v). quote_json k @ '':'' @ json_text v"
  have "?f (k, v) \<in> set (map ?f fs)" unfolding set_map by (rule imageI [OF assms])
  from join_length [OF this, of "'',''"] show ?thesis by simp
qed

lemma output_frame_length:
  "length (quote_json out) \<le> length (json_text (event_to_json (output_event e strm out)))"
proof -
  have "length (json_text (JStr out)) \<le> length (json_text (event_data (output_event e strm out)))"
    unfolding output_event_def event_new_def ipc_event.simps by (rule json_field_length [of "''content''"]) simp
  also have "\<dots> \<le> length (json_text (event_to_json (output_event e strm out)))"
    unfolding event_to_json_def by (rule json_field_length [of "''data''"]) simp
  finally show ?thesis by simp
qed

definition quotes_in_chunks :: "nat \<Rightarrow> nat \<Rightarrow> string list" where
  "quotes_in_chunks n k = replicate n (replicate k (CHR 0x22))"

lemma concat_quotes: "concat (quotes_in_chunks n k) = replicate (n * k) (CHR 0x22)"
  by (induction n) (simp_all add: quotes_in_chunks_def replicate_add)

lemma valid_quotes: "valid_utf8 (replicate n (CHR 0x22))"
  by (induction n) (simp_all add: utf8_step.simps utf8_width_def byte_def)

lemma collected_quotes:
  assumes "0 < k" and "n * k \<le> MAX_OUTPUT_BYTES"
  shows "collect_pipe_output P (Some Utf8) (Some (quotes_in_chunks n k)) = replicate (n * k) (CHR 0x22)"
proof -
  have "\<forall>c \<in> set (quotes_in_chunks n k). c \<noteq> []" using assms(1) by (auto simp: quotes_in_chunks_def)
  from read_loop_spec [OF this, of "[]"] assms(2)
  have "read_stream_capped (Some (quotes_in_chunks n k)) = replicate (n * k) (CHR 0x22)"
    by (simp add: read_stream_capped_def concat_quotes)
  then show ?thesis by (simp add: collect_pipe_output_def decode_utf8_def valid_quotes)
qed

text \<open>Output within the cap of 2 MiB can become an event frame longer than the 4 MiB line limit of the
  peer, whose reading side then fails: a child that writes 2 MiB of quotation marks is enough.\<close>

theorem capped_output_exceeds_the_frame:
  "length (concat (quotes_in_chunks 512 4096)) = MAX_OUTPUT_BYTES
    \<and> \<not> frame_fits (event_to_json (output_event e ''stdout''
          (collect_pipe_output P (Some Utf8) (Some (quotes_in_chunks 512 4096)))))"
proof -
  have n: "512 * 4096 = MAX_OUTPUT_BYTES" by (simp add: MAX_OUTPUT_BYTES_def)
  have "collect_pipe_output P (Some Utf8) (Some (quotes_in_chunks 512 4096)) = replicate MAX_OUTPUT_BYTES (CHR 0x22)"
    unfolding n [symmetric] by (rule collected_quotes) (simp_all add: MAX_OUTPUT_BYTES_def)
  moreover have "MAX_FRAME_LENGTH < length (quote_json (replicate MAX_OUTPUT_BYTES (CHR 0x22)))"
    unfolding length_escaped_quotes by (simp add: MAX_OUTPUT_BYTES_def MAX_FRAME_LENGTH_def)
  moreover have "length (concat (quotes_in_chunks 512 4096)) = MAX_OUTPUT_BYTES"
    unfolding concat_quotes length_replicate by (rule n)
  ultimately show ?thesis
    using output_frame_length [of "replicate MAX_OUTPUT_BYTES (CHR 0x22)" e "''stdout''"]
    by (simp add: frame_fits_def)
qed

section \<open>Retention\<close>

text \<open>The purge after a job removes a run exactly if it is a finished run of the job's task that started
  more than the task's retention ago (the system's, if the task follows it); with permanent retention
  nothing is removed.\<close>

theorem retention_purge_spares_the_rest:
  assumes "codec_ok K" and "trigger_log_retention_purge K E f g now t d = Ret d'" and "g 0 = None"
    and "\<forall>days. retention_days K f t d = Some days \<longrightarrow> db_time (now - uint days * day_ns)"
    and "r \<in> set (runs d)" and "run_started_at r = to_rfc3339 K u" and "db_time u"
  shows "r \<in> set (runs d') \<longleftrightarrow>
    (case retention_days K f t d of
       None \<Rightarrow> True
     | Some days \<Rightarrow> \<not> (run_task_id r = task_id t \<and> u < now - uint days * day_ns
                        \<and> run_status r \<noteq> status_json Running))"
proof (cases "retention_days K f t d")
  case None
  with assms show ?thesis by (simp add: trigger_log_retention_purge_def)
next
  case (Some days)
  let ?before = "now - uint days * day_ns"
  have d': "d' = snd (purge_expired_runs K g (task_id t) ?before d)"
    using assms(2) Some by (auto simp: trigger_log_retention_purge_def outcome_simps dt_add_def split: if_splits)
  obtain n where "purge_expired_runs K g (task_id t) ?before d = (Inr n, d')"
    using d' assms(3) by (simp add: purge_expired_runs_def call_db_def)
  from purge_exact [OF assms(1) this assms(5,6,7)] assms(4) Some show ?thesis by simp
qed

definition week_task :: task where
  "week_task = small_task\<lparr>execution_policy := default_execution_policy\<lparr>log_retention := KeepDays 7\<rparr>\<rparr>"

definition wide_env :: chrono_env where
  "wide_env = \<lparr>env_tz = (\<lambda>_. None), env_cron = (\<lambda>_. None), dt_min = - 1000000 * day_ns,
     dt_max = 1000000 * day_ns, date_max = 1000000\<rparr>"

lemma retention_purge_spares_the_rest_witness:
  "\<exists>d' :: db. trigger_log_retention_purge text_codec wide_env no_faults no_faults (9 * day_ns) week_task
        (demo_db\<lparr>runs := [demo_run\<lparr>run_status := status_json Failed, run_started_at := to_rfc3339 text_codec 0\<rparr>]\<rparr>) = Ret d'
     \<and> runs d' = []"
proof -
  let ?r = "demo_run\<lparr>run_status := status_json Failed, run_started_at := to_rfc3339 text_codec 0\<rparr>"
  let ?d = "demo_db\<lparr>runs := [?r]\<rparr>"
  have days: "retention_days text_codec no_faults week_task ?d = Some 7"
    by (simp add: retention_days_def week_task_def small_task_def)
  obtain d' where p: "trigger_log_retention_purge text_codec wide_env no_faults no_faults (9 * day_ns) week_task ?d = Ret d'"
    by (simp add: trigger_log_retention_purge_def days dt_add_def in_range_def wide_env_def unit_defs)
  have ok: "no_faults 0 = None" "db_time 0" "?r \<in> set (runs ?d)" "run_started_at ?r = to_rfc3339 text_codec 0"
    "\<forall>n. retention_days text_codec no_faults week_task ?d = Some n \<longrightarrow> db_time (9 * day_ns - uint n * day_ns)"
    using days by (auto simp: no_faults_def db_time_def unit_defs)
  have r: "run_task_id ?r = task_id week_task" "run_status ?r \<noteq> status_json Running"
    by (simp_all add: demo_run_def week_task_def small_task_def status_json_inj)
  have "?r \<notin> set (runs d')"
    using retention_purge_spares_the_rest [OF text_codec_ok p ok(1,5,3,4,2)] r
    unfolding days by (simp add: unit_defs)
  moreover have "set (runs d') \<subseteq> set (runs ?d)"
    using p by (auto simp: trigger_log_retention_purge_def days dt_add_def outcome_simps purge_expired_runs_def
        cascade_runs_def Let_def split: if_splits sum.splits)
  ultimately have "runs d' = []" by (cases "runs d'") auto
  with p show ?thesis by blast
qed

text \<open>A retention that reaches before the first representable date makes the purge panic: nothing is
  ever removed.\<close>

lemma huge_retention_never_purges:
  assumes "retention_days K f t d = Some days" and "now - uint days * day_ns < dt_min E"
  shows "trigger_log_retention_purge K E f g now t d = Panic"
  using assms by (simp add: trigger_log_retention_purge_def dt_add_def in_range_def)

end
