(* ===== verification/Agent.thy ===== *)
theory Agent
  imports Job_Run Scheduler Exec_Manager
begin

text \<open>
  The requests the agent answers (\<open>AgentRpcHandler::handle_request\<close> of \<^verbatim>\<open>apps/agent/src/service.rs\<close>) and
  the events its dispatcher takes from the scheduler, as functions of the agent's shared state: store,
  execution manager, active executions, and what was sent to the scheduler, to the IPC clients and to
  spawned jobs.
\<close>

section \<open>Parameters\<close>

text \<open>serde's conversions of the domain types and its texts for times and identifiers.\<close>

record serde =
  uuid_of_json :: "json \<Rightarrow> string + nat"
  task_of_json :: "json \<Rightarrow> string + task"
  task_value :: "task \<Rightarrow> string + json"
  settings_of_json :: "json \<Rightarrow> string + system_settings"
  settings_value :: "system_settings \<Rightarrow> string + json"
  time_value :: "instant \<Rightarrow> json"

text \<open>
  What one request meets: the faults of its repository calls, its clock readings and fresh identifier,
  the scheduler's queue when it is read, whether the scheduler's channel is open, and the scheduler's
  answer to a reroll (\<open>None\<close> when the reply is dropped).
\<close>

record request_world =
  db_faults :: "nat \<Rightarrow> faults"
  now_at :: "nat \<Rightarrow> instant"
  new_execution_id :: execution_id
  package_version :: string
  elapsed_secs :: nat
  queue_now :: schedule_queue
  scheduler_open :: bool
  reroll_answer :: "reroll_reply option"

section \<open>State\<close>

datatype spawned =
    ScheduledJob task trigger_event
  | ManualJob task execution

record agent =
  agent_db :: db
  agent_manager :: exec_manager
  agent_active :: "(execution_id \<times> bool) list"
  agent_commands :: "sched_command list"
  agent_events :: "ipc_event list"
  agent_jobs :: "spawned list"
  shutdown_notified :: bool

definition initial_agent :: "db \<Rightarrow> nat \<Rightarrow> agent" where
  "initial_agent d max_concurrent =
     \<lparr>agent_db = d, agent_manager = new_manager max_concurrent, agent_active = [], agent_commands = [],
      agent_events = [], agent_jobs = [], shutdown_notified = False\<rparr>"

text \<open>\<open>scheduler_tx.send\<close>; the result is ignored except by \<open>trigger.reroll\<close>.\<close>

definition send_command :: "request_world \<Rightarrow> sched_command \<Rightarrow> agent \<Rightarrow> agent" where
  "send_command W c s = (if scheduler_open W then s\<lparr>agent_commands := agent_commands s @ [c]\<rparr> else s)"

section \<open>Values\<close>

definition trigger_id_json :: "trigger_id \<Rightarrow> json" where
  "trigger_id_json t = JStr (uuid_string (trigger_uuid t))"

definition execution_json :: "serde \<Rightarrow> execution \<Rightarrow> json" where
  "execution_json S e =
     JObj [(''id'', execution_id_json (execution_id e)), (''task_id'', task_id_json (execution_task_id e)),
           (''trigger_id'', opt_json trigger_id_json (execution_trigger_id e)),
           (''status'', JStr (status_name (status e))),
           (''scheduled_at'', opt_json (time_value S) (scheduled_at e)),
           (''started_at'', time_value S (started_at e)),
           (''finished_at'', opt_json (time_value S) (finished_at e)),
           (''duration_ms'', opt_json (\<lambda>n. JInt (uint n)) (duration_ms e)),
           (''exit_code'', opt_json JInt (exit_code e)),
           (''error_message'', opt_json JStr (error_message e))]"

definition output_record_json :: "output_record \<Rightarrow> json" where
  "output_record_json r =
     JObj [(''stream'', JStr (stream r)), (''content'', JStr (content r)), (''created_at'', JStr (created_at r))]"

record trigger_overview =
  overview_trigger_id :: trigger_id
  next_fire :: "instant option"

record last_run_overview =
  last_status :: execution_status
  last_started_at :: instant
  last_finished_at :: "instant option"
  last_duration_ms :: "u64 option"
  last_exit_code :: "int option"
  last_error_message :: "string option"

record task_overview_entry =
  overview_task_id :: task_id
  overview_triggers :: "trigger_overview list"
  last_run :: "last_run_overview option"

definition trigger_overview_json :: "serde \<Rightarrow> trigger_overview \<Rightarrow> json" where
  "trigger_overview_json S t =
     JObj [(''trigger_id'', trigger_id_json (overview_trigger_id t)),
           (''next_fire_at'', opt_json (time_value S) (next_fire t))]"

definition last_run_json :: "serde \<Rightarrow> last_run_overview \<Rightarrow> json" where
  "last_run_json S r =
     JObj [(''status'', JStr (status_name (last_status r))), (''started_at'', time_value S (last_started_at r)),
           (''finished_at'', opt_json (time_value S) (last_finished_at r)),
           (''duration_ms'', opt_json (\<lambda>n. JInt (uint n)) (last_duration_ms r)),
           (''exit_code'', opt_json JInt (last_exit_code r)),
           (''error_message'', opt_json JStr (last_error_message r))]"

definition overview_entry_json :: "serde \<Rightarrow> task_overview_entry \<Rightarrow> json" where
  "overview_entry_json S e =
     JObj [(''task_id'', task_id_json (overview_task_id e)),
           (''triggers'', JArr (map (trigger_overview_json S) (overview_triggers e))),
           (''last_run'', opt_json (last_run_json S) (last_run e))]"

section \<open>Parameters of a request\<close>

text \<open>The named field of an object that has it, otherwise the whole parameter value.\<close>

definition pick_param :: "string \<Rightarrow> json \<Rightarrow> json" where
  "pick_param k params =
     (if is_object params \<and> json_get k params \<noteq> None
      then (case json_get k params of Some v \<Rightarrow> v | None \<Rightarrow> JNull)
      else params)"

definition pick_execution_param :: "json \<Rightarrow> json" where
  "pick_execution_param params =
     (if is_object params \<and> json_get ''id'' params \<noteq> None then pick_param ''id'' params
      else pick_param ''execution_id'' params)"

text \<open>\<open>as_u64().unwrap_or(50) as u32\<close>\<close>

definition list_limit :: "json \<Rightarrow> u32" where
  "list_limit params =
     (let limit_of = (\<lambda>v. ucast (case as_u64 v of Some n \<Rightarrow> n | None \<Rightarrow> 50) :: u32)
      in if is_object params \<and> json_get ''limit'' params \<noteq> None
         then limit_of (pick_param ''limit'' params)
         else if is_number params then limit_of params
         else 50)"

definition task_id_param :: "serde \<Rightarrow> json \<Rightarrow> string + task_id" where
  "task_id_param S v =
     (case uuid_of_json S v of Inr n \<Rightarrow> Inr (TaskId n)
      | Inl e \<Rightarrow> Inl (''Invalid task id parameter: '' @ e))"

definition execution_id_param :: "serde \<Rightarrow> json \<Rightarrow> string + execution_id" where
  "execution_id_param S v =
     (case uuid_of_json S v of Inr n \<Rightarrow> Inr (ExecutionId n)
      | Inl e \<Rightarrow> Inl (''Invalid execution id parameter: '' @ e))"

definition answer :: "ipc_request \<Rightarrow> string + json \<Rightarrow> ipc_response" where
  "answer req r = (case r of Inr v \<Rightarrow> response_success (request_id req) v
                           | Inl msg \<Rightarrow> response_failure (request_id req) msg)"

text \<open>A repository error as its text.\<close>

definition told :: "error + 'a \<Rightarrow> string + 'a" where
  "told r = (case r of Inr x \<Rightarrow> Inr x | Inl e \<Rightarrow> Inl (error_to_string e))"

definition task_not_found :: "task_id \<Rightarrow> string" where
  "task_not_found t = ''Task '' @ quoted (uuid_string (task_uuid t)) @ '' not found''"

fun collect_values :: "('a \<Rightarrow> string + json) \<Rightarrow> 'a list \<Rightarrow> string + json" where
  "collect_values f xs = rbind (rmap_list f xs) (\<lambda>vs. Inr (JArr vs))"

section \<open>Status and settings\<close>

definition handle_status ::
  "codec \<Rightarrow> serde \<Rightarrow> request_world \<Rightarrow> ipc_request \<Rightarrow> agent \<Rightarrow> ipc_response \<times> agent" where
  "handle_status K S W req s =
     (let enabled = (case find_all_enabled K (db_faults W) (now_at W 0) (agent_db s) of
                       Inr ts \<Rightarrow> ts | Inl _ \<Rightarrow> []);
          st = \<lparr>agent_version = package_version W, uptime_secs = elapsed_secs W,
                active_tasks = length enabled,
                running_executions = total_running_count (agent_manager s)\<rparr>
      in (answer req (Inr (agent_status_json st)), s))"

definition handle_shutdown :: "ipc_request \<Rightarrow> agent \<Rightarrow> ipc_response \<times> agent" where
  "handle_shutdown req s = (answer req (Inr (JBool True)), s\<lparr>shutdown_notified := True\<rparr>)"

definition handle_settings_get ::
  "codec \<Rightarrow> serde \<Rightarrow> request_world \<Rightarrow> ipc_request \<Rightarrow> agent \<Rightarrow> ipc_response \<times> agent" where
  "handle_settings_get K S W req s =
     (answer req (rbind (told (get_system_settings K (db_faults W 0) (agent_db s))) (settings_value S)), s)"

definition handle_settings_set ::
  "codec \<Rightarrow> serde \<Rightarrow> request_world \<Rightarrow> ipc_request \<Rightarrow> agent \<Rightarrow> ipc_response \<times> agent" where
  "handle_settings_set K S W req s =
     (case settings_of_json S (pick_param ''settings'' (request_params req)) of
        Inl e \<Rightarrow> (answer req (Inl (''Invalid settings parameter: '' @ e)), s)
      | Inr settings \<Rightarrow>
          (case save_system_settings K (db_faults W 0) (now_at W 0) settings (agent_db s) of
             (Inr _, d) \<Rightarrow> (answer req (settings_value S settings), s\<lparr>agent_db := d\<rparr>)
           | (Inl e, d) \<Rightarrow> (answer req (Inl (error_to_string e)), s\<lparr>agent_db := d\<rparr>)))"

section \<open>Tasks\<close>

definition handle_task_list ::
  "codec \<Rightarrow> serde \<Rightarrow> request_world \<Rightarrow> ipc_request \<Rightarrow> agent \<Rightarrow> ipc_response \<times> agent" where
  "handle_task_list K S W req s =
     (answer req (rbind (told (find_all_tasks K (db_faults W) (now_at W 0) (agent_db s)))
        (collect_values (task_value S))), s)"

definition handle_task_get ::
  "codec \<Rightarrow> serde \<Rightarrow> request_world \<Rightarrow> ipc_request \<Rightarrow> agent \<Rightarrow> ipc_response \<times> agent" where
  "handle_task_get K S W req s =
     (answer req
        (rbind (task_id_param S (pick_param ''id'' (request_params req))) (\<lambda>t.
         rbind (told (find_task_by_id K (db_faults W 0) (now_at W 0) t (agent_db s))) (\<lambda>found.
         case found of
           Some task \<Rightarrow> task_value S task
         | None \<Rightarrow> Inl (task_not_found t)))), s)"

text \<open>
  \<open>task.save\<close> in its two atomic steps, between which other requests run: the store, then the command.
  Invalid cron expressions are only logged.
\<close>

definition save_in_store ::
  "codec \<Rightarrow> serde \<Rightarrow> request_world \<Rightarrow> ipc_request \<Rightarrow> agent \<Rightarrow> (string + task) \<times> agent" where
  "save_in_store K S W req s =
     (case task_of_json S (pick_param ''task'' (request_params req)) of
        Inl e \<Rightarrow> (Inl (''Invalid task parameter: '' @ e), s)
      | Inr task \<Rightarrow>
          (case save_task K (db_faults W 0) task (agent_db s) of
             (Inr _, d) \<Rightarrow> (Inr task, s\<lparr>agent_db := d\<rparr>)
           | (Inl e, d) \<Rightarrow> (Inl (error_to_string e), s\<lparr>agent_db := d\<rparr>)))"

definition send_saved ::
  "serde \<Rightarrow> request_world \<Rightarrow> ipc_request \<Rightarrow> string + task \<Rightarrow> agent \<Rightarrow> ipc_response \<times> agent" where
  "send_saved S W req saved s =
     (case saved of
        Inl e \<Rightarrow> (answer req (Inl e), s)
      | Inr task \<Rightarrow> (answer req (task_value S task), send_command W (AddTask task) s))"

definition handle_task_save ::
  "codec \<Rightarrow> serde \<Rightarrow> request_world \<Rightarrow> ipc_request \<Rightarrow> agent \<Rightarrow> ipc_response \<times> agent" where
  "handle_task_save K S W req s =
     (case save_in_store K S W req s of (saved, s) \<Rightarrow> send_saved S W req saved s)"

definition handle_task_delete ::
  "codec \<Rightarrow> serde \<Rightarrow> request_world \<Rightarrow> ipc_request \<Rightarrow> agent \<Rightarrow> ipc_response \<times> agent" where
  "handle_task_delete K S W req s =
     (case task_id_param S (pick_param ''id'' (request_params req)) of
        Inl e \<Rightarrow> (answer req (Inl e), s)
      | Inr t \<Rightarrow>
          (case delete_task (db_faults W 0) t (agent_db s) of
             (Inr _, d) \<Rightarrow>
               (answer req (Inr (JBool True)), send_command W (RemoveTask t) (s\<lparr>agent_db := d\<rparr>))
           | (Inl e, d) \<Rightarrow> (answer req (Inl (error_to_string e)), s\<lparr>agent_db := d\<rparr>)))"

text \<open>The execution record of a manual run: no trigger, scheduled now.\<close>

definition manual_run :: "request_world \<Rightarrow> task \<Rightarrow> execution" where
  "manual_run W t =
     (new_execution (new_execution_id W) (now_at W 2) (task_id t) None (Some (now_at W 1)))
       \<lparr>status := Running, started_at := now_at W 3\<rparr>"

definition handle_task_trigger_now ::
  "codec \<Rightarrow> serde \<Rightarrow> request_world \<Rightarrow> ipc_request \<Rightarrow> agent \<Rightarrow> ipc_response \<times> agent" where
  "handle_task_trigger_now K S W req s =
     (case task_id_param S (pick_param ''id'' (request_params req)) of
        Inl e \<Rightarrow> (answer req (Inl e), s)
      | Inr t \<Rightarrow>
          (case find_task_by_id K (db_faults W 0) (now_at W 0) t (agent_db s) of
             Inl e \<Rightarrow> (answer req (Inl (error_to_string e)), s)
           | Inr None \<Rightarrow> (answer req (Inl (task_not_found t)), s)
           | Inr (Some task) \<Rightarrow>
               (case try_acquire_owned (agent_manager s) of
                  (False, _) \<Rightarrow>
                    (answer req (Inl (''Global concurrency limit reached, cannot trigger task ''
                       @ quoted (uuid_string (task_uuid t)))), s)
                | (True, m) \<Rightarrow>
                    (case try_acquire_slot (task_id task) (concurrency_policy (execution_policy task)) m of
                       (False, m) \<Rightarrow>
                         (answer req (Inl (''Task '' @ quoted (uuid_string (task_uuid t))
                            @ '' concurrency policy prevented execution (already running)'')),
                          s\<lparr>agent_manager := drop_permit m\<rparr>)
                     | (True, m) \<Rightarrow>
                         let e = manual_run W task
                         in (case create_run K (db_faults W 1) e (agent_db s) of
                               (Inl err, d) \<Rightarrow>
                                 (answer req (Inl (''Failed to create execution record: '' @ error_to_string err)),
                                  s\<lparr>agent_db := d,
                                    agent_manager := drop_permit (release_slot (task_id task) m)\<rparr>)
                             | (Inr _, d) \<Rightarrow>
                                 (answer req (Inr (execution_json S e)),
                                  s\<lparr>agent_db := d, agent_manager := m,
                                    agent_active := AList.update (execution_id e) False (agent_active s),
                                    agent_events := agent_events s @ [started_event e],
                                    agent_jobs := agent_jobs s @ [ManualJob task e]\<rparr>))))))"

definition overview_entry ::
  "timetable \<Rightarrow> (task_id \<rightharpoonup> execution) \<Rightarrow> task \<Rightarrow> task_overview_entry" where
  "overview_entry next_by_trigger latest t =
     \<lparr>overview_task_id = task_id t,
      overview_triggers = map (\<lambda>tr. \<lparr>overview_trigger_id = trigger_id tr,
        next_fire = next_by_trigger (task_id t, trigger_id tr)\<rparr>) (triggers t),
      last_run = map_option (\<lambda>e. \<lparr>last_status = status e, last_started_at = started_at e,
        last_finished_at = finished_at e, last_duration_ms = duration_ms e,
        last_exit_code = exit_code e, last_error_message = error_message e\<rparr>) (latest (task_id t))\<rparr>"

definition handle_task_overview ::
  "codec \<Rightarrow> serde \<Rightarrow> request_world \<Rightarrow> ipc_request \<Rightarrow> agent \<Rightarrow> ipc_response \<times> agent" where
  "handle_task_overview K S W req s =
     (answer req
        (rbind (told (find_all_tasks K (db_faults W) (now_at W 0) (agent_db s))) (\<lambda>ts.
         rbind (told (find_latest_run_per_task K (db_faults W (Suc (length ts))) (now_at W 1)
                  (map task_id ts) (agent_db s))) (\<lambda>latest.
         Inr (JArr (map (\<lambda>t. overview_entry_json S
           (overview_entry (next_fire_by_trigger (queue_now W)) latest t)) ts))))), s)"

section \<open>Executions\<close>

definition handle_execution_list ::
  "codec \<Rightarrow> serde \<Rightarrow> request_world \<Rightarrow> ipc_request \<Rightarrow> agent \<Rightarrow> ipc_response \<times> agent" where
  "handle_execution_list K S W req s =
     (answer req
        (rbind (told (find_recent_runs K (db_faults W 0) (now_at W 0)
                  (list_limit (request_params req)) (agent_db s))) (\<lambda>runs.
         Inr (JArr (map (execution_json S) runs)))), s)"

definition handle_execution_get ::
  "codec \<Rightarrow> serde \<Rightarrow> request_world \<Rightarrow> ipc_request \<Rightarrow> agent \<Rightarrow> ipc_response \<times> agent" where
  "handle_execution_get K S W req s =
     (answer req
        (rbind (execution_id_param S (pick_param ''id'' (request_params req))) (\<lambda>e.
         rbind (told (find_run_by_id K (db_faults W 0) (now_at W 0) e (agent_db s))) (\<lambda>found.
         case found of
           Some run \<Rightarrow> Inr (execution_json S run)
         | None \<Rightarrow> Inl (''Execution '' @ quoted (uuid_string (execution_uuid e)) @ '' not found'')))), s)"

definition handle_execution_get_output ::
  "codec \<Rightarrow> serde \<Rightarrow> request_world \<Rightarrow> ipc_request \<Rightarrow> agent \<Rightarrow> ipc_response \<times> agent" where
  "handle_execution_get_output K S W req s =
     (answer req
        (rbind (execution_id_param S (pick_execution_param (request_params req))) (\<lambda>e.
         rbind (told (get_outputs (db_faults W 0) e (agent_db s))) (\<lambda>records.
         Inr (JArr (map output_record_json records))))), s)"

definition handle_execution_cancel ::
  "serde \<Rightarrow> ipc_request \<Rightarrow> agent \<Rightarrow> ipc_response \<times> agent" where
  "handle_execution_cancel S req s =
     (case execution_id_param S (pick_param ''id'' (request_params req)) of
        Inl e \<Rightarrow> (answer req (Inl e), s)
      | Inr i \<Rightarrow>
          (case map_of (agent_active s) i of
             Some _ \<Rightarrow>
               (answer req (Inr (JBool True)), s\<lparr>agent_active := AList.update i True (agent_active s)\<rparr>)
           | None \<Rightarrow>
               (answer req (Inl (''Execution '' @ quoted (uuid_string (execution_uuid i))
                  @ '' is not actively running'')), s)))"

section \<open>Rerolling\<close>

definition param_or_null :: "string \<Rightarrow> json \<Rightarrow> json" where
  "param_or_null k params = (case json_get k params of Some v \<Rightarrow> v | None \<Rightarrow> JNull)"

definition handle_trigger_reroll ::
  "serde \<Rightarrow> request_world \<Rightarrow> ipc_request \<Rightarrow> agent \<Rightarrow> ipc_response \<times> agent" where
  "handle_trigger_reroll S W req s =
     (case uuid_of_json S (param_or_null ''task_id'' (request_params req)) of
        Inl e \<Rightarrow> (answer req (Inl (''Invalid task_id parameter: '' @ e)), s)
      | Inr t \<Rightarrow>
          (case uuid_of_json S (param_or_null ''trigger_id'' (request_params req)) of
             Inl e \<Rightarrow> (answer req (Inl (''Invalid trigger_id parameter: '' @ e)), s)
           | Inr tr \<Rightarrow>
               if \<not> scheduler_open W then (answer req (Inl ''Scheduler is not running''), s)
               else
                 (case reroll_answer W of
                    Some (Inr at) \<Rightarrow>
                      (answer req (Inr (JObj [(''next_fire_at'', opt_json (time_value S) at)])),
                       send_command W (RerollTrigger (TaskId t) (TriggerId tr)) s)
                  | Some (Inl message) \<Rightarrow>
                      (answer req (Inl message), send_command W (RerollTrigger (TaskId t) (TriggerId tr)) s)
                  | None \<Rightarrow>
                      (answer req (Inl ''Scheduler dropped the reroll request''),
                       send_command W (RerollTrigger (TaskId t) (TriggerId tr)) s))))"

section \<open>Dispatch\<close>

definition handle_request ::
  "codec \<Rightarrow> serde \<Rightarrow> request_world \<Rightarrow> ipc_request \<Rightarrow> agent \<Rightarrow> ipc_response \<times> agent" where
  "handle_request K S W req s =
     (let m = request_method req
      in if m = ''agent.status'' then handle_status K S W req s
         else if m = ''agent.shutdown'' then handle_shutdown req s
         else if m = ''settings.get'' then handle_settings_get K S W req s
         else if m = ''settings.set'' then handle_settings_set K S W req s
         else if m = ''task.list'' then handle_task_list K S W req s
         else if m = ''task.get'' then handle_task_get K S W req s
         else if m = ''task.save'' then handle_task_save K S W req s
         else if m = ''task.delete'' then handle_task_delete K S W req s
         else if m = ''task.trigger_now'' then handle_task_trigger_now K S W req s
         else if m = ''task.overview'' then handle_task_overview K S W req s
         else if m = ''execution.list'' then handle_execution_list K S W req s
         else if m = ''execution.get'' then handle_execution_get K S W req s
         else if m = ''execution.get_output'' then handle_execution_get_output K S W req s
         else if m = ''execution.cancel'' then handle_execution_cancel S req s
         else if m = ''trigger.reroll'' then handle_trigger_reroll S W req s
         else (answer req (Inl (''Method '' @ quoted m @ '' not found'')), s))"

text \<open>The dispatcher takes one event of the scheduler: a task that is gone, a full semaphore and a policy that
  refuses all skip it silently.\<close>

definition dispatch_event ::
  "codec \<Rightarrow> request_world \<Rightarrow> trigger_event \<Rightarrow> agent \<Rightarrow> agent" where
  "dispatch_event K W ev s =
     (case find_task_by_id K (db_faults W 0) (now_at W 0) (ev_task_id ev) (agent_db s) of
        Inr (Some task) \<Rightarrow>
          (case try_acquire_owned (agent_manager s) of
             (False, _) \<Rightarrow> s
           | (True, m) \<Rightarrow>
               (case try_acquire_slot (task_id task) (concurrency_policy (execution_policy task)) m of
                  (False, m) \<Rightarrow> s\<lparr>agent_manager := drop_permit m\<rparr>
                | (True, m) \<Rightarrow>
                    s\<lparr>agent_manager := m, agent_jobs := agent_jobs s @ [ScheduledJob task ev]\<rparr>))
      | _ \<Rightarrow> s)"

end
