(* ===== verification/Agent_Props.thy ===== *)
theory Agent_Props
  imports Agent Job_Run_Props Scheduler_Props
begin

text \<open>
  What requests do to the agent: an answer carries its request's id, an error changes nothing, a saved task
  reaches the scheduler as it is stored, a manual run is recorded before it starts; and the race of two
  concurrent saves.
\<close>

section \<open>Answers\<close>

lemma answer_simps [simp]:
  "response_id (answer req r) = request_id req"
  "response_ok (answer req r) \<longleftrightarrow> (\<exists>v. r = Inr v)"
  "response_data (answer req r) = (case r of Inr v \<Rightarrow> Some v | Inl _ \<Rightarrow> None)"
  by (auto simp: answer_def response_success_def response_failure_def split: sum.splits)

text \<open>Everything a client or another component can tell apart.\<close>

definition unchanged :: "agent \<Rightarrow> agent \<Rightarrow> bool" where
  "unchanged s s' \<longleftrightarrow> agent_db s' = agent_db s \<and> agent_active s' = agent_active s
     \<and> agent_commands s' = agent_commands s \<and> agent_events s' = agent_events s
     \<and> agent_jobs s' = agent_jobs s \<and> shutdown_notified s' = shutdown_notified s
     \<and> global_limiter (agent_manager s') = global_limiter (agent_manager s)
     \<and> (\<forall>t. running_count (agent_manager s') t = running_count (agent_manager s) t)"

lemma unchanged_refl [simp]: "unchanged s s"
  by (simp add: unchanged_def)

lemma save_task_Inl: "save_task K f t d = (Inl e, d') \<Longrightarrow> d' = d"
  by (auto simp: save_task_def split: sum.splits)

lemma delete_task_Inl: "delete_task f t d = (Inl e, d') \<Longrightarrow> d' = d"
  by (auto simp: delete_task_def split: sum.splits)

lemma create_run_Inl: "create_run K f e d = (Inl err, d') \<Longrightarrow> d' = d"
  by (auto simp: create_run_def split: sum.splits if_splits)

lemma save_settings_Inl: "save_system_settings K f now x d = (Inl e, d') \<Longrightarrow> d' = d"
  by (auto simp: save_system_settings_def Let_def split: sum.splits)

lemmas store_errors = save_task_Inl delete_task_Inl create_run_Inl save_settings_Inl

definition serde_total :: "serde \<Rightarrow> bool" where
  "serde_total S \<longleftrightarrow> (\<forall>t. \<exists>v. task_value S t = Inr v) \<and> (\<forall>x. \<exists>v. settings_value S x = Inr v)"

lemma settings_set_error:
  assumes "handle_settings_set K S W req s = (r, s')" and "\<not> response_ok r" and "serde_total S"
  shows "unchanged s s'"
  using assms unfolding handle_settings_set_def serde_total_def
  by (fastforce dest: store_errors split: sum.splits prod.splits)

lemma task_save_error:
  assumes "handle_task_save K S W req s = (r, s')" and "\<not> response_ok r" and "serde_total S"
  shows "unchanged s s'"
  using assms unfolding handle_task_save_def save_in_store_def send_saved_def serde_total_def
  by (fastforce dest: store_errors split: sum.splits prod.splits)

lemma task_delete_error:
  assumes "handle_task_delete K S W req s = (r, s')" and "\<not> response_ok r"
  shows "unchanged s s'"
  using assms unfolding handle_task_delete_def
  by (fastforce dest: store_errors split: sum.splits prod.splits)

lemma permit_back:
  assumes "try_acquire_owned m = (True, m1)"
  shows "count_of m1 t = count_of m t" and "global_limiter (drop_permit m1) = global_limiter m"
  using assms by (auto simp: try_acquire_owned_def count_of_def drop_permit_def split: if_splits)

lemma drop_permit_count [simp]: "count_of (drop_permit m) t = count_of m t"
  by (simp add: drop_permit_def count_of_def)

lemma drop_permit_limiter [simp]: "global_limiter (drop_permit m) = global_limiter m + 1"
  by (simp add: drop_permit_def)

lemma slot_refused:
  assumes "try_acquire_slot t p m = (False, m')"
  shows "count_of m' u = count_of m u" and "global_limiter m' = global_limiter m"
  using acquire_spec [of t p m] assms by auto

lemma slot_taken:
  assumes "try_acquire_slot t p m = (True, m')"
  shows "count_of m' u = (if u = t then count_of m t + 1 else count_of m u)" and "global_limiter m' = global_limiter m"
  using acquire_spec [of t p m] assms by auto

lemma permit_taken:
  assumes "try_acquire_owned m = (True, m')"
  shows "count_of m' u = count_of m u" and "global_limiter m = global_limiter m' + 1"
  using assms by (auto simp: try_acquire_owned_def count_of_def split: if_splits)

lemma trigger_now_cases:
  assumes "handle_task_trigger_now K S W req s = (r, s')"
  obtains (failed) "\<not> response_ok r" and "unchanged s s'"
  | (started) t task m m' d where
      "task_id_param S (pick_param ''id'' (request_params req)) = Inr t"
      "find_task_by_id K (db_faults W 0) (now_at W 0) t (agent_db s) = Inr (Some task)"
      "try_acquire_owned (agent_manager s) = (True, m)"
      "try_acquire_slot (task_id task) (concurrency_policy (execution_policy task)) m = (True, m')"
      "create_run K (db_faults W 1) (manual_run W task) (agent_db s) = (Inr (), d)"
      "r = answer req (Inr (execution_json S (manual_run W task)))"
      "s' = s\<lparr>agent_db := d, agent_manager := m',
          agent_active := AList.update (execution_id (manual_run W task)) False (agent_active s),
          agent_events := agent_events s @ [started_event (manual_run W task)],
          agent_jobs := agent_jobs s @ [ManualJob task (manual_run W task)]\<rparr>"
proof (cases "task_id_param S (pick_param ''id'' (request_params req))")
  case (Inl e)
  with assms show ?thesis by (intro failed) (auto simp: handle_task_trigger_now_def)
next
  case id: (Inr t)
  show ?thesis
  proof (cases "find_task_by_id K (db_faults W 0) (now_at W 0) t (agent_db s)")
    case (Inl e)
    with assms id show ?thesis by (intro failed) (auto simp: handle_task_trigger_now_def)
  next
    case found: (Inr x)
    show ?thesis
    proof (cases x)
      case None
      with assms id found show ?thesis by (intro failed) (auto simp: handle_task_trigger_now_def)
    next
      case task: (Some task)
      obtain b m where owned: "try_acquire_owned (agent_manager s) = (b, m)" by fastforce
      show ?thesis
      proof (cases b)
        case False
        with assms id found task owned show ?thesis by (intro failed) (auto simp: handle_task_trigger_now_def)
      next
        case True
        have owned: "try_acquire_owned (agent_manager s) = (True, m)" using owned True by simp
        obtain a m' where slot: "try_acquire_slot (task_id task) (concurrency_policy (execution_policy task)) m = (a, m')"
          by fastforce
        show ?thesis
        proof (cases a)
          case False
          have slot: "try_acquire_slot (task_id task) (concurrency_policy (execution_policy task)) m = (False, m')"
            using slot False by simp
          with assms id found task owned slot show ?thesis
            by (intro failed)
               (auto simp: handle_task_trigger_now_def unchanged_def running_count_def
                  slot_refused [OF slot] permit_taken [OF owned])
        next
          case True
          have slot: "try_acquire_slot (task_id task) (concurrency_policy (execution_policy task)) m = (True, m')"
            using slot True by simp
          obtain c d where run: "create_run K (db_faults W 1) (manual_run W task) (agent_db s) = (c, d)" by fastforce
          show ?thesis
          proof (cases c)
            case (Inl err)
            note run = run [unfolded Inl]
            have "s' = s\<lparr>agent_db := d, agent_manager := drop_permit (release_slot (task_id task) m')\<rparr>"
              and "\<not> response_ok r"
              using assms id found task owned slot run by (auto simp: handle_task_trigger_now_def Let_def)
            then show ?thesis
              using create_run_Inl [OF run] slot_taken [OF slot] permit_taken [OF owned]
              by (intro failed) (auto simp: unchanged_def running_count_def release_spec)
          next
            case (Inr u)
            with assms id found task owned slot run show ?thesis
              by (intro started [of t task m m' d]) (auto simp: handle_task_trigger_now_def Let_def)
          qed
        qed
      qed
    qed
  qed
qed

lemma execution_cancel_error:
  assumes "handle_execution_cancel S req s = (r, s')" and "\<not> response_ok r"
  shows "unchanged s s'"
  using assms by (auto simp: handle_execution_cancel_def split: sum.splits option.splits)

lemma trigger_now_error:
  assumes "handle_task_trigger_now K S W req s = (r, s')" and "\<not> response_ok r"
  shows "unchanged s s'"
  using assms(1)
proof (cases rule: trigger_now_cases)
  case failed
  then show ?thesis by simp
next
  case started
  with assms(2) show ?thesis by simp
qed

lemma read_handlers:
  "snd (handle_status K S W req s) = s"
  "snd (handle_settings_get K S W req s) = s"
  "snd (handle_task_list K S W req s) = s"
  "snd (handle_task_get K S W req s) = s"
  "snd (handle_task_overview K S W req s) = s"
  "snd (handle_execution_list K S W req s) = s"
  "snd (handle_execution_get K S W req s) = s"
  "snd (handle_execution_get_output K S W req s) = s"
  by (simp_all add: handle_status_def Let_def handle_settings_get_def handle_task_list_def handle_task_get_def
      handle_task_overview_def handle_execution_list_def handle_execution_get_def handle_execution_get_output_def)

text \<open>The id of the request is the id of its answer.\<close>

lemma trigger_now_id: "response_id (fst (handle_task_trigger_now K S W req s)) = request_id req"
  by (auto simp: handle_task_trigger_now_def Let_def split: sum.splits option.splits prod.splits bool.splits)

lemma answer_ids:
  "response_id (fst (handle_status K S W req s)) = request_id req"
  "response_id (fst (handle_shutdown req s)) = request_id req"
  "response_id (fst (handle_settings_get K S W req s)) = request_id req"
  "response_id (fst (handle_settings_set K S W req s)) = request_id req"
  "response_id (fst (handle_task_list K S W req s)) = request_id req"
  "response_id (fst (handle_task_get K S W req s)) = request_id req"
  "response_id (fst (handle_task_save K S W req s)) = request_id req"
  "response_id (fst (handle_task_delete K S W req s)) = request_id req"
  "response_id (fst (handle_task_overview K S W req s)) = request_id req"
  "response_id (fst (handle_execution_list K S W req s)) = request_id req"
  "response_id (fst (handle_execution_get K S W req s)) = request_id req"
  "response_id (fst (handle_execution_get_output K S W req s)) = request_id req"
  "response_id (fst (handle_execution_cancel S req s)) = request_id req"
  "response_id (fst (handle_trigger_reroll S W req s)) = request_id req"
  by (auto simp: handle_status_def Let_def handle_shutdown_def handle_settings_get_def handle_settings_set_def
      handle_task_list_def handle_task_get_def handle_task_save_def save_in_store_def send_saved_def
      handle_task_delete_def handle_task_overview_def handle_execution_list_def handle_execution_get_def
      handle_execution_get_output_def handle_execution_cancel_def handle_trigger_reroll_def
      split: sum.splits option.splits prod.splits)

definition harmless :: "agent \<Rightarrow> ipc_response \<times> agent \<Rightarrow> bool" where
  "harmless s a \<longleftrightarrow> (\<not> response_ok (fst a) \<longrightarrow> unchanged s (snd a))"

lemma harmless_if: "(c \<Longrightarrow> harmless s a) \<Longrightarrow> (\<not> c \<Longrightarrow> harmless s b) \<Longrightarrow> harmless s (if c then a else b)"
  by simp

lemma harmless_read: "snd a = s \<Longrightarrow> harmless s a"
  by (simp add: harmless_def)

lemma harmless_handlers:
  "serde_total S \<Longrightarrow> harmless s (handle_settings_set K S W req s)"
  "serde_total S \<Longrightarrow> harmless s (handle_task_save K S W req s)"
  "harmless s (handle_task_delete K S W req s)"
  "harmless s (handle_task_trigger_now K S W req s)"
  "harmless s (handle_execution_cancel S req s)"
  "harmless s (handle_shutdown req s)"
  using settings_set_error [OF surjective_pairing] task_save_error [OF surjective_pairing]
    task_delete_error [OF surjective_pairing] trigger_now_error [OF surjective_pairing]
    execution_cancel_error [OF surjective_pairing]
  by (auto simp: harmless_def handle_shutdown_def)

lemma request_harmless:
  "serde_total S \<Longrightarrow> request_method req \<noteq> ''trigger.reroll'' \<Longrightarrow> harmless s (handle_request K S W req s)"
  unfolding handle_request_def Let_def
  by (intro harmless_if) (simp_all add: harmless_handlers harmless_read read_handlers)

lemma request_id_kept: "response_id (fst (handle_request K S W req s)) = request_id req"
  by (simp add: handle_request_def Let_def answer_ids trigger_now_id)

text \<open>C19. Every request is answered under its own id, and a request that is answered with an error leaves no
  trace: store, scheduler commands, events, jobs, registrations, permits and running counts are as before.
  Only a failed reroll still reaches the scheduler.\<close>

theorem failed_request_changes_nothing:
  assumes "serde_total S" and "handle_request K S W req s = (r, s')"
  shows "response_id r = request_id req
    \<and> (\<not> response_ok r \<and> request_method req \<noteq> ''trigger.reroll'' \<longrightarrow> unchanged s s')"
proof
  show "response_id r = request_id req"
    using request_id_kept [of K S W req s] assms(2) by simp
  show "\<not> response_ok r \<and> request_method req \<noteq> ''trigger.reroll'' \<longrightarrow> unchanged s s'"
    using request_harmless [OF assms(1), of req s K W] assms(2) by (simp add: harmless_def)
qed

section \<open>Instances\<close>

definition demo_serde :: "task \<Rightarrow> serde" where
  "demo_serde t = \<lparr>uuid_of_json = (\<lambda>_. Inr 7), task_of_json = (\<lambda>_. Inr t), task_value = (\<lambda>_. Inr JNull),
     settings_of_json = (\<lambda>_. Inr default_system_settings), settings_value = (\<lambda>_. Inr JNull),
     time_value = (\<lambda>_. JNull)\<rparr>"

definition demo_request_world :: request_world where
  "demo_request_world = \<lparr>db_faults = (\<lambda>_. no_faults), now_at = (\<lambda>_. 0), new_execution_id = ExecutionId 9,
     package_version = ''0.1.0'', elapsed_secs = 1, queue_now = empty_queue, scheduler_open = True,
     reroll_answer = None\<rparr>"

definition request_for :: "string \<Rightarrow> ipc_request" where
  "request_for m = request_new ''r1'' m JNull"

definition demo_agent :: agent where
  "demo_agent = initial_agent job_db 2"

lemma request_for_simps [simp]:
  "request_id (request_for m) = ''r1''" "request_method (request_for m) = m" "request_params (request_for m) = JNull"
  by (simp_all add: request_for_def request_new_def)

lemma demo_serde_simps [simp]:
  "uuid_of_json (demo_serde t) v = Inr 7" "task_of_json (demo_serde t) v = Inr t"
  "task_value (demo_serde t) x = Inr JNull" "settings_value (demo_serde t) y = Inr JNull"
  by (simp_all add: demo_serde_def)

lemma demo_world_simps [simp]:
  "db_faults demo_request_world i = no_faults" "now_at demo_request_world i = 0"
  "new_execution_id demo_request_world = ExecutionId 9" "scheduler_open demo_request_world"
  by (simp_all add: demo_request_world_def)

lemma demo_serde_total: "serde_total (demo_serde t)"
  by (simp add: serde_total_def)

lemma demo_cancel:
  "handle_request K (demo_serde t) demo_request_world (request_for ''execution.cancel'') demo_agent
     = (response_failure ''r1'' (''Execution '' @ quoted (uuid_string 7) @ '' is not actively running''), demo_agent)"
  by (simp add: handle_request_def handle_execution_cancel_def execution_id_param_def demo_agent_def
      initial_agent_def answer_def)

lemma failed_request_changes_nothing_witness:
  "\<exists>r s'. handle_request text_codec (demo_serde job_task) demo_request_world (request_for ''execution.cancel'') demo_agent
       = (r, s') \<and> response_id r = ''r1'' \<and> \<not> response_ok r \<and> unchanged demo_agent s'"
  using failed_request_changes_nothing [OF demo_serde_total demo_cancel]
  by (simp add: demo_cancel response_failure_def)

lemma found_task_id:
  assumes "find_task_by_id K f now t d = Inr (Some task)" shows "task_id task = t"
  using assms find_Some_in [of "\<lambda>r. row_task_id r = t" "tasks d"]
  by (auto simp: find_task_by_id_def row_to_task_def outcome_simps split: option.splits)

text \<open>A store that holds \<open>job_task\<close>.\<close>

definition saved_db :: db where
  "saved_db = snd (save_task text_codec no_faults job_task empty_db)"

lemma job_task_fields:
  "task_created_at job_task = 0" "task_updated_at job_task = 0" "task_version job_task = 1" "triggers job_task = []"
  "task_enabled job_task" "concurrency_policy (execution_policy job_task) = SkipIfRunning"
  "working_directory job_task = None" "environment job_task = []"
  by (simp_all add: job_task_def small_task_def default_execution_policy_def)

lemma saved_db_ok: "save_task text_codec no_faults job_task empty_db = (Inr (), saved_db)"
proof -
  have "\<exists>x. save_task_tx text_codec no_faults job_task empty_db = Inr x"
    by (simp add: save_task_tx_def job_task_fields job_task_simps text_codec_def call_db_def no_faults_def Let_def
        empty_db_def)
  then show ?thesis by (auto simp: saved_db_def save_task_def)
qed

section \<open>Manual runs\<close>

text \<open>A manual trigger that succeeds has recorded a running execution of the stored task before it starts
  the job: the run can be read back, it is the answer, it is registered for cancellation, it is announced,
  and it holds one permit and one slot of its task.\<close>

theorem manual_run_is_recorded_first:
  assumes "codec_ok K" and "request_method req = ''task.trigger_now''"
    and "handle_request K S W req s = (r, s')" and "response_ok r"
    and "db_time (now_at W 1)" and "db_time (now_at W 3)"
  shows "\<exists>task. find_task_by_id K (db_faults W 0) (now_at W 0) (task_id task) (agent_db s) = Inr (Some task)
    \<and> stored_run K (new_execution_id W) (agent_db s') = Some (manual_run W task)
    \<and> status (manual_run W task) = Running
    \<and> response_data r = Some (execution_json S (manual_run W task))
    \<and> map_of (agent_active s') (new_execution_id W) = Some False
    \<and> agent_events s' = agent_events s @ [started_event (manual_run W task)]
    \<and> agent_jobs s' = agent_jobs s @ [ManualJob task (manual_run W task)]
    \<and> global_limiter (agent_manager s) = global_limiter (agent_manager s') + 1
    \<and> running_count (agent_manager s') (task_id task) = running_count (agent_manager s) (task_id task) + 1"
proof -
  have "handle_task_trigger_now K S W req s = (r, s')"
    using assms(2,3) by (simp add: handle_request_def)
  then show ?thesis
  proof (cases rule: trigger_now_cases)
    case failed
    with assms(4) show ?thesis by simp
  next
    case (started t task m m' d)
    let ?e = "manual_run W task"
    have id: "execution_id ?e = new_execution_id W" by (simp add: manual_run_def new_execution_def)
    have "task_id task = t"
      using started(2) by (rule found_task_id)
    moreover have "stored_run K (execution_id ?e) d = Some ?e"
      using execution_repository.create_lookup [OF sqlite_execution_repository [OF assms(1)] started(5)] assms(5,6)
      by (simp add: run_times_ok_def manual_run_def new_execution_def)
    moreover have "status ?e = Running" by (simp add: manual_run_def)
    ultimately show ?thesis
      using started(2,6,7) id slot_taken [OF started(4)] permit_taken [OF started(3)]
      by (intro exI [of _ task]) (simp add: running_count_def update_conv')
  qed
qed

definition saved_agent :: agent where
  "saved_agent = initial_agent saved_db 2"

lemma saved_agent_task:
  "\<exists>t. find_task_by_id text_codec no_faults 0 (TaskId 7) saved_db = Inr (Some t)
     \<and> concurrency_policy (execution_policy t) = SkipIfRunning \<and> task_id t = TaskId 7"
proof -
  have "db_time 0" by (simp add: db_time_def sec_ns_def)
  with find_after_save [OF text_codec_ok saved_db_ok, of 0] obtain t where
    "find_task_by_id text_codec no_faults 0 (task_id job_task) saved_db = Inr (Some t)"
    "execution_policy t = execution_policy job_task" "task_id t = task_id job_task"
    by (auto simp: job_task_fields)
  then show ?thesis by (intro exI [of _ t]) (simp add: job_task_fields job_task_simps)
qed

lemma saved_db_rows: "runs saved_db = []" "TaskId 7 \<in> row_task_id ` set (tasks saved_db)"
proof -
  obtain p e tnew anew where db: "saved_db = empty_db\<lparr>tasks := upsert_task (task_to_row text_codec job_task p e) (tasks empty_db),
      trigger_rows := filter (\<lambda>r. trow_task_id r \<noteq> task_id job_task) (trigger_rows empty_db) @ tnew,
      action_rows := filter (\<lambda>r. arow_task_id r \<noteq> task_id job_task) (action_rows empty_db) @ anew\<rparr>"
    using save_task_ok [OF saved_db_ok] by blast
  show "runs saved_db = []" "TaskId 7 \<in> row_task_id ` set (tasks saved_db)"
    unfolding db by (simp_all add: upsert_ids task_to_row_def empty_db_def job_task_simps)
qed

lemma demo_trigger_ok:
  assumes h: "handle_request text_codec (demo_serde job_task) demo_request_world
      (request_for ''task.trigger_now'') saved_agent = (r, s')"
  shows "response_ok r"
proof -
  obtain t where t: "find_task_by_id text_codec no_faults 0 (TaskId 7) saved_db = Inr (Some t)"
    "concurrency_policy (execution_policy t) = SkipIfRunning" "task_id t = TaskId 7"
    using saved_agent_task by blast
  show "response_ok r"
    using h [symmetric] t saved_db_rows
    by (simp add: handle_request_def handle_task_trigger_now_def task_id_param_def saved_agent_def initial_agent_def
        new_manager_def try_acquire_owned_def try_acquire_slot_def Let_def count_of_def get_or_def set_count_def
        create_run_def call_db_def no_faults_def manual_run_def new_execution_def)
qed

lemma manual_run_is_recorded_first_witness:
  "\<exists>r s' task. handle_request text_codec (demo_serde job_task) demo_request_world
        (request_for ''task.trigger_now'') saved_agent = (r, s')
     \<and> stored_run text_codec (ExecutionId 9) (agent_db s') = Some (manual_run demo_request_world task)
     \<and> map_of (agent_active s') (ExecutionId 9) = Some False"
proof -
  obtain r s' where h: "handle_request text_codec (demo_serde job_task) demo_request_world
      (request_for ''task.trigger_now'') saved_agent = (r, s')" by fastforce
  from manual_run_is_recorded_first [OF text_codec_ok _ h demo_trigger_ok [OF h]] h show ?thesis
    by (auto simp: db_time_def sec_ns_def)
qed

section \<open>Saving and scheduling\<close>

lemma insert_triggers_distinct:
  "insert_triggers K f n t trs rows = Inr (n', rows') \<Longrightarrow>
     distinct (map trigger_id trs) \<and> trigger_id ` set trs \<inter> trow_id ` set rows = {}"
  by (induction K f n t trs rows rule: insert_triggers.induct)
     (fastforce simp: outcome_simps split: if_splits)+

lemma saved_triggers_distinct:
  assumes "save_task K f t d = (Inr (), d')" shows "distinct (map trigger_id (triggers t))"
  using assms insert_triggers_distinct
  by (fastforce simp: save_task_def save_task_tx_def Let_def outcome_simps split: sum.splits)

lemma task_save_ok:
  assumes "request_method req = ''task.save''" and "handle_request K S W req s = (r, s')" and "response_ok r"
  obtains t d where "task_of_json S (pick_param ''task'' (request_params req)) = Inr t"
    and "save_task K (db_faults W 0) t (agent_db s) = (Inr (), d)"
    and "s' = send_command W (AddTask t) (s\<lparr>agent_db := d\<rparr>)"
proof -
  have h: "handle_task_save K S W req s = (r, s')" using assms(1,2) by (simp add: handle_request_def)
  obtain t where t: "task_of_json S (pick_param ''task'' (request_params req)) = Inr t"
    using h assms(3) by (cases "task_of_json S (pick_param ''task'' (request_params req))")
      (auto simp: handle_task_save_def save_in_store_def send_saved_def)
  obtain u d where sv: "save_task K (db_faults W 0) t (agent_db s) = (u, d)" by fastforce
  have "u = Inr ()" using h assms(3) t sv
    by (cases u) (auto simp: handle_task_save_def save_in_store_def send_saved_def)
  moreover have "s' = send_command W (AddTask t) (s\<lparr>agent_db := d\<rparr>)"
    using h t sv \<open>u = Inr ()\<close> by (auto simp: handle_task_save_def save_in_store_def send_saved_def)
  ultimately show thesis using that [OF t] sv by simp
qed

text \<open>C20. A task that was saved over the wire is planned as it is stored: the command that reaches the
  scheduler carries the task as it was sent, with distinct trigger ids, as its loop needs; the stored task is
  this one but for its version, its creation time, the order of its actions and of its environment, and the
  text of its directory; and once the loop has taken the command, the task's rows of the timetable are the
  evaluations of the stored triggers, none if the stored task is disabled.\<close>

theorem saved_task_is_scheduled:
  assumes "codec_ok K" and "request_method req = ''task.save''"
    and "handle_request K S W req s = (r, s')" and "response_ok r" and "scheduler_open W"
    and "task_of_json S (pick_param ''task'' (request_params req)) = Inr t"
    and "db_time (task_created_at t)" and "db_time (task_updated_at t)"
    and "sched_reaches E distinct_triggers n q" and "n < 2 ^ 64 - 2"
    and "handle_command E orc (last (agent_commands s')) q = Ret q'"
  shows "agent_commands s' = agent_commands s @ [AddTask t] \<and> distinct (map trigger_id (triggers t))
    \<and> (\<exists>stored env v made. stored = t\<lparr>actions := sort_key action_sequence (actions t),
          working_directory := map_option (path_lossy K) (working_directory t), environment := env,
          task_version := v, task_created_at := made\<rparr>
        \<and> map_of env = map_of (environment t) \<and> find_task_by_id K no_faults now (task_id t) (agent_db s') = Inr (Some stored)
        \<and> map_of (registered_tasks q') (task_id t) = Some t
        \<and> (\<forall>tr. next_fire_by_trigger (queue q') (task_id t, tr) =
             (if task_enabled stored
              then planned_time (evaluations E orc) (clock orc) 0 (triggers stored) tr else None)))"
proof -
  obtain d where sv: "save_task K (db_faults W 0) t (agent_db s) = (Inr (), d)"
    and s': "s' = send_command W (AddTask t) (s\<lparr>agent_db := d\<rparr>)"
    using task_save_ok [OF assms(2-4)] assms(6) by auto
  have c: "agent_commands s' = agent_commands s @ [AddTask t]" and db: "agent_db s' = d"
    using assms(5) by (simp_all add: s' send_command_def)
  note dist = saved_triggers_distinct [OF sv]
  obtain env v made where found: "map_of env = map_of (environment t)" "find_task_by_id K no_faults now (task_id t) d
      = Inr (Some (t\<lparr>actions := sort_key action_sequence (actions t),
          working_directory := map_option (path_lossy K) (working_directory t), environment := env,
          task_version := v, task_created_at := made\<rparr>))"
    using find_after_save [OF assms(1) sv assms(7,8), of now] by blast
  then obtain stored where st: "stored = t\<lparr>actions := sort_key action_sequence (actions t),
          working_directory := map_option (path_lossy K) (working_directory t), environment := env,
          task_version := v, task_created_at := made\<rparr>"
    "find_task_by_id K no_faults now (task_id t) d = Inr (Some stored)" by blast
  have same: "task_enabled stored = task_enabled t" "triggers stored = triggers t" by (simp_all add: st(1))
  have n: "n + 2 < 2 ^ 64" using assms(10) by simp
  have "handle_add_task E orc t q = Ret q'" using assms(11) c by simp
  note eff = add_task_effect [OF reaches_inv [OF assms(9,10)] n dist this]
  have "next_fire_by_trigger (queue q') (task_id t, tr) =
      (if task_enabled t then planned_time (evaluations E orc) (clock orc) 0 (triggers t) tr else None)" for tr
    by (simp add: timetable_times eff(1))
  moreover have "map_of (registered_tasks q') (task_id t) = Some t" by (simp add: eff(3) update_conv')
  ultimately have plan: "map_of (registered_tasks q') (task_id t) = Some t
      \<and> (\<forall>tr. next_fire_by_trigger (queue q') (task_id t, tr) =
             (if task_enabled stored
              then planned_time (evaluations E orc) (clock orc) 0 (triggers stored) tr else None))"
    unfolding same by blast
  show ?thesis
    by (intro conjI c dist exI [of _ stored] exI [of _ env] exI [of _ v] exI [of _ made])
       (use st found(1) db plan in simp_all)
qed

lemma saved_task_is_scheduled_witness:
  "\<exists>s' :: agent. \<exists>q' :: sched. \<exists>stored. find_task_by_id text_codec no_faults 0 (TaskId 7) (agent_db s') = Inr (Some stored)
     \<and> agent_commands s' = [AddTask demo_task]
     \<and> next_fire_by_trigger (queue q') (TaskId 7, TriggerId 1) =
         (if task_enabled stored then planned_time (evaluations utc_env (demo_at 0)) (clock (demo_at 0)) 0
            (triggers stored) (TriggerId 1) else None)"
proof -
  let ?a = "initial_agent empty_db 2" and ?S = "demo_serde demo_task"
  obtain r s' where h: "handle_request text_codec ?S demo_request_world (request_for ''task.save'') ?a = (r, s')"
    by fastforce
  have sv: "save_task text_codec no_faults demo_task empty_db = (Inr (), snd (save_task text_codec no_faults demo_task empty_db))"
    by (simp add: save_task_def save_task_tx_def Let_def text_codec_def call_db_def no_faults_def empty_db_def
        demo_task_def demo_trigger_def demo_interval_def)
  have ok: "response_ok r" and cmds: "last (agent_commands s') = AddTask demo_task"
    using h [symmetric] sv
    by (simp_all add: handle_request_def handle_task_save_def save_in_store_def send_saved_def
        initial_agent_def send_command_def split: prod.splits)
  have t: "task_of_json ?S (pick_param ''task'' (request_params (request_for ''task.save''))) = Inr demo_task" by simp
  have times: "db_time (task_created_at demo_task)" "db_time (task_updated_at demo_task)"
    by (simp_all add: demo_task_def db_time_def sec_ns_def)
  have run: "handle_command utc_env (demo_at 0) (last (agent_commands s')) (initial_sched (demo_at 0)) = Ret demo_state"
    by (simp add: cmds demo_add)
  have m: "request_method (request_for ''task.save'') = ''task.save''" "scheduler_open demo_request_world"
    "(0::nat) < 2 ^ 64 - 2" by simp_all
  note claim = saved_task_is_scheduled [OF text_codec_ok m(1) h ok m(2) t times
      sched_reaches.start [of utc_env distinct_triggers "demo_at 0"] m(3) run, of 0]
  have eqs: "task_id demo_task = TaskId 7" "agent_commands ?a = []"
    by (simp_all add: demo_task_def initial_agent_def)
  from claim [unfolded eqs append_Nil] show ?thesis by blast
qed

section \<open>Two saves at once\<close>

text \<open>
  Each connection's requests run as tasks of their own, so two saves of one task can interleave between
  their steps: store, store, command, command.
\<close>

definition race ::
  "codec \<Rightarrow> serde \<Rightarrow> serde \<Rightarrow> request_world \<Rightarrow> ipc_request \<Rightarrow> agent \<Rightarrow> agent" where
  "race K Sa Sb W req s =
     (let (a, s1) = save_in_store K Sa W req s;
          (b, s2) = save_in_store K Sb W req s1;
          (_, s3) = send_saved Sb W req b s2
      in snd (send_saved Sa W req a s3))"

text \<open>Two saves of one task that interleave between store and scheduler leave them with different tasks:
  the store holds the second, the scheduler plans the first, even when the stored one is disabled.\<close>

theorem concurrent_saves_diverge:
  assumes "codec_ok K" and "task_of_json Sa (pick_param ''task'' (request_params req)) = Inr a"
    and "task_of_json Sb (pick_param ''task'' (request_params req)) = Inr b" and "task_id b = task_id a"
    and "save_task K (db_faults W 0) a (agent_db s) = (Inr (), d1)"
    and "save_task K (db_faults W 0) b d1 = (Inr (), d2)"
    and "db_time (task_created_at b)" and "db_time (task_updated_at b)" and "scheduler_open W"
    and "handle_command E orc (AddTask b) q = Ret q1" and "handle_command E orc' (AddTask a) q1 = Ret q2"
  shows "agent_commands (race K Sa Sb W req s) = agent_commands s @ [AddTask b, AddTask a]
    \<and> (\<exists>stored. find_task_by_id K no_faults now (task_id a) (agent_db (race K Sa Sb W req s)) = Inr (Some stored)
          \<and> task_enabled stored = task_enabled b \<and> triggers stored = triggers b)
    \<and> map_of (registered_tasks q2) (task_id a) = Some a"
proof -
  have r: "agent_commands (race K Sa Sb W req s) = agent_commands s @ [AddTask b, AddTask a]"
    "agent_db (race K Sa Sb W req s) = d2"
    using assms(2,3,5,6,9) by (simp_all add: race_def save_in_store_def send_saved_def send_command_def)
  have "map_of (registered_tasks q2) (task_id a) = Some a"
    using assms(11) by (auto simp: handle_add_task_def Let_def outcome_simps update_conv' split: prod.splits)
  moreover obtain stored where "find_task_by_id K no_faults now (task_id a) d2 = Inr (Some stored)"
    "task_enabled stored = task_enabled b" "triggers stored = triggers b"
    using find_after_save [OF assms(1,6,7,8), of now] assms(4) by auto
  ultimately show ?thesis using r by blast
qed

definition disabled_task :: task where
  "disabled_task = job_task\<lparr>task_enabled := False\<rparr>"

lemma saved_twice: "\<exists>d. save_task text_codec no_faults disabled_task saved_db = (Inr (), d)"
proof -
  obtain p v tnew anew where db: "saved_db = empty_db\<lparr>tasks := upsert_task (task_to_row text_codec job_task p v) (tasks empty_db),
      trigger_rows := filter (\<lambda>r. trow_task_id r \<noteq> task_id job_task) (trigger_rows empty_db) @ tnew,
      action_rows := filter (\<lambda>r. arow_task_id r \<noteq> task_id job_task) (action_rows empty_db) @ anew\<rparr>"
    and a: "list_all2 (action_saved text_codec (task_id job_task)) (actions job_task) anew"
    using save_task_ok [OF saved_db_ok] by blast
  have "filter (\<lambda>r. arow_task_id r \<noteq> TaskId 7) (action_rows saved_db) = []"
    using a unfolding db by (auto simp: empty_db_def job_task_simps action_saved_def list_all2_Cons1)
  then have "\<exists>x. save_task_tx text_codec no_faults disabled_task saved_db = Inr x"
    by (simp add: save_task_tx_def disabled_task_def job_task_fields job_task_simps text_codec_def call_db_def
        no_faults_def Let_def)
  then show ?thesis by (auto simp: save_task_def)
qed

lemma concurrent_saves_diverge_witness:
  "\<exists>s' :: agent. \<exists>q2 :: sched. \<exists>stored. find_task_by_id text_codec no_faults 0 (TaskId 7) (agent_db s') = Inr (Some stored)
     \<and> \<not> task_enabled stored \<and> map_of (registered_tasks q2) (TaskId 7) = Some job_task \<and> task_enabled job_task"
proof -
  let ?s = "initial_agent empty_db 2" and ?q = "initial_sched (demo_at 0)"
  have id: "task_id job_task = TaskId 7" "task_id disabled_task = task_id job_task"
    by (simp_all add: job_task_simps disabled_task_def)
  have first: "save_task text_codec (db_faults demo_request_world 0) job_task (agent_db ?s) = (Inr (), saved_db)"
    by (simp add: initial_agent_def saved_db_ok)
  obtain d2 where second: "save_task text_codec (db_faults demo_request_world 0) disabled_task saved_db = (Inr (), d2)"
    using saved_twice by auto
  have times: "db_time (task_created_at disabled_task)" "db_time (task_updated_at disabled_task)"
    by (simp_all add: disabled_task_def job_task_fields db_time_def sec_ns_def)
  obtain q1 where q1: "handle_command utc_env (demo_at 0) (AddTask disabled_task) ?q = Ret q1"
    by (simp add: handle_add_task_def bump_generation_def Let_def disabled_task_def)
  obtain q2 where q2: "handle_command utc_env (demo_at 0) (AddTask job_task) q1 = Ret q2"
    by (simp add: handle_add_task_def bump_generation_def Let_def job_task_fields)
  have w: "task_of_json (demo_serde job_task) (pick_param ''task'' (request_params (request_for m))) = Inr job_task"
    "task_of_json (demo_serde disabled_task) (pick_param ''task'' (request_params (request_for m))) = Inr disabled_task"
    "scheduler_open demo_request_world" for m by simp_all
  note claim = concurrent_saves_diverge [OF text_codec_ok w(1,2) id(2) first second times w(3) q1 q2, where now = 0]
  have "\<not> task_enabled disabled_task" "task_enabled job_task" by (simp_all add: disabled_task_def job_task_fields)
  with claim [unfolded id] show ?thesis by metis
qed

section \<open>The limit of a listing\<close>

lemma list_limit_number:
  assumes "0 \<le> i" and "i < 2 ^ 64"
  shows "unat (list_limit (JObj [(''limit'', JInt i)])) = nat (i mod 2 ^ 32)"
    and "unat (list_limit (JInt i)) = nat (i mod 2 ^ 32)"
proof -
  have "uint (ucast (word_of_int i :: u64) :: u32) = i mod 2 ^ 32"
    using assms by (simp add: unsigned_ucast_eq uint_word_of_int take_bit_eq_mod mod_mod_cancel)
  then have "unat (ucast (word_of_int i :: u64) :: u32) = nat (i mod 2 ^ 32)"
    by (metis unat_eq_nat_uint)
  then show "unat (list_limit (JObj [(''limit'', JInt i)])) = nat (i mod 2 ^ 32)"
    and "unat (list_limit (JInt i)) = nat (i mod 2 ^ 32)"
    using assms by (simp_all add: list_limit_def pick_param_def)
qed

text \<open>A listing with a limit given as a number returns that many of the latest runs, but the limit is cut to
  32 bits: a limit of \<open>2 ^ 32\<close> lists nothing.\<close>

theorem execution_list_limit:
  assumes "request_method req = ''execution.list''" and "request_params req = JObj [(''limit'', JInt i)]"
    and "0 \<le> i" and "i < 2 ^ 64" and "handle_request K S W req s = (r, s')" and "response_ok r"
  shows "\<exists>vs. response_data r = Some (JArr vs) \<and> length vs = min (nat (i mod 2 ^ 32)) (length (runs (agent_db s)))"
proof -
  have h: "handle_execution_list K S W req s = (r, s')" using assms(1,5) by (simp add: handle_request_def)
  let ?n = "list_limit (request_params req)"
  obtain xs where xs: "find_recent_runs K (db_faults W 0) (now_at W 0) ?n (agent_db s) = Inr xs"
    and r: "response_data r = Some (JArr (map (execution_json S) xs))"
    using h assms(6) by (cases "find_recent_runs K (db_faults W 0) (now_at W 0) ?n (agent_db s)")
      (auto simp: handle_execution_list_def told_def)
  have "length xs = length (take (unat ?n) (order_desc run_started_at (runs (agent_db s))))"
    using xs by (auto simp: find_recent_runs_def outcome_simps rmap_list_Inr dest: list_all2_lengthD)
  also have "\<dots> = min (nat (i mod 2 ^ 32)) (length (runs (agent_db s)))"
    using list_limit_number(1) [OF assms(3,4)] assms(2) by (simp add: order_desc_def)
  finally show ?thesis using r by simp
qed

lemma execution_list_limit_witness:
  "\<exists>r s' :: agent. handle_request text_codec (demo_serde job_task) demo_request_world
        (request_new ''r1'' ''execution.list'' (JObj [(''limit'', JInt 4294967296)])) (initial_agent demo_db 2) = (r, s')
     \<and> response_data r = Some (JArr []) \<and> length (runs (agent_db s')) = 1"
proof -
  let ?req = "request_new ''r1'' ''execution.list'' (JObj [(''limit'', JInt 4294967296)])"
  let ?a = "initial_agent demo_db 2"
  obtain r s' where h: "handle_request text_codec (demo_serde job_task) demo_request_world ?req ?a = (r, s')"
    by fastforce
  have req: "request_method ?req = ''execution.list''" "request_params ?req = JObj [(''limit'', JInt 4294967296)]"
    by (simp_all add: request_new_def)
  have s': "s' = ?a" using h by (simp add: handle_request_def req handle_execution_list_def)
  have runs: "runs (agent_db ?a) = [demo_run]" by (simp add: initial_agent_def demo_db_def)
  have "list_limit (JObj [(''limit'', JInt 4294967296)]) = 0"
    using list_limit_number(1) [of 4294967296] by (simp add: unat_eq_zero)
  then have "response_ok r"
    using h [symmetric] by (simp add: handle_request_def req handle_execution_list_def find_recent_runs_def
        call_db_def no_faults_def told_def)
  from execution_list_limit [OF req _ _ h this] have "response_data r = Some (JArr [])" by simp
  with h s' runs show ?thesis by (intro exI [of _ r] exI [of _ s']) simp
qed

end
