(* ===== verification/Manual_Job.thy ===== *)
theory Manual_Job
  imports Agent_Props Job_Run_Props
begin

text \<open>
  A manual run from the request to its end: the job that \<open>task.trigger_now\<close> spawns
  (\<^verbatim>\<open>apps/agent/src/service.rs\<close>) on the agent's state.
\<close>

text \<open>
  The whole spawned job: its work on the store and the clients, then the execution leaves
  \<open>active_executions\<close>, the slot is released, and the permit it owns is dropped.
\<close>

definition complete_manual_job ::
  "codec \<Rightarrow> platform \<Rightarrow> job_world \<Rightarrow> task \<Rightarrow> execution \<Rightarrow> agent \<Rightarrow> agent" where
  "complete_manual_job K P w t e s =
     (case manual_job K P w t e (agent_db s) of
        (finished, d, evs) \<Rightarrow>
          s\<lparr>agent_db := d, agent_events := agent_events s @ evs,
            agent_active := AList.delete (execution_id finished) (agent_active s),
            agent_manager := drop_permit (release_slot (task_id t) (agent_manager s))\<rparr>)"

lemma manual_run_times: "db_time (now_at W 1) \<Longrightarrow> db_time (now_at W 3) \<Longrightarrow> run_times_ok (manual_run W t)"
  by (simp add: run_times_ok_def manual_run_def new_execution_def)

lemma count_running: "running_count m t = count_of m t"
  by (simp add: running_count_def)

text \<open>C21. A manual run, from the request to the end of its job: the stored run is the verdict of the enabled actions
  with the identifiers and times of the request, its start and its end are broadcast in this order, and the
  permit, the slot and the registration it took are given back.
\<close>

theorem manual_run_to_its_end:
  assumes "codec_ok K" and "request_method req = ''task.trigger_now''"
    and "handle_request K S W req s = (r, s')" and "response_ok r"
    and "db_time (now_at W 1)" and "db_time (now_at W 3)"
    and "db_time (finish_time w)" and "update_faults w 0 = None"
  shows "\<exists>task e s'' outs duration.
      agent_jobs s' = agent_jobs s @ [ManualJob task (manual_run W task)]
    \<and> s'' = complete_manual_job K P w task (manual_run W task) s'
    \<and> stored_run K (new_execution_id W) (agent_db s'') = Some e
    \<and> (status e, exit_code e, error_message e)
        = verdict (action_results P w (timeout_secs (execution_policy task)) 0 (actions task))
    \<and> execution_task_id e = task_id task \<and> execution_trigger_id e = None
    \<and> started_at e = now_at W 3 \<and> finished_at e = Some (finish_time w)
    \<and> agent_events s'' = agent_events s @ [started_event e] @ outs @ [finished_event task e duration]
    \<and> global_limiter (agent_manager s'') = global_limiter (agent_manager s)
    \<and> (\<forall>t. running_count (agent_manager s'') t = running_count (agent_manager s) t)
    \<and> map_of (agent_active s'') (new_execution_id W) = None"
proof -
  have "handle_task_trigger_now K S W req s = (r, s')"
    using assms(2,3) by (simp add: handle_request_def)
  then show ?thesis
  proof (cases rule: trigger_now_cases)
    case failed
    with assms(4) show ?thesis by simp
  next
    case (started t task m m' d)
    let ?run = "manual_run W task"
    let ?l = "run_actions K P w task ?run 0 (actions task) (loop_start d)"
    let ?fin = "finish_run w ?l ?run"
    have id: "execution_id ?run = new_execution_id W" by (simp add: manual_run_def new_execution_def)
    note times = manual_run_times [OF assms(5,6), of task]
    have "stored_run K (execution_id ?run) d = Some ?run"
      using execution_repository.create_lookup [OF sqlite_execution_repository [OF assms(1)] started(5) times] .
    note recorded = finished_run_recorded [OF assms(1) refl this times assms(7,8), of P task]
    have e: "execution_task_id ?fin = task_id task" "execution_trigger_id ?fin = None" "started_at ?fin = now_at W 3"
      "finished_at ?fin = Some (finish_time w)" "started_event ?fin = started_event ?run" "execution_id ?fin = new_execution_id W"
      unfolding started_event_def finish_run_def by (simp_all add: manual_run_def new_execution_def)
    have counts: "count_of (drop_permit (release_slot (task_id task) m')) u = count_of (agent_manager s) u"
      "global_limiter (drop_permit (release_slot (task_id task) m')) = global_limiter (agent_manager s)" for u
      using slot_taken [OF started(4)] permit_taken [OF started(3)] by (simp_all add: release_spec)
    show ?thesis
      using recorded e id counts started(7)
      by (intro exI [of _ task] exI [of _ ?fin] exI [of _ "complete_manual_job K P w task ?run s'"]
            exI [of _ "loop_events ?l"]
            exI [of _ "case duration_ms ?fin of Some n \<Rightarrow> n | None \<Rightarrow> 0"])
        (simp add: complete_manual_job_def manual_job_def Let_def count_running delete_conv')
  qed
qed

lemma manual_run_to_its_end_witness:
  "\<exists>r s' task e. handle_request text_codec (demo_serde job_task) demo_request_world
        (request_for ''task.trigger_now'') saved_agent = (r, s')
     \<and> stored_run text_codec (ExecutionId 9)
         (agent_db (complete_manual_job text_codec unix_build demo_world task (manual_run demo_request_world task) s'))
         = Some e
     \<and> finished_at e = Some 20"
proof -
  obtain r s' where h: "handle_request text_codec (demo_serde job_task) demo_request_world
      (request_for ''task.trigger_now'') saved_agent = (r, s')" by fastforce
  have "request_method (request_for ''task.trigger_now'') = ''task.trigger_now''" by simp
  moreover have "db_time (now_at demo_request_world 1)" "db_time (now_at demo_request_world 3)"
    "db_time (finish_time demo_world)" "update_faults demo_world 0 = None"
    by (simp_all add: db_time_def sec_ns_def demo_world_def no_faults_def)
  ultimately show ?thesis
    using manual_run_to_its_end [OF text_codec_ok _ h demo_trigger_ok [OF h], of demo_world unix_build] h
    by (auto simp: demo_world_def)
qed

end
