(* ===== verification/Startup.thy ===== *)
theory Startup
  imports Scheduler_Props
begin

text \<open>
  The start of the agent (\<open>AgentService::init_shared\<close> of \<^verbatim>\<open>apps/agent/src/service.rs\<close>): the enabled tasks are
  sent to the scheduler, which already runs its loop, over a command channel of 100 places; its events, those
  of \<open>TriggerNow\<close> and those of its timer, go into a channel of 100 places, which nothing reads before \<open>run\<close>.
  Sending into a full channel waits.
\<close>

section \<open>The commands of the start\<close>

definition has_agent_started :: "task \<Rightarrow> bool" where
  "has_agent_started t = list_ex (\<lambda>tr. trigger_enabled tr \<and> trigger_kind tr = AgentStarted) (triggers t)"

definition startup_commands :: "task list \<Rightarrow> sched_command list" where
  "startup_commands ts =
     concat (map (\<lambda>t. AddTask t # (if has_agent_started t then [TriggerNow (task_id t)] else [])) ts)"

section \<open>The two channels\<close>

definition channel_capacity :: nat where
  "channel_capacity = 100"

text \<open>
  The loader's commands, the command channel, and the loop of the scheduler, which is gone after a panic.  The
  events it has sent are in its state; the first hundred fill the channel, with one more it waits.
\<close>

record startup =
  to_send :: "sched_command list"
  cmd_channel :: "sched_command list"
  sched_loop :: "sched option"

definition startup_begin :: "task list \<Rightarrow> readings \<Rightarrow> startup" where
  "startup_begin ts orc =
     \<lparr>to_send = startup_commands ts, cmd_channel = [], sched_loop = Some (initial_sched orc)\<rparr>"

definition waits_to_send :: "sched \<Rightarrow> bool" where
  "waits_to_send sc \<longleftrightarrow> channel_capacity < length (events sc)"

text \<open>What the \<open>select!\<close> of the loop may take: the next command, the timer, or the clock check.\<close>

inductive takes :: "startup \<Rightarrow> sched_input \<Rightarrow> sched_command list \<Rightarrow> bool" for s :: startup where
  next_command: "cmd_channel s = c # cs \<Longrightarrow> takes s (Received c) cs"
| timer: "takes s TimerElapsed (cmd_channel s)"
| clock_check: "takes s ClockTick (cmd_channel s)"

inductive_cases takesE: "takes s inp cs"

text \<open>
  The steps of the loader, also when the scheduler is gone and its channel closed, which the loader ignores;
  the turns of the scheduler, unless it waits for a place for its last event.
\<close>

inductive startup_step :: "chrono_env \<Rightarrow> startup \<Rightarrow> startup \<Rightarrow> bool" for E :: chrono_env where
  send_cmd: "to_send s = c # cs \<Longrightarrow> sched_loop s = Some sc \<Longrightarrow> length (cmd_channel s) < channel_capacity \<Longrightarrow>
     startup_step E s (s\<lparr>to_send := cs, cmd_channel := cmd_channel s @ [c]\<rparr>)"
| send_lost: "to_send s = c # cs \<Longrightarrow> sched_loop s = None \<Longrightarrow> startup_step E s (s\<lparr>to_send := cs\<rparr>)"
| loop_turn: "sched_loop s = Some sc \<Longrightarrow> \<not> waits_to_send sc \<Longrightarrow> takes s inp cs \<Longrightarrow> enabled_input inp sc \<Longrightarrow>
     sched_turn E orc inp sc = Ret sc' \<Longrightarrow> startup_step E s (s\<lparr>cmd_channel := cs, sched_loop := Some sc'\<rparr>)"
| loop_panics: "sched_loop s = Some sc \<Longrightarrow> \<not> waits_to_send sc \<Longrightarrow> takes s inp cs \<Longrightarrow> enabled_input inp sc \<Longrightarrow>
     sched_turn E orc inp sc = Panic \<Longrightarrow> startup_step E s (s\<lparr>cmd_channel := [], sched_loop := None\<rparr>)"

inductive_cases startup_stepE: "startup_step E s s'"

section \<open>The events\<close>

text \<open>The events so far that come from \<open>TriggerNow\<close>, and those of the timer.\<close>

definition asked_for :: "sched \<Rightarrow> nat" where
  "asked_for sc = length (filter (\<lambda>e. ev_trigger_id e = None) (events sc))"

definition timer_fires :: "startup \<Rightarrow> nat" where
  "timer_fires s =
     (case sched_loop s of
        Some sc \<Rightarrow> length (filter (\<lambda>e. ev_trigger_id e \<noteq> None) (events sc))
      | None \<Rightarrow> 0)"

fun is_trigger_now :: "sched_command \<Rightarrow> bool" where
  "is_trigger_now (TriggerNow t) = True"
| "is_trigger_now _ = False"

definition loading :: "sched_command \<Rightarrow> bool" where
  "loading c \<longleftrightarrow> (\<exists>t. c = AddTask t) \<or> is_trigger_now c"

text \<open>A turn of the loop adds at most one event; a command only adds that of \<open>TriggerNow\<close>.\<close>

lemma command_events:
  assumes "sched_turn E orc (Received c) sc = Ret sc'" and "loading c"
  shows "\<exists>es. events sc' = events sc @ es \<and> length es = (if is_trigger_now c then 1 else 0)
     \<and> (\<forall>e \<in> set es. ev_trigger_id e = None) \<and> stopped sc' = stopped sc"
  using assms
  by (cases c) (auto simp: loading_def sched_turn_def handle_add_task_def handle_trigger_now_def Let_def outcome_simps
      split: prod.splits)

lemma timer_events:
  assumes "sched_turn E orc TimerElapsed sc = Ret sc'"
  shows "\<exists>es. events sc' = events sc @ es \<and> length es \<le> 1 \<and> (\<forall>e \<in> set es. ev_trigger_id e \<noteq> None)
     \<and> stopped sc' = stopped sc"
  using assms
  by (auto simp: sched_turn_def handle_timer_def Let_def outcome_simps split: prod.splits option.splits)

lemma tick_events: "sched_turn E orc ClockTick sc = Ret sc' \<Longrightarrow> events sc' = events sc \<and> stopped sc' = stopped sc"
  by (auto simp: sched_turn_def handle_tick_def Let_def outcome_simps)

section \<open>Invariant\<close>

definition loop_ok :: "sched_command list \<Rightarrow> sched \<Rightarrow> bool" where
  "loop_ok taken sc \<longleftrightarrow> asked_for sc = length (filter is_trigger_now taken)
     \<and> length (events sc) \<le> channel_capacity + 1 \<and> \<not> stopped sc"

definition startup_inv :: "sched_command list \<Rightarrow> startup \<Rightarrow> bool" where
  "startup_inv cmds s \<longleftrightarrow>
     list_all loading cmds \<and> length (cmd_channel s) \<le> channel_capacity
     \<and> (case sched_loop s of
          None \<Rightarrow> True
        | Some sc \<Rightarrow> \<exists>taken. cmds = taken @ cmd_channel s @ to_send s \<and> loop_ok taken sc)"

lemma turn_ok:
  assumes ok: "loop_ok taken sc" and free: "\<not> waits_to_send sc" and t: "takes s inp cs"
    and turn: "sched_turn E orc inp sc = Ret sc'" and cmds: "list_all loading (cmd_channel s)"
  shows "\<exists>more. cmd_channel s = more @ cs \<and> loop_ok (taken @ more) sc'"
  using t
proof cases
  case (next_command c)
  then have "loading c" using cmds by simp
  with command_events [OF turn [unfolded next_command(1)]] ok free next_command show ?thesis
    by (intro exI [of _ "[c]"]) (auto simp: loop_ok_def asked_for_def waits_to_send_def filter_empty_conv)
next
  case timer
  with timer_events [OF turn [unfolded timer(1)]] ok free show ?thesis
    by (intro exI [of _ "[]"]) (auto simp: loop_ok_def asked_for_def waits_to_send_def filter_empty_conv)
next
  case clock_check
  with tick_events [OF turn [unfolded clock_check(1)]] ok show ?thesis
    by (intro exI [of _ "[]"]) (simp add: loop_ok_def asked_for_def)
qed

lemma startup_inv_step:
  assumes "startup_step E s s'" and "startup_inv cmds s"
  shows "startup_inv cmds s'"
  using assms(1)
proof cases
  case (send_cmd c cs sc)
  with assms(2) show ?thesis by (auto simp: startup_inv_def)
next
  case (send_lost c cs)
  with assms(2) show ?thesis by (simp add: startup_inv_def)
next
  case (loop_turn sc inp cs orc sc')
  obtain taken where taken: "cmds = taken @ cmd_channel s @ to_send s" "loop_ok taken sc"
    using assms(2) loop_turn(2) by (auto simp: startup_inv_def)
  have "list_all loading (cmd_channel s)" using assms(2) taken(1) by (simp add: startup_inv_def)
  from turn_ok [OF taken(2) loop_turn(3,4,6) this] obtain more where
    more: "cmd_channel s = more @ cs" "loop_ok (taken @ more) sc'" by blast
  show ?thesis
    unfolding startup_inv_def loop_turn(1) using assms(2) taken(1) more
    by (auto simp: startup_inv_def intro!: exI [of _ "taken @ more"])
next
  case (loop_panics sc inp cs orc)
  with assms(2) show ?thesis by (simp add: startup_inv_def)
qed

lemma startup_loading: "list_all loading (startup_commands ts)"
  by (induction ts) (simp_all add: startup_commands_def loading_def)

lemma startup_inv_reached: "(startup_step E)\<^sup>*\<^sup>* (startup_begin ts orc) s \<Longrightarrow> startup_inv (startup_commands ts) s"
proof (induction rule: rtranclp_induct)
  case base
  show ?case
    by (simp add: startup_inv_def startup_begin_def startup_loading loop_ok_def asked_for_def initial_sched_def)
next
  case (step y z)
  then show ?case by (blast intro: startup_inv_step)
qed

section \<open>Progress\<close>

text \<open>The start is stuck when both channels are full: then no part of it can move.\<close>

definition stuck :: "startup \<Rightarrow> bool" where
  "stuck s \<longleftrightarrow> to_send s \<noteq> [] \<and> length (cmd_channel s) = channel_capacity
     \<and> (\<exists>sc. sched_loop s = Some sc \<and> waits_to_send sc)"

lemma stuck_for_ever: "stuck s \<Longrightarrow> \<not> startup_step E s s'"
  by (auto simp: stuck_def elim!: startup_stepE)

definition startup_work :: "startup \<Rightarrow> nat" where
  "startup_work s = 2 * length (to_send s) + length (cmd_channel s)"

text \<open>Otherwise there is a step that takes no event of the timer.\<close>

lemma startup_moves:
  assumes inv: "startup_inv cmds s" and left: "to_send s \<noteq> []" and free: "\<not> stuck s"
  shows "\<exists>s'. startup_step E s s' \<and> startup_work s' < startup_work s \<and> timer_fires s' \<le> timer_fires s"
proof (cases "sched_loop s")
  case None
  obtain c cs where c: "to_send s = c # cs" using left by (cases "to_send s") auto
  with send_lost [OF c None] None show ?thesis
    by (intro exI [of _ "s\<lparr>to_send := cs\<rparr>"]) (simp add: startup_work_def timer_fires_def)
next
  case (Some sc)
  obtain c cs where c: "to_send s = c # cs" using left by (cases "to_send s") auto
  show ?thesis
  proof (cases "length (cmd_channel s) < channel_capacity")
    case True
    with send_cmd [OF c Some] c Some show ?thesis
      by (intro exI [of _ "s\<lparr>to_send := cs, cmd_channel := cmd_channel s @ [c]\<rparr>"])
         (simp add: startup_work_def timer_fires_def)
  next
    case False
    then have full: "length (cmd_channel s) = channel_capacity" using inv by (simp add: startup_inv_def)
    then obtain d ds where d: "cmd_channel s = d # ds"
      by (cases "cmd_channel s") (auto simp: channel_capacity_def)
    have w: "\<not> waits_to_send sc" using free left full Some by (auto simp: stuck_def)
    obtain taken where taken: "cmds = taken @ cmd_channel s @ to_send s" "loop_ok taken sc"
      using inv Some by (auto simp: startup_inv_def)
    have en: "enabled_input (Received d) sc" using taken(2) by (simp add: enabled_input_def loop_ok_def)
    have ld: "loading d" using inv taken(1) d by (simp add: startup_inv_def)
    show ?thesis
    proof (cases "sched_turn E orc (Received d) sc")
      case (Ret sc')
      have "timer_fires (s\<lparr>cmd_channel := ds, sched_loop := Some sc'\<rparr>) = timer_fires s"
        using command_events [OF Ret ld] Some by (auto simp: timer_fires_def filter_empty_conv)
      with loop_turn [OF Some w next_command [OF d] en Ret] d show ?thesis
        by (intro exI [of _ "s\<lparr>cmd_channel := ds, sched_loop := Some sc'\<rparr>"]) (simp add: startup_work_def)
    next
      case Panic
      from loop_panics [OF Some w next_command [OF d] en Panic] d show ?thesis
        by (intro exI [of _ "s\<lparr>cmd_channel := [], sched_loop := None\<rparr>"])
           (simp add: startup_work_def timer_fires_def)
    qed
  qed
qed

text \<open>So the start can complete if the events of the timer so far are not enough to get it stuck.\<close>

lemma startup_finishes:
  assumes "startup_inv cmds s" and "timer_fires s \<le> f"
    and "\<And>s. startup_inv cmds s \<Longrightarrow> timer_fires s \<le> f \<Longrightarrow> \<not> stuck s"
  shows "\<exists>s'. (startup_step E)\<^sup>*\<^sup>* s s' \<and> to_send s' = []"
  using assms(1,2)
proof (induction "startup_work s" arbitrary: s rule: less_induct)
  case less
  show ?case
  proof (cases "to_send s = []")
    case True
    then show ?thesis by blast
  next
    case False
    from startup_moves [OF less.prems(1) False assms(3) [OF less.prems]] obtain s1 where
      s1: "startup_step E s s1" "startup_work s1 < startup_work s" "timer_fires s1 \<le> timer_fires s" by blast
    from less.hyps [OF s1(2) startup_inv_step [OF s1(1) less.prems(1)]] s1(3) less.prems(2) obtain s' where
      "(startup_step E)\<^sup>*\<^sup>* s1 s'" "to_send s' = []" by auto
    with s1(1) show ?thesis by (meson converse_rtranclp_into_rtranclp)
  qed
qed

section \<open>Counting\<close>

lemma events_split: "sched_loop s = Some sc \<Longrightarrow> length (events sc) = asked_for sc + timer_fires s"
  using sum_length_filter_compl [of "\<lambda>e. ev_trigger_id e = None" "events sc"]
  by (simp add: asked_for_def timer_fires_def)

lemma started_triggers: "length (filter is_trigger_now (startup_commands ts)) = length (filter has_agent_started ts)"
  by (induction ts) (simp_all add: startup_commands_def)

lemma pairs_length: "list_all has_agent_started ts \<Longrightarrow> length (startup_commands ts) = 2 * length ts"
  by (induction ts) (simp_all add: startup_commands_def)

lemma pairs_triggers:
  "list_all has_agent_started ts \<Longrightarrow> startup_commands ts = taken @ rest \<Longrightarrow>
     length (filter is_trigger_now taken) = length taken div 2"
proof (induction ts arbitrary: taken)
  case Nil
  then show ?case by (simp add: startup_commands_def)
next
  case (Cons t ts)
  have eq: "AddTask t # TriggerNow (task_id t) # startup_commands ts = taken @ rest"
    using Cons.prems by (simp add: startup_commands_def)
  show ?case
  proof (cases taken)
    case c1: (Cons a taken1)
    show ?thesis
    proof (cases taken1)
      case c2: (Cons b taken2)
      have "startup_commands ts = taken2 @ rest" using eq c1 c2 by simp
      with Cons eq c1 c2 show ?thesis by auto
    qed (use c1 eq in auto)
  qed simp
qed

lemma stuck_counts:
  assumes "startup_inv (startup_commands ts) s" and "stuck s"
  obtains taken where "startup_commands ts = taken @ cmd_channel s @ to_send s" and "to_send s \<noteq> []"
    and "length (cmd_channel s) = 100" and "length (filter is_trigger_now taken) + timer_fires s = 101"
proof -
  obtain sc where sc: "sched_loop s = Some sc" "waits_to_send sc" using assms(2) by (auto simp: stuck_def)
  obtain taken where "startup_commands ts = taken @ cmd_channel s @ to_send s" "loop_ok taken sc"
    using assms(1) sc(1) by (auto simp: startup_inv_def)
  then show thesis using that [of taken] assms(2) sc events_split [OF sc(1)]
    by (auto simp: stuck_def loop_ok_def waits_to_send_def channel_capacity_def)
qed

lemma completed_counts:
  assumes inv: "startup_inv (startup_commands ts) s" and sent: "to_send s = []" "sched_loop s = Some sc"
    and all: "list_all has_agent_started ts"
  shows "length ts + timer_fires s \<le> 151"
proof -
  obtain taken where taken: "startup_commands ts = taken @ cmd_channel s @ to_send s" "loop_ok taken sc"
    and cap: "length (cmd_channel s) \<le> 100"
    using inv sent(2) by (auto simp: startup_inv_def channel_capacity_def)
  have "2 * length ts \<le> length taken + 100"
    using arg_cong [OF taken(1), of length] sent(1) cap pairs_length [OF all] by simp
  moreover have "length taken div 2 + timer_fires s \<le> 101"
    using taken(2) events_split [OF sent(2)] pairs_triggers [OF all taken(1)]
    by (simp add: loop_ok_def channel_capacity_def)
  ultimately show ?thesis by linarith
qed

lemma lives_on: "(startup_step E)\<^sup>*\<^sup>* s s' \<Longrightarrow> sched_loop s' \<noteq> None \<Longrightarrow> sched_loop s \<noteq> None"
  by (induction rule: converse_rtranclp_induct) (auto elim: startup_stepE)

text \<open>The events of the timer only become more while the scheduler lives.\<close>

lemma fires_step:
  assumes "startup_step E s s'" and "startup_inv cmds s" and "sched_loop s' \<noteq> None"
  shows "timer_fires s \<le> timer_fires s' \<and> sched_loop s \<noteq> None"
  using assms(1)
proof cases
  case (loop_turn sc inp cs orc sc')
  from loop_turn(4) have "\<exists>es. events sc' = events sc @ es"
  proof cases
    case (next_command c)
    then have "loading c" using assms(2) loop_turn(2) by (auto simp: startup_inv_def)
    with command_events loop_turn(6) next_command show ?thesis by blast
  next
    case timer
    with timer_events loop_turn(6) show ?thesis by blast
  next
    case clock_check
    with tick_events loop_turn(6) show ?thesis by fastforce
  qed
  with loop_turn(1,2) show ?thesis by (auto simp: timer_fires_def)
qed (use assms(3) in \<open>auto simp: timer_fires_def\<close>)

lemma fires_grow:
  "(startup_step E)\<^sup>*\<^sup>* s s' \<Longrightarrow> startup_inv cmds s \<Longrightarrow> sched_loop s' \<noteq> None \<Longrightarrow>
     startup_inv cmds s' \<and> timer_fires s \<le> timer_fires s'"
proof (induction rule: converse_rtranclp_induct)
  case base
  then show ?case by simp
next
  case (step s y)
  have "startup_inv cmds s' \<and> timer_fires y \<le> timer_fires s'"
    by (rule step.IH [OF startup_inv_step [OF step(1) step.prems(1)] step.prems(2)])
  moreover have "sched_loop y \<noteq> None \<or> sched_loop s' = None" using lives_on [OF step(2)] by blast
  ultimately show ?case using fires_step [OF step(1) step.prems(1)] step.prems(2) by (meson le_trans)
qed

section \<open>Property\<close>

text \<open>C25. The start of the agent and the fires of its timer.  With at most 100 tasks that fire at the start, less one
  for each fire of the timer meanwhile, the start can always go on to its end, whatever the other tasks are.
  If all tasks fire at the start, it can while they and the fires of the timer are at most 151 together; beyond
  that it never completes with a living scheduler: the scheduler waits for a place for its 101st event, the
  loader for a place for its next command, and nothing will ever read the events.\<close>

theorem startup_completes_upto:
  assumes "(startup_step E)\<^sup>*\<^sup>* (startup_begin ts orc) s"
  shows "(length (filter has_agent_started ts) + timer_fires s \<le> 100 \<longrightarrow>
       (\<exists>s'. (startup_step E)\<^sup>*\<^sup>* s s' \<and> to_send s' = []))
    \<and> (list_all has_agent_started ts \<and> length ts + timer_fires s \<le> 151 \<longrightarrow>
       (\<exists>s'. (startup_step E)\<^sup>*\<^sup>* s s' \<and> to_send s' = []))
    \<and> (list_all has_agent_started ts \<and> 151 < length ts + timer_fires s \<longrightarrow>
       \<not> (\<exists>s'. (startup_step E)\<^sup>*\<^sup>* s s' \<and> to_send s' = [] \<and> sched_loop s' \<noteq> None))"
proof (intro conjI impI)
  let ?cmds = "startup_commands ts"
  note inv = startup_inv_reached [OF assms]
  show "\<exists>s'. (startup_step E)\<^sup>*\<^sup>* s s' \<and> to_send s' = []"
    if few: "length (filter has_agent_started ts) + timer_fires s \<le> 100"
  proof (rule startup_finishes [OF inv order_refl])
    fix y assume y: "startup_inv ?cmds y" "timer_fires y \<le> timer_fires s"
    show "\<not> stuck y"
    proof
      assume "stuck y"
      from stuck_counts [OF y(1) this] obtain taken where
        t: "?cmds = taken @ cmd_channel y @ to_send y" "length (filter is_trigger_now taken) + timer_fires y = 101" .
      have "length (filter is_trigger_now taken) \<le> length (filter has_agent_started ts)"
        unfolding started_triggers [symmetric] t(1) by simp
      with t(2) y(2) few show False by simp
    qed
  qed
  show "\<exists>s'. (startup_step E)\<^sup>*\<^sup>* s s' \<and> to_send s' = []"
    if few: "list_all has_agent_started ts \<and> length ts + timer_fires s \<le> 151"
  proof (rule startup_finishes [OF inv order_refl])
    fix y assume y: "startup_inv ?cmds y" "timer_fires y \<le> timer_fires s"
    have all: "list_all has_agent_started ts" using few ..
    show "\<not> stuck y"
    proof
      assume "stuck y"
      from stuck_counts [OF y(1) this] obtain taken where
        t: "?cmds = taken @ cmd_channel y @ to_send y" "to_send y \<noteq> []" "length (cmd_channel y) = 100"
          "length (filter is_trigger_now taken) + timer_fires y = 101" .
      have "2 * length ts = length taken + 100 + length (to_send y)"
        using arg_cong [OF t(1), of length] t(3) pairs_length [OF all] by simp
      moreover have "0 < length (to_send y)" using t(2) by simp
      ultimately show False using pairs_triggers [OF all t(1)] t(4) y(2) few by linarith
    qed
  qed
  show "\<not> (\<exists>s'. (startup_step E)\<^sup>*\<^sup>* s s' \<and> to_send s' = [] \<and> sched_loop s' \<noteq> None)"
    if many: "list_all has_agent_started ts \<and> 151 < length ts + timer_fires s"
  proof
    assume "\<exists>s'. (startup_step E)\<^sup>*\<^sup>* s s' \<and> to_send s' = [] \<and> sched_loop s' \<noteq> None"
    then obtain s' sc where s': "(startup_step E)\<^sup>*\<^sup>* s s'" "to_send s' = []" "sched_loop s' = Some sc" by blast
    with fires_grow [OF s'(1) inv] have "startup_inv ?cmds s'" "timer_fires s \<le> timer_fires s'" by simp_all
    with completed_counts [OF this(1) s'(2,3)] many show False by simp
  qed
qed

text \<open>
  Witnesses: 152 tasks never get through; 151 can at first, and cannot any more after one fire of the timer,
  here of the one-shot trigger of the first task.
\<close>

definition started_trigger :: trigger where
  "started_trigger = demo_trigger\<lparr>trigger_id := TriggerId 3, trigger_kind := AgentStarted\<rparr>"

definition boot_task :: task where
  "boot_task = demo_task\<lparr>triggers := [demo_trigger, started_trigger]\<rparr>"

definition boot_loop :: "sched" where
  "boot_loop = (initial_sched (demo_at 0))\<lparr>
     queue := \<lparr>heap = [hd demo_items], generations = [TaskId 7 \<mapsto> 2]\<rparr>, registered_tasks := [(TaskId 7, boot_task)]\<rparr>"

lemma boots: "list_all has_agent_started (replicate n boot_task)"
  by (induction n) (simp_all add: has_agent_started_def boot_task_def started_trigger_def demo_trigger_def)

lemma boot_added: "sched_turn utc_env (demo_at 0) (Received (AddTask boot_task)) (initial_sched (demo_at 0)) = Ret boot_loop"
proof -
  have "(initial_sched (demo_at 0))\<lparr>queue := snd (peek_valid (queue (initial_sched (demo_at 0))))\<rparr>
      = initial_sched (demo_at 0)"
    by (simp add: initial_sched_def peek_valid_def empty_queue_def demo_peek)
  moreover have "handle_add_task utc_env (demo_at 0) boot_task (initial_sched (demo_at 0)) = Ret boot_loop"
    by (simp add: handle_add_task_def boot_loop_def boot_task_def started_trigger_def demo_defs evaluations_def
        bump_generation_def queue_push_def or_insert_def heap_push_def Let_def sec_ns_def)
  ultimately show ?thesis by (simp add: sched_turn_def)
qed

lemma boot_peek: "peek_valid (queue boot_loop) = (Some (hd demo_items), queue boot_loop)"
proof -
  have "peek_loop (is_valid (queue boot_loop)) (heap (queue boot_loop)) = (Some (hd demo_items), heap (queue boot_loop))"
    by (subst peek_loop.simps) (simp add: boot_loop_def demo_items_def is_valid_def)
  then show ?thesis by (simp add: peek_valid_def)
qed

lemma boot_fires: "\<exists>sc. sched_turn utc_env (demo_at (10 * sec_ns)) TimerElapsed boot_loop = Ret sc
   \<and> length (filter (\<lambda>e. ev_trigger_id e \<noteq> None) (events sc)) = 1"
proof -
  have pop: "queue_pop (queue boot_loop) = (Some (hd demo_items), (queue boot_loop)\<lparr>heap := []\<rparr>)"
    by (rule demo_pop_loop) (simp_all add: boot_loop_def demo_items_def is_valid_def)
  have "handle_timer utc_env (demo_at (10 * sec_ns)) boot_loop = Ret (boot_loop\<lparr>queue := (queue boot_loop)\<lparr>heap := []\<rparr>,
     events := [\<lparr>ev_task_id = TaskId 7, ev_trigger_id = Some (TriggerId 1), ev_scheduled_at = 10 * sec_ns\<rparr>]\<rparr>)"
    unfolding handle_timer_def pop
    by (simp add: requeue_def evaluations_def current_generation_def boot_loop_def boot_task_def demo_defs)
  then show ?thesis by (simp add: sched_turn_def boot_peek)
qed

lemma boot_commands: "startup_commands (boot_task # replicate n boot_task)
     = AddTask boot_task # TriggerNow (TaskId 7) # startup_commands (replicate n boot_task)"
  using boots [of "Suc 0"] by (simp add: startup_commands_def, simp add: boot_task_def demo_task_def)

lemma boot_timer: "\<exists>s. (startup_step utc_env)\<^sup>*\<^sup>* (startup_begin (boot_task # replicate n boot_task) (demo_at 0)) s \<and> timer_fires s = 1"
proof -
  let ?s0 = "startup_begin (boot_task # replicate n boot_task) (demo_at 0)"
  let ?cs = "TriggerNow (TaskId 7) # startup_commands (replicate n boot_task)"
  let ?s1 = "?s0\<lparr>to_send := ?cs, cmd_channel := [AddTask boot_task]\<rparr>"
  let ?s2 = "?s1\<lparr>cmd_channel := [], sched_loop := Some boot_loop\<rparr>"
  obtain sc where sc: "sched_turn utc_env (demo_at (10 * sec_ns)) TimerElapsed boot_loop = Ret sc"
    "length (filter (\<lambda>e. ev_trigger_id e \<noteq> None) (events sc)) = 1" using boot_fires by blast
  let ?s3 = "?s2\<lparr>cmd_channel := cmd_channel ?s2, sched_loop := Some sc\<rparr>"
  have free: "\<not> waits_to_send (initial_sched orc)" "\<not> waits_to_send boot_loop" for orc
    by (simp_all add: waits_to_send_def initial_sched_def boot_loop_def)
  have en: "enabled_input (Received (AddTask boot_task)) (initial_sched orc)" "enabled_input TimerElapsed boot_loop" for orc
    by (simp_all add: enabled_input_def boot_peek, simp_all add: initial_sched_def boot_loop_def)
  have "startup_step utc_env ?s0 ?s1"
    using send_cmd [of ?s0 "AddTask boot_task" ?cs] by (simp add: startup_begin_def boot_commands channel_capacity_def)
  moreover have "startup_step utc_env ?s1 ?s2"
    by (rule loop_turn [OF _ free(1) next_command en(1) boot_added]) (simp_all add: startup_begin_def)
  moreover have "startup_step utc_env ?s2 ?s3" by (rule loop_turn [OF _ free(2) timer en(2) sc(1)]) simp
  ultimately have "(startup_step utc_env)\<^sup>*\<^sup>* ?s0 ?s3" by (meson converse_rtranclp_into_rtranclp r_into_rtranclp)
  moreover have "timer_fires ?s3 = 1" using sc(2) by (simp add: timer_fires_def)
  ultimately show ?thesis by blast
qed

lemma startup_completes_upto_witness:
  "\<exists>s. (startup_step utc_env)\<^sup>*\<^sup>* (startup_begin (replicate 151 boot_task) (demo_at 0)) s \<and> timer_fires s = 1
     \<and> (\<exists>s'. (startup_step utc_env)\<^sup>*\<^sup>* (startup_begin (replicate 151 boot_task) (demo_at 0)) s' \<and> to_send s' = [])
     \<and> \<not> (\<exists>s'. (startup_step utc_env)\<^sup>*\<^sup>* s s' \<and> to_send s' = [] \<and> sched_loop s' \<noteq> None)"
proof -
  let ?b = "startup_begin (replicate 151 boot_task) (demo_at 0)"
  have "timer_fires ?b = 0" by (simp add: timer_fires_def startup_begin_def initial_sched_def)
  then have "\<exists>s'. (startup_step utc_env)\<^sup>*\<^sup>* ?b s' \<and> to_send s' = []"
    using startup_completes_upto [OF rtranclp.rtrancl_refl, of "replicate 151 boot_task" "demo_at 0" utc_env] boots by simp
  moreover have "boot_task # replicate 150 boot_task = replicate 151 boot_task" by (simp flip: replicate_Suc)
  then obtain s where s: "(startup_step utc_env)\<^sup>*\<^sup>* ?b s" "timer_fires s = 1" using boot_timer [of 150] by metis
  moreover have "\<not> (\<exists>s'. (startup_step utc_env)\<^sup>*\<^sup>* s s' \<and> to_send s' = [] \<and> sched_loop s' \<noteq> None)"
    using startup_completes_upto [OF s(1)] boots [of 151] s(2) by simp
  ultimately show ?thesis by blast
qed

end
