(* ===== verification/Ipc_Server.thy ===== *)
theory Ipc_Server
  imports Protocol "HOL-Library.AList"
begin

text \<open>
  The IPC server of \<^verbatim>\<open>crates/ipc/src/server.rs\<close>: connections with their bounded queues of outgoing frames,
  the relay that copies broadcast events into them, and the reader of each connection.  Sockets, pipes and
  tokio's channels are the inputs of a step function: what \<open>event_rx.recv\<close> returns is an argument.
\<close>

section \<open>State\<close>

definition CLIENT_QUEUE :: nat where
  "CLIENT_QUEUE = 256"

text \<open>The queue of a connection: its writer takes frames from the front until it is aborted.\<close>

record client_chan =
  queued :: "json list"
  writer_alive :: bool

record ipc_server =
  clients :: "nat list"
  channels :: "(nat \<times> client_chan) list"
  next_client_id :: nat
  relay_alive :: bool
  handled :: "(nat \<times> ipc_request) list"

definition new_server :: ipc_server where
  "new_server = \<lparr>clients = [], channels = [], next_client_id = 1, relay_alive = True, handled = []\<rparr>"

definition chan_of :: "ipc_server \<Rightarrow> nat \<Rightarrow> client_chan option" where
  "chan_of s i = map_of (channels s) i"

section \<open>The relay\<close>

datatype try_send = SentOk client_chan | SendClosed | SendFull

definition try_send_frame :: "json \<Rightarrow> client_chan \<Rightarrow> try_send" where
  "try_send_frame f c =
     (if \<not> writer_alive c then SendClosed
      else if CLIENT_QUEUE \<le> length (queued c) then SendFull
      else SentOk (c\<lparr>queued := queued c @ [f]\<rparr>))"

text \<open>The loop over the senders: the new channels and the dead clients.\<close>

fun send_to_all ::
  "json \<Rightarrow> nat list \<Rightarrow> (nat \<times> client_chan) list \<Rightarrow> nat list \<Rightarrow> (nat \<times> client_chan) list \<times> nat list" where
  "send_to_all f [] chans dead = (chans, dead)"
| "send_to_all f (i # is) chans dead =
     (case map_of chans i of
        None \<Rightarrow> send_to_all f is chans (dead @ [i])
      | Some c \<Rightarrow>
          (case try_send_frame f c of
             SentOk c' \<Rightarrow> send_to_all f is (AList.update i c' chans) dead
           | SendClosed \<Rightarrow> send_to_all f is chans (dead @ [i])
           | SendFull \<Rightarrow> send_to_all f is chans dead))"

definition relay_event :: "ipc_event \<Rightarrow> ipc_server \<Rightarrow> ipc_server" where
  "relay_event e s =
     (let (chans, dead) = send_to_all (event_to_json e) (clients s) (channels s) []
      in s\<lparr>channels := chans, clients := filter (\<lambda>i. i \<notin> set dead) (clients s)\<rparr>)"

datatype recv_result = RecvOk ipc_event | RecvLagged nat | RecvClosed

text \<open>\<open>while let Ok(event) = event_rx.recv().await\<close>\<close>

definition relay_step :: "recv_result \<Rightarrow> ipc_server \<Rightarrow> ipc_server" where
  "relay_step r s =
     (if relay_alive s
      then (case r of RecvOk e \<Rightarrow> relay_event e s | _ \<Rightarrow> s\<lparr>relay_alive := False\<rparr>)
      else s)"

section \<open>Connections\<close>

definition connect :: "ipc_server \<Rightarrow> ipc_server" where
  "connect s =
     (let i = next_client_id s
      in s\<lparr>next_client_id := i + 1, clients := clients s @ [i],
           channels := AList.update i \<lparr>queued = [], writer_alive = True\<rparr> (channels s)\<rparr>)"

text \<open>A line of a client: a request is given to a handler task of its own, anything else is only logged.\<close>

definition read_line :: "nat \<Rightarrow> json option \<Rightarrow> ipc_server \<Rightarrow> ipc_server" where
  "read_line i line s =
     (case Option.bind line request_of_json of
        Some req \<Rightarrow> s\<lparr>handled := handled s @ [(i, req)]\<rparr>
      | None \<Rightarrow> s)"

text \<open>The handler's \<open>tx.send\<close>: it waits while the queue is full and fails when the writer is gone.\<close>

definition can_respond :: "nat \<Rightarrow> ipc_server \<Rightarrow> bool" where
  "can_respond i s \<longleftrightarrow>
     (case chan_of s i of None \<Rightarrow> True | Some c \<Rightarrow> writer_alive c \<longrightarrow> length (queued c) < CLIENT_QUEUE)"

definition respond :: "nat \<Rightarrow> ipc_response \<Rightarrow> ipc_server \<Rightarrow> ipc_server" where
  "respond i r s =
     (case chan_of s i of
        None \<Rightarrow> s
      | Some c \<Rightarrow>
          if writer_alive c
          then s\<lparr>channels := AList.update i (c\<lparr>queued := queued c @ [response_to_json r]\<rparr>) (channels s)\<rparr>
          else s)"

text \<open>The writer sends a frame, or ends when the socket fails.\<close>

definition write_frame :: "nat \<Rightarrow> bool \<Rightarrow> ipc_server \<Rightarrow> ipc_server" where
  "write_frame i ok s =
     (case chan_of s i of
        None \<Rightarrow> s
      | Some c \<Rightarrow>
          s\<lparr>channels := AList.update i
              (if ok then c\<lparr>queued := tl (queued c)\<rparr> else c\<lparr>queued := tl (queued c), writer_alive := False\<rparr>)
              (channels s)\<rparr>)"

text \<open>The end of a connection's reader, at end of file or on an error.\<close>

definition disconnect :: "nat \<Rightarrow> ipc_server \<Rightarrow> ipc_server" where
  "disconnect i s =
     s\<lparr>clients := filter (\<lambda>j. j \<noteq> i) (clients s),
       channels := (case chan_of s i of
                      None \<Rightarrow> channels s
                    | Some c \<Rightarrow> AList.update i (c\<lparr>writer_alive := False\<rparr>) (channels s))\<rparr>"

section \<open>Runs\<close>

datatype server_input =
    Received recv_result
  | Accepted
  | Line nat "json option"
  | Responded nat ipc_response
  | Written nat bool
  | Ended nat

fun server_step :: "server_input \<Rightarrow> ipc_server \<Rightarrow> ipc_server" where
  "server_step (Received r) s = relay_step r s"
| "server_step Accepted s = connect s"
| "server_step (Line i l) s = read_line i l s"
| "server_step (Responded i r) s = (if can_respond i s then respond i r s else s)"
| "server_step (Written i ok) s = write_frame i ok s"
| "server_step (Ended i) s = disconnect i s"

definition server_run :: "server_input list \<Rightarrow> ipc_server \<Rightarrow> ipc_server" where
  "server_run ins s = fold server_step ins s"

section \<open>Facts\<close>

definition fate :: "json \<Rightarrow> client_chan \<Rightarrow> client_chan" where
  "fate f c = (case try_send_frame f c of SentOk c' \<Rightarrow> c' | _ \<Rightarrow> c)"

lemma send_to_all_spec:
  assumes "distinct is" and "send_to_all f is chans dead = (chans', dead')"
  shows "map_of chans' i = (if i \<in> set is then map_option (fate f) (map_of chans i) else map_of chans i)"
    and "set dead' = set dead \<union> {i \<in> set is. case map_of chans i of None \<Rightarrow> True | Some c \<Rightarrow> \<not> writer_alive c}"
proof -
  have "(\<forall>i. map_of chans' i = (if i \<in> set is then map_option (fate f) (map_of chans i) else map_of chans i))
    \<and> set dead' = set dead \<union> {i \<in> set is. case map_of chans i of None \<Rightarrow> True | Some c \<Rightarrow> \<not> writer_alive c}"
    using assms
  proof (induction "is" arbitrary: chans dead)
    case Nil
    then show ?case by simp
  next
    case (Cons k ks)
    show ?case
    proof (cases "map_of chans k")
      case None
      with Cons show ?thesis by (auto split: option.splits)
    next
      case (Some c)
      show ?thesis
      proof (cases "try_send_frame f c")
        case (SentOk c')
        have alive: "writer_alive c" using SentOk by (auto simp: try_send_frame_def split: if_splits)
        have "send_to_all f ks (AList.update k c' chans) dead = (chans', dead')"
          using Cons.prems Some SentOk by simp
        moreover have "fate f c = c'" using SentOk by (simp add: fate_def)
        ultimately show ?thesis using Cons.IH [of "AList.update k c' chans" dead] Cons.prems(1) Some alive
          by (auto simp: update_conv' split: option.splits)
      next
        case SendClosed
        have "\<not> writer_alive c" using SendClosed by (auto simp: try_send_frame_def split: if_splits)
        moreover have "fate f c = c" using SendClosed by (simp add: fate_def)
        ultimately show ?thesis using Cons Some SendClosed by (auto split: option.splits)
      next
        case SendFull
        have "writer_alive c" using SendFull by (auto simp: try_send_frame_def split: if_splits)
        moreover have "fate f c = c" using SendFull by (simp add: fate_def)
        ultimately show ?thesis using Cons Some SendFull by (auto split: option.splits)
      qed
    qed
  qed
  then show "map_of chans' i = (if i \<in> set is then map_option (fate f) (map_of chans i) else map_of chans i)"
    and "set dead' = set dead \<union> {i \<in> set is. case map_of chans i of None \<Rightarrow> True | Some c \<Rightarrow> \<not> writer_alive c}"
    by blast+
qed

text \<open>Client ids are never reused, and every registered client has its channel.\<close>

definition server_inv :: "ipc_server \<Rightarrow> bool" where
  "server_inv s \<longleftrightarrow> distinct (clients s) \<and> (\<forall>i \<in> set (clients s). i < next_client_id s)
     \<and> (\<forall>i \<in> set (clients s). chan_of s i \<noteq> None) \<and> (\<forall>i. chan_of s i \<noteq> None \<longrightarrow> i < next_client_id s)
     \<and> (\<forall>i c. chan_of s i = Some c \<longrightarrow> length (queued c) \<le> CLIENT_QUEUE)"

lemma fate_length: "length (queued c) \<le> CLIENT_QUEUE \<Longrightarrow> length (queued (fate f c)) \<le> CLIENT_QUEUE"
  by (auto simp: fate_def try_send_frame_def)

lemma relay_event_inv:
  assumes "server_inv s" shows "server_inv (relay_event e s)"
proof -
  obtain chans dead where r: "send_to_all (event_to_json e) (clients s) (channels s) [] = (chans, dead)" by fastforce
  have d: "distinct (clients s)" using assms by (simp add: server_inv_def)
  note spec = send_to_all_spec(1) [OF d r]
  show ?thesis using assms
    by (auto simp: relay_event_def r server_inv_def chan_of_def spec fate_length)
qed

lemma server_step_inv:
  assumes "server_inv s" shows "server_inv (server_step x s)"
proof (cases x)
  case (Received r)
  then show ?thesis using assms relay_event_inv [OF assms]
    by (auto simp: relay_step_def server_inv_def chan_of_def split: recv_result.splits)
next
  case Accepted
  then show ?thesis using assms
    by (auto simp: connect_def Let_def server_inv_def chan_of_def update_conv' less_Suc_eq split: if_splits)
next
  case (Line i l)
  then show ?thesis using assms by (simp add: read_line_def server_inv_def chan_of_def split: option.splits)
next
  case (Responded i r)
  then show ?thesis using assms
    by (auto simp: respond_def can_respond_def server_inv_def chan_of_def update_conv' split: option.splits if_splits)
next
  case (Written i ok)
  then show ?thesis using assms
    by (fastforce simp: write_frame_def server_inv_def chan_of_def update_conv' split: option.splits if_splits)
next
  case (Ended i)
  then show ?thesis using assms
    by (auto simp: disconnect_def server_inv_def chan_of_def update_conv' split: option.splits if_splits)
qed

lemma new_server_inv: "server_inv new_server"
  by (simp add: server_inv_def new_server_def chan_of_def)

lemma server_run_inv: "server_inv s \<Longrightarrow> server_inv (server_run ins s)"
  unfolding server_run_def by (induction ins arbitrary: s) (simp_all add: server_step_inv)

end
