(* ===== verification/Ipc_Client.thy ===== *)
theory Ipc_Client
  imports Protocol
begin

text \<open>
  The IPC client of \<^verbatim>\<open>crates/ipc/src/client.rs\<close>: concurrent calls over one connection, whose answers the
  reader task hands over through a map of pending calls.  Every access to the map is one step of an
  interleaving; a call is where it stands between its registration and its result.
\<close>

section \<open>State\<close>

datatype call_state =
    Registered
  | Waiting
  | Answered ipc_response
  | SenderDropped
  | TimerElapsed
  | Finished "error + json"

record ipc_client =
  pending_responses :: "string set"
  calls :: "string \<rightharpoonup> call_state"
  reader_running :: bool
  responses_read :: "ipc_response list"
  events_read :: "ipc_event list"

definition new_client :: ipc_client where
  "new_client = \<lparr>pending_responses = {}, calls = Map.empty, reader_running = True,
                 responses_read = [], events_read = []\<rparr>"

section \<open>Results\<close>

definition call_result :: "ipc_response \<Rightarrow> error + json" where
  "call_result r =
     (if response_ok r then Inr (case response_data r of Some v \<Rightarrow> v | None \<Rightarrow> JNull)
      else Inl (Other (case response_error r of Some msg \<Rightarrow> msg | None \<Rightarrow> ''IPC error'')))"

text \<open>The reader on one frame: a response goes to its pending call, if any, and an event to the subscribers.\<close>

definition hand_over :: "ipc_response \<Rightarrow> ipc_client \<Rightarrow> ipc_client" where
  "hand_over r s =
     (let i = response_id r; s = s\<lparr>responses_read := responses_read s @ [r]\<rparr>
      in if i \<in> pending_responses s
         then s\<lparr>pending_responses := pending_responses s - {i},
                calls := (case calls s i of
                            Some Registered \<Rightarrow> (calls s)(i \<mapsto> Answered r)
                          | Some Waiting \<Rightarrow> (calls s)(i \<mapsto> Answered r)
                          | _ \<Rightarrow> calls s)\<rparr>
         else s)"

definition read_frame :: "json option \<Rightarrow> ipc_client \<Rightarrow> ipc_client" where
  "read_frame line s =
     (case Option.bind line response_of_json of
        Some r \<Rightarrow> hand_over r s
      | None \<Rightarrow>
          (case Option.bind line event_of_json of
             Some e \<Rightarrow> s\<lparr>events_read := events_read s @ [e]\<rparr>
           | None \<Rightarrow> s))"

text \<open>The end of the reader: the map is cleared, which drops the senders of the calls that still wait.\<close>

definition reader_ends :: "ipc_client \<Rightarrow> ipc_client" where
  "reader_ends s =
     s\<lparr>reader_running := False, pending_responses := {},
       calls := (\<lambda>i. case calls s i of
                       Some Registered \<Rightarrow> if i \<in> pending_responses s then Some SenderDropped else Some Registered
                     | Some Waiting \<Rightarrow> if i \<in> pending_responses s then Some SenderDropped else Some Waiting
                     | c \<Rightarrow> c)\<rparr>"

definition forget_call :: "string \<Rightarrow> error + json \<Rightarrow> ipc_client \<Rightarrow> ipc_client" where
  "forget_call i res s =
     s\<lparr>pending_responses := pending_responses s - {i}, calls := (calls s)(i \<mapsto> Finished res)\<rparr>"

section \<open>Steps\<close>

text \<open>
  A call registers under a fresh id, sends its request or fails to, and then waits for the first of its
  answer, the drop of its sender, and its timer; \<open>msg\<close> is the text of the failure.
\<close>

inductive client_step :: "ipc_client \<Rightarrow> ipc_client \<Rightarrow> bool" where
  begin_call: "calls s i = None \<Longrightarrow>
     client_step s (s\<lparr>pending_responses := insert i (pending_responses s), calls := (calls s)(i \<mapsto> Registered)\<rparr>)"
| sent: "calls s i = Some Registered \<Longrightarrow> client_step s (s\<lparr>calls := (calls s)(i \<mapsto> Waiting)\<rparr>)"
| not_sent: "calls s i \<in> {Some Registered, Some SenderDropped} \<Longrightarrow>
     client_step s (forget_call i (Inl (Other (''Failed to send IPC request: '' @ msg))) s)"
| frame: "reader_running s \<Longrightarrow> client_step s (read_frame line s)"
| reader_stops: "reader_running s \<Longrightarrow> client_step s (reader_ends s)"
| answered: "calls s i = Some (Answered r) \<Longrightarrow>
     client_step s (s\<lparr>calls := (calls s)(i \<mapsto> Finished (call_result r))\<rparr>)"
| dropped: "calls s i = Some SenderDropped \<Longrightarrow>
     client_step s (forget_call i (Inl (Other (''IPC response channel closed: '' @ msg))) s)"
| timer: "calls s i = Some Waiting \<Longrightarrow> client_step s (s\<lparr>calls := (calls s)(i \<mapsto> TimerElapsed)\<rparr>)"
| timed_out: "calls s i = Some TimerElapsed \<Longrightarrow>
     client_step s (forget_call i (Inl (Other (''IPC request timed out after '' @ msg))) s)"

inductive client_reach :: "ipc_client \<Rightarrow> bool" where
  client_start: "client_reach new_client"
| client_next: "client_reach s \<Longrightarrow> client_step s s' \<Longrightarrow> client_reach s'"

section \<open>Invariant\<close>

definition open_call :: "call_state \<Rightarrow> bool" where
  "open_call c \<longleftrightarrow> c = Registered \<or> c = Waiting \<or> c = TimerElapsed"

definition answers_ok :: "ipc_client \<Rightarrow> bool" where
  "answers_ok s \<longleftrightarrow>
     (\<forall>i r. calls s i = Some (Answered r) \<longrightarrow> response_id r = i \<and> r \<in> set (responses_read s))
     \<and> (\<forall>i v. calls s i = Some (Finished (Inr v)) \<longrightarrow>
          (\<exists>r \<in> set (responses_read s). response_id r = i \<and> response_ok r \<and> call_result r = Inr v))"

definition pending_ok :: "ipc_client \<Rightarrow> bool" where
  "pending_ok s \<longleftrightarrow>
     (\<forall>i \<in> pending_responses s. \<exists>c. calls s i = Some c \<and> open_call c)
     \<and> (reader_running s \<longrightarrow> (\<forall>i. calls s i \<in> {Some Registered, Some Waiting} \<longrightarrow> i \<in> pending_responses s))"

definition client_inv :: "ipc_client \<Rightarrow> bool" where
  "client_inv s \<longleftrightarrow> answers_ok s \<and> pending_ok s"

lemma call_result_Inr: "call_result r = Inr v \<Longrightarrow> response_ok r"
  by (auto simp: call_result_def split: if_splits)

text \<open>Handing over changes the calls at one id only.\<close>

lemma hand_over_simps:
  "responses_read (hand_over r s) = responses_read s @ [r]"
  "reader_running (hand_over r s) = reader_running s"
  "pending_responses (hand_over r s) = pending_responses s - {response_id r}"
  "i \<noteq> response_id r \<Longrightarrow> calls (hand_over r s) i = calls s i"
  by (auto simp: hand_over_def Let_def split: option.splits call_state.splits)

lemma hand_over_call:
  "calls (hand_over r s) (response_id r) =
     (if response_id r \<in> pending_responses s \<and> calls s (response_id r) \<in> {Some Registered, Some Waiting}
      then Some (Answered r) else calls s (response_id r))"
  by (auto simp: hand_over_def Let_def split: option.splits call_state.splits)

lemma hand_over_calls:
  "calls (hand_over r s) i =
     (if i = response_id r \<and> i \<in> pending_responses s \<and> calls s i \<in> {Some Registered, Some Waiting}
      then Some (Answered r) else calls s i)"
  using hand_over_call [of r s] hand_over_simps(4) [of i r s] by (cases "i = response_id r") (auto split: if_splits)

lemma hand_over_inv:
  assumes "client_inv s" shows "client_inv (hand_over r s)"
proof -
  have "answers_ok (hand_over r s)"
    using assms by (fastforce simp: client_inv_def answers_ok_def hand_over_calls hand_over_simps split: if_splits)
  moreover have "pending_ok (hand_over r s)"
    using assms unfolding client_inv_def pending_ok_def hand_over_calls hand_over_simps by auto
  ultimately show ?thesis by (simp add: client_inv_def)
qed

lemma read_frame_inv:
  assumes "client_inv s" shows "client_inv (read_frame line s)"
proof (cases "Option.bind line response_of_json")
  case None
  with assms show ?thesis
    by (simp add: read_frame_def client_inv_def answers_ok_def pending_ok_def split: option.splits)
next
  case (Some r)
  with hand_over_inv [OF assms] show ?thesis by (simp add: read_frame_def)
qed

lemma reader_ends_calls:
  "calls (reader_ends s) i =
     (if i \<in> pending_responses s \<and> calls s i \<in> {Some Registered, Some Waiting} then Some SenderDropped else calls s i)"
  by (auto simp: reader_ends_def split: option.splits call_state.splits)

lemma reader_ends_inv:
  assumes "client_inv s" shows "client_inv (reader_ends s)"
proof -
  have s: "responses_read (reader_ends s) = responses_read s" "pending_responses (reader_ends s) = {}"
    "reader_running (reader_ends s) = False" by (simp_all add: reader_ends_def)
  show ?thesis
    using assms unfolding client_inv_def answers_ok_def pending_ok_def reader_ends_calls s by auto
qed

lemma forget_call_inv:
  "client_inv s \<Longrightarrow> client_inv (forget_call i (Inl e) s)"
  by (auto simp: client_inv_def answers_ok_def pending_ok_def forget_call_def)

lemma client_step_inv:
  assumes "client_step s s'" and "client_inv s"
  shows "client_inv s'"
  using assms(1)
proof cases
  case (begin_call i)
  then show ?thesis using assms(2)
    by (auto simp: client_inv_def answers_ok_def pending_ok_def open_call_def split: if_splits)
next
  case (sent i)
  then show ?thesis using assms(2)
    by (auto simp: client_inv_def answers_ok_def pending_ok_def open_call_def split: if_splits)
next
  case (answered i r)
  then show ?thesis using assms(2) call_result_Inr [of r]
    by (fastforce simp: client_inv_def answers_ok_def pending_ok_def open_call_def split: if_splits)
next
  case (timer i)
  then show ?thesis using assms(2)
    by (auto simp: client_inv_def answers_ok_def pending_ok_def open_call_def split: if_splits)
qed (use assms(2) in \<open>simp_all add: forget_call_inv read_frame_inv reader_ends_inv\<close>)

lemma client_reach_inv: "client_reach s \<Longrightarrow> client_inv s"
  by (induction rule: client_reach.induct)
     (auto simp: client_step_inv, simp add: client_inv_def answers_ok_def pending_ok_def new_client_def)

end
