(* ===== verification/Ipc_Props.thy ===== *)
theory Ipc_Props
  imports Ipc_Server Ipc_Client
begin

text \<open>
  What the IPC layer guarantees: frames are told apart and read back, events reach every open client
  independently of the others, calls get their own answers and leave nothing pending; and what a lag of
  the relay does to all clients.
\<close>

section \<open>Frames\<close>

text \<open>The frames of the protocol are read back as they were written, responses and events are never taken
  for each other by the client's reader, and what a call returns does not change on the way.\<close>

theorem frames_are_told_apart:
  "request_of_json (request_to_json q) = Some q
    \<and> response_of_json (event_to_json e) = None \<and> event_of_json (event_to_json e) = Some e
    \<and> (\<exists>r'. response_of_json (response_to_json r) = Some r' \<and> response_id r' = response_id r
          \<and> call_result r' = call_result r)
    \<and> read_frame (Some (event_to_json e)) s = s\<lparr>events_read := events_read s @ [e]\<rparr>"
  by (auto simp: read_back_def call_result_def read_frame_def)

section \<open>Events\<close>

text \<open>C23. An event that the relay receives reaches every registered client whose queue has room, at the end of
  its queue; a full queue loses this frame only, a client whose writer is gone is unregistered, and no client's
  fate depends on another's.\<close>

theorem event_reaches_every_open_client:
  assumes "s = server_run ins new_server" and "relay_alive s" and "i \<in> set (clients s)"
    and "chan_of s i = Some c"
  shows "chan_of (server_step (Received (RecvOk e)) s) i =
      Some (if writer_alive c \<and> length (queued c) < CLIENT_QUEUE
            then c\<lparr>queued := queued c @ [event_to_json e]\<rparr> else c)
    \<and> (i \<in> set (clients (server_step (Received (RecvOk e)) s)) \<longleftrightarrow> writer_alive c)"
proof -
  obtain chans dead where r: "send_to_all (event_to_json e) (clients s) (channels s) [] = (chans, dead)" by fastforce
  have inv: "server_inv s" unfolding assms(1) by (rule server_run_inv [OF new_server_inv])
  then have d: "distinct (clients s)" by (simp add: server_inv_def)
  have c: "map_of (channels s) i = Some c" using assms(4) by (simp add: chan_of_def)
  have step: "server_step (Received (RecvOk e)) s =
      s\<lparr>channels := chans, clients := filter (\<lambda>j. j \<notin> set dead) (clients s)\<rparr>"
    using assms(2) r by (simp add: relay_step_def relay_event_def)
  have "fate (event_to_json e) c = (if writer_alive c \<and> length (queued c) < CLIENT_QUEUE
      then c\<lparr>queued := queued c @ [event_to_json e]\<rparr> else c)"
    by (simp add: fate_def try_send_frame_def)
  then show ?thesis
    unfolding step using send_to_all_spec [OF d r] assms(3) c by (simp add: chan_of_def)
qed

definition one_client :: ipc_server where
  "one_client = server_run [Accepted] new_server"

lemma event_reaches_every_open_client_witness:
  "chan_of (server_step (Received (RecvOk (event_new ''execution.started'' JNull))) one_client) 1 =
     Some \<lparr>queued = [event_to_json (event_new ''execution.started'' JNull)], writer_alive = True\<rparr>"
  using event_reaches_every_open_client [of one_client "[Accepted]" 1 "\<lparr>queued = [], writer_alive = True\<rparr>"
      "event_new ''execution.started'' JNull"]
  by (simp add: one_client_def server_run_def connect_def Let_def new_server_def chan_of_def CLIENT_QUEUE_def)

fun is_received :: "server_input \<Rightarrow> bool" where
  "is_received (Received r) = True"
| "is_received _ = False"

lemma dead_relay_step: "\<not> relay_alive s \<Longrightarrow> \<not> relay_alive (server_step x s)"
  by (cases x)
     (auto simp: relay_step_def connect_def Let_def read_line_def respond_def write_frame_def disconnect_def
        split: option.splits)

lemma dead_relay_run:
  "\<not> relay_alive s \<Longrightarrow> server_run ins s = server_run (filter (\<lambda>x. \<not> is_received x) ins) s"
  unfolding server_run_def
proof (induction ins arbitrary: s)
  case Nil
  then show ?case by simp
next
  case (Cons x ins)
  show ?case
  proof (cases "is_received x")
    case True
    then obtain r where "x = Received r" by (cases x) auto
    then have "server_step x s = s" using Cons.prems by (simp add: relay_step_def)
    with Cons True show ?thesis by simp
  next
    case False
    with Cons dead_relay_step [OF Cons.prems, of x] show ?thesis by simp
  qed
qed

text \<open>Once the relay has lagged behind the broadcast channel, the server goes on for all connections, old and
  new, as if no event were ever sent again.\<close>

theorem lagged_relay_is_dead:
  "server_run ins (server_step (Received (RecvLagged n)) s)
    = server_run (filter (\<lambda>x. \<not> is_received x) ins) (server_step (Received (RecvLagged n)) s)"
  by (rule dead_relay_run) (simp add: relay_step_def)

section \<open>Calls\<close>

text \<open>In every interleaving of concurrent calls, of frames in any order and of the end of the connection, a
  call that succeeds returns the data of a successful response that carried its own id; and when no call is
  under way, the map of pending responses is empty, whichever way the calls ended.\<close>

theorem calls_get_their_own_answers:
  assumes "client_reach s"
  shows "(\<forall>i v. calls s i = Some (Finished (Inr v)) \<longrightarrow>
        (\<exists>r \<in> set (responses_read s). response_id r = i \<and> response_ok r \<and> call_result r = Inr v))
    \<and> ((\<forall>i c. calls s i = Some c \<longrightarrow> \<not> open_call c) \<longrightarrow> pending_responses s = {})"
proof -
  have inv: "client_inv s" by (rule client_reach_inv [OF assms])
  then have "\<forall>i \<in> pending_responses s. \<exists>c. calls s i = Some c \<and> open_call c"
    by (simp add: client_inv_def pending_ok_def)
  moreover from inv have "\<forall>i v. calls s i = Some (Finished (Inr v)) \<longrightarrow>
        (\<exists>r \<in> set (responses_read s). response_id r = i \<and> response_ok r \<and> call_result r = Inr v)"
    by (simp add: client_inv_def answers_ok_def)
  ultimately show ?thesis by blast
qed

definition pong :: ipc_response where
  "pong = response_success ''c1'' (JBool True)"

definition done_client :: ipc_client where
  "done_client = \<lparr>pending_responses = {}, calls = [''c1'' \<mapsto> Finished (Inr (JBool True))], reader_running = True,
     responses_read = [pong], events_read = []\<rparr>"

lemma done_client_reached: "client_reach done_client"
proof -
  let ?s1 = "\<lparr>pending_responses = {''c1''}, calls = [''c1'' \<mapsto> Registered], reader_running = True,
     responses_read = [], events_read = []\<rparr>"
  let ?s2 = "?s1\<lparr>calls := [''c1'' \<mapsto> Waiting]\<rparr>"
  let ?s3 = "\<lparr>pending_responses = {}, calls = [''c1'' \<mapsto> Answered pong], reader_running = True,
     responses_read = [pong], events_read = []\<rparr>"
  have "client_step new_client ?s1" using begin_call [of new_client "''c1''"] by (simp add: new_client_def)
  moreover have "client_step ?s1 ?s2" using sent [of ?s1 "''c1''"] by simp
  moreover have "read_frame (Some (response_to_json pong)) ?s2 = ?s3"
    by (simp add: read_frame_def hand_over_def Let_def read_back_def pong_def response_success_def)
  then have "client_step ?s2 ?s3" using frame [of ?s2 "Some (response_to_json pong)"] by simp
  moreover have "client_step ?s3 done_client"
    using answered [of ?s3 "''c1''" pong] by (simp add: done_client_def pong_def response_success_def call_result_def)
  ultimately show ?thesis by (meson client_start client_next)
qed

lemma calls_get_their_own_answers_witness:
  "pending_responses done_client = {}
    \<and> (\<exists>r \<in> set (responses_read done_client). response_id r = ''c1'' \<and> call_result r = Inr (JBool True))"
  using calls_get_their_own_answers [OF done_client_reached]
  by (auto simp: done_client_def open_call_def split: if_splits)

end
