(* ===== verification/Network.thy ===== *)
theory Network
  imports Platform_Process Scheduler Store
begin

text \<open>
  The network triggers of \<^verbatim>\<open>apps/agent/src/network.rs\<close>: the online probe, the dispatch of network events to
  tasks, and the watchers of macOS and Windows that turn notifications of the system into events.  Name
  resolution, connections, clocks and the system's notifications are inputs.
\<close>

section \<open>Events\<close>

datatype network_event =
    Connect "string option"
  | Disconnect "string option"
  | Online "string option"

fun event_kind :: "network_event \<Rightarrow> network_event_kind" where
  "event_kind (Connect _) = ConnectKind"
| "event_kind (Disconnect _) = DisconnectKind"
| "event_kind (Online _) = OnlineKind"

fun event_ssid :: "network_event \<Rightarrow> string option" where
  "event_ssid (Connect s) = s"
| "event_ssid (Disconnect s) = s"
| "event_ssid (Online s) = s"

definition event_matches :: "network_event \<Rightarrow> network_event_kind list \<Rightarrow> bool" where
  "event_matches ev kinds \<longleftrightarrow> event_kind ev \<in> set kinds"

definition name_matches :: "network_event \<Rightarrow> string option \<Rightarrow> bool" where
  "name_matches ev name = (case name of None \<Rightarrow> True | Some expected \<Rightarrow> event_ssid ev = Some expected)"

section \<open>Addresses\<close>

type_synonym octet = "8 word"
type_synonym segment = "16 word"

datatype ip_addr =
    V4 octet octet octet octet
  | V6 "segment list"

text \<open>The predicates of \<open>std::net\<close> on the octets and segments.\<close>

definition v4_private :: "octet \<Rightarrow> octet \<Rightarrow> bool" where
  "v4_private a b \<longleftrightarrow> a = 10 \<or> a = 172 \<and> 16 \<le> b \<and> b \<le> 31 \<or> a = 192 \<and> b = 168"

definition v4_documentation :: "octet \<Rightarrow> octet \<Rightarrow> octet \<Rightarrow> bool" where
  "v4_documentation a b c \<longleftrightarrow>
     a = 192 \<and> b = 0 \<and> c = 2 \<or> a = 198 \<and> b = 51 \<and> c = 100 \<or> a = 203 \<and> b = 0 \<and> c = 113"

fun is_public_ip :: "ip_addr \<Rightarrow> bool" where
  "is_public_ip (V4 a b c d) =
     (\<not> (a = 0 \<and> b = 0 \<and> c = 0 \<and> d = 0
         \<or> a = 127
         \<or> v4_private a b
         \<or> a = 169 \<and> b = 254
         \<or> a = 255 \<and> b = 255 \<and> c = 255 \<and> d = 255
         \<or> v4_documentation a b c
         \<or> a = 100 \<and> 64 \<le> b \<and> b < 128
         \<or> a = 0))"
| "is_public_ip (V6 segs) =
     (\<not> (segs = replicate 8 0
         \<or> segs = replicate 7 0 @ [1]
         \<or> and (hd segs) 0xff00 = 0xff00
         \<or> and (hd segs) 0xffc0 = 0xfe80
         \<or> and (hd segs) 0xfe00 = 0xfc00))"

fun is_ipv6 :: "ip_addr \<Rightarrow> bool" where
  "is_ipv6 (V4 _ _ _ _) = False"
| "is_ipv6 (V6 _) = True"

section \<open>The online probe\<close>

definition ONLINE_PROBES :: "(string \<times> string \<times> string option) list" where
  "ONLINE_PROBES =
     [(''www.msftconnecttest.com'', ''/connecttest.txt'', Some ''Microsoft Connect Test''),
      (''connect.rom.miui.com'', ''/generate_204'', None),
      (''cp.cloudflare.com'', ''/generate_204'', None)]"

text \<open>The first of \<open>text.lines()\<close>, without its line ending; a text without characters has no line.\<close>

definition first_line :: "string \<Rightarrow> string option" where
  "first_line s =
     (if s = [] then None
      else
        let l = takeWhile (\<lambda>c. c \<noteq> CHR 0x0A) s
        in Some (if l \<noteq> [] \<and> last l = CHR 0x0D \<and> length l < length s then butlast l else l))"

definition nth_word :: "nat \<Rightarrow> string \<Rightarrow> string option" where
  "nth_word n s = (let ws = split_whitespace s in if n < length ws then Some (ws ! n) else None)"

definition response_matches :: "string \<Rightarrow> string option \<Rightarrow> bool" where
  "response_matches raw marker =
     (let out = from_utf8_lossy raw
      in case Option.bind (first_line out) (nth_word 1) of
           None \<Rightarrow> False
         | Some code \<Rightarrow>
             (case marker of
                Some m \<Rightarrow> code = ''200'' \<and> contains_str out m
              | None \<Rightarrow> code = ''204''))"

definition crlf :: string where
  "crlf = [CHR 0x0D, CHR 0x0A]"

definition probe_request :: "string \<Rightarrow> string \<Rightarrow> string" where
  "probe_request host path =
     ''GET '' @ path @ '' HTTP/1.1'' @ crlf @ ''Host: '' @ host @ crlf @ ''User-Agent: easyJob'' @ crlf
       @ ''Connection: close'' @ crlf @ crlf"

text \<open>The read loop: chunks until end of file, an error, the timeout, or 8192 bytes.\<close>

fun read_response :: "string list \<Rightarrow> string \<Rightarrow> string" where
  "read_response [] raw = raw"
| "read_response (chunk # chunks) raw =
     (if length raw < 8192 \<and> chunk \<noteq> [] then read_response chunks (raw @ chunk) else raw)"

text \<open>
  The internet as a probe meets it: what a name resolves to in time, and the chunks that come back for a
  request to an address, \<open>None\<close> when connecting or writing fails or takes too long.
\<close>

record internet =
  resolve :: "string \<Rightarrow> ip_addr list option"
  exchange :: "ip_addr \<Rightarrow> string \<Rightarrow> string list option"

fun try_addresses :: "internet \<Rightarrow> string \<Rightarrow> string option \<Rightarrow> ip_addr list \<Rightarrow> bool" where
  "try_addresses N request marker [] = False"
| "try_addresses N request marker (a # as) =
     (case exchange N a request of
        None \<Rightarrow> try_addresses N request marker as
      | Some chunks \<Rightarrow>
          if response_matches (read_response chunks []) marker then True
          else try_addresses N request marker as)"

definition http_probe :: "internet \<Rightarrow> string \<Rightarrow> string \<Rightarrow> string option \<Rightarrow> bool" where
  "http_probe N host path marker =
     (case resolve N host of
        None \<Rightarrow> False
      | Some addrs \<Rightarrow>
          let addrs = sort_key is_ipv6 (filter is_public_ip addrs)
          in try_addresses N (probe_request host path) marker (take 2 addrs))"

definition probe_online :: "internet \<Rightarrow> bool" where
  "probe_online N = list_ex (\<lambda>(host, path, marker). http_probe N host path marker) ONLINE_PROBES"

section \<open>Dispatch\<close>

definition network_trigger_hit :: "network_event \<Rightarrow> trigger \<Rightarrow> bool" where
  "network_trigger_hit ev tr \<longleftrightarrow> trigger_enabled tr
     \<and> (case trigger_kind tr of
          Network kinds name \<Rightarrow> event_matches ev kinds \<and> name_matches ev name
        | _ \<Rightarrow> False)"

fun dispatch_hits :: "network_event \<Rightarrow> task list \<Rightarrow> sched_command list" where
  "dispatch_hits ev [] = []"
| "dispatch_hits ev (t # ts) =
     (if list_ex (network_trigger_hit ev) (triggers t) then TriggerNow (task_id t) # dispatch_hits ev ts
      else dispatch_hits ev ts)"

text \<open>The commands one event sends to the scheduler.\<close>

definition dispatch_network_event ::
  "codec \<Rightarrow> (nat \<Rightarrow> faults) \<Rightarrow> instant \<Rightarrow> network_event \<Rightarrow> db \<Rightarrow> sched_command list" where
  "dispatch_network_event K f now ev d =
     (case find_all_enabled K f now d of
        Inl _ \<Rightarrow> []
      | Inr ts \<Rightarrow> dispatch_hits ev ts)"

section \<open>Edges and debouncing\<close>

text \<open>\<open>EdgeDetector::changed\<close> and \<open>Debouncer::allow\<close>; the clock counts milliseconds.\<close>

type_synonym 'k edge_detector = "'k \<rightharpoonup> bool"

definition edge_changed :: "'k \<Rightarrow> bool \<Rightarrow> 'k edge_detector \<Rightarrow> bool \<times> 'k edge_detector" where
  "edge_changed key v seen =
     ((case seen key of None \<Rightarrow> False | Some previous \<Rightarrow> previous \<noteq> v), seen(key \<mapsto> v))"

type_synonym debouncer = "(network_event_kind \<times> nat) option"

definition debounce_allow :: "network_event_kind \<Rightarrow> nat \<Rightarrow> debouncer \<Rightarrow> bool \<times> debouncer" where
  "debounce_allow kind now last_kind =
     (case last_kind of
        Some (k, at) \<Rightarrow>
          if k = kind \<and> now - at < 500 then (False, last_kind) else (True, Some (kind, now))
      | None \<Rightarrow> (True, Some (kind, now)))"

section \<open>macOS\<close>

definition NW_PATH_STATUS_SATISFIED :: int where "NW_PATH_STATUS_SATISFIED = 1"
definition NW_PATH_STATUS_UNSATISFIED :: int where "NW_PATH_STATUS_UNSATISFIED = 2"

definition status_to_connect_change :: "int \<Rightarrow> nat edge_detector \<Rightarrow> bool option \<times> nat edge_detector" where
  "status_to_connect_change st edge =
     (if st = NW_PATH_STATUS_SATISFIED then
        (case edge_changed 0 True edge of (c, edge) \<Rightarrow> (if c then Some True else None, edge))
      else if st = NW_PATH_STATUS_UNSATISFIED then
        (case edge_changed 0 False edge of (c, edge) \<Rightarrow> (if c then Some False else None, edge))
      else (None, edge))"

record mac_watcher =
  mac_running :: bool
  mac_edge :: "nat edge_detector"
  mac_debounce :: debouncer
  last_probe_ms :: int
  probes_running :: nat
  mac_events :: "network_event list"

definition mac_start :: mac_watcher where
  "mac_start = \<lparr>mac_running = True, mac_edge = Map.empty, mac_debounce = None, last_probe_ms = 0,
                probes_running = 0, mac_events = []\<rparr>"

text \<open>\<open>spawn_online_probe\<close>: at most one probe in ten seconds of the wall clock, if there is a runtime.\<close>

definition spawn_online_probe :: "bool \<Rightarrow> int \<Rightarrow> mac_watcher \<Rightarrow> mac_watcher" where
  "spawn_online_probe has_handle now_ms s =
     (if now_ms - last_probe_ms s < 10000 then s
      else
        let s = s\<lparr>last_probe_ms := now_ms\<rparr>
        in if has_handle then s\<lparr>probes_running := probes_running s + 1\<rparr> else s)"

text \<open>The update handler of the path monitor: a raw status, the monotonic and wall clocks, the SSID.\<close>

definition mac_callback ::
  "bool \<Rightarrow> int \<Rightarrow> nat \<Rightarrow> int \<Rightarrow> string option \<Rightarrow> mac_watcher \<Rightarrow> mac_watcher" where
  "mac_callback has_handle st now now_ms ssid s =
     (if \<not> mac_running s then s
      else
        (case status_to_connect_change st (mac_edge s) of
           (None, edge) \<Rightarrow> s\<lparr>mac_edge := edge\<rparr>
         | (Some connected, edge) \<Rightarrow>
             let s = s\<lparr>mac_edge := edge\<rparr>;
                 event = (if connected then Connect ssid else Disconnect ssid)
             in (case debounce_allow (event_kind event) now (mac_debounce s) of
                   (False, db) \<Rightarrow> s\<lparr>mac_debounce := db\<rparr>
                 | (True, db) \<Rightarrow>
                     let s = s\<lparr>mac_debounce := db, mac_events := mac_events s @ [event]\<rparr>
                     in if connected then spawn_online_probe has_handle now_ms s else s)))"

text \<open>The end of a running probe.\<close>

definition probe_done :: "bool \<Rightarrow> nat \<Rightarrow> string option \<Rightarrow> mac_watcher \<Rightarrow> mac_watcher" where
  "probe_done online now ssid s =
     (if probes_running s = 0 then s
      else
        let s = s\<lparr>probes_running := probes_running s - 1\<rparr>
        in if online
           then (case debounce_allow OnlineKind now (mac_debounce s) of
                   (True, db) \<Rightarrow> s\<lparr>mac_debounce := db, mac_events := mac_events s @ [Online ssid]\<rparr>
                 | (False, db) \<Rightarrow> s\<lparr>mac_debounce := db\<rparr>)
           else s)"

datatype mac_input =
    PathUpdate int nat int "string option"
  | ProbeDone bool nat "string option"
  | MacStop

fun mac_step :: "bool \<Rightarrow> mac_input \<Rightarrow> mac_watcher \<Rightarrow> mac_watcher" where
  "mac_step h (PathUpdate st now now_ms ssid) s = mac_callback h st now now_ms ssid s"
| "mac_step h (ProbeDone online now ssid) s = probe_done online now ssid s"
| "mac_step h MacStop s = s\<lparr>mac_running := False\<rparr>"

section \<open>Windows\<close>

record win_watcher =
  win_edge :: "u64 edge_detector"
  win_debounce :: debouncer
  online_state :: int
  arbitrate_seq :: nat
  arbitrations :: "nat list"
  win_events :: "network_event list"

definition win_start :: win_watcher where
  "win_start = \<lparr>win_edge = Map.empty, win_debounce = None, online_state = -1, arbitrate_seq = 0,
                arbitrations = [], win_events = []\<rparr>"

text \<open>The task spawned for an edge remembers its number; without a runtime nothing is spawned.\<close>

definition spawn_arbitrated_event :: "bool \<Rightarrow> win_watcher \<Rightarrow> win_watcher" where
  "spawn_arbitrated_event has_handle s =
     (let seq = arbitrate_seq s + 1; s = s\<lparr>arbitrate_seq := seq\<rparr>
      in if has_handle then s\<lparr>arbitrations := arbitrations s @ [seq]\<rparr> else s)"

text \<open>An interface notification; \<open>None\<close> is a null row, the last flag \<open>MibDeleteInstance\<close>.\<close>

definition ip_callback :: "bool \<Rightarrow> (u64 \<times> bool) option \<Rightarrow> bool \<Rightarrow> win_watcher \<Rightarrow> win_watcher" where
  "ip_callback has_handle row deleted s =
     (let (changed, edge) = (case row of
            None \<Rightarrow> (True, win_edge s)
          | Some (luid, up) \<Rightarrow> edge_changed luid (\<not> deleted \<and> up) (win_edge s));
          s = s\<lparr>win_edge := edge\<rparr>
      in if changed then spawn_arbitrated_event has_handle s else s)"

text \<open>A WLAN notification, by whether it is null, from another source, or of another code.\<close>

definition wlan_callback :: "bool \<Rightarrow> bool \<Rightarrow> bool \<Rightarrow> bool \<Rightarrow> win_watcher \<Rightarrow> win_watcher" where
  "wlan_callback has_handle null acm relevant s =
     (if null \<or> \<not> acm \<or> \<not> relevant then s else spawn_arbitrated_event has_handle s)"

definition emit_arbitrated :: "network_event \<Rightarrow> nat \<Rightarrow> win_watcher \<Rightarrow> win_watcher" where
  "emit_arbitrated ev now s =
     (case debounce_allow (event_kind ev) now (win_debounce s) of
        (False, db) \<Rightarrow> s\<lparr>win_debounce := db\<rparr>
      | (True, db) \<Rightarrow> s\<lparr>win_debounce := db, win_events := win_events s @ [ev]\<rparr>)"

text \<open>
  The task with number \<open>seq\<close> has its answer; only the latest edge's task reports.  The second check of the
  number and the report that follows it are one step, and the first check, which only saves the probe, is
  left to it.
\<close>

definition arbitrate :: "nat \<Rightarrow> bool \<Rightarrow> nat \<Rightarrow> nat \<Rightarrow> string option \<Rightarrow> win_watcher \<Rightarrow> win_watcher" where
  "arbitrate seq reachable now1 now2 ssid s =
     (if seq \<notin> set (arbitrations s) then s
      else
        let s = s\<lparr>arbitrations := remove1 seq (arbitrations s)\<rparr>
        in if arbitrate_seq s \<noteq> seq then s
           else
             let current = (if reachable then 1 else 0)
             in if online_state s = current then s
                else
                  let s = s\<lparr>online_state := current\<rparr>
                  in if reachable
                     then emit_arbitrated (Online ssid) now2 (emit_arbitrated (Connect ssid) now1 s)
                     else emit_arbitrated (Disconnect None) now1 s)"

text \<open>The baseline task: \<open>compare_exchange(-1, value)\<close>.\<close>

definition baseline :: "bool \<Rightarrow> win_watcher \<Rightarrow> win_watcher" where
  "baseline online s = (if online_state s = -1 then s\<lparr>online_state := (if online then 1 else 0)\<rparr> else s)"

datatype win_input =
    IpChange "(u64 \<times> bool) option" bool
  | WlanNotification bool bool bool
  | Arbitrated nat bool nat nat "string option"
  | Baseline bool

fun win_step :: "bool \<Rightarrow> win_input \<Rightarrow> win_watcher \<Rightarrow> win_watcher" where
  "win_step h (IpChange row del) s = ip_callback h row del s"
| "win_step h (WlanNotification null acm relevant) s = wlan_callback h null acm relevant s"
| "win_step h (Arbitrated seq reachable now1 now2 ssid) s = arbitrate seq reachable now1 now2 ssid s"
| "win_step h (Baseline online) s = baseline online s"

text \<open>
  The confirmation window, in milliseconds since its start: the \<open>i\<close>-th attempt takes \<open>cost i\<close> (at most the
  attempt's timeout) and answers \<open>reach i\<close>; between attempts the loop sleeps half a second.
\<close>

definition ONLINE_CONFIRM_WINDOW :: nat where "ONLINE_CONFIRM_WINDOW = 7000"

function confirm_online :: "(nat \<Rightarrow> bool) \<Rightarrow> (nat \<Rightarrow> nat) \<Rightarrow> nat \<Rightarrow> nat \<Rightarrow> bool" where
  "confirm_online reach cost i elapsed =
     (if reach i then True
      else
        let elapsed = elapsed + cost i
        in if ONLINE_CONFIRM_WINDOW \<le> elapsed + 500 then False
           else confirm_online reach cost (Suc i) (elapsed + 500))"
  by pat_completeness auto
termination
  by (relation "measure (\<lambda>(reach, cost, i, elapsed). ONLINE_CONFIRM_WINDOW - elapsed)")
     (auto simp: ONLINE_CONFIRM_WINDOW_def)

declare confirm_online.simps [simp del]

end
