(* ===== verification/Network_Props.thy ===== *)
theory Network_Props
  imports Network
begin

text \<open>
  What the network watchers promise: macOS reports every change of the path status once, Windows reports
  alternating states and drops nothing in its debouncer, the confirmation window is bounded, and the online
  probe listens to public addresses only.
\<close>

section \<open>Reports of the path\<close>

text \<open>The path reports among the events, as the state they report.\<close>

fun path_reports :: "network_event list \<Rightarrow> bool list" where
  "path_reports [] = []"
| "path_reports (Connect _ # evs) = True # path_reports evs"
| "path_reports (Disconnect _ # evs) = False # path_reports evs"
| "path_reports (Online _ # evs) = path_reports evs"

lemma path_reports_append [simp]: "path_reports (xs @ ys) = path_reports xs @ path_reports ys"
  by (induction xs rule: path_reports.induct) simp_all

text \<open>The statuses the watcher is told while it runs; other statuses than the two are not path states.\<close>

fun path_states :: "mac_input list \<Rightarrow> bool list" where
  "path_states [] = []"
| "path_states (PathUpdate st _ _ _ # ins) =
     (if st = NW_PATH_STATUS_SATISFIED then True # path_states ins
      else if st = NW_PATH_STATUS_UNSATISFIED then False # path_states ins
      else path_states ins)"
| "path_states (ProbeDone _ _ _ # ins) = path_states ins"
| "path_states (MacStop # ins) = []"

definition mac_run :: "bool \<Rightarrow> mac_input list \<Rightarrow> mac_watcher" where
  "mac_run has_handle ins = fold (mac_step has_handle) ins mac_start"

text \<open>
  The states already seen are \<open>bs\<close>: the edge detector holds the last one, the reports are its changes, and
  the debouncer holds the kind of the last event.
\<close>

definition mac_tracks :: "bool list \<Rightarrow> mac_watcher \<Rightarrow> bool" where
  "mac_tracks bs s \<longleftrightarrow>
     mac_edge s 0 = (if bs = [] then None else Some (last bs))
     \<and> path_reports (mac_events s) = tl (remdups_adj bs)
     \<and> map_option fst (mac_debounce s) = (if mac_events s = [] then None else Some (event_kind (last (mac_events s))))"

lemma mac_tracks_start: "mac_tracks [] mac_start"
  by (simp add: mac_tracks_def mac_start_def)

lemma last_path_report:
  "evs \<noteq> [] \<Longrightarrow> event_kind (last evs) = ConnectKind \<Longrightarrow> path_reports evs \<noteq> [] \<and> last (path_reports evs)"
  "evs \<noteq> [] \<Longrightarrow> event_kind (last evs) = DisconnectKind \<Longrightarrow> path_reports evs \<noteq> [] \<and> \<not> last (path_reports evs)"
  by (cases evs rule: rev_cases; cases "last evs"; simp)+

lemma last_tl_remdups_adj: "tl (remdups_adj bs) \<noteq> [] \<Longrightarrow> last (tl (remdups_adj bs)) = last bs"
  by (metis last_tl remdups_adj_Nil_iff last_remdups_adj list.sel(2))

lemma remdups_adj_snoc_same: "bs \<noteq> [] \<Longrightarrow> last bs = b \<Longrightarrow> remdups_adj (bs @ [b]) = remdups_adj bs"
  by (cases bs rule: rev_cases) (simp_all add: remdups_adj_append_two)

lemma remdups_adj_snoc_other:
  "bs \<noteq> [] \<Longrightarrow> last bs \<noteq> b \<Longrightarrow> tl (remdups_adj (bs @ [b])) = tl (remdups_adj bs) @ [b]"
  by (simp add: remdups_adj_append')

text \<open>A change has a kind the debouncer does not hold.\<close>

lemma mac_tracks_kind_free:
  assumes "mac_tracks bs s" and "bs \<noteq> []" and "last bs \<noteq> b"
  shows "debounce_allow (if b then ConnectKind else DisconnectKind) now (mac_debounce s)
           = (True, Some (if b then ConnectKind else DisconnectKind, now))"
proof (cases "mac_debounce s")
  case None
  then show ?thesis by (simp add: debounce_allow_def)
next
  case (Some ka)
  obtain k at where ka: "ka = (k, at)" by (cases ka)
  have ev: "mac_events s \<noteq> []" "event_kind (last (mac_events s)) = k"
    using assms(1) Some ka by (auto simp: mac_tracks_def split: if_splits)
  have "k \<noteq> (if b then ConnectKind else DisconnectKind)"
    using assms last_path_report[OF ev(1)] ev(2) last_tl_remdups_adj[of bs]
    by (auto simp: mac_tracks_def split: if_splits)
  then show ?thesis using Some ka by (simp add: debounce_allow_def)
qed

lemma spawn_online_probe_simps [simp]:
  "mac_edge (spawn_online_probe h n s) = mac_edge s"
  "mac_events (spawn_online_probe h n s) = mac_events s"
  "mac_debounce (spawn_online_probe h n s) = mac_debounce s"
  "mac_running (spawn_online_probe h n s) = mac_running s"
  by (simp_all add: spawn_online_probe_def Let_def)

lemma status_to_connect_change_edge:
  assumes "status_to_connect_change st edge = (c, edge')"
  shows "st = NW_PATH_STATUS_SATISFIED \<or> st = NW_PATH_STATUS_UNSATISFIED \<Longrightarrow>
           edge' 0 = Some (st = NW_PATH_STATUS_SATISFIED)
           \<and> c = (if edge 0 = None \<or> edge 0 = Some (st = NW_PATH_STATUS_SATISFIED) then None
                  else Some (st = NW_PATH_STATUS_SATISFIED))"
    and "\<not> (st = NW_PATH_STATUS_SATISFIED \<or> st = NW_PATH_STATUS_UNSATISFIED) \<Longrightarrow> edge' = edge \<and> c = None"
  using assms
  by (auto simp: status_to_connect_change_def edge_changed_def NW_PATH_STATUS_SATISFIED_def
      NW_PATH_STATUS_UNSATISFIED_def split: option.splits if_splits)

lemma mac_callback_tracks:
  assumes T: "mac_tracks bs s" and R: "mac_running s"
  shows "mac_tracks (bs @ path_states [PathUpdate st now now_ms ssid]) (mac_callback h st now now_ms ssid s)"
proof -
  obtain c edge where ce: "status_to_connect_change st (mac_edge s) = (c, edge)" by (cases "status_to_connect_change st (mac_edge s)")
  note S = status_to_connect_change_edge[OF ce]
  define b where "b = (st = NW_PATH_STATUS_SATISFIED)"
  show ?thesis
  proof (cases "st = NW_PATH_STATUS_SATISFIED \<or> st = NW_PATH_STATUS_UNSATISFIED")
    case False
    with S(2) have "edge = mac_edge s" "c = None" by blast+
    then show ?thesis using False T R ce by (simp add: mac_callback_def mac_tracks_def)
  next
    case True
    have ps: "path_states [PathUpdate st now now_ms ssid] = [b]"
      using True by (auto simp: b_def NW_PATH_STATUS_SATISFIED_def NW_PATH_STATUS_UNSATISFIED_def)
    have e: "edge 0 = Some b" using S(1) True b_def by blast
    have c: "c = (if bs = [] \<or> last bs = b then None else Some b)"
      using S(1) True T by (auto simp: b_def mac_tracks_def split: if_splits)
    show ?thesis
    proof (cases "bs = [] \<or> last bs = b")
      case same: True
      then have "tl (remdups_adj (bs @ [b])) = tl (remdups_adj bs)"
        by (cases "bs = []") (simp_all add: remdups_adj_snoc_same)
      then show ?thesis using T R ce c e same ps by (simp add: mac_callback_def mac_tracks_def)
    next
      case other: False
      have "debounce_allow (if b then ConnectKind else DisconnectKind) now (mac_debounce s)
           = (True, Some (if b then ConnectKind else DisconnectKind, now))"
        using mac_tracks_kind_free[OF T, of b] other by blast
      moreover have "tl (remdups_adj (bs @ [b])) = tl (remdups_adj bs) @ [b]"
        using other by (simp add: remdups_adj_snoc_other)
      ultimately show ?thesis using T R ce c e other ps
        by (cases b) (simp_all add: mac_callback_def mac_tracks_def)
    qed
  qed
qed

lemma probe_done_tracks: "mac_tracks bs s \<Longrightarrow> mac_tracks bs (probe_done online now ssid s)"
  by (auto simp: probe_done_def mac_tracks_def Let_def debounce_allow_def split: option.splits prod.splits if_splits)

lemma mac_running_steps [simp]:
  "mac_running (probe_done online now ssid s) = mac_running s"
  "mac_running (mac_callback h st now now_ms ssid s) = mac_running s"
  by (simp_all add: probe_done_def mac_callback_def Let_def split: prod.splits bool.splits option.splits)

lemma mac_stopped_tracks:
  "mac_tracks bs s \<Longrightarrow> \<not> mac_running s \<Longrightarrow> mac_tracks bs (fold (mac_step h) ins s)"
proof (induction ins arbitrary: s)
  case (Cons i ins)
  have "mac_tracks bs (mac_step h i s) \<and> \<not> mac_running (mac_step h i s)"
    using Cons.prems probe_done_tracks[OF Cons.prems(1)]
    by (cases i) (simp_all add: mac_callback_def mac_tracks_def)
  then show ?case using Cons.IH by simp
qed simp

lemma mac_run_tracks:
  "mac_tracks bs s \<Longrightarrow> mac_running s \<Longrightarrow> mac_tracks (bs @ path_states ins) (fold (mac_step h) ins s)"
proof (induction ins arbitrary: s bs)
  case (Cons i ins)
  show ?case
  proof (cases i)
    case (PathUpdate st now now_ms ssid)
    have "mac_running (mac_callback h st now now_ms ssid s)" using Cons.prems(2) by simp
    from Cons.IH[OF mac_callback_tracks[OF Cons.prems] this] show ?thesis
      using PathUpdate by (auto simp: NW_PATH_STATUS_SATISFIED_def NW_PATH_STATUS_UNSATISFIED_def split: if_splits)
  next
    case (ProbeDone online now ssid)
    have "mac_running (probe_done online now ssid s)"
      using Cons.prems(2) by simp
    from Cons.IH[OF probe_done_tracks[OF Cons.prems(1)] this] show ?thesis using ProbeDone by simp
  next
    case MacStop
    have "mac_tracks bs (s\<lparr>mac_running := False\<rparr>)" using Cons.prems(1) by (simp add: mac_tracks_def)
    from mac_stopped_tracks[OF this] show ?thesis using MacStop by simp
  qed
qed simp

text \<open>C31. The macOS watcher reports exactly the changes of the path: whatever the order of updates, probe answers
  and the stop, the reported states are the sequence of observed states with repetitions removed and the
  first one, the state at start, left out; the debouncer never swallows a change.
\<close>

theorem macos_reports_every_change:
  "path_reports (mac_events (mac_run has_handle ins)) = tl (remdups_adj (path_states ins))"
  using mac_run_tracks[OF mac_tracks_start, of ins has_handle]
  by (simp add: mac_run_def mac_tracks_def mac_start_def)


section \<open>Windows\<close>

definition win_run :: "bool \<Rightarrow> win_input list \<Rightarrow> win_watcher" where
  "win_run has_handle ins = fold (win_step has_handle) ins win_start"

text \<open>What the watcher sends for a state: a connection is followed at once by its \<open>Online\<close>.\<close>

definition win_report :: "bool \<Rightarrow> network_event_kind list" where
  "win_report b = (if b then [ConnectKind, OnlineKind] else [DisconnectKind])"

definition win_reports :: "bool list \<Rightarrow> win_watcher \<Rightarrow> bool" where
  "win_reports cs s \<longleftrightarrow>
     path_reports (win_events s) = cs
     \<and> map event_kind (win_events s) = concat (map win_report cs)
     \<and> distinct_adj cs
     \<and> (cs = [] \<or> online_state s = (if last cs then 1 else 0))
     \<and> map_option fst (win_debounce s) = (if cs = [] then None else Some (last (win_report (last cs))))"

lemma win_reports_start: "win_reports [] win_start"
  by (simp add: win_reports_def win_start_def)

lemma win_reports_frame [simp]:
  "win_reports cs (s\<lparr>win_edge := edge\<rparr>) = win_reports cs s"
  "win_reports cs (s\<lparr>arbitrations := as\<rparr>) = win_reports cs s"
  "win_reports cs (spawn_arbitrated_event h s) = win_reports cs s"
  by (simp_all add: win_reports_def spawn_arbitrated_event_def Let_def)

lemma distinct_adj_snoc: "distinct_adj (cs @ [b]) \<longleftrightarrow> distinct_adj cs \<and> (cs = [] \<or> last cs \<noteq> b)"
  by (auto simp: distinct_adj_append_iff)

lemma arbitrate_reports:
  assumes R: "win_reports cs s"
  shows "\<exists>cs'. win_reports cs' (arbitrate seq reachable now1 now2 ssid s)"
proof -
  define current :: int where "current = (if reachable then 1 else 0)"
  show ?thesis
  proof (cases "seq \<in> set (arbitrations s) \<and> arbitrate_seq s = seq \<and> online_state s \<noteq> current")
    case False
    then have "win_reports cs (arbitrate seq reachable now1 now2 ssid s)"
      using R by (auto simp: arbitrate_def Let_def current_def)
    then show ?thesis by blast
  next
    case report: True
    then have new: "cs = [] \<or> last cs \<noteq> reachable"
      using R by (auto simp: win_reports_def current_def split: if_splits)
    have "win_reports (cs @ [reachable]) (arbitrate seq reachable now1 now2 ssid s)"
      using R new report
      by (cases reachable; cases "cs = []")
        (auto simp: win_reports_def arbitrate_def current_def emit_arbitrated_def debounce_allow_def
          distinct_adj_snoc win_report_def split: option.splits prod.splits if_splits)
    then show ?thesis by blast
  qed
qed

lemma win_step_reports:
  assumes "win_reports cs s"
  shows "\<exists>cs'. win_reports cs' (win_step h i s)"
proof (cases i)
  case (Arbitrated seq reachable now1 now2 ssid)
  then show ?thesis using arbitrate_reports[OF assms] by simp
next
  case (Baseline online)
  then have "win_reports cs (win_step h i s)"
    using assms by (auto simp: win_reports_def baseline_def split: if_splits)
  then show ?thesis by blast
next
  case (IpChange row del)
  then have "win_reports cs (win_step h i s)"
    using assms by (simp add: ip_callback_def Let_def split: prod.splits)
  then show ?thesis by blast
next
  case (WlanNotification null acm relevant)
  then have "win_reports cs (win_step h i s)"
    using assms by (simp add: wlan_callback_def)
  then show ?thesis by blast
qed

lemma win_run_reports: "\<exists>cs. win_reports cs (win_run h ins)"
proof -
  have "\<exists>cs'. win_reports cs' (fold (win_step h) ins s)" if "win_reports cs s" for cs s
    using that
  proof (induction ins arbitrary: cs s)
    case (Cons i ins)
    then show ?case using win_step_reports[OF Cons.prems] by fastforce
  qed auto
  from this[OF win_reports_start] show ?thesis by (simp add: win_run_def)
qed

text \<open>C32. The Windows watcher, whatever notifications, answers and baseline arrive in whatever order: the states it
  reports alternate, each connection comes with exactly one \<open>Online\<close> right after it, nothing else is sent
  (so the debouncer drops nothing), and the last report is the state it holds.
\<close>

theorem windows_reports_alternate:
  "distinct_adj (path_reports (win_events (win_run has_handle ins)))
   \<and> map event_kind (win_events (win_run has_handle ins))
       = concat (map win_report (path_reports (win_events (win_run has_handle ins))))
   \<and> (win_events (win_run has_handle ins) = []
      \<or> online_state (win_run has_handle ins)
          = (if last (path_reports (win_events (win_run has_handle ins))) then 1 else 0))"
proof -
  obtain cs where "win_reports cs (win_run has_handle ins)" using win_run_reports by blast
  then show ?thesis by (auto simp: win_reports_def)
qed

text \<open>
  An edge before the baseline is reported at start: the state is still unknown, and the first answer counts
  as a change.
\<close>

lemma report_before_the_baseline:
  "map event_kind (win_events (win_run True
     [IpChange None False, Arbitrated 1 True 0 0 None, Baseline True])) = [ConnectKind, OnlineKind]"
  by (simp add: win_run_def win_start_def ip_callback_def spawn_arbitrated_event_def arbitrate_def
      emit_arbitrated_def debounce_allow_def baseline_def Let_def)

section \<open>The confirmation window\<close>

text \<open>When the \<open>i\<close>-th attempt starts.\<close>

definition attempt_start :: "(nat \<Rightarrow> nat) \<Rightarrow> nat \<Rightarrow> nat" where
  "attempt_start cost i = (\<Sum>k<i. cost k) + 500 * i"

lemma attempt_start_mono: "i \<le> j \<Longrightarrow> attempt_start cost i \<le> attempt_start cost j"
  by (auto simp: attempt_start_def intro!: add_mono sum_mono2)

lemma confirm_online_from:
  "elapsed = attempt_start cost i \<Longrightarrow> elapsed < ONLINE_CONFIRM_WINDOW \<Longrightarrow>
     confirm_online reach cost i elapsed
       = (\<exists>j\<ge>i. reach j \<and> attempt_start cost j < ONLINE_CONFIRM_WINDOW)"
proof (induction reach cost i elapsed rule: confirm_online.induct)
  case (1 reach cost i elapsed)
  have nxt: "elapsed + cost i + 500 = attempt_start cost (Suc i)" using 1(2) by (simp add: attempt_start_def)
  show ?case
  proof (cases "reach i")
    case True
    then show ?thesis using 1(2,3) by (auto simp: confirm_online.simps[of reach])
  next
    case False
    have split: "(\<exists>j\<ge>i. reach j \<and> P j) = (\<exists>j\<ge>Suc i. reach j \<and> P j)" for P
      using False Suc_leD by (metis Suc_leI le_neq_implies_less)
    show ?thesis
    proof (cases "ONLINE_CONFIRM_WINDOW \<le> elapsed + cost i + 500")
      case True
      then have "\<not> attempt_start cost j < ONLINE_CONFIRM_WINDOW" if "Suc i \<le> j" for j
        using attempt_start_mono[OF that, of cost] nxt by simp
      then show ?thesis using True False split[of "\<lambda>j. attempt_start cost j < ONLINE_CONFIRM_WINDOW"]
        by (auto simp: confirm_online.simps[of reach])
    next
      case later: False
      have "confirm_online reach cost i elapsed = confirm_online reach cost (Suc i) (elapsed + cost i + 500)"
        using False later by (simp add: confirm_online.simps[of reach cost i])
      also have "\<dots> = (\<exists>j\<ge>Suc i. reach j \<and> attempt_start cost j < ONLINE_CONFIRM_WINDOW)"
        using 1(1)[OF False refl] later nxt by (simp add: add.assoc)
      finally show ?thesis using split by simp
    qed
  qed
qed

text \<open>The confirmation of an edge ends: it says online exactly if one of at most fourteen attempts that start
  within the seven seconds of the window answers, whatever time the attempts take.
\<close>

theorem confirmation_is_bounded:
  "confirm_online reach cost 0 0
     = (\<exists>i. i < 14 \<and> reach i \<and> attempt_start cost i < ONLINE_CONFIRM_WINDOW)"
proof -
  have "i < 14" if "attempt_start cost i < ONLINE_CONFIRM_WINDOW" for i
    using that by (simp add: attempt_start_def ONLINE_CONFIRM_WINDOW_def)
  then show ?thesis
    using confirm_online_from[of 0 cost 0 reach] by (auto simp: attempt_start_def[of cost 0] ONLINE_CONFIRM_WINDOW_def)
qed

section \<open>The probe\<close>

definition public_only :: "internet \<Rightarrow> internet" where
  "public_only N = N\<lparr>exchange := (\<lambda>a request. if is_public_ip a then exchange N a request else None)\<rparr>"

lemma try_addresses_public:
  "list_all is_public_ip addrs \<Longrightarrow> try_addresses (public_only N) request marker addrs = try_addresses N request marker addrs"
  by (induction addrs) (auto simp: public_only_def split: option.splits)

lemma sorted_public: "list_all is_public_ip (take n (sort_key f (filter is_public_ip addrs)))"
  by (auto simp: list_all_iff dest!: in_set_takeD)

text \<open>
  The online probe listens to public addresses only: cutting off every loopback, private, link-local or
  reserved address, as a captive portal or a local name server would offer, never changes its answer.
\<close>

theorem probe_ignores_private_addresses: "probe_online N = probe_online (public_only N)"
proof -
  have same: "resolve (public_only N) = resolve N" by (simp add: public_only_def)
  have "http_probe (public_only N) = http_probe N"
    by (intro ext) (simp add: http_probe_def same try_addresses_public[OF sorted_public] split: option.splits)
  then show ?thesis by (simp add: probe_online_def)
qed

text \<open>An IPv4 address inside IPv6 passes as public, the private ones too.\<close>

lemma mapped_private_address_is_public:
  "\<not> is_public_ip (V4 192 168 0 1) \<and> is_public_ip (V6 [0, 0, 0, 0, 0, 0xffff, 0xc0a8, 1])"
  by code_simp

end
