(* ===== verification/Service_Commands.thy ===== *)
theory Service_Commands
  imports Rust_Str "HOL-Library.Word"
begin

unbundle bit_operations_syntax

text \<open>
  The texts that install and query the system service: \<^verbatim>\<open>crates/platform/src/startup.rs\<close> and the parsing and
  encoding of \<^verbatim>\<open>apps/desktop/src-tauri/src/startup.rs\<close>.  A path is the text \<open>display()\<close> gives for it.
\<close>

section \<open>Text helpers of the standard library\<close>

abbreviation sq :: char where "sq \<equiv> CHR 0x27"
abbreviation dq :: char where "dq \<equiv> CHR 0x22"
abbreviation nl :: char where "nl \<equiv> CHR 0x0A"

text \<open>\<open>trim_start\<close>, \<open>trim_end\<close>, \<open>find\<close> and \<open>strip_prefix\<close>.\<close>

function trim_start :: "string \<Rightarrow> string" where
  "trim_start s = (if ws_len s = 0 \<or> s = [] then s else trim_start (drop (ws_len s) s))"
  by pat_completeness auto
termination by (relation "measure length") auto

declare trim_start.simps [simp del]

fun trim_end :: "string \<Rightarrow> string" where
  "trim_end [] = []"
| "trim_end (c # cs) = (if trim_start (c # cs) = [] then [] else c # trim_end cs)"

fun find_str :: "string \<Rightarrow> string \<Rightarrow> nat option" where
  "find_str [] p = (if p = [] then Some 0 else None)"
| "find_str (c # cs) p = (if starts_with (c # cs) p then Some 0 else map_option Suc (find_str cs p))"

definition strip_char :: "char \<Rightarrow> string \<Rightarrow> string" where
  "strip_char c s = (case s of [] \<Rightarrow> [] | d # ds \<Rightarrow> if d = c then ds else s)"

text \<open>\<open>Path::join\<close> on Unix.\<close>

definition path_join :: "string \<Rightarrow> string \<Rightarrow> string" where
  "path_join p q =
     (if starts_with q ''/'' then q
      else if p = [] \<or> ends_with p ''/'' then p @ q
      else p @ ''/'' @ q)"

section \<open>Constants\<close>

datatype startup_mode = Boot | Login | DisabledMode

definition MACOS_DAEMON_LABEL :: string where "MACOS_DAEMON_LABEL = ''com.easyjob.agent''"
definition MACOS_SYSTEM_DATA_DIR :: string where
  "MACOS_SYSTEM_DATA_DIR = ''/Library/Application Support/EasyJob''"
definition MACOS_DAEMON_PLIST_PATH :: string where
  "MACOS_DAEMON_PLIST_PATH = ''/Library/LaunchDaemons/com.easyjob.agent.plist''"

section \<open>Windows\<close>

definition windows_service_image_path :: "string \<Rightarrow> string \<Rightarrow> string" where
  "windows_service_image_path agent_exe data_dir =
     [dq] @ agent_exe @ [dq] @ '' --service --data-dir '' @ [dq] @ data_dir @ [dq]"

definition quote_ps_arg :: "string \<Rightarrow> string" where
  "quote_ps_arg s = [sq] @ replace_char sq [sq, sq] s @ [sq]"

definition elevated_ps :: "string \<Rightarrow> string \<times> string list" where
  "elevated_ps scr =
     (''powershell.exe'',
      [''-NoProfile'', ''-NonInteractive'', ''-Command'',
       ''Start-Process powershell.exe -ArgumentList ''
         @ quote_ps_arg (''-NoProfile -NonInteractive -Command '' @ scr) @ '' -Verb RunAs -Wait''])"

definition windows_install_elevated_ps :: "string \<Rightarrow> string \<Rightarrow> string \<times> string list" where
  "windows_install_elevated_ps agent_exe data_dir =
     elevated_ps (''& '' @ quote_ps_arg agent_exe @ '' --install-service --data-dir '' @ quote_ps_arg data_dir)"

definition windows_uninstall_elevated_ps :: "string \<Rightarrow> string \<times> string list" where
  "windows_uninstall_elevated_ps agent_exe =
     elevated_ps (''& '' @ quote_ps_arg agent_exe @ '' --uninstall-service'')"

definition windows_prepare_data_dir_elevated_ps :: "string \<Rightarrow> string \<times> string list" where
  "windows_prepare_data_dir_elevated_ps data_dir =
     (let d = quote_ps_arg data_dir
      in elevated_ps (''New-Item -ItemType Directory -Force -Path '' @ d @ '' | Out-Null; icacls '' @ d
           @ '' /grant '' @ [sq] @ ''*S-1-5-11:(OI)(CI)M'' @ [sq] @ '' /T /C | Out-Null''))"

datatype windows_service_state = ServiceRunning | ServiceStopped | ServiceNotInstalled

text \<open>\<open>upper\<close> is \<open>str::to_uppercase\<close>, a table of Unicode; the Chinese marker is given by its bytes.\<close>

definition not_installed_marker :: string where
  "not_installed_marker =
     [CHR 0xE6, CHR 0x9C, CHR 0xAA, CHR 0xE5, CHR 0xAE, CHR 0x89, CHR 0xE8, CHR 0xA3, CHR 0x85]"

definition parse_sc_query_state :: "(string \<Rightarrow> string) \<Rightarrow> string \<Rightarrow> windows_service_state" where
  "parse_sc_query_state upper out =
     (let u = upper out
      in if contains_str u ''RUNNING'' then ServiceRunning
         else if contains_str out ''1060'' \<or> contains_str u ''DOES NOT EXIST''
           \<or> contains_str u (''DOESN'' @ [sq] @ ''T EXIST'') \<or> contains_str out not_installed_marker
         then ServiceNotInstalled
         else ServiceStopped)"

text \<open>The data directory in the output of \<open>sc qc\<close>.\<close>

definition parse_data_dir_from_qc :: "string \<Rightarrow> string option" where
  "parse_data_dir_from_qc txt =
     (case find_str txt ''--data-dir'' of
        None \<Rightarrow> None
      | Some idx \<Rightarrow>
          let tail = trim_start (drop (idx + length ''--data-dir'') txt);
              rest = strip_char dq tail;
              is_quoted = starts_with tail [dq]
          in if is_quoted then Some (takeWhile (\<lambda>c. c \<noteq> dq) rest)
             else (case split_whitespace rest of [] \<Rightarrow> None | w # _ \<Rightarrow> Some w))"

section \<open>macOS\<close>

definition sh_single_quote :: "string \<Rightarrow> string" where
  "sh_single_quote s = [sq] @ replace_char sq [sq, dq, sq, dq, sq] s @ [sq]"

definition plist_string :: "nat \<Rightarrow> string \<Rightarrow> string" where
  "plist_string indent s = replicate indent (CHR 0x20) @ ''<string>'' @ s @ ''</string>'' @ [nl]"

definition plist_line :: "nat \<Rightarrow> string \<Rightarrow> string" where
  "plist_line indent s = replicate indent (CHR 0x20) @ s @ [nl]"

definition macos_daemon_plist_for_label :: "string \<Rightarrow> string \<Rightarrow> string \<Rightarrow> string" where
  "macos_daemon_plist_for_label label agent_exe data_dir =
     (let logs = path_join data_dir ''logs''
      in concat
        [plist_line 0 (''<?xml version='' @ [dq] @ ''1.0'' @ [dq] @ '' encoding='' @ [dq] @ ''UTF-8'' @ [dq] @ ''?>''),
         plist_line 0 (''<!DOCTYPE plist PUBLIC '' @ [dq] @ ''-//Apple//DTD PLIST 1.0//EN'' @ [dq] @ '' ''
           @ [dq] @ ''http://www.apple.com/DTDs/PropertyList-1.0.dtd'' @ [dq] @ ''>''),
         plist_line 0 (''<plist version='' @ [dq] @ ''1.0'' @ [dq] @ ''>''),
         plist_line 0 ''<dict>'',
         plist_line 4 ''<key>Label</key>'', plist_string 4 label,
         plist_line 4 ''<key>ProgramArguments</key>'',
         plist_line 4 ''<array>'',
         plist_string 8 agent_exe, plist_string 8 ''--daemon'', plist_string 8 ''--data-dir'',
         plist_string 8 data_dir,
         plist_line 4 ''</array>'',
         plist_line 4 ''<key>RunAtLoad</key>'', plist_line 4 ''<true/>'',
         plist_line 4 ''<key>KeepAlive</key>'', plist_line 4 ''<true/>'',
         plist_line 4 ''<key>Umask</key>'', plist_line 4 ''<integer>2</integer>'',
         plist_line 4 ''<key>StandardOutPath</key>'', plist_string 4 (path_join logs ''daemon.out.log''),
         plist_line 4 ''<key>StandardErrorPath</key>'', plist_string 4 (path_join logs ''daemon.err.log''),
         plist_line 0 ''</dict>'',
         plist_line 0 ''</plist>''])"

definition macos_daemon_plist :: "string \<Rightarrow> string \<Rightarrow> string" where
  "macos_daemon_plist agent_exe data_dir = macos_daemon_plist_for_label MACOS_DAEMON_LABEL agent_exe data_dir"

definition macos_prepare_data_dir_script :: "string \<Rightarrow> string" where
  "macos_prepare_data_dir_script data_dir =
     ''DATA_DIR='' @ sh_single_quote data_dir @ [nl]
     @ ''mkdir -p '' @ [dq] @ ''$DATA_DIR/logs'' @ [dq, nl]
     @ ''chown -R root:staff '' @ [dq] @ ''$DATA_DIR'' @ [dq, nl]
     @ ''chmod 775 '' @ [dq] @ ''$DATA_DIR'' @ [dq] @ '' '' @ [dq] @ ''$DATA_DIR/logs'' @ [dq, nl]
     @ ''chmod -R g+rwX '' @ [dq] @ ''$DATA_DIR'' @ [dq, nl]"

definition bootout_line :: string where
  "bootout_line =
     ''/bin/launchctl bootout system '' @ [dq] @ ''$PLIST_PATH'' @ [dq] @ '' 2>/dev/null || true'' @ [nl]"

definition macos_install_script :: "string \<Rightarrow> string \<Rightarrow> string \<Rightarrow> string" where
  "macos_install_script plist_path plist_content data_dir =
     ''set -e'' @ [nl]
     @ trim_end (macos_prepare_data_dir_script data_dir) @ [nl]
     @ ''PLIST_PATH='' @ sh_single_quote plist_path @ [nl]
     @ ''mkdir -p /Library/LaunchDaemons'' @ [nl]
     @ ''cat > '' @ [dq] @ ''$PLIST_PATH'' @ [dq] @ '' <<'' @ [sq] @ ''EASYJOB_PLIST_EOF'' @ [sq, nl]
     @ trim_end plist_content @ [nl]
     @ ''EASYJOB_PLIST_EOF'' @ [nl]
     @ ''chown root:wheel '' @ [dq] @ ''$PLIST_PATH'' @ [dq, nl]
     @ ''chmod 644 '' @ [dq] @ ''$PLIST_PATH'' @ [dq, nl]
     @ bootout_line
     @ ''/bin/launchctl bootstrap system '' @ [dq] @ ''$PLIST_PATH'' @ [dq, nl]"

definition macos_uninstall_script :: "string \<Rightarrow> string" where
  "macos_uninstall_script plist_path =
     ''set -e'' @ [nl]
     @ ''PLIST_PATH='' @ sh_single_quote plist_path @ [nl]
     @ bootout_line
     @ ''rm -f '' @ [dq] @ ''$PLIST_PATH'' @ [dq, nl]"

section \<open>Base64\<close>

definition BASE64_TABLE :: string where
  "BASE64_TABLE = ''ABCDEFGHIJKLMNOPQRSTUVWXYZabcdefghijklmnopqrstuvwxyz0123456789+/''"

definition table_char :: "32 word \<Rightarrow> char" where
  "table_char i = BASE64_TABLE ! unat i"

text \<open>One chunk of up to three bytes.\<close>

definition base64_chunk :: "8 word list \<Rightarrow> string" where
  "base64_chunk chunk =
     (let b0 = (ucast (chunk ! 0) :: 32 word);
          b1 = (if 1 < length chunk then ucast (chunk ! 1) else 0 :: 32 word);
          b2 = (if 2 < length chunk then ucast (chunk ! 2) else 0 :: 32 word);
          n = push_bit 16 b0 OR push_bit 8 b1 OR b2
      in [table_char (drop_bit 18 n AND 63),
          table_char (drop_bit 12 n AND 63),
          if 1 < length chunk then table_char (drop_bit 6 n AND 63) else CHR 0x3D,
          if 2 < length chunk then table_char (n AND 63) else CHR 0x3D])"

function base64_encode :: "8 word list \<Rightarrow> string" where
  "base64_encode input =
     (if input = [] then [] else base64_chunk (take 3 input) @ base64_encode (drop 3 input))"
  by pat_completeness auto
termination by (relation "measure length") auto

declare base64_encode.simps [simp del]

text \<open>What \<open>run_macos_admin\<close> hands to \<open>osascript\<close>.\<close>

definition admin_apple_script :: "8 word list \<Rightarrow> string" where
  "admin_apple_script scr =
     ''do shell script '' @ [dq] @ ''/bin/echo '' @ base64_encode scr
       @ '' | /usr/bin/base64 -D | /bin/sh'' @ [dq] @ '' with administrator privileges''"

end
