(* ===== verification/Service_Control.thy ===== *)
theory Service_Control
  imports Service_Commands Platform_Process
begin

text \<open>
  Installing, removing and querying the system service: the \<open>--install-service\<close> and \<open>--uninstall-service\<close>
  commands of \<^verbatim>\<open>apps/agent/src/main.rs\<close> and the service commands of
  \<^verbatim>\<open>apps/desktop/src-tauri/src/startup.rs\<close>.  What a program run prints and returns is an input; the fixed
  Chinese messages of the errors are constructors.
\<close>

section \<open>The service manager of Windows\<close>

text \<open>A run of \<open>sc.exe\<close>: it cannot be started, or its success flag and outputs.\<close>

type_synonym sc_run = "string + bool \<times> string \<times> string"

datatype setup_error =
    SetupIo string
  | ScFailed "string list" string string
  | IcaclsFailed string
  | NotRunningAfterInstall
  | OnlyOnWindows

definition WINDOWS_SERVICE_NAME :: string where "WINDOWS_SERVICE_NAME = ''easyJobAgent''"
definition WINDOWS_SERVICE_DISPLAY_NAME :: string where "WINDOWS_SERVICE_DISPLAY_NAME = ''easyJob Agent''"

definition sc_query_state :: "(string \<Rightarrow> string) \<Rightarrow> sc_run \<Rightarrow> setup_error + windows_service_state" where
  "sc_query_state upper r =
     (case r of
        Inl e \<Rightarrow> Inl (SetupIo e)
      | Inr (_, out, err) \<Rightarrow> Inr (parse_sc_query_state upper (from_utf8_lossy out @ from_utf8_lossy err)))"

definition run_elevated_sc :: "string list \<Rightarrow> sc_run \<Rightarrow> setup_error + unit" where
  "run_elevated_sc argv r =
     (case r of
        Inl e \<Rightarrow> Inl (SetupIo e)
      | Inr (ok, out, err) \<Rightarrow>
          if ok then Inr () else Inl (ScFailed argv (from_utf8_lossy out) (from_utf8_lossy err)))"

definition sc_query :: "string list" where "sc_query = [''query'', WINDOWS_SERVICE_NAME]"

definition sc_create :: "string \<Rightarrow> string list" where
  "sc_create image_path =
     [''create'', WINDOWS_SERVICE_NAME, ''binPath= '' @ image_path,
      ''DisplayName= '' @ WINDOWS_SERVICE_DISPLAY_NAME, ''start='', ''auto'', ''obj='', ''LocalSystem'']"

definition sc_config :: "string \<Rightarrow> string list" where
  "sc_config image_path =
     [''config'', WINDOWS_SERVICE_NAME, ''binPath= '' @ image_path, ''start='', ''auto'', ''obj='', ''LocalSystem'']"

definition sc_failure :: "string list" where
  "sc_failure = [''failure'', WINDOWS_SERVICE_NAME, ''reset='', ''0'', ''actions='', ''restart/5000'']"

definition sc_start :: "string list" where "sc_start = [''start'', WINDOWS_SERVICE_NAME]"
definition sc_stop :: "string list" where "sc_stop = [''stop'', WINDOWS_SERVICE_NAME]"
definition sc_delete :: "string list" where "sc_delete = [''delete'', WINDOWS_SERVICE_NAME]"

text \<open>
  The machine as the commands meet it: creating the log directory, \<open>icacls\<close>, the path of the executable, and
  the \<open>i\<close>-th run of \<open>sc.exe\<close>.  A command returns the runs it made and its result.
\<close>

record setup_world =
  make_dirs :: "string + unit"
  icacls_run :: "string + bool \<times> string"
  own_exe :: "string + string"
  sc_run_at :: "nat \<Rightarrow> sc_run"
  to_upper :: "string \<Rightarrow> string"

definition grant_authenticated_users_modify :: "string + bool \<times> string \<Rightarrow> setup_error + unit" where
  "grant_authenticated_users_modify r =
     (case r of
        Inl e \<Rightarrow> Inl (SetupIo e)
      | Inr (ok, out) \<Rightarrow> if ok then Inr () else Inl (IcaclsFailed (from_utf8_lossy out)))"

definition install_service_cmd :: "setup_world \<Rightarrow> string \<Rightarrow> string list list \<times> (setup_error + unit)" where
  "install_service_cmd W data_dir =
     (case make_dirs W of
        Inl e \<Rightarrow> ([], Inl (SetupIo e))
      | Inr _ \<Rightarrow>
          (case grant_authenticated_users_modify (icacls_run W) of
             Inl e \<Rightarrow> ([], Inl e)
           | Inr _ \<Rightarrow>
               (case own_exe W of
                  Inl e \<Rightarrow> ([], Inl (SetupIo e))
                | Inr agent_exe \<Rightarrow>
                    let image_path = windows_service_image_path agent_exe data_dir
                    in (case sc_query_state (to_upper W) (sc_run_at W 0) of
                          Inl e \<Rightarrow> ([sc_query], Inl e)
                        | Inr state \<Rightarrow>
                            let cmd = (if state = ServiceNotInstalled then sc_create image_path else sc_config image_path)
                            in (case run_elevated_sc cmd (sc_run_at W 1) of
                                  Inl e \<Rightarrow> ([sc_query, cmd], Inl e)
                                | Inr _ \<Rightarrow>
                                    ([sc_query, cmd, sc_failure, sc_start, sc_query],
                                     (case sc_query_state (to_upper W) (sc_run_at W 4) of
                                        Inl e \<Rightarrow> Inl e
                                      | Inr final \<Rightarrow>
                                          if final \<noteq> ServiceRunning then Inl NotRunningAfterInstall
                                          else Inr ())))))))"

text \<open>The wait for the service to stop: up to \<open>n\<close> queries, half a second apart.\<close>

fun await_stopped :: "setup_world \<Rightarrow> nat \<Rightarrow> nat \<Rightarrow> string list list \<times> (setup_error + nat)" where
  "await_stopped W i 0 = ([], Inr i)"
| "await_stopped W i (Suc n) =
     (case sc_query_state (to_upper W) (sc_run_at W i) of
        Inl e \<Rightarrow> ([sc_query], Inl e)
      | Inr state \<Rightarrow>
          if state = ServiceStopped then ([sc_query], Inr (Suc i))
          else apfst (Cons sc_query) (await_stopped W (Suc i) n))"

definition uninstall_service_cmd :: "setup_world \<Rightarrow> string list list \<times> (setup_error + unit)" where
  "uninstall_service_cmd W =
     (case sc_query_state (to_upper W) (sc_run_at W 0) of
        Inl e \<Rightarrow> ([sc_query], Inl e)
      | Inr state \<Rightarrow>
          if state = ServiceNotInstalled then ([sc_query], Inr ())
          else
            (case await_stopped W 2 20 of
               (calls, Inl e) \<Rightarrow> ([sc_query, sc_stop] @ calls, Inl e)
             | (calls, Inr i) \<Rightarrow>
                 ([sc_query, sc_stop] @ calls @ [sc_delete], run_elevated_sc sc_delete (sc_run_at W i))))"

section \<open>The desktop's view of the service\<close>

datatype target_os = TargetWindows | TargetMacos | TargetOther

record service_status =
  installed :: bool
  running :: bool
  status_data_dir :: "string option"

definition no_service :: service_status where
  "no_service = \<lparr>installed = False, running = False, status_data_dir = None\<rparr>"

datatype desktop_error =
    QueryFailed string
  | ActionFailed string
  | ActionCancelled
  | UnsupportedPlatform
  | NotRunningInTime
  | StillNotWritable

text \<open>What one query meets: the runs of \<open>sc query\<close> and \<open>sc qc\<close>, or the plist and \<open>launchctl print\<close>.\<close>

record query_world =
  query_run :: sc_run
  qc_run :: sc_run
  plist_exists :: bool
  print_ok :: bool

definition query_windows_service_data_dir :: "sc_run \<Rightarrow> desktop_error + string option" where
  "query_windows_service_data_dir r =
     (case r of
        Inl e \<Rightarrow> Inl (QueryFailed e)
      | Inr (_, out, _) \<Rightarrow> Inr (parse_data_dir_from_qc (from_utf8_lossy out)))"

definition query_service_status ::
  "target_os \<Rightarrow> (string \<Rightarrow> string) \<Rightarrow> query_world \<Rightarrow> desktop_error + service_status" where
  "query_service_status target upper q =
     (case target of
        TargetWindows \<Rightarrow>
          (case query_run q of
             Inl e \<Rightarrow> Inl (QueryFailed e)
           | Inr (_, out, err) \<Rightarrow>
               let dir = (case query_windows_service_data_dir (qc_run q) of Inr d \<Rightarrow> d | Inl _ \<Rightarrow> None)
               in Inr (case parse_sc_query_state upper (from_utf8_lossy out @ from_utf8_lossy err) of
                         ServiceRunning \<Rightarrow> \<lparr>installed = True, running = True, status_data_dir = dir\<rparr>
                       | ServiceStopped \<Rightarrow> \<lparr>installed = True, running = False, status_data_dir = dir\<rparr>
                       | ServiceNotInstalled \<Rightarrow> no_service))
      | TargetMacos \<Rightarrow>
          Inr \<lparr>installed = plist_exists q, running = plist_exists q \<and> print_ok q,
               status_data_dir = Some MACOS_SYSTEM_DATA_DIR\<rparr>
      | TargetOther \<Rightarrow> Inr no_service)"

definition service_status_sync_fallback :: "desktop_error + service_status \<Rightarrow> service_status" where
  "service_status_sync_fallback r = (case r of Inr s \<Rightarrow> s | Inl _ \<Rightarrow> no_service)"

text \<open>\<open>service_install\<close>: after the installation up to \<open>n\<close> queries, half a second apart.\<close>

fun await_running :: "(nat \<Rightarrow> desktop_error + service_status) \<Rightarrow> nat \<Rightarrow> nat \<Rightarrow> desktop_error + service_status" where
  "await_running st i 0 = Inl NotRunningInTime"
| "await_running st i (Suc n) =
     (case st i of
        Inl e \<Rightarrow> Inl e
      | Inr s \<Rightarrow> if running s then Inr s else await_running st (Suc i) n)"

definition service_install ::
  "desktop_error + unit \<Rightarrow> (nat \<Rightarrow> desktop_error + service_status) \<Rightarrow> desktop_error + service_status" where
  "service_install install_service_impl st =
     (case install_service_impl of
        Inl e \<Rightarrow> Inl e
      | Inr _ \<Rightarrow> await_running st 0 30)"

definition service_uninstall :: "desktop_error + unit \<Rightarrow> desktop_error + service_status \<Rightarrow> desktop_error + service_status" where
  "service_uninstall uninstall_service_impl st =
     (case uninstall_service_impl of
        Inl e \<Rightarrow> Inl e
      | Inr _ \<Rightarrow> Inr (service_status_sync_fallback st))"

text \<open>A run with elevation: it fails to start, or its success flag, exit code and standard error.\<close>

type_synonym elevated_run = "string + bool \<times> int option \<times> string"

text \<open>\<open>stderr.trim().chars().take(300)\<close>; the characters of a text are the bytes up to the next first byte.\<close>

fun take_chars :: "nat \<Rightarrow> string \<Rightarrow> string" where
  "take_chars n [] = []"
| "take_chars n (c # cs) =
     (if is_continuation c then c # take_chars n cs
      else (case n of 0 \<Rightarrow> [] | Suc m \<Rightarrow> c # take_chars m cs))"

definition trim :: "string \<Rightarrow> string" where
  "trim s = trim_end (trim_start s)"

definition run_elevated :: "elevated_run \<Rightarrow> desktop_error + unit" where
  "run_elevated r =
     (case r of
        Inl e \<Rightarrow> Inl (ActionFailed e)
      | Inr (ok, _, err) \<Rightarrow>
          if ok then Inr ()
          else
            let stderr = from_utf8_lossy err
            in if contains_str stderr ''cancelled'' \<or> contains_str stderr ''denied'' then Inl ActionCancelled
               else Inl (ActionFailed (take_chars 300 (trim stderr))))"

definition run_macos_admin :: "elevated_run \<Rightarrow> desktop_error + unit" where
  "run_macos_admin r =
     (case r of
        Inl e \<Rightarrow> Inl (ActionFailed e)
      | Inr (ok, code, err) \<Rightarrow>
          if ok then Inr ()
          else
            let stderr = from_utf8_lossy err
            in if contains_str stderr ''User canceled'' \<or> code = Some 1 \<and> trim stderr = [] then Inl ActionCancelled
               else Inl (ActionFailed (take_chars 300 (trim stderr))))"

text \<open>The commands an action runs: the program with its arguments, or the AppleScript.\<close>

datatype elevated_command =
    PowershellCommand "string \<times> string list"
  | AppleScript string

definition script_bytes :: "string \<Rightarrow> 8 word list" where
  "script_bytes s = map (\<lambda>c. of_nat (byte c)) s"

definition elevated_result :: "target_os \<Rightarrow> elevated_run \<Rightarrow> desktop_error + unit" where
  "elevated_result target r = (if target = TargetWindows then run_elevated r else run_macos_admin r)"

definition install_service_impl ::
  "target_os \<Rightarrow> string \<Rightarrow> string \<Rightarrow> (elevated_command \<Rightarrow> elevated_run) \<Rightarrow> desktop_error + unit" where
  "install_service_impl target agent data_dir run_command =
     (case target of
        TargetWindows \<Rightarrow> run_elevated (run_command (PowershellCommand (windows_install_elevated_ps agent data_dir)))
      | TargetMacos \<Rightarrow>
          let plist = macos_daemon_plist agent MACOS_SYSTEM_DATA_DIR;
              scr = macos_install_script MACOS_DAEMON_PLIST_PATH plist MACOS_SYSTEM_DATA_DIR
          in run_macos_admin (run_command (AppleScript (admin_apple_script (script_bytes scr))))
      | TargetOther \<Rightarrow> Inl UnsupportedPlatform)"

definition uninstall_service_impl ::
  "target_os \<Rightarrow> string \<Rightarrow> desktop_error + service_status \<Rightarrow> bool \<Rightarrow> (elevated_command \<Rightarrow> elevated_run)
   \<Rightarrow> desktop_error + unit" where
  "uninstall_service_impl target agent st plist_there run_command =
     (case target of
        TargetWindows \<Rightarrow>
          if (case st of Inr s \<Rightarrow> \<not> installed s | Inl _ \<Rightarrow> False) then Inr ()
          else run_elevated (run_command (PowershellCommand (windows_uninstall_elevated_ps agent)))
      | TargetMacos \<Rightarrow>
          if \<not> plist_there then Inr ()
          else run_macos_admin (run_command (AppleScript
                 (admin_apple_script (script_bytes (macos_uninstall_script MACOS_DAEMON_PLIST_PATH)))))
      | TargetOther \<Rightarrow> Inl UnsupportedPlatform)"

text \<open>\<open>data_dir_writable\<close> before and after the elevated preparation are the two flags.\<close>

definition prepare_data_dir_impl ::
  "target_os \<Rightarrow> string \<Rightarrow> bool \<Rightarrow> bool \<Rightarrow> (elevated_command \<Rightarrow> elevated_run) \<Rightarrow> desktop_error + unit" where
  "prepare_data_dir_impl target data_dir writable_before writable_after run_command =
     (if writable_before then Inr ()
      else (case target of
        TargetWindows \<Rightarrow>
          (case run_elevated (run_command (PowershellCommand (windows_prepare_data_dir_elevated_ps data_dir))) of
             Inl e \<Rightarrow> Inl e
           | Inr _ \<Rightarrow> if \<not> writable_after then Inl StillNotWritable else Inr ())
      | TargetMacos \<Rightarrow>
          (case run_macos_admin (run_command (AppleScript
                  (admin_apple_script (script_bytes (macos_prepare_data_dir_script data_dir))))) of
             Inl e \<Rightarrow> Inl e
           | Inr _ \<Rightarrow> if \<not> writable_after then Inl StillNotWritable else Inr ())
      | TargetOther \<Rightarrow> Inl UnsupportedPlatform))"

section \<open>Facts\<close>

lemma await_running_iff:
  "await_running st i n = Inr s \<longleftrightarrow>
     (\<exists>k<n. st (i + k) = Inr s \<and> running s \<and> (\<forall>j<k. \<exists>s'. st (i + j) = Inr s' \<and> \<not> running s'))"
proof (induction n arbitrary: i)
  case (Suc n)
  show ?case
  proof (cases "\<exists>s'. st i = Inr s' \<and> \<not> running s'")
    case True
    then show ?thesis using Suc.IH [of "Suc i"] by (auto simp: All_less_Suc2 Ex_less_Suc2)
  next
    case False
    then show ?thesis by (cases "st i") (auto simp: All_less_Suc2 Ex_less_Suc2)
  qed
qed simp

text \<open>
  The desktop reports an installation as done exactly if one of the first thirty status queries shows the
  service running and none before it failed.
\<close>

lemma service_install_iff:
  "service_install (Inr ()) st = Inr s \<longleftrightarrow>
     (\<exists>k<30. st k = Inr s \<and> running s \<and> (\<forall>j<k. \<exists>s'. st j = Inr s' \<and> \<not> running s'))"
  by (simp add: service_install_def await_running_iff)

text \<open>
  The agent's installation command succeeds only if the last query shows the service running, with the image
  path of its own executable registered.
\<close>

lemma install_service_cmd_ok:
  assumes "snd (install_service_cmd W data_dir) = Inr ()"
  shows "\<exists>exe cmd. own_exe W = Inr exe \<and> cmd \<in> {sc_create (windows_service_image_path exe data_dir),
       sc_config (windows_service_image_path exe data_dir)}
     \<and> fst (install_service_cmd W data_dir) = [sc_query, cmd, sc_failure, sc_start, sc_query]
     \<and> run_elevated_sc cmd (sc_run_at W 1) = Inr ()
     \<and> sc_query_state (to_upper W) (sc_run_at W 4) = Inr ServiceRunning"
  using assms by (auto simp: install_service_cmd_def Let_def split: sum.splits if_splits)

text \<open>
  That query follows the start at once, and a service that is still starting counts as stopped: the command
  then fails although the service comes up.
\<close>

lemma pending_start_is_reported_as_failure:
  assumes "make_dirs W = Inr u" and "icacls_run W = Inr (True, out)" and "own_exe W = Inr exe"
    and "sc_query_state (to_upper W) (sc_run_at W 0) = Inr ServiceNotInstalled"
    and "run_elevated_sc (sc_create (windows_service_image_path exe data_dir)) (sc_run_at W 1) = Inr ()"
    and "sc_run_at W 4 = Inr (True, ''STATE : 2 START_PENDING'', [])"
    and "to_upper W (from_utf8_lossy ''STATE : 2 START_PENDING'') = ''STATE : 2 START_PENDING''"
  shows "snd (install_service_cmd W data_dir) = Inl NotRunningAfterInstall"
proof -
  have "from_utf8_lossy [] = []" and "from_utf8_lossy ''STATE : 2 START_PENDING'' = ''STATE : 2 START_PENDING''"
    by code_simp+
  then have "sc_query_state (to_upper W) (sc_run_at W 4) = Inr ServiceStopped"
    using assms(6,7) by (simp add: sc_query_state_def parse_sc_query_state_def starts_with_def not_installed_marker_def)
  then show ?thesis
    using assms(1-5) by (simp add: install_service_cmd_def grant_authenticated_users_modify_def)
qed

end
