(* ===== verification/Desktop.thy ===== *)
theory Desktop
  imports Agent Ipc_Client Service_Control
begin

text \<open>
  The logic of the desktop application (\<^verbatim>\<open>apps/desktop/src-tauri/src\<close>): the connection manager with its
  spawn cooldown and its retry, the requests behind the Tauri commands, the checks on file names and links,
  and the notifications made of the agent's events.
\<close>

section \<open>The connection manager\<close>

text \<open>\<open>AgentManager\<close>; a client is the number of its connection, the clock counts milliseconds.\<close>

record agent_manager =
  mgr_client :: "nat option"
  last_spawn_attempt :: "nat option"
  allow_spawn :: bool
  spawned_by_us :: bool

definition new_agent_manager :: agent_manager where
  "new_agent_manager =
     \<lparr>mgr_client = None, last_spawn_attempt = None, allow_spawn = True, spawned_by_us = False\<rparr>"

definition set_allow_spawn :: "bool \<Rightarrow> agent_manager \<Rightarrow> agent_manager" where
  "set_allow_spawn allow m = m\<lparr>allow_spawn := allow\<rparr>"

definition disconnect_agent :: "agent_manager \<Rightarrow> agent_manager" where
  "disconnect_agent m = m\<lparr>mgr_client := None\<rparr>"

datatype manager_error =
    ServiceNotRunning
  | ConnectFailed
  | SpawnFailed
  | RestartBySystemOnly
  | CallFailed error

text \<open>
  What one \<open>ensure_connected\<close> meets: the first connection attempt and the fifteen of the retry loop, the
  clock when the cooldown is checked, and whether the agent's process starts.
\<close>

record connect_world =
  connect_at :: "nat \<Rightarrow> nat option"
  spawn_check_time :: nat
  spawn_starts :: bool

fun retry_connect :: "(nat \<Rightarrow> nat option) \<Rightarrow> nat \<Rightarrow> nat \<Rightarrow> nat option" where
  "retry_connect conn i 0 = None"
| "retry_connect conn i (Suc n) =
     (case conn i of Some c \<Rightarrow> Some c | None \<Rightarrow> retry_connect conn (Suc i) n)"

definition cooling_down :: "nat \<Rightarrow> nat option \<Rightarrow> bool" where
  "cooling_down now last_try = (case last_try of Some t \<Rightarrow> now - t < 5000 | None \<Rightarrow> False)"

text \<open>The result, the new state, and the times at which a process was spawned.\<close>

definition ensure_connected ::
  "connect_world \<Rightarrow> agent_manager \<Rightarrow> (manager_error + nat) \<times> agent_manager \<times> nat list" where
  "ensure_connected W m =
     (case mgr_client m of
        Some c \<Rightarrow> (Inr c, m, [])
      | None \<Rightarrow>
          (case connect_at W 0 of
             Some c \<Rightarrow> (Inr c, m\<lparr>mgr_client := Some c\<rparr>, [])
           | None \<Rightarrow>
               let should_spawn = (\<not> cooling_down (spawn_check_time W) (last_spawn_attempt m));
                   m = (if should_spawn then m\<lparr>last_spawn_attempt := Some (spawn_check_time W)\<rparr> else m)
               in if should_spawn \<and> \<not> allow_spawn m then (Inl ServiceNotRunning, m, [])
                  else
                    let m = (if should_spawn \<and> spawn_starts W then m\<lparr>spawned_by_us := True\<rparr> else m);
                        spawned = (if should_spawn then [spawn_check_time W] else [])
                    in (case retry_connect (connect_at W) 1 15 of
                          Some c \<Rightarrow> (Inr c, m\<lparr>mgr_client := Some c\<rparr>, spawned)
                        | None \<Rightarrow> (Inl ConnectFailed, m, spawned))))"

text \<open>\<open>lower\<close> is \<open>str::to_lowercase\<close>.\<close>

definition is_connection_error :: "(string \<Rightarrow> string) \<Rightarrow> error \<Rightarrow> bool" where
  "is_connection_error lower e =
     (case e of
        Io _ \<Rightarrow> True
      | Other msg \<Rightarrow>
          let l = lower msg
          in contains_str l ''failed to send ipc request'' \<or> contains_str l ''channel closed''
             \<or> contains_str l ''connection'' \<or> contains_str l ''broken pipe''
             \<or> contains_str l ''reset by peer'' \<or> contains_str l ''timed out''
      | _ \<Rightarrow> False)"

text \<open>
  \<open>call\<close>: the worlds of its two \<open>ensure_connected\<close>, and what the clients answer to the first and the second
  request.  Besides the result and the state it returns the clients that were sent the request, in order,
  and the spawn times.
\<close>

definition manager_call ::
  "(string \<Rightarrow> string) \<Rightarrow> connect_world \<Rightarrow> connect_world \<Rightarrow> (nat \<Rightarrow> error + json) \<Rightarrow> (nat \<Rightarrow> error + json)
   \<Rightarrow> agent_manager \<Rightarrow> (manager_error + json) \<times> agent_manager \<times> nat list \<times> nat list" where
  "manager_call lower W1 W2 ask1 ask2 m =
     (case ensure_connected W1 m of
        (Inl e, m, sp) \<Rightarrow> (Inl e, m, [], sp)
      | (Inr c, m, sp) \<Rightarrow>
          (case ask1 c of
             Inr res \<Rightarrow> (Inr res, m, [c], sp)
           | Inl e \<Rightarrow>
               if is_connection_error lower e
               then (case ensure_connected W2 (disconnect_agent m) of
                       (Inl e, m, sp') \<Rightarrow> (Inl e, m, [c], sp @ sp')
                     | (Inr c', m, sp') \<Rightarrow>
                         (case ask2 c' of Inr res \<Rightarrow> Inr res | Inl e \<Rightarrow> Inl (CallFailed e), m, [c, c'], sp @ sp'))
               else (Inl (CallFailed e), m, [c], sp)))"

text \<open>\<open>shutdown_agent\<close> and \<open>restart_agent\<close>: also the clients told to shut down.\<close>

definition shutdown_agent :: "nat option \<Rightarrow> agent_manager \<Rightarrow> agent_manager \<times> nat list" where
  "shutdown_agent fresh_connection m =
     (case mgr_client m of
        Some c \<Rightarrow> (disconnect_agent m, [c])
      | None \<Rightarrow> (m, case fresh_connection of Some c \<Rightarrow> [c] | None \<Rightarrow> []))"

definition restart_agent ::
  "connect_world \<Rightarrow> nat \<Rightarrow> bool \<Rightarrow> connect_world \<Rightarrow> agent_manager
   \<Rightarrow> (manager_error + bool) \<times> agent_manager \<times> nat list \<times> nat list" where
  "restart_agent W1 restart_time restart_spawns W2 m =
     (if \<not> allow_spawn m then (Inl RestartBySystemOnly, m, [], [])
      else
        (case ensure_connected W1 m of (res, m, sp) \<Rightarrow>
          let told_down = (case res of Inr c \<Rightarrow> [c] | Inl _ \<Rightarrow> []);
              m = disconnect_agent m;
              sp = sp @ [restart_time]
          in if \<not> restart_spawns then (Inl SpawnFailed, m, told_down, sp)
             else (case ensure_connected W2 m of
                     (Inl e, m, sp') \<Rightarrow> (Inl e, m, told_down, sp @ sp')
                   | (Inr _, m, sp') \<Rightarrow> (Inr True, m, told_down, sp @ sp'))))"

text \<open>The start of the application, from the queried service status, and its exit.\<close>

definition desktop_start :: "service_status \<Rightarrow> agent_manager" where
  "desktop_start st = set_allow_spawn (\<not> installed st) new_agent_manager"

definition exit_requested :: "nat option \<Rightarrow> agent_manager \<Rightarrow> agent_manager \<times> nat list" where
  "exit_requested fresh_connection m =
     (if \<not> spawned_by_us m then (m, []) else shutdown_agent fresh_connection m)"

section \<open>Commands\<close>

text \<open>The Tauri commands that are one request to the agent.\<close>

datatype desktop_command =
    GetAgentStatus
  | ListTasks
  | GetTask task_id
  | SaveTaskCommand task
  | DeleteTaskCommand task_id
  | TriggerTask task_id
  | ListExecutions "u32 option"
  | GetExecution execution_id
  | CancelExecution execution_id
  | GetExecutionOutput execution_id
  | GetSystemSettings
  | SaveSystemSettings system_settings
  | TaskOverview
  | RerollTriggerOf task_id trigger_id

text \<open>serde writes the task and the settings into the parameters.\<close>

record desktop_serde =
  json_of_task :: "task \<Rightarrow> json"
  json_of_settings :: "system_settings \<Rightarrow> json"

fun command_request :: "desktop_serde \<Rightarrow> desktop_command \<Rightarrow> string \<times> json" where
  "command_request J GetAgentStatus = (''agent.status'', JObj [])"
| "command_request J ListTasks = (''task.list'', JObj [])"
| "command_request J (GetTask t) = (''task.get'', JObj [(''id'', task_id_json t)])"
| "command_request J (SaveTaskCommand t) = (''task.save'', JObj [(''task'', json_of_task J t)])"
| "command_request J (DeleteTaskCommand t) = (''task.delete'', JObj [(''id'', task_id_json t)])"
| "command_request J (TriggerTask t) = (''task.trigger_now'', JObj [(''id'', task_id_json t)])"
| "command_request J (ListExecutions limit) =
     (''execution.list'', JObj [(''limit'', JInt (uint (case limit of Some n \<Rightarrow> n | None \<Rightarrow> 50)))])"
| "command_request J (GetExecution e) = (''execution.get'', JObj [(''id'', execution_id_json e)])"
| "command_request J (CancelExecution e) = (''execution.cancel'', JObj [(''id'', execution_id_json e)])"
| "command_request J (GetExecutionOutput e) = (''execution.get_output'', JObj [(''id'', execution_id_json e)])"
| "command_request J GetSystemSettings = (''settings.get'', JObj [])"
| "command_request J (SaveSystemSettings s) = (''settings.set'', JObj [(''settings'', json_of_settings J s)])"
| "command_request J TaskOverview = (''task.overview'', JObj [])"
| "command_request J (RerollTriggerOf t tr) =
     (''trigger.reroll'', JObj [(''task_id'', task_id_json t), (''trigger_id'', trigger_id_json tr)])"

section \<open>Files and links\<close>

datatype export_error = BadLength | NotJson | HiddenFile | BadCharacters | WriteFailed string

definition validate_export_filename :: "string \<Rightarrow> export_error + unit" where
  "validate_export_filename filename =
     (if filename = [] \<or> 128 < length filename then Inl BadLength
      else if \<not> ends_with filename ''.json'' then Inl NotJson
      else if starts_with filename ''.'' then Inl HiddenFile
      else if \<not> list_all (\<lambda>c. is_ascii_alphanumeric c \<or> c \<in> set ''-_.'') filename then Inl BadCharacters
      else Inr ())"

text \<open>Creating the directory and writing the file can fail; the path is where the file was written.\<close>

definition write_export_file ::
  "string \<Rightarrow> string \<Rightarrow> string + unit \<Rightarrow> (string \<Rightarrow> string + unit) \<Rightarrow> export_error + string" where
  "write_export_file download_dir filename mkdir write =
     (case validate_export_filename filename of
        Inl e \<Rightarrow> Inl e
      | Inr _ \<Rightarrow>
          (case mkdir of
             Inl e \<Rightarrow> Inl (WriteFailed e)
           | Inr _ \<Rightarrow>
               let path = path_join download_dir filename
               in (case write path of Inl e \<Rightarrow> Inl (WriteFailed e) | Inr _ \<Rightarrow> Inr path)))"

definition url_allowed :: "string \<Rightarrow> bool" where
  "url_allowed url = starts_with url ''https://github.com/nice-buddy/easyJob/releases''"

definition is_minimized_launch :: "string list \<Rightarrow> bool" where
  "is_minimized_launch argv = list_ex (\<lambda>arg. arg = ''--minimized'') argv"

section \<open>Notifications\<close>

definition should_notify :: "string \<Rightarrow> string \<Rightarrow> bool" where
  "should_notify policy st =
     (let is_success = (st = ''Succeeded'')
      in if policy = ''OnlySuccess'' then is_success
         else if policy = ''OnlyFailure'' then \<not> is_success
         else policy = ''All'')"

datatype notification_title = TaskSucceeded | TaskFailed

text \<open>The Chinese parts of the body, in UTF-8.\<close>

definition body_task :: string where
  "body_task = [CHR 0xE4, CHR 0xBB, CHR 0xBB, CHR 0xE5, CHR 0x8A, CHR 0xA1, CHR 0xE3, CHR 0x80, CHR 0x8C]"

definition body_took :: string where
  "body_took =
     [CHR 0xE3, CHR 0x80, CHR 0x8D, CHR 0xE8, CHR 0x80, CHR 0x97, CHR 0xE6, CHR 0x97, CHR 0xB6] @ '': ''"

definition body_error :: string where
  "body_error = '' | '' @ [CHR 0xE9, CHR 0x94, CHR 0x99, CHR 0xE8, CHR 0xAF, CHR 0xAF] @ '': ''"

definition unnamed_task :: string where
  "unnamed_task =
     [CHR 0xE6, CHR 0x9C, CHR 0xAA, CHR 0xE5, CHR 0x91, CHR 0xBD, CHR 0xE5, CHR 0x90, CHR 0x8D,
      CHR 0xE4, CHR 0xBB, CHR 0xBB, CHR 0xE5, CHR 0x8A, CHR 0xA1]"

definition char_count :: "string \<Rightarrow> nat" where
  "char_count s = length (filter (\<lambda>c. \<not> is_continuation c) s)"

text \<open>\<open>secs_text n\<close> is \<open>format!("{:.2}s", n as f64 / 1000.0)\<close>.\<close>

definition format_notification_content ::
  "(u64 \<Rightarrow> string) \<Rightarrow> string \<Rightarrow> string \<Rightarrow> u64 \<Rightarrow> string option \<Rightarrow> notification_title \<times> string" where
  "format_notification_content secs_text st name duration err =
     (let is_success = (st = ''Succeeded'');
          duration_str = (if duration < 1000 then json_int (uint duration) @ ''ms'' else secs_text duration);
          title = (if is_success then TaskSucceeded else TaskFailed);
          body = body_task @ name @ body_took @ duration_str
      in (title,
          if is_success then body
          else (case err of
                  None \<Rightarrow> body
                | Some e \<Rightarrow> body @ body_error @ take_chars 60 e @ (if 60 < char_count e then ''...'' else []))))"

text \<open>What the event relay shows for an event of the agent.\<close>

definition relay_notification :: "(u64 \<Rightarrow> string) \<Rightarrow> ipc_event \<Rightarrow> (notification_title \<times> string) option" where
  "relay_notification secs_text ev =
     (if event_name ev \<noteq> ''execution.finished'' then None
      else (case str_field ''notification_policy'' (event_data ev) of
              None \<Rightarrow> None
            | Some policy \<Rightarrow>
                let st = (case str_field ''status'' (event_data ev) of Some s \<Rightarrow> s | None \<Rightarrow> [])
                in if \<not> should_notify policy st then None
                   else
                     let name = (case str_field ''task_name'' (event_data ev) of Some s \<Rightarrow> s | None \<Rightarrow> unnamed_task);
                         duration = (case Option.bind (json_get ''duration_ms'' (event_data ev)) as_u64 of
                                       Some n \<Rightarrow> n | None \<Rightarrow> 0);
                         err = str_field ''error_message'' (event_data ev)
                     in Some (format_notification_content secs_text st name duration err)))"

end
