(* ===== verification/Desktop_Props.thy ===== *)
theory Desktop_Props
  imports Desktop Agent_Props
begin

text \<open>
  What the desktop application promises: it spawns rarely and never beside an installed service, its commands
  reach the agent's handlers with their arguments, its notifications follow the task's policy, and exported
  files stay in the download directory; and where a retried request is sent twice.
\<close>

section \<open>Sessions\<close>

datatype desktop_op =
    OpEnsure connect_world
  | OpCall connect_world connect_world "nat \<Rightarrow> error + json" "nat \<Rightarrow> error + json"
  | OpDisconnect
  | OpRestart connect_world nat bool connect_world

fun is_restart :: "desktop_op \<Rightarrow> bool" where
  "is_restart (OpRestart _ _ _ _) = True"
| "is_restart _ = False"

text \<open>The manager and the times at which it spawned the agent.\<close>

fun desktop_step :: "(string \<Rightarrow> string) \<Rightarrow> desktop_op \<Rightarrow> agent_manager \<times> nat list \<Rightarrow> agent_manager \<times> nat list" where
  "desktop_step lower (OpEnsure W) (m, sp) =
     (case ensure_connected W m of (_, m, sp') \<Rightarrow> (m, sp @ sp'))"
| "desktop_step lower (OpCall W1 W2 ask1 ask2) (m, sp) =
     (case manager_call lower W1 W2 ask1 ask2 m of (_, m, _, sp') \<Rightarrow> (m, sp @ sp'))"
| "desktop_step lower OpDisconnect (m, sp) = (disconnect_agent m, sp)"
| "desktop_step lower (OpRestart W1 t ok W2) (m, sp) =
     (case restart_agent W1 t ok W2 m of (_, m, _, sp') \<Rightarrow> (m, sp @ sp'))"

definition desktop_run ::
  "(string \<Rightarrow> string) \<Rightarrow> service_status \<Rightarrow> desktop_op list \<Rightarrow> agent_manager \<times> nat list" where
  "desktop_run lower st ops = fold (desktop_step lower) ops (desktop_start st, [])"

lemma ensure_connected_cases:
  assumes "ensure_connected W m = (res, m', sp)"
  obtains (quiet) "sp = []" and "last_spawn_attempt m' = last_spawn_attempt m" and "allow_spawn m' = allow_spawn m"
      and "spawned_by_us m' = spawned_by_us m"
  | (refused) "sp = []" and "last_spawn_attempt m' = Some (spawn_check_time W)" and "\<not> allow_spawn m"
      and "allow_spawn m' = allow_spawn m" and "spawned_by_us m' = spawned_by_us m"
      and "\<not> cooling_down (spawn_check_time W) (last_spawn_attempt m)"
  | (spawn) "sp = [spawn_check_time W]" and "last_spawn_attempt m' = Some (spawn_check_time W)" and "allow_spawn m"
      and "allow_spawn m' = allow_spawn m"
      and "\<not> cooling_down (spawn_check_time W) (last_spawn_attempt m)"
  using assms unfolding ensure_connected_def Let_def
  by (auto split: option.splits if_splits)

section \<open>The cooldown\<close>

definition spaced :: "nat list \<Rightarrow> bool" where
  "spaced sp \<longleftrightarrow> sorted_wrt (\<lambda>a b. a + 5000 \<le> b) sp"

definition cooldown_inv :: "agent_manager \<times> nat list \<Rightarrow> bool" where
  "cooldown_inv ms \<longleftrightarrow>
     spaced (snd ms) \<and> (\<forall>t \<in> set (snd ms). \<exists>u. last_spawn_attempt (fst ms) = Some u \<and> t \<le> u)"

lemma ensure_cooldown:
  assumes "cooldown_inv (m, sp)" and "ensure_connected W m = (res, m', sp')"
  shows "cooldown_inv (m', sp @ sp')"
  using assms(2)
proof (cases rule: ensure_connected_cases)
  case quiet
  with assms(1) show ?thesis by (simp add: cooldown_inv_def)
next
  case refused
  with assms(1) show ?thesis by (fastforce simp: cooldown_inv_def cooling_down_def split: option.splits)
next
  case spawn
  have "t + 5000 \<le> spawn_check_time W" if "t \<in> set sp" for t
    using assms(1) spawn that by (fastforce simp: cooldown_inv_def cooling_down_def split: option.splits)
  with assms(1) spawn show ?thesis by (fastforce simp: cooldown_inv_def spaced_def sorted_wrt_append)
qed

lemma disconnect_cooldown: "cooldown_inv (m, sp) \<Longrightarrow> cooldown_inv (disconnect_agent m, sp)"
  by (simp add: cooldown_inv_def disconnect_agent_def)

lemma call_cooldown:
  assumes "cooldown_inv (m, sp)" and "manager_call lower W1 W2 ask1 ask2 m = (res, m', sent, sp')"
  shows "cooldown_inv (m', sp @ sp')"
proof -
  obtain r1 m1 sp1 where 1: "ensure_connected W1 m = (r1, m1, sp1)" by (metis prod_cases3)
  obtain r2 m2 sp2 where 2: "ensure_connected W2 (disconnect_agent m1) = (r2, m2, sp2)" by (metis prod_cases3)
  note inv1 = ensure_cooldown [OF assms(1) 1]
  note inv2 = ensure_cooldown [OF disconnect_cooldown [OF inv1] 2]
  have "(m', sp') = (m1, sp1) \<or> (m', sp') = (m2, sp1 @ sp2)"
    using assms(2) 1 2 by (auto simp: manager_call_def split: sum.splits if_splits)
  then show ?thesis using inv1 inv2 by auto
qed

lemma step_cooldown:
  assumes "cooldown_inv ms" and "\<not> is_restart oper"
  shows "cooldown_inv (desktop_step lower oper ms)"
proof -
  obtain m sp where ms: "ms = (m, sp)" by (cases ms)
  show ?thesis
    using assms ensure_cooldown [of m sp] call_cooldown [of m sp] disconnect_cooldown [of m sp]
    by (cases oper) (auto simp: ms split: prod.splits)
qed

text \<open>
  The spawn cooldown: however often the desktop connects, calls and disconnects, two attempts to spawn the
  agent lie at least five seconds apart.
\<close>

theorem spawns_are_spaced:
  assumes "list_all (\<lambda>oper. \<not> is_restart oper) ops"
  shows "sorted_wrt (\<lambda>a b. a + 5000 \<le> b) (snd (desktop_run lower st ops))"
proof -
  have "cooldown_inv ms \<Longrightarrow> cooldown_inv (fold (desktop_step lower) ops ms)" for ms
    using assms by (induction ops arbitrary: ms) (auto simp: step_cooldown)
  moreover have "cooldown_inv (desktop_start st, [])" by (simp add: cooldown_inv_def spaced_def)
  ultimately show ?thesis unfolding desktop_run_def cooldown_inv_def spaced_def by blast
qed

section \<open>An installed service\<close>

definition client_only :: "agent_manager \<times> nat list \<Rightarrow> bool" where
  "client_only ms \<longleftrightarrow> \<not> allow_spawn (fst ms) \<and> \<not> spawned_by_us (fst ms) \<and> snd ms = []"

lemma ensure_client_only:
  assumes "client_only (m, sp)" and "ensure_connected W m = (res, m', sp')"
  shows "client_only (m', sp @ sp')"
  using assms(2) by (cases rule: ensure_connected_cases) (use assms(1) in \<open>auto simp: client_only_def\<close>)

lemma disconnect_client_only: "client_only (m, sp) \<Longrightarrow> client_only (disconnect_agent m, sp)"
  by (simp add: client_only_def disconnect_agent_def)

lemma call_client_only:
  assumes "client_only (m, sp)" and "manager_call lower W1 W2 ask1 ask2 m = (res, m', sent, sp')"
  shows "client_only (m', sp @ sp')"
proof -
  obtain r1 m1 sp1 where 1: "ensure_connected W1 m = (r1, m1, sp1)" by (metis prod_cases3)
  obtain r2 m2 sp2 where 2: "ensure_connected W2 (disconnect_agent m1) = (r2, m2, sp2)" by (metis prod_cases3)
  note inv1 = ensure_client_only [OF assms(1) 1]
  note inv2 = ensure_client_only [OF disconnect_client_only [OF inv1] 2]
  have "(m', sp') = (m1, sp1) \<or> (m', sp') = (m2, sp1 @ sp2)"
    using assms(2) 1 2 by (auto simp: manager_call_def split: sum.splits if_splits)
  then show ?thesis using inv1 inv2 by auto
qed

lemma step_client_only:
  assumes "client_only ms" shows "client_only (desktop_step lower oper ms)"
proof -
  obtain m sp where ms: "ms = (m, sp)" by (cases ms)
  have restart: "restart_agent W1 t ok W2 m = (Inl RestartBySystemOnly, m, [], [])" for W1 t ok W2
    using assms by (simp add: ms restart_agent_def client_only_def)
  show ?thesis
    using assms ensure_client_only [of m sp] call_client_only [of m sp] disconnect_client_only [of m sp] restart
    by (cases oper) (auto simp: ms split: prod.splits)
qed

text \<open>C37. Beside an installed system service the desktop is a client only: whatever it does in a session, it never
  spawns an agent, and at its exit it shuts none down.
\<close>

theorem installed_service_is_left_alone:
  assumes "installed st"
  shows "snd (desktop_run lower st ops) = []
     \<and> exit_requested fresh_connection (fst (desktop_run lower st ops)) = (fst (desktop_run lower st ops), [])"
proof -
  have "client_only ms \<Longrightarrow> client_only (fold (desktop_step lower) ops ms)" for ms
    by (induction ops arbitrary: ms) (auto simp: step_client_only)
  moreover have "client_only (desktop_start st, [])"
    using assms by (simp add: client_only_def desktop_start_def set_allow_spawn_def new_agent_manager_def)
  ultimately have "client_only (desktop_run lower st ops)" unfolding desktop_run_def by blast
  then show ?thesis by (simp add: client_only_def exit_requested_def)
qed

definition unreachable_agent :: "nat \<Rightarrow> connect_world" where
  "unreachable_agent t = \<lparr>connect_at = (\<lambda>_. None), spawn_check_time = t, spawn_starts = True\<rparr>"

lemma installed_service_is_left_alone_witness:
  "snd (desktop_run id \<lparr>installed = True, running = False, status_data_dir = None\<rparr>
      [OpEnsure (unreachable_agent 0), OpEnsure (unreachable_agent 9000)]) = []"
  using installed_service_is_left_alone [of "\<lparr>installed = True, running = False, status_data_dir = None\<rparr>" id
      "[OpEnsure (unreachable_agent 0), OpEnsure (unreachable_agent 9000)]" None] by simp

lemma retry_unreachable: "retry_connect (\<lambda>_. None) i n = None"
  by (induction n arbitrary: i) simp_all

text \<open>Without a service the same session spawns twice, and a restart does not count for the cooldown.\<close>

lemma unreachable_run:
  "snd (desktop_run lower no_service [OpEnsure (unreachable_agent 0), OpEnsure (unreachable_agent 100),
      OpEnsure (unreachable_agent 9000)]) = [0, 9000]"
  by (simp add: desktop_run_def desktop_start_def no_service_def set_allow_spawn_def new_agent_manager_def
      unreachable_agent_def ensure_connected_def cooling_down_def retry_unreachable Let_def)

lemma spawns_are_spaced_witness:
  "sorted_wrt (\<lambda>a b. a + 5000 \<le> b) (snd (desktop_run id no_service
     [OpEnsure (unreachable_agent 0), OpEnsure (unreachable_agent 100), OpEnsure (unreachable_agent 9000)]))
   \<and> snd (desktop_run id no_service
     [OpEnsure (unreachable_agent 0), OpEnsure (unreachable_agent 100), OpEnsure (unreachable_agent 9000)]) = [0, 9000]"
  using spawns_are_spaced [of "[OpEnsure (unreachable_agent 0), OpEnsure (unreachable_agent 100),
      OpEnsure (unreachable_agent 9000)]" id no_service] unreachable_run [of id] by simp

lemma restart_spawns_twice:
  "\<exists>m. restart_agent (unreachable_agent 0) 10000 True (unreachable_agent 10001) new_agent_manager
     = (Inl ConnectFailed, m, [], [0, 10000, 10001])"
  by (simp add: restart_agent_def new_agent_manager_def unreachable_agent_def ensure_connected_def cooling_down_def
      retry_unreachable disconnect_agent_def Let_def)

section \<open>Retried requests\<close>

text \<open>Lower case letter by letter up to the end of a text in ASCII.\<close>

definition lower_ok :: "(string \<Rightarrow> string) \<Rightarrow> bool" where
  "lower_ok lower \<longleftrightarrow>
     (\<forall>xs ys. list_all (\<lambda>c. byte c < 128) xs \<longrightarrow> (\<exists>zs. lower (xs @ ys) = map to_ascii_lower xs @ zs))"

lemma lower_contains:
  assumes "lower_ok lower" and "list_all (\<lambda>c. byte c < 128) xs" and "map to_ascii_lower xs = a @ p @ b"
  shows "contains_str (lower (xs @ ys)) p"
proof -
  obtain zs where "lower (xs @ ys) = map to_ascii_lower xs @ zs"
    using assms(1,2) unfolding lower_ok_def by blast
  then have "lower (xs @ ys) = a @ p @ (b @ zs)" by (simp add: assms(3))
  then show ?thesis by (metis contains_str_iff_sublist sublist_appendI)
qed

lemma connection_error_texts:
  assumes "lower_ok lower"
  shows "is_connection_error lower (Other (''IPC request timed out after '' @ msg))"
    and "is_connection_error lower (Other (''Failed to send IPC request: '' @ msg))"
    and "is_connection_error lower (Other (''IPC response channel closed: '' @ msg))"
proof -
  have "map to_ascii_lower ''IPC request timed out after '' = ''ipc request '' @ ''timed out'' @ '' after ''"
    "map to_ascii_lower ''Failed to send IPC request: '' = [] @ ''failed to send ipc request'' @ '': ''"
    "map to_ascii_lower ''IPC response channel closed: '' = ''ipc response '' @ ''channel closed'' @ '': ''"
    by code_simp+
  note l = lower_contains [OF assms _ this(1), of msg] lower_contains [OF assms _ this(2), of msg]
    lower_contains [OF assms _ this(3), of msg]
  have "list_all (\<lambda>c. byte c < 128) ''IPC request timed out after ''"
    "list_all (\<lambda>c. byte c < 128) ''Failed to send IPC request: ''"
    "list_all (\<lambda>c. byte c < 128) ''IPC response channel closed: ''" by (simp_all add: byte_def)
  with l show "is_connection_error lower (Other (''IPC request timed out after '' @ msg))"
    "is_connection_error lower (Other (''Failed to send IPC request: '' @ msg))"
    "is_connection_error lower (Other (''IPC response channel closed: '' @ msg))"
    unfolding is_connection_error_def error.case Let_def by blast+
qed

text \<open>What a client returns when it gives a call up: by the three ways of \<open>client_step\<close> other than an answer.\<close>

definition given_up :: "error \<Rightarrow> bool" where
  "given_up e \<longleftrightarrow>
     (\<exists>s s' i. client_reach s \<and> client_step s s' \<and> (\<forall>r. calls s i \<noteq> Some (Answered r)) \<and> calls s i \<noteq> Some (Finished (Inl e))
        \<and> calls s' i = Some (Finished (Inl e)))"

lemma read_frame_unfinished:
  "calls (read_frame line s) i = Some (Finished e) \<Longrightarrow> calls s i = Some (Finished e)"
  by (auto simp: read_frame_def hand_over_calls split: option.splits if_splits)

lemma reader_ends_unfinished:
  "calls (reader_ends s) i = Some (Finished e) \<Longrightarrow> calls s i = Some (Finished e)"
  by (auto simp: reader_ends_calls split: if_splits)

lemma given_up_texts:
  assumes "given_up e"
  obtains msg where "e = Other (''IPC request timed out after '' @ msg)"
  | msg where "e = Other (''Failed to send IPC request: '' @ msg)"
  | msg where "e = Other (''IPC response channel closed: '' @ msg)"
proof -
  obtain s s' i where st: "client_step s s'" and i: "\<forall>r. calls s i \<noteq> Some (Answered r)"
    "calls s i \<noteq> Some (Finished (Inl e))" "calls s' i = Some (Finished (Inl e))"
    using assms by (auto simp: given_up_def)
  have forgotten: "e = e'" if "s' = forget_call j (Inl e') s" for j e'
    using that i(2,3) by (auto simp: forget_call_def split: if_splits)
  from st show ?thesis
  proof cases
    case (begin_call j)
    then show ?thesis using i by (simp split: if_splits)
  next
    case (sent j)
    then show ?thesis using i by (simp split: if_splits)
  next
    case (not_sent j msg)
    then show ?thesis using forgotten that(2) by blast
  next
    case (frame line)
    then show ?thesis using i read_frame_unfinished [of line s i] by simp
  next
    case reader_stops
    then show ?thesis using i reader_ends_unfinished [of s i] by simp
  next
    case (answered j r)
    then show ?thesis using i by (auto split: if_splits)
  next
    case (dropped j msg)
    then show ?thesis using forgotten that(3) by blast
  next
    case (timer j)
    then show ?thesis using i by (simp split: if_splits)
  next
    case (timed_out j msg)
    then show ?thesis using forgotten that(1) by blast
  qed
qed

text \<open>C39. A request whose client gives it up (its timer elapsed, the connection closed) is sent a second time, to the
  client of the next connection, although the agent may have executed the first: \<open>task.trigger_now\<close> can
  run a task twice.
\<close>

theorem given_up_request_is_sent_again:
  assumes "lower_ok lower" and "ensure_connected W1 m = (Inr c, m1, sp1)"
    and "ask1 c = Inl e" and "given_up e"
    and "ensure_connected W2 (disconnect_agent m1) = (Inr c', m2, sp2)"
  shows "manager_call lower W1 W2 ask1 ask2 m
     = (case ask2 c' of Inr v \<Rightarrow> Inr v | Inl e' \<Rightarrow> Inl (CallFailed e'), m2, [c, c'], sp1 @ sp2)"
proof -
  have "is_connection_error lower e"
    using assms(4) connection_error_texts [OF assms(1)] by (cases rule: given_up_texts) auto
  then show ?thesis using assms(2,3,5) by (simp add: manager_call_def)
qed

lemma timeout_is_given_up: "given_up (Other (''IPC request timed out after '' @ msg))"
proof -
  let ?c = "\<lambda>st. new_client\<lparr>pending_responses := {''r1''}, calls := [''r1'' \<mapsto> st]\<rparr>"
  have "client_step new_client (?c Registered)"
    using begin_call [of new_client "''r1''"] by (simp add: new_client_def)
  moreover have "client_step (?c Registered) (?c Waiting)"
    using sent [of "?c Registered" "''r1''"] by simp
  moreover have "client_step (?c Waiting) (?c TimerElapsed)"
    using timer [of "?c Waiting" "''r1''"] by simp
  ultimately have "client_reach (?c TimerElapsed)" by (blast intro: client_start client_next)
  moreover have "client_step (?c TimerElapsed)
      (forget_call ''r1'' (Inl (Other (''IPC request timed out after '' @ msg))) (?c TimerElapsed))"
    by (rule timed_out) simp
  ultimately show ?thesis unfolding given_up_def
    by (intro exI [of _ "?c TimerElapsed"] exI [of _ "''r1''"] exI) (auto simp: forget_call_def)
qed

definition reachable_agent :: "nat \<Rightarrow> connect_world" where
  "reachable_agent c = \<lparr>connect_at = (\<lambda>_. Some c), spawn_check_time = 0, spawn_starts = True\<rparr>"

lemma given_up_request_is_sent_again_witness:
  "\<exists>m. manager_call (map to_ascii_lower) (reachable_agent 1) (reachable_agent 2)
        (\<lambda>_. Inl (Other (''IPC request timed out after '' @ ''30s''))) (\<lambda>_. Inr (JBool True)) new_agent_manager
      = (Inr (JBool True), m, [1, 2], [])"
proof -
  have ok: "lower_ok (map to_ascii_lower)" by (simp add: lower_ok_def)
  have 1: "ensure_connected (reachable_agent 1) new_agent_manager = (Inr 1, new_agent_manager\<lparr>mgr_client := Some 1\<rparr>, [])"
    by (simp add: ensure_connected_def reachable_agent_def new_agent_manager_def)
  have 2: "ensure_connected (reachable_agent 2) (disconnect_agent (new_agent_manager\<lparr>mgr_client := Some 1\<rparr>))
      = (Inr 2, new_agent_manager\<lparr>mgr_client := Some 2\<rparr>, [])"
    by (simp add: ensure_connected_def reachable_agent_def new_agent_manager_def disconnect_agent_def)
  from given_up_request_is_sent_again [OF ok 1 refl timeout_is_given_up 2] show ?thesis by (auto simp del: append.simps)
qed

section \<open>Notifications\<close>

text \<open>The policy's wish for a run that ended with a status.\<close>

fun wants_notification :: "task_notification_policy \<Rightarrow> execution_status \<Rightarrow> bool" where
  "wants_notification NotifyNone st = False"
| "wants_notification OnlySuccess st = (st = Succeeded)"
| "wants_notification OnlyFailure st = (st \<noteq> Succeeded)"
| "wants_notification NotifyAll st = True"

lemma status_name_succeeded: "status_name st = ''Succeeded'' \<longleftrightarrow> st = Succeeded"
  by (cases st) simp_all

lemma should_notify_names: "should_notify (notification_name p) (status_name st) = wants_notification p st"
  by (cases p) (simp_all add: should_notify_def status_name_succeeded)

text \<open>
  From the agent's record to the banner: for the finished event of a job the desktop shows a notification
  exactly if the task's policy wishes one for the recorded status, titled by success, with the task's name.
\<close>

theorem notification_follows_policy:
  "\<exists>rest. relay_notification secs_text (finished_event t e duration)
     = (if wants_notification (notification (execution_policy t)) (status e)
        then Some (if status e = Succeeded then TaskSucceeded else TaskFailed,
               body_task @ task_name t @ body_took @ rest)
        else None)"
proof -
  let ?d = "event_data (finished_event t e duration)"
  have fields: "str_field ''notification_policy'' ?d = Some (notification_name (notification (execution_policy t)))"
    "str_field ''status'' ?d = Some (status_name (status e))"
    "str_field ''task_name'' ?d = Some (task_name t)"
    and nm: "event_name (finished_event t e duration) = ''execution.finished''"
    by (simp_all add: finished_event_def event_new_def)
  show ?thesis
  proof (cases "wants_notification (notification (execution_policy t)) (status e)")
    case True
    then obtain n err where r: "relay_notification secs_text (finished_event t e duration)
        = Some (format_notification_content secs_text (status_name (status e)) (task_name t) n err)"
      unfolding relay_notification_def nm fields Let_def option.case should_notify_names by auto
    have "\<exists>rest. format_notification_content secs_text (status_name (status e)) (task_name t) n err
        = (if status e = Succeeded then TaskSucceeded else TaskFailed, body_task @ task_name t @ body_took @ rest)"
      by (simp add: format_notification_content_def Let_def status_name_succeeded split: option.splits)
    then show ?thesis using True unfolding r by auto
  next
    case False
    then show ?thesis unfolding relay_notification_def nm fields Let_def option.case should_notify_names by simp
  qed
qed

section \<open>Exported files\<close>

text \<open>
  An export writes a file of the download directory itself: an accepted name has no separator, drive or
  parent component and keeps its \<open>.json\<close> ending, and every other name is refused before anything is written.
\<close>

theorem export_stays_in_the_directory:
  assumes "write_export_file download_dir filename mkdir write = Inr path"
  shows "\<exists>stem. filename = stem @ ''.json'' \<and> stem \<noteq> []
     \<and> set filename \<inter> {CHR ''/'', CHR 0x5C, CHR '':'', CHR 0x00} = {}
     \<and> hd filename \<noteq> CHR ''.'' \<and> length filename \<le> 128
     \<and> path = path_join download_dir filename \<and> suffix filename path"
proof -
  have v: "validate_export_filename filename = Inr ()" and path: "path = path_join download_dir filename"
    using assms by (auto simp: write_export_file_def Let_def split: sum.splits)
  have *: "filename \<noteq> []" "length filename \<le> 128" "ends_with filename ''.json''" "\<not> starts_with filename ''.''"
    "list_all (\<lambda>c. is_ascii_alphanumeric c \<or> c \<in> set ''-_.'') filename"
    using v by (auto simp: validate_export_filename_def split: if_splits)
  obtain stem where stem: "filename = stem @ ''.json''" using *(3) by (auto simp: ends_with_iff_suffix suffix_def)
  have bad: "\<not> (is_ascii_alphanumeric c \<or> c \<in> set ''-_.'')" if "c \<in> {CHR ''/'', CHR 0x5C, CHR '':'', CHR 0x00}" for c
    using that by (auto simp: ascii_defs)
  have "set filename \<inter> {CHR ''/'', CHR 0x5C, CHR '':'', CHR 0x00} = {}"
    using *(5) bad by (auto simp only: list_all_iff)
  moreover have "stem \<noteq> []" using *(4) stem by (auto simp: starts_with_def)
  moreover have "hd filename \<noteq> CHR ''.''" using *(1,4) by (cases filename) (auto simp: starts_with_def)
  moreover have "suffix filename path" unfolding path path_join_def by (auto simp: suffix_def)
  ultimately show ?thesis using stem path *(2) by blast
qed

lemma export_stays_in_the_directory_witness:
  "\<exists>path. write_export_file ''/home/u/Downloads'' ''tasks-2026.json'' (Inr ()) (\<lambda>_. Inr ()) = Inr path
     \<and> suffix ''tasks-2026.json'' path"
proof -
  have w: "write_export_file ''/home/u/Downloads'' ''tasks-2026.json'' (Inr ()) (\<lambda>_. Inr ())
      = Inr ''/home/u/Downloads/tasks-2026.json''"
    by code_simp
  from export_stays_in_the_directory [OF w] w show ?thesis by blast
qed

text \<open>The prefix of allowed links has no closing slash, and dot segments leave it.\<close>

lemma other_pages_are_allowed:
  "url_allowed ''https://github.com/nice-buddy/easyJob/releases/../../../someone/else''"
  by (simp add: url_allowed_def starts_with_def)

section \<open>Commands\<close>

text \<open>The identifiers in a command, and what the serializations of both sides must agree on for it.\<close>

fun command_uuids :: "desktop_command \<Rightarrow> nat list" where
  "command_uuids (GetTask t) = [task_uuid t]"
| "command_uuids (DeleteTaskCommand t) = [task_uuid t]"
| "command_uuids (TriggerTask t) = [task_uuid t]"
| "command_uuids (GetExecution e) = [execution_uuid e]"
| "command_uuids (CancelExecution e) = [execution_uuid e]"
| "command_uuids (GetExecutionOutput e) = [execution_uuid e]"
| "command_uuids (RerollTriggerOf t tr) = [task_uuid t, trigger_uuid tr]"
| "command_uuids _ = []"

fun agreed :: "desktop_serde \<Rightarrow> serde \<Rightarrow> desktop_command \<Rightarrow> bool" where
  "agreed J S (SaveTaskCommand t) = (task_of_json S (json_of_task J t) = Inr t)"
| "agreed J S (SaveSystemSettings st) = (settings_of_json S (json_of_settings J st) = Inr st)"
| "agreed J S c = list_all (\<lambda>n. uuid_of_json S (JStr (uuid_string n)) = Inr n) (command_uuids c)"

text \<open>
  What a command asks of the agent, on its typed arguments: the repository call and the message to the
  scheduler.  A status, list or overview has no argument, and a manual run takes the bare identifier.
\<close>

fun commanded ::
  "codec \<Rightarrow> serde \<Rightarrow> request_world \<Rightarrow> ipc_request \<Rightarrow> desktop_command \<Rightarrow> agent \<Rightarrow> ipc_response \<times> agent" where
  "commanded K S W req GetAgentStatus s = handle_status K S W req s"
| "commanded K S W req ListTasks s = handle_task_list K S W req s"
| "commanded K S W req (GetTask t) s =
     (answer req (rbind (told (find_task_by_id K (db_faults W 0) (now_at W 0) t (agent_db s)))
        (\<lambda>found. case found of Some task \<Rightarrow> task_value S task | None \<Rightarrow> Inl (task_not_found t))), s)"
| "commanded K S W req (SaveTaskCommand task) s =
     (case save_task K (db_faults W 0) task (agent_db s) of
        (Inr _, d) \<Rightarrow> (answer req (task_value S task), send_command W (AddTask task) (s\<lparr>agent_db := d\<rparr>))
      | (Inl e, d) \<Rightarrow> (answer req (Inl (error_to_string e)), s\<lparr>agent_db := d\<rparr>))"
| "commanded K S W req (DeleteTaskCommand t) s =
     (case delete_task (db_faults W 0) t (agent_db s) of
        (Inr _, d) \<Rightarrow> (answer req (Inr (JBool True)), send_command W (RemoveTask t) (s\<lparr>agent_db := d\<rparr>))
      | (Inl e, d) \<Rightarrow> (answer req (Inl (error_to_string e)), s\<lparr>agent_db := d\<rparr>))"
| "commanded K S W req (TriggerTask t) s =
     handle_task_trigger_now K S W (req\<lparr>request_params := task_id_json t\<rparr>) s"
| "commanded K S W req (ListExecutions limit) s =
     (answer req (rbind (told (find_recent_runs K (db_faults W 0) (now_at W 0)
        (case limit of Some n \<Rightarrow> n | None \<Rightarrow> 50) (agent_db s))) (\<lambda>runs. Inr (JArr (map (execution_json S) runs)))), s)"
| "commanded K S W req (GetExecution e) s =
     (answer req (rbind (told (find_run_by_id K (db_faults W 0) (now_at W 0) e (agent_db s)))
        (\<lambda>found. case found of Some run \<Rightarrow> Inr (execution_json S run)
           | None \<Rightarrow> Inl (''Execution '' @ quoted (uuid_string (execution_uuid e)) @ '' not found''))), s)"
| "commanded K S W req (CancelExecution e) s =
     (if map_of (agent_active s) e \<noteq> None
      then (answer req (Inr (JBool True)), s\<lparr>agent_active := AList.update e True (agent_active s)\<rparr>)
      else (answer req (Inl (''Execution '' @ quoted (uuid_string (execution_uuid e)) @ '' is not actively running'')), s))"
| "commanded K S W req (GetExecutionOutput e) s =
     (answer req (rbind (told (get_outputs (db_faults W 0) e (agent_db s)))
        (\<lambda>records. Inr (JArr (map output_record_json records)))), s)"
| "commanded K S W req GetSystemSettings s = handle_settings_get K S W req s"
| "commanded K S W req (SaveSystemSettings st) s =
     (case save_system_settings K (db_faults W 0) (now_at W 0) st (agent_db s) of
        (Inr _, d) \<Rightarrow> (answer req (settings_value S st), s\<lparr>agent_db := d\<rparr>)
      | (Inl e, d) \<Rightarrow> (answer req (Inl (error_to_string e)), s\<lparr>agent_db := d\<rparr>))"
| "commanded K S W req TaskOverview s = handle_task_overview K S W req s"
| "commanded K S W req (RerollTriggerOf t tr) s =
     (if \<not> scheduler_open W then (answer req (Inl ''Scheduler is not running''), s)
      else
        (answer req (case reroll_answer W of
             Some (Inr at) \<Rightarrow> Inr (JObj [(''next_fire_at'', opt_json (time_value S) at)])
           | Some (Inl message) \<Rightarrow> Inl message
           | None \<Rightarrow> Inl ''Scheduler dropped the reroll request''),
         send_command W (RerollTrigger t tr) s))"

lemma list_limit_u32: "list_limit (JObj [(''limit'', JInt (uint n))]) = n" for n :: u32
proof -
  have "uint n < 2 ^ 64" using uint_lt2p [of n] by simp
  then have "as_u64 (JInt (uint n)) = Some (word_of_int (uint n))" by simp
  moreover have "ucast (word_of_int (uint n) :: u64) = n"
    by (rule bit_word_eqI) (simp add: bit_simps)
  ultimately show ?thesis by (simp add: list_limit_def pick_param_def Let_def)
qed

lemma trigger_now_params:
  assumes "pick_param ''id'' p = pick_param ''id'' (request_params req)"
  shows "handle_task_trigger_now K S W (req\<lparr>request_params := p\<rparr>) s = handle_task_trigger_now K S W req s"
proof -
  have same: "answer (req\<lparr>request_params := p\<rparr>) = answer req"
    by (simp add: fun_eq_iff answer_def split: sum.splits)
  have params: "request_params (req\<lparr>request_params := p\<rparr>) = p" by simp
  show ?thesis unfolding handle_task_trigger_now_def same params assms ..
qed

text \<open>C24. A command of the desktop reaches the agent as what it says: over the JSON of the request the agent does
  and answers exactly what the command asks on its typed arguments.
\<close>

theorem commands_reach_their_handlers:
  assumes "agreed J S c"
  shows "handle_request K S W (request_new i (fst (command_request J c)) (snd (command_request J c))) s
     = commanded K S W (request_new i (fst (command_request J c)) (snd (command_request J c))) c s"
  using assms
proof (cases c)
  case (RerollTriggerOf t tr)
  with assms show ?thesis
    by (cases t; cases tr; cases "reroll_answer W"; cases "the (reroll_answer W)")
      (simp_all add: handle_request_def request_new_def handle_trigger_reroll_def param_or_null_def
        task_id_json_def trigger_id_json_def answer_def)
next
  case (SaveTaskCommand t)
  with assms show ?thesis
    by (cases "save_task K (db_faults W 0) t (agent_db s)"; cases "fst (save_task K (db_faults W 0) t (agent_db s))")
      (simp_all add: handle_request_def request_new_def handle_task_save_def save_in_store_def send_saved_def pick_param_def)
next
  case (DeleteTaskCommand t)
  with assms show ?thesis
    by (cases "delete_task (db_faults W 0) t (agent_db s)"; cases "fst (delete_task (db_faults W 0) t (agent_db s))")
      (simp_all add: handle_request_def request_new_def handle_task_delete_def pick_param_def task_id_json_def
        task_id_param_def)
next
  case (SaveSystemSettings st)
  with assms show ?thesis
    by (cases "save_system_settings K (db_faults W 0) (now_at W 0) st (agent_db s)";
        cases "fst (save_system_settings K (db_faults W 0) (now_at W 0) st (agent_db s))")
      (simp_all add: handle_request_def request_new_def handle_settings_set_def pick_param_def)
next
  case (TriggerTask t)
  let ?req = "request_new i ''task.trigger_now'' (JObj [(''id'', task_id_json t)])"
  have "pick_param ''id'' (task_id_json t) = pick_param ''id'' (request_params ?req)"
    by (simp add: request_new_def pick_param_def task_id_json_def)
  from trigger_now_params [OF this] TriggerTask show ?thesis
    by (simp add: handle_request_def) (simp add: request_new_def)
next
  case (CancelExecution e)
  with assms show ?thesis
    by (cases e; cases "map_of (agent_active s) e") (simp_all add: handle_request_def request_new_def
        handle_execution_cancel_def pick_param_def execution_id_json_def execution_id_param_def)
qed (simp_all add: handle_request_def request_new_def pick_param_def pick_execution_param_def task_id_json_def
    execution_id_json_def task_id_param_def execution_id_param_def list_limit_u32 handle_task_get_def
    handle_execution_list_def handle_execution_get_def handle_execution_get_output_def task_id.exhaust_sel execution_id.exhaust_sel
    split: option.splits)

definition plain_serde :: desktop_serde where
  "plain_serde = \<lparr>json_of_task = (\<lambda>_. JNull), json_of_settings = (\<lambda>_. JNull)\<rparr>"

lemma commands_reach_their_handlers_witness:
  "handle_request text_codec (demo_serde job_task) demo_request_world
      (request_new ''r1'' ''execution.cancel'' (JObj [(''id'', execution_id_json (ExecutionId 7))])) demo_agent
    = (response_failure ''r1'' (''Execution '' @ quoted (uuid_string 7) @ '' is not actively running''), demo_agent)"
  using commands_reach_their_handlers [of plain_serde "demo_serde job_task" "CancelExecution (ExecutionId 7)" text_codec
      demo_request_world "''r1''" demo_agent]
  by (simp add: demo_agent_def initial_agent_def answer_def request_new_def)

end
