(* ===== verification/Instance_Lock.thy ===== *)
theory Instance_Lock
  imports Service_Control
begin

text \<open>
  What an agent process does before it serves: its data directory and socket
  (\<^verbatim>\<open>crates/platform/src/startup.rs\<close>, \<^verbatim>\<open>crates/ipc/src/transport.rs\<close>), the lock of a single instance
  (\<^verbatim>\<open>apps/agent/src/lock.rs\<close>) and the paths of a launch (\<^verbatim>\<open>apps/agent/src/main.rs\<close>).  The environment and the file
  system are inputs; the file lock of the operating system is the locale \<open>file_lock\<close>.
\<close>

section \<open>Paths\<close>

abbreviation bs :: char where "bs \<equiv> CHR 0x5C"

text \<open>
  \<open>Path::join\<close> with a relative name and \<open>Path::parent\<close>, by the separators and the roots of the system.  A
  root of Windows is a separator, a drive, or a share or device name, each with its separator.
\<close>

definition is_sep :: "target_os \<Rightarrow> char \<Rightarrow> bool" where
  "is_sep target c \<longleftrightarrow> c = CHR 0x2F \<or> target = TargetWindows \<and> c = bs"

definition is_root :: "target_os \<Rightarrow> string \<Rightarrow> bool" where
  "is_root target d \<longleftrightarrow>
     (case d of
        [c] \<Rightarrow> is_sep target c
      | _ \<Rightarrow> target = TargetWindows \<and> d \<noteq> [] \<and> is_sep target (last d)
          \<and> (length d = 3 \<and> d ! 1 = CHR 0x3A
             \<or> starts_with d [bs, bs] \<and> length (filter (is_sep target) d) = 4))"

definition path_join_name :: "target_os \<Rightarrow> string \<Rightarrow> string \<Rightarrow> string" where
  "path_join_name target p q =
     (if p = [] \<or> is_sep target (last p) then p @ q
      else p @ [if target = TargetWindows then bs else CHR 0x2F] @ q)"

definition drop_seps :: "target_os \<Rightarrow> string \<Rightarrow> string" where
  "drop_seps target d = (if is_root target d then d else rev (dropWhile (is_sep target) (rev d)))"

definition path_parent :: "target_os \<Rightarrow> string \<Rightarrow> string option" where
  "path_parent target p =
     (let p = drop_seps target p
      in if p = [] \<or> is_root target p then None
         else Some (drop_seps target (rev (dropWhile (\<lambda>c. \<not> is_sep target c) (rev p)))))"

text \<open>The environment: the directory of the executable and the variable \<open>HOME\<close>.\<close>

record process_env =
  exe_dir :: "string option"
  home_var :: "string option"

definition home_easyjob :: "process_env \<Rightarrow> string" where
  "home_easyjob V =
     path_join_name TargetOther (case home_var V of Some h \<Rightarrow> h | None \<Rightarrow> ''/tmp'') ''.easyjob''"

definition system_data_dir :: "target_os \<Rightarrow> process_env \<Rightarrow> string option \<Rightarrow> string" where
  "system_data_dir target V dir =
     (case target of
        TargetWindows \<Rightarrow>
          (case dir of
             Some d \<Rightarrow> path_join_name target d ''data''
           | None \<Rightarrow>
               (case exe_dir V of
                  Some parent \<Rightarrow> path_join_name target parent ''data''
                | None \<Rightarrow> ''C:/ProgramData/easyJob/data''))
      | TargetMacos \<Rightarrow> MACOS_SYSTEM_DATA_DIR
      | TargetOther \<Rightarrow> home_easyjob V)"

definition resolve_data_dir :: "target_os \<Rightarrow> process_env \<Rightarrow> string option \<Rightarrow> string" where
  "resolve_data_dir target V cli_dir =
     (case cli_dir of Some dir \<Rightarrow> dir | None \<Rightarrow> system_data_dir target V (exe_dir V))"

definition WINDOWS_SYSTEM_PIPE :: string where
  "WINDOWS_SYSTEM_PIPE = [bs, bs] @ ''.'' @ [bs] @ ''pipe'' @ [bs] @ ''easyjob-system''"

definition system_data_dir_fallback :: "target_os \<Rightarrow> process_env \<Rightarrow> string" where
  "system_data_dir_fallback target V =
     (if target = TargetMacos then ''/Library/Application Support/EasyJob'' else home_easyjob V)"

definition system_ipc_path :: "target_os \<Rightarrow> process_env \<Rightarrow> string" where
  "system_ipc_path target V =
     (if target = TargetWindows then WINDOWS_SYSTEM_PIPE
      else path_join_name target (system_data_dir_fallback target V) ''easyjob.sock'')"

definition ipc_path_for_data_dir :: "target_os \<Rightarrow> string \<Rightarrow> string" where
  "ipc_path_for_data_dir target data_dir =
     (if target = TargetWindows then WINDOWS_SYSTEM_PIPE else path_join_name target data_dir ''easyjob.sock'')"

definition default_ipc_path :: "target_os \<Rightarrow> process_env \<Rightarrow> string" where
  "default_ipc_path = system_ipc_path"

section \<open>The lock of a single instance\<close>

datatype io_kind = WouldBlock | OtherKind

record io_failure =
  failure_kind :: io_kind
  raw_os_error :: "int option"
  failure_text :: string

definition is_lock_contended :: "io_failure \<Rightarrow> bool" where
  "is_lock_contended e \<longleftrightarrow> failure_kind e = WouldBlock \<or> raw_os_error e = Some 33"

datatype lock_outcome =
    Acquired string
  | AlreadyRunning

text \<open>
  \<open>SingleInstanceLock::acquire\<close>: creating the parent directory, opening the file, and the attempt to lock it,
  which is an operation on the locks \<open>L\<close> of the system.
\<close>

definition acquire_lock ::
  "string + unit \<Rightarrow> string + unit \<Rightarrow> (string \<Rightarrow> 'l \<Rightarrow> (io_failure + unit) \<times> 'l) \<Rightarrow> string \<Rightarrow> 'l
   \<Rightarrow> (error + lock_outcome) \<times> 'l" where
  "acquire_lock make_parent open_file try_lock path L =
     (case make_parent of
        Inl e \<Rightarrow> (Inl (Io e), L)
      | Inr _ \<Rightarrow>
          (case open_file of
             Inl e \<Rightarrow> (Inl (Io e), L)
           | Inr _ \<Rightarrow>
               (case try_lock path L of
                  (Inr _, L) \<Rightarrow> (Inr (Acquired path), L)
                | (Inl e, L) \<Rightarrow>
                    if is_lock_contended e then (Inr AlreadyRunning, L) else (Inl (Io (failure_text e)), L))))"

text \<open>What a process relies on: a lock has one holder, and only its holder gives it back.\<close>

locale file_lock =
  fixes try_lock :: "nat \<Rightarrow> string \<Rightarrow> 'l \<Rightarrow> (io_failure + unit) \<times> 'l"
    and unlock :: "nat \<Rightarrow> string \<Rightarrow> 'l \<Rightarrow> 'l"
    and holder :: "'l \<Rightarrow> string \<Rightarrow> nat option"
  assumes lock_taken: "try_lock p f L = (Inr u, L') \<Longrightarrow> holder L f = None \<and> holder L' = (holder L)(f \<mapsto> p)"
    and lock_refused: "try_lock p f L = (Inl e, L') \<Longrightarrow> L' = L"
    and lock_free: "holder L f = None \<Longrightarrow> \<exists>L'. try_lock p f L = (Inr (), L')"
    and lock_busy: "holder L f = Some q \<Longrightarrow> \<exists>e. fst (try_lock p f L) = Inl e \<and> is_lock_contended e"
    and lock_dropped: "holder (unlock p f L) = (if holder L f = Some p then (holder L)(f := None) else holder L)"
begin

lemma acquired:
  assumes "acquire_lock mk op (try_lock p) f L = (Inr (Acquired g), L')"
  shows "g = f" and "holder L f = None" and "holder L' = (holder L)(f \<mapsto> p)"
  using assms by (auto simp: acquire_lock_def dest!: lock_taken split: sum.splits prod.splits if_splits)

lemma not_acquired:
  assumes "acquire_lock mk op (try_lock p) f L = (r, L')" and "\<forall>g. r \<noteq> Inr (Acquired g)"
  shows "L' = L"
  using assms by (auto simp: acquire_lock_def dest!: lock_refused split: sum.splits prod.splits if_splits)

lemma free_is_acquired:
  assumes "holder L f = None"
  shows "\<exists>L'. acquire_lock (Inr ()) (Inr ()) (try_lock p) f L = (Inr (Acquired f), L')"
  using lock_free [OF assms, of p] by (auto simp: acquire_lock_def)

lemma busy_is_reported:
  assumes "holder L f = Some q"
  shows "acquire_lock (Inr ()) (Inr ()) (try_lock p) f L = (Inr AlreadyRunning, L)"
  using lock_busy [OF assms, of p] lock_refused [of p f L]
  by (cases "try_lock p f L") (auto simp: acquire_lock_def)

end

text \<open>
  The locks of the system: \<open>fs2::try_lock_exclusive\<close> fails with \<open>EWOULDBLOCK\<close> on Unix and with
  \<open>ERROR_LOCK_VIOLATION\<close> (33) on Windows when another handle has the lock.
\<close>

type_synonym lock_table = "string \<rightharpoonup> nat"

definition contended_failure :: "target_os \<Rightarrow> io_failure" where
  "contended_failure target =
     (if target = TargetWindows
      then \<lparr>failure_kind = OtherKind, raw_os_error = Some 33, failure_text = ''lock violation''\<rparr>
      else \<lparr>failure_kind = WouldBlock, raw_os_error = Some 11, failure_text = ''would block''\<rparr>)"

definition try_lock_exclusive ::
  "target_os \<Rightarrow> nat \<Rightarrow> string \<Rightarrow> lock_table \<Rightarrow> (io_failure + unit) \<times> lock_table" where
  "try_lock_exclusive target p f L =
     (case L f of None \<Rightarrow> (Inr (), L(f \<mapsto> p)) | Some _ \<Rightarrow> (Inl (contended_failure target), L))"

text \<open>\<open>impl Drop for SingleInstanceLock\<close>.\<close>

definition drop_lock :: "nat \<Rightarrow> string \<Rightarrow> lock_table \<Rightarrow> lock_table" where
  "drop_lock p f L = (if L f = Some p then L(f := None) else L)"

lemma contended_is_recognised: "is_lock_contended (contended_failure target)"
  by (simp add: is_lock_contended_def contended_failure_def)

interpretation os_lock: file_lock "try_lock_exclusive target" drop_lock "\<lambda>L. L" for target
  by unfold_locales
    (auto simp: try_lock_exclusive_def drop_lock_def contended_is_recognised split: option.splits)

section \<open>The command line and the launch\<close>

record cli =
  cli_data_dir :: "string option"
  daemon :: bool
  service :: bool
  install_service :: bool
  uninstall_service :: bool
  cli_max_concurrent :: nat

record launch =
  launch_db_url :: string
  launch_ipc_path :: string
  launch_lock_path :: string
  launch_max :: nat
  launch_shared :: bool
  launch_console :: bool

definition db_url_of :: "target_os \<Rightarrow> string \<Rightarrow> string" where
  "db_url_of target data_dir =
     ''sqlite://'' @ from_utf8_lossy (path_join_name target data_dir ''easyjob.db'') @ ''?mode=rwc''"

text \<open>The lock of the service is next to its channel.\<close>

definition service_lock_path :: "target_os \<Rightarrow> string \<Rightarrow> string" where
  "service_lock_path target ipc_path =
     (case path_parent target ipc_path of
        Some d \<Rightarrow> path_join_name target d ''agent.lock''
      | None \<Rightarrow> ''agent.lock'')"

definition daemon_lock_path :: "target_os \<Rightarrow> string \<Rightarrow> string" where
  "daemon_lock_path target data_dir = path_join_name target data_dir ''agent.lock''"

definition launch_of :: "target_os \<Rightarrow> cli \<Rightarrow> string \<Rightarrow> launch" where
  "launch_of target c data_dir =
     (let ipc = ipc_path_for_data_dir target data_dir
      in \<lparr>launch_db_url = db_url_of target data_dir, launch_ipc_path = ipc,
          launch_lock_path =
            (if target = TargetWindows \<and> service c then service_lock_path target ipc
             else daemon_lock_path target data_dir),
          launch_max = cli_max_concurrent c,
          launch_shared = (target = TargetMacos \<or> target = TargetWindows),
          launch_console = (\<not> daemon c \<and> \<not> service c)\<rparr>)"

end
