(* ===== verification/Instances.thy ===== *)
theory Instances
  imports Instance_Lock
begin

text \<open>
  Several agent processes on one machine: the steps of \<open>main\<close> of \<^verbatim>\<open>apps/agent/src/main.rs\<close> around the lock of
  \<^verbatim>\<open>lock.rs\<close> and the socket file of \<^verbatim>\<open>crates/ipc/src/server.rs\<close> on Unix, interleaved.
\<close>

section \<open>Processes\<close>

text \<open>
  A process is launched, holds the lock, has recovered the dangling runs, serves, stops serving
  (\<open>AgentService::run\<close> after its \<open>select!\<close>), has returned from \<open>run\<close> and dropped the lock, or is gone.  The flag
  of the last stages: connection tasks keep the server's inner part alive, whose \<open>drop\<close> removes the socket
  file.
\<close>

datatype proc_stage =
    Launched
  | Locked
  | Recovered
  | Serving
  | Stopping bool
  | Returned bool
  | Gone

record machine =
  procs :: "(string \<times> proc_stage) list"
  locks :: lock_table
  socket_of :: "nat option"

definition boot_machine :: machine where
  "boot_machine = \<lparr>procs = [], locks = Map.empty, socket_of = None\<rparr>"

abbreviation lock_path_of :: "machine \<Rightarrow> nat \<Rightarrow> string" where
  "lock_path_of m i \<equiv> fst (procs m ! i)"

abbreviation stage_of :: "machine \<Rightarrow> nat \<Rightarrow> proc_stage" where
  "stage_of m i \<equiv> snd (procs m ! i)"

definition at_stage :: "machine \<Rightarrow> nat \<Rightarrow> proc_stage \<Rightarrow> bool" where
  "at_stage m i st \<longleftrightarrow> i < length (procs m) \<and> stage_of m i = st"

definition go_stage :: "nat \<Rightarrow> proc_stage \<Rightarrow> machine \<Rightarrow> machine" where
  "go_stage i st m = m\<lparr>procs := (procs m)[i := (lock_path_of m i, st)]\<rparr>"

definition release_lock :: "nat \<Rightarrow> machine \<Rightarrow> machine" where
  "release_lock i m = m\<lparr>locks := drop_lock i (lock_path_of m i) (locks m)\<rparr>"

text \<open>Binding removes any file at the path and makes a new one; \<open>drop\<close> removes the file at the path.\<close>

definition bind_socket :: "nat \<Rightarrow> machine \<Rightarrow> machine" where
  "bind_socket i m = m\<lparr>socket_of := Some i\<rparr>"

definition remove_socket :: "machine \<Rightarrow> machine" where
  "remove_socket m = m\<lparr>socket_of := None\<rparr>"

datatype act =
    Launch
  | TakeLock
  | LockRefused
  | Recover
  | Fail
  | Bind
  | Stop
  | DropInner
  | Return
  | Exit
  | Kill

text \<open>
  One step of process \<open>i\<close>.  A failed start drops the lock, as the error leaves \<open>main\<close>; \<open>run\<close> returns and the
  lock is dropped; the connection tasks end later, at the latest with the process.  A killed process runs no
  \<open>drop\<close>: the system gives its lock back, the socket file stays.
\<close>

inductive machine_step :: "target_os \<Rightarrow> machine \<Rightarrow> nat \<Rightarrow> act \<Rightarrow> machine \<Rightarrow> bool" for target where
  launched: "machine_step target m (length (procs m)) Launch (m\<lparr>procs := procs m @ [(f, Launched)]\<rparr>)"
| take_lock: "at_stage m i Launched \<Longrightarrow>
     acquire_lock mk op (try_lock_exclusive target i) (lock_path_of m i) (locks m) = (Inr (Acquired g), L) \<Longrightarrow>
     machine_step target m i TakeLock (go_stage i Locked (m\<lparr>locks := L\<rparr>))"
| lock_refused: "at_stage m i Launched \<Longrightarrow>
     acquire_lock mk op (try_lock_exclusive target i) (lock_path_of m i) (locks m) = (r, L) \<Longrightarrow>
     (\<forall>g. r \<noteq> Inr (Acquired g)) \<Longrightarrow>
     machine_step target m i LockRefused (go_stage i Gone (m\<lparr>locks := L\<rparr>))"
| recover: "at_stage m i Locked \<Longrightarrow> machine_step target m i Recover (go_stage i Recovered m)"
| failed: "at_stage m i Locked \<or> at_stage m i Recovered \<Longrightarrow>
     machine_step target m i Fail (go_stage i Gone (release_lock i m))"
| bound: "at_stage m i Recovered \<Longrightarrow> machine_step target m i Bind (go_stage i Serving (bind_socket i m))"
| stopped: "at_stage m i Serving \<Longrightarrow> machine_step target m i Stop (go_stage i (Stopping True) m)"
| drop_stopping: "at_stage m i (Stopping True) \<Longrightarrow>
     machine_step target m i DropInner (go_stage i (Stopping False) (remove_socket m))"
| drop_returned: "at_stage m i (Returned True) \<Longrightarrow>
     machine_step target m i DropInner (go_stage i (Returned False) (remove_socket m))"
| returned: "at_stage m i (Stopping b) \<Longrightarrow>
     machine_step target m i Return (go_stage i (Returned b) (release_lock i m))"
| exited: "at_stage m i (Returned b) \<Longrightarrow>
     machine_step target m i Exit (go_stage i Gone (if b then remove_socket m else m))"
| killed: "at_stage m i st \<Longrightarrow> machine_step target m i Kill (go_stage i Gone (release_lock i m))"

inductive_cases machine_stepE: "machine_step target m i a m'"

inductive machine_reach :: "target_os \<Rightarrow> machine \<Rightarrow> bool" for target where
  machine_boot: "machine_reach target boot_machine"
| machine_next: "machine_reach target m \<Longrightarrow> machine_step target m i a m' \<Longrightarrow> machine_reach target m'"

section \<open>Who holds the lock\<close>

fun holds_lock :: "proc_stage \<Rightarrow> bool" where
  "holds_lock Locked = True"
| "holds_lock Recovered = True"
| "holds_lock Serving = True"
| "holds_lock (Stopping _) = True"
| "holds_lock _ = False"

definition active :: "machine \<Rightarrow> nat \<Rightarrow> bool" where
  "active m i \<longleftrightarrow> i < length (procs m) \<and> holds_lock (stage_of m i)"

definition lock_inv :: "machine \<Rightarrow> bool" where
  "lock_inv m \<longleftrightarrow> (\<forall>f p. locks m f = Some p \<longleftrightarrow> active m p \<and> lock_path_of m p = f)"

lemma lock_invD: "lock_inv m \<Longrightarrow> active m i \<Longrightarrow> locks m (lock_path_of m i) = Some i"
  by (simp add: lock_inv_def)

lemma active_alone:
  assumes "lock_inv m" and "active m i" and "active m j" and "lock_path_of m i = lock_path_of m j"
  shows "i = j"
proof -
  have "locks m (lock_path_of m j) = Some i" by (subst assms(4) [symmetric]) (rule lock_invD [OF assms(1,2)])
  moreover have "locks m (lock_path_of m j) = Some j" by (rule lock_invD [OF assms(1,3)])
  ultimately show ?thesis by (metis option.inject)
qed

lemma at_stage_active: "at_stage m i st \<Longrightarrow> active m i \<longleftrightarrow> holds_lock st"
  by (simp add: at_stage_def active_def)

lemma go_stage_simps [simp]:
  "length (procs (go_stage i st m)) = length (procs m)"
  "locks (go_stage i st m) = locks m"
  "socket_of (go_stage i st m) = socket_of m"
  by (simp_all add: go_stage_def)

lemma release_simps [simp]:
  "procs (release_lock i m) = procs m" "procs (bind_socket i m) = procs m" "procs (remove_socket m) = procs m"
  "socket_of (release_lock i m) = socket_of m" "locks (bind_socket i m) = locks m" "locks (remove_socket m) = locks m"
  "socket_of (bind_socket i m) = Some i" "socket_of (remove_socket m) = None"
  by (simp_all add: release_lock_def bind_socket_def remove_socket_def)

lemma go_stage_path [simp]: "i < length (procs m) \<Longrightarrow> lock_path_of (go_stage i st m) j = lock_path_of m j"
  by (cases "i = j") (simp_all add: go_stage_def)

lemma go_stage_stage: "i < length (procs m) \<Longrightarrow> stage_of (go_stage i st m) j = (if j = i then st else stage_of m j)"
  by (simp add: go_stage_def)

lemma go_stage_active:
  "i < length (procs m) \<Longrightarrow> active (go_stage i st m) j \<longleftrightarrow> (if j = i then holds_lock st else active m j)"
  by (cases "j = i") (simp_all add: active_def go_stage_stage)

text \<open>A step that keeps a process inside or outside the lock keeps the invariant.\<close>

lemma lock_inv_same:
  assumes "lock_inv m" and "at_stage m i st" and "holds_lock st' \<longleftrightarrow> holds_lock st"
  shows "lock_inv (go_stage i st' m)"
proof -
  have i: "i < length (procs m)" using assms(2) by (simp add: at_stage_def)
  have "active (go_stage i st' m) p \<longleftrightarrow> active m p" for p
    using at_stage_active [OF assms(2)] assms(3) by (simp add: go_stage_active [OF i])
  then show ?thesis using assms(1) i by (simp add: lock_inv_def)
qed

lemma lock_inv_cong:
  "procs m' = procs m \<Longrightarrow> locks m' = locks m \<Longrightarrow> lock_inv m' = lock_inv m"
  by (simp add: lock_inv_def active_def)

lemma lock_inv_released:
  assumes "lock_inv m" and "at_stage m i st" and "holds_lock st" and "\<not> holds_lock st'"
  shows "lock_inv (go_stage i st' (release_lock i m))"
proof -
  have i: "i < length (procs m)" and a: "active m i" using assms by (auto simp: at_stage_def active_def)
  have L: "locks (release_lock i m) = (locks m)(lock_path_of m i := None)"
    using lock_invD [OF assms(1) a] by (simp add: release_lock_def drop_lock_def)
  have act: "active (go_stage i st' (release_lock i m)) p \<longleftrightarrow> p \<noteq> i \<and> active m p" for p
    using i assms(4) by (auto simp: active_def go_stage_stage)
  show ?thesis
    using assms(1) i active_alone [OF assms(1) _ a] by (auto simp: lock_inv_def L act)
qed

lemma lock_inv_killed:
  assumes "lock_inv m" and "at_stage m i st"
  shows "lock_inv (go_stage i Gone (release_lock i m))"
proof (cases "holds_lock st")
  case True
  then show ?thesis by (intro lock_inv_released [OF assms]) simp_all
next
  case False
  have "\<not> active m i" using at_stage_active [OF assms(2)] False by simp
  then have "locks m (lock_path_of m i) \<noteq> Some i" using assms(1) by (simp add: lock_inv_def)
  then have "release_lock i m = m" by (cases m) (simp add: release_lock_def drop_lock_def)
  with lock_inv_same [OF assms, of Gone] False show ?thesis by simp
qed

lemma lock_inv_taken:
  assumes "lock_inv m" and "at_stage m i Launched"
    and "acquire_lock mk op (try_lock_exclusive target i) (lock_path_of m i) (locks m) = (Inr (Acquired g), L)"
  shows "lock_inv (go_stage i Locked (m\<lparr>locks := L\<rparr>))"
proof -
  have i: "i < length (procs m)" and n: "\<not> active m i" using assms(2) by (auto simp: at_stage_def active_def)
  note L = os_lock.acquired(2,3) [OF assms(3)]
  have act: "active (go_stage i Locked (m\<lparr>locks := L\<rparr>)) p \<longleftrightarrow> p = i \<or> active m p" for p
    using i by (auto simp: active_def go_stage_stage)
  have pth: "lock_path_of (go_stage i Locked (m\<lparr>locks := L\<rparr>)) p = lock_path_of m p" for p
    using i go_stage_path [of i "m\<lparr>locks := L\<rparr>"] by simp
  have busy: "active m p \<Longrightarrow> lock_path_of m p \<noteq> lock_path_of m i" for p
    using L(1) lock_invD [OF assms(1), of p] by auto
  show ?thesis
    unfolding lock_inv_def
  proof (intro allI)
    fix f p
    have "locks m f = Some p \<longleftrightarrow> active m p \<and> lock_path_of m p = f"
      using assms(1) by (simp add: lock_inv_def)
    then show "locks (go_stage i Locked (m\<lparr>locks := L\<rparr>)) f = Some p \<longleftrightarrow>
        active (go_stage i Locked (m\<lparr>locks := L\<rparr>)) p \<and> lock_path_of (go_stage i Locked (m\<lparr>locks := L\<rparr>)) p = f"
      unfolding act pth using busy n L(2) by auto
  qed
qed

lemma lock_inv_step:
  assumes "machine_step target m i a m'" and "lock_inv m"
  shows "lock_inv m'"
  using assms
proof cases
  case (launched f)
  have "active m' p \<longleftrightarrow> active m p" for p
    using launched by (auto simp: active_def nth_append less_Suc_eq)
  moreover have "active m p \<Longrightarrow> lock_path_of m' p = lock_path_of m p" for p
    using launched by (simp add: active_def nth_append)
  ultimately show ?thesis using assms(2) launched by (auto simp: lock_inv_def)
next
  case (lock_refused mk op r L)
  have "L = locks m" by (rule os_lock.not_acquired [OF lock_refused(4,5)])
  with lock_refused assms(2) show ?thesis by (auto intro!: lock_inv_same)
next
  case failed
  with assms(2) show ?thesis by (auto intro: lock_inv_released)
next
  case bound
  have "lock_inv (bind_socket i m)" using assms(2) lock_inv_cong [of "bind_socket i m" m] by simp
  moreover have "at_stage (bind_socket i m) i Recovered" using bound by (simp add: at_stage_def)
  ultimately show ?thesis using bound by (auto intro!: lock_inv_same)
next
  case drop_stopping
  have "lock_inv (remove_socket m)" using assms(2) lock_inv_cong [of "remove_socket m" m] by simp
  moreover have "at_stage (remove_socket m) i (Stopping True)" using drop_stopping by (simp add: at_stage_def)
  ultimately show ?thesis using drop_stopping by (auto intro!: lock_inv_same)
next
  case drop_returned
  have "lock_inv (remove_socket m)" using assms(2) lock_inv_cong [of "remove_socket m" m] by simp
  moreover have "at_stage (remove_socket m) i (Returned True)" using drop_returned by (simp add: at_stage_def)
  ultimately show ?thesis using drop_returned by (auto intro!: lock_inv_same)
next
  case (exited b)
  let ?m = "if b then remove_socket m else m"
  have "lock_inv ?m" using assms(2) lock_inv_cong [of "remove_socket m" m] by simp
  moreover have "at_stage ?m i (Returned b)" using exited by (simp add: at_stage_def)
  ultimately show ?thesis using exited by (auto intro!: lock_inv_same)
qed (auto intro: lock_inv_taken lock_inv_same lock_inv_released lock_inv_killed)

lemma lock_inv_reached: "machine_reach target m \<Longrightarrow> lock_inv m"
proof (induction rule: machine_reach.induct)
  case machine_boot
  show ?case by (simp add: lock_inv_def boot_machine_def active_def)
next
  case (machine_next m i a m')
  then show ?case by (blast intro: lock_inv_step)
qed

end
