(* ===== verification/Instances_Props.thy ===== *)
theory Instances_Props
  imports Instances "HOL-Library.Sublist"
begin

text \<open>
  Several agents on one machine: who may recover the runs of the store, who can start, whose socket is at the
  path, and where a spawned agent listens.
\<close>

section \<open>Exclusion\<close>

text \<open>C29. No two agents with one lock file work at the same time: when an agent marks the running executions of
  the store as interrupted, every other agent has not started, has returned from its service, or is gone.\<close>

theorem recovery_runs_alone:
  assumes "machine_reach target m" and "machine_step target m i Recover m'"
    and "j < length (procs m)" and "j \<noteq> i" and "lock_path_of m j = lock_path_of m i"
  shows "stage_of m j \<in> {Launched, Returned True, Returned False, Gone}"
proof -
  have "at_stage m i Locked" using assms(2) by cases
  then have "active m i" by (simp add: at_stage_active)
  then have "\<not> active m j"
    using active_alone [OF lock_inv_reached [OF assms(1)] _ _ assms(5)] assms(4) by blast
  then have "\<not> holds_lock (stage_of m j)" using assms(3) by (simp add: active_def)
  then show ?thesis by (cases "stage_of m j") auto
qed

text \<open>C30. An agent gets the lock exactly when no other agent with the same lock file works.\<close>

theorem agent_starts_iff_alone:
  assumes "machine_reach target m" and "at_stage m i Launched"
  shows "(\<exists>m'. machine_step target m i TakeLock m')
    \<longleftrightarrow> (\<forall>j. active m j \<longrightarrow> lock_path_of m j \<noteq> lock_path_of m i)"
proof
  assume "\<exists>m'. machine_step target m i TakeLock m'"
  then obtain m' where "machine_step target m i TakeLock m'" ..
  then have "locks m (lock_path_of m i) = None"
    by cases (use os_lock.acquired(2) in blast)
  then show "\<forall>j. active m j \<longrightarrow> lock_path_of m j \<noteq> lock_path_of m i"
    using lock_invD [OF lock_inv_reached [OF assms(1)]] by fastforce
next
  assume alone: "\<forall>j. active m j \<longrightarrow> lock_path_of m j \<noteq> lock_path_of m i"
  have "locks m (lock_path_of m i) = None"
  proof (cases "locks m (lock_path_of m i)")
    case (Some p)
    then have "active m p \<and> lock_path_of m p = lock_path_of m i"
      using lock_inv_reached [OF assms(1)] by (simp add: lock_inv_def)
    with alone show ?thesis by blast
  qed
  from os_lock.free_is_acquired [where L = "locks m", OF this] obtain L where
    "acquire_lock (Inr ()) (Inr ()) (try_lock_exclusive target i) (lock_path_of m i) (locks m)
       = (Inr (Acquired (lock_path_of m i)), L)" by blast
  with assms(2) show "\<exists>m'. machine_step target m i TakeLock m'" by (blast intro: take_lock)
qed

section \<open>A run of the machine\<close>

text \<open>Concrete runs: the moves of the processes, on the functions the steps use.\<close>

definition stage_now :: "nat \<Rightarrow> machine \<Rightarrow> proc_stage option" where
  "stage_now i m = (if i < length (procs m) then Some (stage_of m i) else None)"

fun move :: "target_os \<Rightarrow> nat \<Rightarrow> act \<Rightarrow> string \<Rightarrow> machine \<Rightarrow> machine option" where
  "move target i Launch f m =
     (if i = length (procs m) then Some (m\<lparr>procs := procs m @ [(f, Launched)]\<rparr>) else None)"
| "move target i TakeLock f m =
     (if stage_now i m \<noteq> Some Launched then None
      else (case acquire_lock (Inr ()) (Inr ()) (try_lock_exclusive target i) (lock_path_of m i) (locks m) of
              (Inr (Acquired g), L) \<Rightarrow> Some (go_stage i Locked (m\<lparr>locks := L\<rparr>))
            | _ \<Rightarrow> None))"
| "move target i Recover f m =
     (if stage_now i m = Some Locked then Some (go_stage i Recovered m) else None)"
| "move target i Bind f m =
     (if stage_now i m = Some Recovered then Some (go_stage i Serving (bind_socket i m)) else None)"
| "move target i Stop f m =
     (if stage_now i m = Some Serving then Some (go_stage i (Stopping True) m) else None)"
| "move target i Return f m =
     (case stage_now i m of
        Some (Stopping b) \<Rightarrow> Some (go_stage i (Returned b) (release_lock i m))
      | _ \<Rightarrow> None)"
| "move target i Exit f m =
     (case stage_now i m of
        Some (Returned b) \<Rightarrow> Some (go_stage i Gone (if b then remove_socket m else m))
      | _ \<Rightarrow> None)"
| "move target i _ f m = None"

lemma stage_now_at: "stage_now i m = Some st \<longleftrightarrow> at_stage m i st"
  by (auto simp: stage_now_def at_stage_def)

lemma exits: "at_stage m i (Returned True) \<Longrightarrow> machine_step target m i Exit (go_stage i Gone (remove_socket m))"
  "at_stage m i (Returned False) \<Longrightarrow> machine_step target m i Exit (go_stage i Gone m)"
  using exited [of m i True target] exited [of m i False target] by simp_all

lemma move_is_step: "move target i a f m = Some m' \<Longrightarrow> machine_step target m i a m'"
proof (induction target i a f m rule: move.induct)
  case (2 target i f m)
  then show ?case
    by (auto simp: stage_now_at intro!: take_lock
        split: if_splits prod.splits sum.splits lock_outcome.splits)
qed (auto simp: stage_now_at intro: launched recover bound stopped returned exits
       split: if_splits option.splits proc_stage.splits)

fun moves :: "target_os \<Rightarrow> (nat \<times> act \<times> string) list \<Rightarrow> machine \<Rightarrow> machine option" where
  "moves target [] m = Some m"
| "moves target ((i, a, f) # ms) m = Option.bind (move target i a f m) (moves target ms)"

lemma moves_reach: "machine_reach target m \<Longrightarrow> moves target ms m = Some m' \<Longrightarrow> machine_reach target m'"
proof (induction ms arbitrary: m)
  case (Cons x ms)
  then show ?case
    by (cases x) (auto simp: bind_eq_Some_conv dest: move_is_step intro: machine_next)
qed simp

lemma ran: "\<not> Option.is_none r \<Longrightarrow> r = Some (the r)"
  by (cases r) simp_all

definition up :: "nat \<Rightarrow> string \<Rightarrow> (nat \<times> act \<times> string) list" where
  "up i f = [(i, Launch, f), (i, TakeLock, f), (i, Recover, f), (i, Bind, f)]"

lemma recovery_runs_alone_witness:
  "\<exists>m m'. machine_step TargetOther m 1 Recover m' \<and> stage_of m 0 = Returned True"
proof -
  let ?ms = "up 0 ''/d/agent.lock'' @ [(0, Stop, []), (0, Return, [])]
    @ [(1, Launch, ''/d/agent.lock''), (1, TakeLock, [])]"
  let ?m = "the (moves TargetOther ?ms boot_machine)"
  let ?n = "the (move TargetOther 1 Recover [] ?m)"
  have m: "moves TargetOther ?ms boot_machine = Some ?m" and n: "move TargetOther 1 Recover [] ?m = Some ?n"
    by (rule ran, code_simp)+
  have at: "0 < length (procs ?m)" "lock_path_of ?m 0 = lock_path_of ?m 1" "stage_of ?m 0 = Returned True"
    by code_simp+
  have reach: "machine_reach TargetOther ?m" by (rule moves_reach [OF machine_boot m])
  have "stage_of ?m 0 \<in> {Launched, Returned True, Returned False, Gone}"
    by (rule recovery_runs_alone [OF reach move_is_step [OF n] at(1) _ at(2)]) simp
  with at(3) move_is_step [OF n] show ?thesis by blast
qed

lemma agent_starts_iff_alone_witness:
  "\<exists>m. \<not> (\<exists>m'. machine_step TargetWindows m 1 TakeLock m') \<and> at_stage m 0 Serving"
proof -
  let ?ms = "up 0 ''D'' @ [(1, Launch, ''D'')]"
  let ?m = "the (moves TargetWindows ?ms boot_machine)"
  have m: "moves TargetWindows ?ms boot_machine = Some ?m" by (rule ran) code_simp
  have at: "stage_now 1 ?m = Some Launched" "stage_now 0 ?m = Some Serving" "lock_path_of ?m 0 = lock_path_of ?m 1"
    by code_simp+
  have reach: "machine_reach TargetWindows ?m" by (rule moves_reach [OF machine_boot m])
  have "active ?m 0" using at(2) by (simp add: stage_now_at at_stage_active)
  with agent_starts_iff_alone [OF reach at(1) [unfolded stage_now_at]] at(3)
  have "\<not> (\<exists>m'. machine_step TargetWindows ?m 1 TakeLock m')" by blast
  with at(2) show ?thesis by (blast intro: iffD1 [OF stage_now_at])
qed

section \<open>Two lock files on Windows\<close>

text \<open>The service looks for its lock next to the pipe, a directly started agent in the data directory.\<close>

lemma service_lock_is_beside_the_pipe:
  "service_lock_path TargetWindows (ipc_path_for_data_dir TargetWindows d)
     = [bs, bs] @ ''.'' @ [bs] @ ''pipe'' @ [bs] @ ''agent.lock''"
proof -
  have "service_lock_path TargetWindows WINDOWS_SYSTEM_PIPE = [bs, bs] @ ''.'' @ [bs] @ ''pipe'' @ [bs] @ ''agent.lock''"
    by code_simp
  then show ?thesis by (simp add: ipc_path_for_data_dir_def)
qed

text \<open>So with an absolute data directory the two lock files differ.\<close>

theorem service_and_daemon_lock_apart:
  assumes "1 < length d" and "d ! 1 = CHR 0x3A" and "service c" and "\<not> service c'"
  shows "launch_lock_path (launch_of TargetWindows c d) \<noteq> launch_lock_path (launch_of TargetWindows c' d)"
proof -
  have "daemon_lock_path TargetWindows d ! 1 = CHR 0x3A"
    using assms(1,2) by (auto simp: daemon_lock_path_def path_join_name_def nth_append)
  moreover have "service_lock_path TargetWindows (ipc_path_for_data_dir TargetWindows d) ! 1 = bs"
    unfolding service_lock_is_beside_the_pipe by simp
  ultimately show ?thesis
    using assms(3,4) by (auto simp: launch_of_def Let_def)
qed

lemma service_and_daemon_lock_apart_witness:
  "\<exists>c c'. service c \<and> \<not> service c' \<and> launch_lock_path (launch_of TargetWindows c ''C:/data'')
     \<noteq> launch_lock_path (launch_of TargetWindows c' ''C:/data'')"
proof -
  let ?c = "\<lparr>cli_data_dir = None, daemon = False, service = True, install_service = False,
             uninstall_service = False, cli_max_concurrent = 16\<rparr> :: cli"
  have "service ?c \<and> \<not> service (?c\<lparr>service := False\<rparr>) \<and>
      launch_lock_path (launch_of TargetWindows ?c ''C:/data'')
        \<noteq> launch_lock_path (launch_of TargetWindows (?c\<lparr>service := False\<rparr>) ''C:/data'')"
    using service_and_daemon_lock_apart [of "''C:/data''" ?c "?c\<lparr>service := False\<rparr>"] by simp
  then show ?thesis by blast
qed

text \<open>With two lock files an agent recovers the runs of another one that serves.\<close>

lemma two_locks_two_agents:
  assumes "f \<noteq> g"
  shows "\<exists>m m'. machine_reach target m \<and> lock_path_of m 0 = f \<and> lock_path_of m 1 = g
    \<and> at_stage m 0 Serving \<and> machine_step target m 1 Recover m'"
proof -
  define m where "m = \<lparr>procs = [(f, Serving), (g, Locked)], locks = [f \<mapsto> 0, g \<mapsto> 1], socket_of = Some 0\<rparr>"
  have "moves target (up 0 f @ [(1, Launch, g), (1, TakeLock, g)]) boot_machine = Some m"
    using assms
    by (simp add: up_def boot_machine_def m_def stage_now_def go_stage_def bind_socket_def acquire_lock_def
        try_lock_exclusive_def)
  then have "machine_reach target m" by (rule moves_reach [OF machine_boot])
  moreover have "machine_step target m 1 Recover (go_stage 1 Recovered m)"
    by (rule recover) (simp add: m_def at_stage_def)
  moreover have "lock_path_of m 0 = f" "lock_path_of m 1 = g" "at_stage m 0 Serving"
    by (simp_all add: m_def at_stage_def)
  ultimately show ?thesis by blast
qed

section \<open>The socket file\<close>

text \<open>Restarts in which an agent binds only when no earlier one still has connection tasks.\<close>

inductive orderly_reach :: "target_os \<Rightarrow> machine \<Rightarrow> bool" for target where
  orderly_boot: "orderly_reach target boot_machine"
| orderly_next: "orderly_reach target m \<Longrightarrow> machine_step target m i a m' \<Longrightarrow>
     (a = Bind \<Longrightarrow> \<forall>j. \<not> at_stage m j (Returned True)) \<Longrightarrow> orderly_reach target m'"

lemma orderly_is_reached: "orderly_reach target m \<Longrightarrow> machine_reach target m"
  by (induction rule: orderly_reach.induct) (auto intro: machine_boot machine_next)

definition one_lock :: "machine \<Rightarrow> bool" where
  "one_lock m \<longleftrightarrow> (\<forall>p \<in> set (procs m). \<forall>q \<in> set (procs m). fst p = fst q)"

lemma one_lock_same_path: "one_lock m \<Longrightarrow> active m i \<Longrightarrow> active m j \<Longrightarrow> lock_path_of m i = lock_path_of m j"
  by (auto simp: one_lock_def active_def)

lemma step_keeps_paths:
  assumes "machine_step target m i a m'"
  shows "\<exists>fs. map fst (procs m') = map fst (procs m) @ fs"
proof -
  have upd: "map fst (procs (go_stage i st m)) = map fst (procs m)" for st m
    by (cases "i < length (procs m)") (auto simp: go_stage_def map_update list_update_same_conv list_update_beyond)
  from assms show ?thesis
  proof cases
    case launched
    then show ?thesis by simp
  next
    case (exited b)
    then show ?thesis by (cases b) (simp_all add: upd)
  qed (simp_all add: upd)
qed

lemma one_lock_before: "machine_step target m i a m' \<Longrightarrow> one_lock m' \<Longrightarrow> one_lock m"
proof -
  have alt: "one_lock m \<longleftrightarrow> (\<forall>f \<in> set (map fst (procs m)). \<forall>g \<in> set (map fst (procs m)). f = g)" for m
    by (simp add: one_lock_def)
  show "machine_step target m i a m' \<Longrightarrow> one_lock m' \<Longrightarrow> one_lock m"
    unfolding alt using step_keeps_paths by fastforce
qed

lemma at_stage_go:
  "i < length (procs m) \<Longrightarrow> at_stage (go_stage i st m) k st' \<longleftrightarrow> (if k = i then st = st' else at_stage m k st')"
  by (auto simp: at_stage_def go_stage_stage)

lemma at_stage_length: "at_stage m i st \<Longrightarrow> i < length (procs m)"
  by (simp add: at_stage_def)

lemma at_stage_simps [simp]:
  "at_stage (release_lock i m) k st = at_stage m k st" "at_stage (bind_socket i m) k st = at_stage m k st"
  "at_stage (remove_socket m) k st = at_stage m k st" "at_stage (m\<lparr>locks := L\<rparr>) k st = at_stage m k st"
  by (simp_all add: at_stage_def)

definition socket_inv :: "machine \<Rightarrow> bool" where
  "socket_inv m \<longleftrightarrow> (\<forall>k. at_stage m k Serving \<longrightarrow> socket_of m = Some k \<and> (\<forall>j. \<not> at_stage m j (Returned True)))"

lemma socket_inv_step:
  assumes step: "machine_step target m i a m'" and inv: "socket_inv m" and lock: "lock_inv m"
    and one: "one_lock m" and free: "a = Bind \<Longrightarrow> \<forall>j. \<not> at_stage m j (Returned True)"
  shows "socket_inv m'"
proof -
  have busy: "\<not> at_stage m k Serving" if "active m i" "k \<noteq> i" for k
    using active_alone [OF lock that(1)] one_lock_same_path [OF one that(1)] that(2)
      at_stage_active [of m k Serving] by auto
  have own: "\<not> at_stage m i Serving" if "at_stage m i st" "st \<noteq> Serving" for st
    using that by (simp add: at_stage_def)
  have len: "i < length (procs m)" if "a \<noteq> Launch"
    using step that by cases (auto dest: at_stage_length)
  from step show ?thesis
  proof cases
    case (launched f)
    then have "at_stage m' k st \<longleftrightarrow> at_stage m k st" if "st \<noteq> Launched" for k st
      using that by (auto simp: at_stage_def nth_append less_Suc_eq)
    with inv launched show ?thesis by (simp add: socket_inv_def)
  next
    case failed
    then show ?thesis
      using inv by (auto simp: socket_inv_def at_stage_go len split: if_splits)
  next
    case bound
    then have "active m i" by (simp add: at_stage_active)
    with bound busy free show ?thesis
      by (auto simp: socket_inv_def at_stage_go len split: if_splits)
  next
    case stopped
    then have "active m i" by (simp add: at_stage_active)
    with stopped busy show ?thesis
      by (auto simp: socket_inv_def at_stage_go len split: if_splits)
  next
    case (returned b)
    then have "active m i" by (simp add: at_stage_active)
    with returned busy own show ?thesis
      by (auto simp: socket_inv_def at_stage_go len split: if_splits)
  next
    case drop_stopping
    then have "active m i" by (simp add: at_stage_active)
    with drop_stopping busy show ?thesis
      by (auto simp: socket_inv_def at_stage_go len split: if_splits)
  next
    case drop_returned
    with inv show ?thesis
      by (auto simp: socket_inv_def at_stage_go len split: if_splits)
  next
    case (exited b)
    with inv show ?thesis
      by (cases b) (auto simp: socket_inv_def at_stage_go len split: if_splits)
  qed (use inv in \<open>auto simp: socket_inv_def at_stage_go len split: if_splits\<close>)
qed

text \<open>In orderly restarts with one lock file a serving agent has its socket at the path.\<close>

theorem serving_agent_has_its_socket:
  assumes "orderly_reach target m" and "one_lock m" and "at_stage m i Serving"
  shows "socket_of m = Some i"
proof -
  have "one_lock m \<longrightarrow> socket_inv m" using assms(1)
  proof (induction rule: orderly_reach.induct)
    case orderly_boot
    show ?case by (simp add: socket_inv_def boot_machine_def at_stage_def)
  next
    case (orderly_next m i a m')
    then show ?case
      using socket_inv_step lock_inv_reached [OF orderly_is_reached] one_lock_before by blast
  qed
  with assms(2,3) show ?thesis by (simp add: socket_inv_def)
qed

text \<open>Without the order, the end of an earlier agent takes the socket of its successor away.\<close>

lemma late_exit_unlinks_the_new_socket:
  "\<exists>m. machine_reach target m \<and> one_lock m \<and> at_stage m 1 Serving \<and> socket_of m = None"
proof -
  define m where "m = \<lparr>procs = [([], Gone), ([], Serving)], locks = [[] \<mapsto> 1], socket_of = None\<rparr>"
  have "moves target (up 0 [] @ [(0, Stop, []), (0, Return, [])] @ up 1 [] @ [(0, Exit, [])]) boot_machine = Some m"
    by (simp add: up_def boot_machine_def m_def stage_now_def go_stage_def bind_socket_def acquire_lock_def
        try_lock_exclusive_def release_lock_def drop_lock_def remove_socket_def)
  then have "machine_reach target m" by (rule moves_reach [OF machine_boot])
  then show ?thesis by (intro exI [of _ m]) (simp add: m_def one_lock_def at_stage_def)
qed

section \<open>Where an agent listens\<close>

text \<open>The agent that the desktop spawns with its data directory listens where the desktop connects.\<close>

theorem spawned_agent_is_where_the_desktop_looks:
  assumes "cli_data_dir c = Some (system_data_dir target V (exe_dir V))"
  shows "launch_ipc_path (launch_of target c (resolve_data_dir target V' (cli_data_dir c))) = system_ipc_path target V"
proof (cases target)
  case TargetWindows
  then show ?thesis by (simp add: launch_of_def Let_def ipc_path_for_data_dir_def system_ipc_path_def)
next
  case TargetMacos
  then show ?thesis
    using assms
    by (simp add: launch_of_def Let_def ipc_path_for_data_dir_def system_ipc_path_def resolve_data_dir_def
        system_data_dir_def system_data_dir_fallback_def MACOS_SYSTEM_DATA_DIR_def)
next
  case TargetOther
  then show ?thesis
    using assms
    by (simp add: launch_of_def Let_def ipc_path_for_data_dir_def system_ipc_path_def resolve_data_dir_def
        system_data_dir_def system_data_dir_fallback_def)
qed

lemma spawned_agent_is_where_the_desktop_looks_witness:
  "\<exists>V c. launch_ipc_path (launch_of TargetOther c (resolve_data_dir TargetOther V (cli_data_dir c)))
     = ''/home/u/.easyjob/easyjob.sock''"
proof -
  let ?V = "\<lparr>exe_dir = None, home_var = Some ''/home/u''\<rparr> :: process_env"
  let ?c = "\<lparr>cli_data_dir = Some (system_data_dir TargetOther ?V (exe_dir ?V)), daemon = True, service = False,
             install_service = False, uninstall_service = False, cli_max_concurrent = 16\<rparr> :: cli"
  have "system_ipc_path TargetOther ?V = ''/home/u/.easyjob/easyjob.sock''" by code_simp
  with spawned_agent_is_where_the_desktop_looks [of ?c TargetOther ?V ?V] show ?thesis
    by (intro exI [of _ ?V] exI [of _ ?c]) simp
qed

lemma serving_agent_has_its_socket_witness:
  "\<exists>m. at_stage m 0 Serving \<and> socket_of m = Some 0"
proof -
  define m where "m = \<lparr>procs = [([], Serving)], locks = [[] \<mapsto> 0], socket_of = Some 0\<rparr>"
  have "orderly_reach TargetOther m"
  proof -
    let ?m1 = "boot_machine\<lparr>procs := [([], Launched)]\<rparr>"
    let ?m2 = "go_stage 0 Locked (?m1\<lparr>locks := [[] \<mapsto> 0]\<rparr>)"
    have 1: "orderly_reach TargetOther ?m1"
      by (rule orderly_next [OF orderly_boot move_is_step [of _ 0 Launch "[]"]]) (simp_all add: boot_machine_def)
    have 2: "orderly_reach TargetOther ?m2"
      by (rule orderly_next [OF 1 move_is_step [of _ 0 TakeLock "[]"]])
         (simp_all add: boot_machine_def stage_now_def acquire_lock_def try_lock_exclusive_def)
    have 3: "orderly_reach TargetOther (go_stage 0 Recovered ?m2)"
      by (rule orderly_next [OF 2 move_is_step [of _ 0 Recover "[]"]])
         (simp_all add: boot_machine_def stage_now_def go_stage_def)
    have "orderly_reach TargetOther (go_stage 0 Serving (bind_socket 0 (go_stage 0 Recovered ?m2)))"
      by (rule orderly_next [OF 3 move_is_step [of _ 0 Bind "[]"]])
         (auto simp: boot_machine_def stage_now_def go_stage_def at_stage_def)
    then show ?thesis by (simp add: m_def go_stage_def bind_socket_def boot_machine_def)
  qed
  moreover have "one_lock m" "at_stage m 0 Serving" by (simp_all add: m_def one_lock_def at_stage_def)
  ultimately have "socket_of m = Some 0" by (rule serving_agent_has_its_socket)
  with \<open>at_stage m 0 Serving\<close> show ?thesis by blast
qed

end
