(* ===== verification/Service_Start.thy ===== *)
theory Service_Start
  imports Startup Store Exec_Manager Instance_Lock Agent Ipc_Server
begin

text \<open>
  The start of the agent's service: \<open>AgentService::init_shared\<close> of \<^verbatim>\<open>apps/agent/src/service.rs\<close> with the opening
  of the database (\<^verbatim>\<open>crates/persistence/src/db.rs\<close>) and of the channel (\<^verbatim>\<open>crates/ipc/src/server.rs\<close>).  What
  SQLite and the operating system answer is an input.
\<close>

section \<open>The database\<close>

datatype journal_mode = WalMode

record connect_options =
  opt_create_if_missing :: bool
  opt_journal_mode :: journal_mode
  opt_foreign_keys :: bool
  opt_busy_timeout_secs :: nat
  opt_max_connections :: nat

definition pool_options :: connect_options where
  "pool_options =
     \<lparr>opt_create_if_missing = True, opt_journal_mode = WalMode, opt_foreign_keys = True,
      opt_busy_timeout_secs = 5, opt_max_connections = 10\<rparr>"

definition run_migrations :: "(db \<Rightarrow> string + db) \<Rightarrow> db \<Rightarrow> db result" where
  "run_migrations migrate d = (case migrate d of Inl e \<Rightarrow> Inl (Database e) | Inr d \<Rightarrow> Inr d)"

definition init_pool ::
  "(string \<Rightarrow> string + unit) \<Rightarrow> (connect_options \<Rightarrow> string + db) \<Rightarrow> (db \<Rightarrow> string + db) \<Rightarrow> string \<Rightarrow> db result" where
  "init_pool parse_url open_db migrate url =
     (case parse_url url of
        Inl e \<Rightarrow> Inl (Database e)
      | Inr _ \<Rightarrow>
          (case open_db pool_options of
             Inl e \<Rightarrow> Inl (Database e)
           | Inr d \<Rightarrow> run_migrations migrate d))"

section \<open>The channel\<close>

datatype socket_mode = PrivateSocket | SharedSocket

text \<open>Permission bits, and the access list of a shared pipe.\<close>

definition socket_perm :: "socket_mode \<Rightarrow> nat" where
  "socket_perm mode = (case mode of PrivateSocket \<Rightarrow> 6 * 64 | SharedSocket \<Rightarrow> 6 * 64 + 6 * 8 + 6)"

definition PIPE_SDDL :: string where
  "PIPE_SDDL = ''D:(A;;GA;;;SY)(A;;GA;;;BA)(A;;GRGW;;;AU)''"

text \<open>
  A new instance of the pipe, from whether it must be the first one and its access list; converting the list
  can fail.
\<close>

definition create_pipe_instance ::
  "(string \<Rightarrow> string + 'd) \<Rightarrow> (bool \<Rightarrow> 'd option \<Rightarrow> string + unit) \<Rightarrow> bool \<Rightarrow> socket_mode \<Rightarrow> string + unit" where
  "create_pipe_instance convert_sddl create_pipe first mode =
     (if mode = PrivateSocket then create_pipe first None
      else (case convert_sddl PIPE_SDDL of
              Inl e \<Rightarrow> Inl e
            | Inr descriptor \<Rightarrow> create_pipe first (Some descriptor)))"

text \<open>
  \<open>bind_with_event_tx_and_mode\<close>: the parent directory, then the socket (the bits it is created with) whose
  permissions are set if that works, or the first instance of the pipe.
\<close>

record bind_world =
  parent_made :: "string + unit"
  socket_bound :: "string + nat"
  perm_set :: bool
  first_pipe :: "string + unit"

definition bind_server :: "target_os \<Rightarrow> bind_world \<Rightarrow> socket_mode \<Rightarrow> (nat option \<times> ipc_server) result" where
  "bind_server target B mode =
     (case parent_made B of
        Inl e \<Rightarrow> Inl (Io e)
      | Inr _ \<Rightarrow>
          if target = TargetWindows
          then (case first_pipe B of Inl e \<Rightarrow> Inl (Io e) | Inr _ \<Rightarrow> Inr (None, new_server))
          else (case socket_bound B of
                  Inl e \<Rightarrow> Inl (Io e)
                | Inr bits \<Rightarrow> Inr (Some (if perm_set B then socket_perm mode else bits), new_server)))"

definition bind_with_event_tx :: "target_os \<Rightarrow> bind_world \<Rightarrow> (nat option \<times> ipc_server) result" where
  "bind_with_event_tx target B = bind_server target B PrivateSocket"

definition bind_shared_with_event_tx :: "target_os \<Rightarrow> bind_world \<Rightarrow> (nat option \<times> ipc_server) result" where
  "bind_shared_with_event_tx target B = bind_server target B SharedSocket"

section \<open>Warnings\<close>

text \<open>The expressions \<open>warn_invalid_cron_triggers\<close> logs, in the order of the triggers.\<close>

fun invalid_cron_expressions :: "chrono_env \<Rightarrow> instant \<Rightarrow> trigger list \<Rightarrow> string list outcome" where
  "invalid_cron_expressions E now [] = Ret []"
| "invalid_cron_expressions E now (tr # trs) =
     (if \<not> trigger_enabled tr then invalid_cron_expressions E now trs
      else (case trigger_kind tr of
              Cron expr _ \<Rightarrow>
                obind (validate_cron_expression E now expr) (\<lambda>valid.
                obind (invalid_cron_expressions E now trs) (\<lambda>rest.
                  Ret (if valid then rest else expr # rest)))
            | _ \<Rightarrow> invalid_cron_expressions E now trs))"

definition warn_invalid_cron_triggers :: "chrono_env \<Rightarrow> instant \<Rightarrow> task \<Rightarrow> string list outcome" where
  "warn_invalid_cron_triggers E now t = invalid_cron_expressions E now (triggers t)"

section \<open>The service\<close>

record init_world =
  url_parsed :: "string \<Rightarrow> string + unit"
  db_opened :: "connect_options \<Rightarrow> string + db"
  db_migrated :: "db \<Rightarrow> string + db"
  recover_faults :: faults
  load_faults :: "nat \<Rightarrow> faults"
  bind_answers :: bind_world

text \<open>
  The repositories, the execution manager, the scheduler's channel, the registered executions and the shutdown
  signal are shared with the request handler: they are its state, \<open>agent\<close>.
\<close>

record agent_service =
  svc_agent :: agent
  svc_ipc_path :: string
  svc_socket :: "nat option"
  svc_server :: ipc_server

abbreviation svc_db :: "agent_service \<Rightarrow> db" where
  "svc_db s \<equiv> agent_db (svc_agent s)"

abbreviation svc_manager :: "agent_service \<Rightarrow> exec_manager" where
  "svc_manager s \<equiv> agent_manager (svc_agent s)"

abbreviation svc_commands :: "agent_service \<Rightarrow> sched_command list" where
  "svc_commands s \<equiv> agent_commands (svc_agent s)"

text \<open>
  \<open>init_shared\<close>: the result, and the database as it leaves it.  The commands it sends to the scheduler are
  those of \<open>Startup\<close>, where the channels they go through are; here the loading is taken to get through.
\<close>

definition init_shared ::
  "target_os \<Rightarrow> codec \<Rightarrow> init_world \<Rightarrow> instant \<Rightarrow> string \<Rightarrow> string \<Rightarrow> nat \<Rightarrow> bool
   \<Rightarrow> agent_service result \<times> db option" where
  "init_shared target K W now db_url ipc_path max_concurrent shared =
     (case init_pool (url_parsed W) (db_opened W) (db_migrated W) db_url of
        Inl e \<Rightarrow> (Inl e, None)
      | Inr d \<Rightarrow>
          (case recover_dangling_executions (recover_faults W) d of
             (Inl e, d) \<Rightarrow> (Inl e, Some d)
           | (Inr _, d) \<Rightarrow>
               (case find_all_enabled K (load_faults W) now d of
                  Inl e \<Rightarrow> (Inl e, Some d)
                | Inr enabled_tasks \<Rightarrow>
                    (case (if shared then bind_shared_with_event_tx target (bind_answers W)
                           else bind_with_event_tx target (bind_answers W)) of
                       Inl e \<Rightarrow> (Inl e, Some d)
                     | Inr (bits, srv) \<Rightarrow>
                         (Inr \<lparr>svc_agent = (initial_agent d max_concurrent)
                                 \<lparr>agent_commands := startup_commands enabled_tasks\<rparr>,
                               svc_ipc_path = ipc_path, svc_socket = bits, svc_server = srv\<rparr>,
                          Some d)))))"

definition init_service ::
  "target_os \<Rightarrow> codec \<Rightarrow> init_world \<Rightarrow> instant \<Rightarrow> string \<Rightarrow> string \<Rightarrow> nat \<Rightarrow> agent_service result \<times> db option" where
  "init_service target K W now db_url ipc_path max_concurrent =
     init_shared target K W now db_url ipc_path max_concurrent False"

section \<open>What a start leaves\<close>

lemma recovered_runs:
  assumes "recover_dangling_executions f d = (Inr n, d')" and "r \<in> set (runs d')"
  shows "run_status r \<noteq> status_json Running"
proof -
  have "status_json Interrupted \<noteq> status_json Running" by (simp add: status_json_def)
  with assms show ?thesis by (auto simp: recover_dangling_executions_def split: sum.splits)
qed

lemma recovered_tasks:
  "recover_dangling_executions f d = (r, d') \<Longrightarrow> tasks d' = tasks d"
  by (auto simp: recover_dangling_executions_def split: sum.splits)

lemma bound_server: "bind_server target B mode = Inr (bits, srv) \<Longrightarrow> srv = new_server"
  by (auto simp: bind_server_def split: sum.splits if_splits)

lemma init_shared_ok:
  assumes "init_shared target K W now url ipc n shared = (Inr svc, d)"
  obtains d0 k ts where "init_pool (url_parsed W) (db_opened W) (db_migrated W) url = Inr d0"
    and "recover_dangling_executions (recover_faults W) d0 = (Inr k, svc_db svc)"
    and "find_all_enabled K (load_faults W) now (svc_db svc) = Inr ts"
    and "svc_agent svc = (initial_agent (svc_db svc) n)\<lparr>agent_commands := startup_commands ts\<rparr>"
    and "svc_ipc_path svc = ipc" and "svc_server svc = new_server" and "d = Some (svc_db svc)"
  using assms
  by (auto simp: init_shared_def initial_agent_def bind_with_event_tx_def bind_shared_with_event_tx_def
      dest!: bound_server split: sum.splits prod.splits if_splits)

lemma startup_adds: "t \<in> set ts \<Longrightarrow> AddTask t \<in> set (startup_commands ts)"
  by (auto simp: startup_commands_def)

text \<open>C26. A started service has no run marked as running, counts and registers none, holds no permit, has not been told
  to stop, has created no job, has no client, and has sent every enabled task to the scheduler.\<close>

theorem started_service_is_fresh:
  assumes "init_shared target K W now url ipc n shared = (Inr svc, d)"
  shows "(\<forall>r. r \<in> set (runs (svc_db svc)) \<longrightarrow> run_status r \<noteq> status_json Running)
    \<and> total_running_count (svc_manager svc) = 0 \<and> global_limiter (svc_manager svc) = n
    \<and> agent_active (svc_agent svc) = [] \<and> agent_jobs (svc_agent svc) = []
    \<and> \<not> shutdown_notified (svc_agent svc) \<and> svc_ipc_path svc = ipc \<and> svc_server svc = new_server
    \<and> (\<exists>ts. find_all_enabled K (load_faults W) now (svc_db svc) = Inr ts
         \<and> (\<forall>t. t \<in> set ts \<longrightarrow> AddTask t \<in> set (svc_commands svc)))"
proof -
  from assms obtain d0 k ts where parts:
    "recover_dangling_executions (recover_faults W) d0 = (Inr k, svc_db svc)"
    "find_all_enabled K (load_faults W) now (svc_db svc) = Inr ts"
    "svc_agent svc = (initial_agent (svc_db svc) n)\<lparr>agent_commands := startup_commands ts\<rparr>"
    "svc_ipc_path svc = ipc" "svc_server svc = new_server"
    by (rule init_shared_ok)
  have fresh: "svc_manager svc = new_manager n" "svc_commands svc = startup_commands ts"
    "agent_active (svc_agent svc) = []" "agent_jobs (svc_agent svc) = []" "\<not> shutdown_notified (svc_agent svc)"
    by (subst parts(3), simp add: initial_agent_def)+
  show ?thesis
    unfolding fresh(1,2,3,4) parts(4,5)
    using fresh(5) recovered_runs [OF parts(1)] parts(2) startup_adds
    by (auto simp: total_running_count_def new_manager_def)
qed

definition left_running :: db where
  "left_running = empty_db\<lparr>runs :=
     [\<lparr>run_id = ExecutionId 1, run_task_id = TaskId 1, run_trigger_id = None, run_status = status_json Running,
       run_scheduled_at = None, run_started_at = [], run_finished_at = None, run_duration_ms = None, run_exit_code = None,
       run_error_message = None\<rparr>]\<rparr>"

definition left_world :: init_world where
  "left_world =
     \<lparr>url_parsed = \<lambda>_. Inr (), db_opened = \<lambda>_. Inr left_running, db_migrated = Inr, recover_faults = no_faults,
      load_faults = \<lambda>_. no_faults,
      bind_answers = \<lparr>parent_made = Inr (), socket_bound = Inr 0, perm_set = True, first_pipe = Inr ()\<rparr>\<rparr>"

lemma started_service_is_fresh_witness:
  "\<forall>K :: codec. \<exists>svc. init_shared TargetOther K left_world 0 [] [] 16 True = (Inr svc, Some (svc_db svc))
     \<and> map run_status (runs (svc_db svc)) = [status_json Interrupted] \<and> global_limiter (svc_manager svc) = 16"
proof
  fix K :: codec
  have "\<exists>svc. init_shared TargetOther K left_world 0 [] [] 16 True = (Inr svc, Some (svc_db svc))
      \<and> map run_status (runs (svc_db svc)) = [status_json Interrupted]"
    by (simp add: init_shared_def init_pool_def run_migrations_def left_world_def left_running_def empty_db_def
        recover_dangling_executions_def call_db_def no_faults_def find_all_enabled_def bind_server_def bind_shared_with_event_tx_def initial_agent_def)
  then obtain svc where svc: "init_shared TargetOther K left_world 0 [] [] 16 True = (Inr svc, Some (svc_db svc))
      \<and> map run_status (runs (svc_db svc)) = [status_json Interrupted]" by (rule exE)
  have "global_limiter (svc_manager svc) = 16"
    by (rule started_service_is_fresh [OF conjunct1 [OF svc], THEN conjunct2, THEN conjunct2, THEN conjunct1])
  with svc show "\<exists>svc. init_shared TargetOther K left_world 0 [] [] 16 True = (Inr svc, Some (svc_db svc))
      \<and> map run_status (runs (svc_db svc)) = [status_json Interrupted] \<and> global_limiter (svc_manager svc) = 16"
    by (intro exI [of _ svc] conjI) (erule conjE, assumption)+
qed

text \<open>A start that fails at the channel has already marked the running executions as interrupted.\<close>

lemma failed_start_has_recovered:
  assumes "init_pool (url_parsed W) (db_opened W) (db_migrated W) url = Inr d"
    and "recover_dangling_executions (recover_faults W) d = (Inr k, d')"
    and "find_all_enabled K (load_faults W) now d' = Inr ts"
    and "bind_server target (bind_answers W) (if shared then SharedSocket else PrivateSocket) = Inl e"
  shows "init_shared target K W now url ipc n shared = (Inl e, Some d')"
  using assms by (simp add: init_shared_def bind_with_event_tx_def bind_shared_with_event_tx_def split: if_splits)

end
