(* ===== verification/Service_Run.thy ===== *)
theory Service_Run
  imports Service_Start Job_System Ipc_Server
begin

text \<open>
  The accept loop of \<^verbatim>\<open>crates/ipc/src/server.rs\<close> and the end of \<open>AgentService::run\<close> of
  \<^verbatim>\<open>apps/agent/src/service.rs\<close>: the \<open>select!\<close> that waits for the server or the shutdown signal, and the steps of
  the shutdown, interleaved with the jobs, the dispatcher and the scheduler.
\<close>

section \<open>Accepting connections\<close>

text \<open>\<open>IpcServer::run\<close> on Unix: every accepted connection is handled, an error ends the loop.\<close>

fun accept_unix :: "(string + unit) list \<Rightarrow> ipc_server \<Rightarrow> bool \<times> ipc_server" where
  "accept_unix [] s = (False, s)"
| "accept_unix (Inr _ # rs) s = accept_unix rs (connect s)"
| "accept_unix (Inl _ # rs) s = (True, s)"

text \<open>
  On Windows: an instance that connects is replaced by a new one before it is handled; a client whose
  instance cannot be replaced is not served.
\<close>

fun accept_windows :: "((string + unit) \<times> (string + unit)) list \<Rightarrow> ipc_server \<Rightarrow> bool \<times> ipc_server" where
  "accept_windows [] s = (False, s)"
| "accept_windows ((Inl _, _) # rs) s = (True, s)"
| "accept_windows ((Inr _, Inl _) # rs) s = (True, s)"
| "accept_windows ((Inr _, Inr _) # rs) s = accept_windows rs (connect s)"

section \<open>The state of a running service\<close>

text \<open>
  The phase of \<open>run\<close>; the wait for the running executions knows the number of its sleeps and the milliseconds
  since it began.
\<close>

datatype run_phase =
    Selecting
  | AwaitingDispatcher
  | Draining nat nat
  | AwaitingScheduler
  | RunReturned

record running =
  phase :: run_phase
  job_sys :: job_system
  stop_signal :: bool
  server_up :: bool
  dispatcher_up :: bool
  tokens_cancelled :: bool
  shutdown_sent :: bool
  scheduler_up :: bool
  monitor_up :: bool
  forwarder_up :: bool
  network_aborted :: bool

definition run_begin :: "nat \<Rightarrow> running" where
  "run_begin n =
     \<lparr>phase = Selecting, job_sys = initial_jobs n, stop_signal = False, server_up = True, dispatcher_up = True,
      tokens_cancelled = False, shutdown_sent = False, scheduler_up = True, monitor_up = True, forwarder_up = True,
      network_aborted = False\<rparr>"

abbreviation still_running :: "running \<Rightarrow> nat" where
  "still_running s \<equiv> total_running_count (manager (job_sys s))"

text \<open>
  The steps: of the jobs, whoever starts them; of the signal (\<open>agent.shutdown\<close>, or a control of the service
  manager); of the accept loop; of the scheduler, which may also panic; of the dispatcher, which ends when it
  is cancelled or the scheduler's events end; of the two network tasks, which may end by themselves and end
  some time after they are aborted; and of \<open>run\<close> itself, which aborts them last and does not wait for them.
\<close>

inductive run_step :: "running \<Rightarrow> running \<Rightarrow> bool" where
  job_moves: "job_step (job_sys s) js \<Longrightarrow> run_step s (s\<lparr>job_sys := js\<rparr>)"
| signalled: "run_step s (s\<lparr>stop_signal := True\<rparr>)"
| accept_failed: "phase s = Selecting \<Longrightarrow> server_up s \<Longrightarrow> run_step s (s\<lparr>server_up := False\<rparr>)"
| scheduler_panics: "scheduler_up s \<Longrightarrow> run_step s (s\<lparr>scheduler_up := False\<rparr>)"
| scheduler_ends: "scheduler_up s \<Longrightarrow> shutdown_sent s \<Longrightarrow> run_step s (s\<lparr>scheduler_up := False\<rparr>)"
| dispatcher_ends: "dispatcher_up s \<Longrightarrow> tokens_cancelled s \<or> \<not> scheduler_up s \<Longrightarrow>
     run_step s (s\<lparr>dispatcher_up := False\<rparr>)"
| monitor_ends: "monitor_up s \<Longrightarrow> run_step s (s\<lparr>monitor_up := False\<rparr>)"
| forwarder_ends: "forwarder_up s \<Longrightarrow> network_aborted s \<or> \<not> monitor_up s \<Longrightarrow>
     run_step s (s\<lparr>forwarder_up := False\<rparr>)"
| selected: "phase s = Selecting \<Longrightarrow> stop_signal s \<or> \<not> server_up s \<Longrightarrow>
     run_step s (s\<lparr>phase := AwaitingDispatcher, server_up := False, tokens_cancelled := True\<rparr>)"
| dispatcher_joined: "phase s = AwaitingDispatcher \<Longrightarrow> \<not> dispatcher_up s \<Longrightarrow>
     run_step s (s\<lparr>phase := Draining 0 0\<rparr>)"
| poll: "phase s = Draining k ms \<Longrightarrow> 0 < still_running s \<Longrightarrow> ms < 5000 \<Longrightarrow> 50 \<le> d \<Longrightarrow>
     run_step s (s\<lparr>phase := Draining (Suc k) (ms + d)\<rparr>)"
| drained: "phase s = Draining k ms \<Longrightarrow> still_running s = 0 \<Longrightarrow>
     run_step s (s\<lparr>phase := AwaitingScheduler, shutdown_sent := True\<rparr>)"
| gave_up: "phase s = Draining k ms \<Longrightarrow> 0 < still_running s \<Longrightarrow> 5000 \<le> ms \<Longrightarrow>
     run_step s (s\<lparr>phase := AwaitingScheduler, shutdown_sent := True\<rparr>)"
| scheduler_joined: "phase s = AwaitingScheduler \<Longrightarrow> \<not> scheduler_up s \<Longrightarrow>
     run_step s (s\<lparr>phase := RunReturned, network_aborted := True\<rparr>)"

inductive_cases run_stepE: "run_step s s'"

inductive run_reach :: "nat \<Rightarrow> running \<Rightarrow> bool" for n where
  run_started: "run_reach n (run_begin n)"
| run_next: "run_reach n s \<Longrightarrow> run_step s s' \<Longrightarrow> run_reach n s'"

section \<open>Invariant\<close>

text \<open>What each phase of the shutdown has behind it.\<close>

definition phase_ok :: "running \<Rightarrow> bool" where
  "phase_ok s \<longleftrightarrow>
     (network_aborted s \<longleftrightarrow> phase s = RunReturned)
     \<and> (case phase s of
        Selecting \<Rightarrow> \<not> shutdown_sent s
      | AwaitingDispatcher \<Rightarrow> \<not> server_up s \<and> tokens_cancelled s \<and> \<not> shutdown_sent s
      | Draining k ms \<Rightarrow> \<not> server_up s \<and> tokens_cancelled s \<and> \<not> dispatcher_up s \<and> \<not> shutdown_sent s
          \<and> 50 * k \<le> ms \<and> 50 * (k - 1) < 5000
      | AwaitingScheduler \<Rightarrow> \<not> server_up s \<and> tokens_cancelled s \<and> \<not> dispatcher_up s \<and> shutdown_sent s
      | RunReturned \<Rightarrow> \<not> server_up s \<and> tokens_cancelled s \<and> \<not> dispatcher_up s \<and> shutdown_sent s
          \<and> \<not> scheduler_up s)"

definition run_inv :: "nat \<Rightarrow> running \<Rightarrow> bool" where
  "run_inv n s \<longleftrightarrow> phase_ok s \<and> jobs_inv n (job_sys s)"

lemma run_inv_step:
  assumes "run_step s s'" and "run_inv n s"
  shows "run_inv n s'"
  using assms
proof cases
  case (job_moves js)
  then show ?thesis
    using assms(2) job_step_inv by (auto simp: run_inv_def phase_ok_def split: run_phase.splits)
qed (auto simp: run_inv_def phase_ok_def split: run_phase.splits)

lemma run_inv_reached: "run_reach n s \<Longrightarrow> run_inv n s"
proof (induction rule: run_reach.induct)
  case run_started
  show ?case by (simp add: run_inv_def phase_ok_def run_begin_def jobs_inv_start)
next
  case (run_next s s')
  then show ?case by (blast intro: run_inv_step)
qed

section \<open>Properties\<close>

lemma no_count_no_slots:
  assumes "jobs_inv n js" and "total_running_count (manager js) = 0"
  shows "slots_held (jobs js) = {#}"
proof (rule multiset_eqI)
  fix t
  have "count_of (manager js) t = 0"
  proof (cases "map_of (task_running_counts (manager js)) t")
    case None
    then show ?thesis by (simp add: count_of_def get_or_def)
  next
    case (Some k)
    then have "k \<in> set (map snd (task_running_counts (manager js)))" using map_of_SomeD [OF Some] by force
    then have "k = 0" using assms(2) unfolding total_running_count_def sum_list_eq_0_iff by blast
    with Some show ?thesis by (simp add: count_of_def get_or_def)
  qed
  then show "count (slots_held (jobs js)) t = count {#} t"
    using assms(1) by (simp add: jobs_inv_def counting.counts_holders_def)
qed

lemma no_slots_no_entries: "slots_held js = {#} \<Longrightarrow> entries_held js = {#}"
proof (induction js)
  case Nil
  then show ?case by (simp add: entries_held_def)
next
  case (Cons j js)
  then show ?case by (cases j) (auto simp: slots_held_def entries_held_def)
qed

text \<open>C27. A service stops in order: it ends its wait early only when no execution runs, whose entries are then gone;
  it tells the scheduler to stop after the server and the dispatcher have ended; it aborts the network tasks
  when the scheduler has ended, and returns at that, without waiting for their end.\<close>

theorem shutdown_in_order:
  assumes "run_reach n s"
  shows "(\<forall>k ms s'. phase s = Draining k ms \<and> run_step s s' \<and> phase s' = AwaitingScheduler \<and> ms < 5000
            \<longrightarrow> slots_held (jobs (job_sys s')) = {#} \<and> active_executions (job_sys s') = [])
    \<and> (shutdown_sent s \<longrightarrow> tokens_cancelled s \<and> \<not> server_up s \<and> \<not> dispatcher_up s)
    \<and> (network_aborted s \<longleftrightarrow> phase s = RunReturned) \<and> (network_aborted s \<longrightarrow> shutdown_sent s \<and> \<not> scheduler_up s)"
proof -
  have ok: "phase_ok s" and js: "jobs_inv n (job_sys s)"
    using run_inv_reached [OF assms] by (simp_all add: run_inv_def)
  have "slots_held (jobs (job_sys s')) = {#} \<and> active_executions (job_sys s') = []"
    if "phase s = Draining k ms" "run_step s s'" "phase s' = AwaitingScheduler" "ms < 5000" for k ms s'
  proof -
    from that(2) have "still_running s = 0 \<and> job_sys s' = job_sys s"
      using that(1,3,4) by cases auto
    moreover from this have "slots_held (jobs (job_sys s)) = {#}" using no_count_no_slots [OF js] by simp
    ultimately show ?thesis using no_slots_no_entries js by (simp add: jobs_inv_def)
  qed
  with ok show ?thesis by (auto simp: phase_ok_def split: run_phase.splits)
qed

text \<open>Every phase of the shutdown can be left.\<close>

lemma run_star_reach: "run_step\<^sup>*\<^sup>* s s' \<Longrightarrow> run_reach n s \<Longrightarrow> run_reach n s'"
  by (induction rule: rtranclp_induct) (auto intro: run_next)

lemma finish_scheduler:
  assumes "phase s = AwaitingScheduler" and "shutdown_sent s"
  shows "\<exists>s'. run_step\<^sup>*\<^sup>* s s' \<and> phase s' = RunReturned \<and> job_sys s' = job_sys s"
proof -
  let ?s = "s\<lparr>scheduler_up := False\<rparr>"
  have "run_step\<^sup>*\<^sup>* s ?s"
  proof (cases "scheduler_up s")
    case True
    then show ?thesis using assms(2) by (blast intro: scheduler_ends)
  next
    case False
    then have "?s = s" by (cases s) simp
    then show ?thesis by simp
  qed
  moreover have "run_step ?s (?s\<lparr>phase := RunReturned, network_aborted := True\<rparr>)"
    by (rule scheduler_joined) (simp_all add: assms(1))
  ultimately have "run_step\<^sup>*\<^sup>* s (?s\<lparr>phase := RunReturned, network_aborted := True\<rparr>)" by (rule rtranclp.rtrancl_into_rtrancl)
  then show ?thesis
    by (rule exI [where x = "?s\<lparr>phase := RunReturned, network_aborted := True\<rparr>", OF conjI]) simp
qed

lemma finish_drain:
  assumes "phase s = Draining k ms"
  shows "\<exists>s'. run_step\<^sup>*\<^sup>* s s' \<and> phase s' = RunReturned"
proof -
  have step: "\<exists>s'. run_step\<^sup>*\<^sup>* s s' \<and> phase s' = AwaitingScheduler \<and> shutdown_sent s'"
  proof (cases "still_running s = 0")
    case True
    show ?thesis by (rule exI, rule conjI, rule r_into_rtranclp, rule drained [OF assms True]) simp
  next
    case busy: False
    show ?thesis
    proof (cases "5000 \<le> ms")
      case True
      show ?thesis
        by (rule exI, rule conjI, rule r_into_rtranclp, rule gave_up [OF assms _ True]) (use busy in simp_all)
    next
      case False
      let ?s = "s\<lparr>phase := Draining (Suc k) (ms + 5000)\<rparr>"
      have "run_step s ?s" by (rule poll [OF assms]) (use busy False in simp_all)
      moreover have "run_step ?s (?s\<lparr>phase := AwaitingScheduler, shutdown_sent := True\<rparr>)"
        by (rule gave_up [where k = "Suc k" and ms = "ms + 5000"]) (use busy in \<open>simp, simp, linarith\<close>)
      ultimately have "run_step\<^sup>*\<^sup>* s (?s\<lparr>phase := AwaitingScheduler, shutdown_sent := True\<rparr>)"
        by (rule converse_rtranclp_into_rtranclp [OF _ r_into_rtranclp])
      then show ?thesis by (rule exI [where x = "?s\<lparr>phase := AwaitingScheduler, shutdown_sent := True\<rparr>", OF conjI]) simp
    qed
  qed
  then show ?thesis using finish_scheduler by (blast intro: rtranclp_trans)
qed

text \<open>C28. The wait for running executions takes at most a hundred sleeps, and whatever the jobs do, a stopped
  service can go on until it has returned.\<close>

theorem stopped_service_returns:
  assumes "run_reach n s" and "stop_signal s \<or> \<not> server_up s"
  shows "(\<exists>s'. run_step\<^sup>*\<^sup>* s s' \<and> phase s' = RunReturned)
    \<and> (\<forall>k ms. phase s = Draining k ms \<longrightarrow> k \<le> 100)"
proof
  have ok: "phase_ok s" using run_inv_reached [OF assms(1)] by (simp add: run_inv_def)
  then show "\<forall>k ms. phase s = Draining k ms \<longrightarrow> k \<le> 100" by (auto simp: phase_ok_def)
  have join: "\<exists>s'. run_step\<^sup>*\<^sup>* s s' \<and> phase s' = RunReturned"
    if "phase s = AwaitingDispatcher" "tokens_cancelled s" for s
  proof -
    let ?s = "s\<lparr>dispatcher_up := False\<rparr>"
    have "run_step\<^sup>*\<^sup>* s ?s"
    proof (cases "dispatcher_up s")
      case True
      then show ?thesis using that(2) by (blast intro: dispatcher_ends)
    next
      case False
      then have "?s = s" by (cases s) simp
      then show ?thesis by simp
    qed
    moreover have "run_step ?s (?s\<lparr>phase := Draining 0 0\<rparr>)" by (rule dispatcher_joined) (simp_all add: that(1))
    ultimately have "run_step\<^sup>*\<^sup>* s (?s\<lparr>phase := Draining 0 0\<rparr>)" by (rule rtranclp.rtrancl_into_rtrancl)
    moreover have "phase (?s\<lparr>phase := Draining 0 0\<rparr>) = Draining 0 0" by simp
    ultimately show ?thesis using finish_drain by (blast intro: rtranclp_trans)
  qed
  show "\<exists>s'. run_step\<^sup>*\<^sup>* s s' \<and> phase s' = RunReturned"
  proof (cases "phase s")
    case Selecting
    let ?s = "s\<lparr>phase := AwaitingDispatcher, server_up := False, tokens_cancelled := True\<rparr>"
    have "run_step s ?s" by (rule selected [OF Selecting assms(2)])
    moreover have "\<exists>s'. run_step\<^sup>*\<^sup>* ?s s' \<and> phase s' = RunReturned" by (rule join) simp_all
    ultimately show ?thesis by (blast intro: converse_rtranclp_into_rtranclp)
  next
    case AwaitingDispatcher
    then show ?thesis using ok by (intro join) (simp_all add: phase_ok_def)
  next
    case (Draining k ms)
    then show ?thesis by (rule finish_drain)
  next
    case AwaitingScheduler
    then show ?thesis using finish_scheduler ok by (auto simp: phase_ok_def)
  next
    case RunReturned
    then show ?thesis by blast
  qed
qed

text \<open>Runs of an idle service, from the signal or from a failed accept to its return.\<close>

definition drained_service :: "bool \<Rightarrow> running" where
  "drained_service by_signal =
     (run_begin 16)\<lparr>stop_signal := by_signal, server_up := False, dispatcher_up := False, tokens_cancelled := True,
       phase := Draining 0 0\<rparr>"

lemma idle_service_drains: "run_reach 16 (drained_service by_signal)"
proof -
  have sel: "run_reach 16 ((run_begin 16)\<lparr>stop_signal := by_signal, phase := AwaitingDispatcher, server_up := False,
      tokens_cancelled := True\<rparr>)"
  proof (cases by_signal)
    case True
    have "run_reach 16 ((run_begin 16)\<lparr>stop_signal := True\<rparr>)" by (rule run_next [OF run_started signalled])
    from run_next [OF this selected] True show ?thesis by (simp add: run_begin_def)
  next
    case False
    have "run_step (run_begin 16) ((run_begin 16)\<lparr>server_up := False\<rparr>)"
      by (rule accept_failed) (simp_all add: run_begin_def)
    from run_next [OF run_next [OF run_started this] selected] False show ?thesis by (simp add: run_begin_def)
  qed
  from run_next [OF this dispatcher_ends]
  have "run_reach 16 ((run_begin 16)\<lparr>stop_signal := by_signal, phase := AwaitingDispatcher, server_up := False,
      tokens_cancelled := True, dispatcher_up := False\<rparr>)"
    by (simp add: run_begin_def)
  from run_next [OF this dispatcher_joined] show ?thesis by (simp add: run_begin_def drained_service_def)
qed

lemma drained_service_step:
  "run_step (drained_service by_signal) ((drained_service by_signal)\<lparr>phase := AwaitingScheduler, shutdown_sent := True\<rparr>)"
  by (rule drained [where k = 0 and ms = 0])
     (simp_all add: drained_service_def run_begin_def initial_jobs_def new_manager_def total_running_count_def)

lemma shutdown_in_order_witness:
  "\<exists>s'. run_step (drained_service True) s' \<and> phase s' = AwaitingScheduler
     \<and> slots_held (jobs (job_sys s')) = {#} \<and> active_executions (job_sys s') = []"
proof -
  let ?s' = "(drained_service True)\<lparr>phase := AwaitingScheduler, shutdown_sent := True\<rparr>"
  have "phase (drained_service True) = Draining 0 0" by (simp add: drained_service_def)
  then have "slots_held (jobs (job_sys ?s')) = {#} \<and> active_executions (job_sys ?s') = []"
    by (intro shutdown_in_order [OF idle_service_drains [of True], THEN conjunct1, rule_format, where k = 0 and ms = 0])
       (simp add: drained_service_step)
  with drained_service_step [of True] show ?thesis by (intro exI [of _ ?s']) simp
qed

lemma stopped_service_returns_witness:
  "\<exists>s'. run_step\<^sup>*\<^sup>* (drained_service True) s' \<and> phase s' = RunReturned"
  using stopped_service_returns [OF idle_service_drains] by (simp add: drained_service_def)

text \<open>\<open>run\<close> can return while both network tasks still go on.\<close>

lemma network_outlives_run: "\<exists>s. run_reach 16 s \<and> phase s = RunReturned \<and> monitor_up s \<and> forwarder_up s"
proof -
  let ?a = "(drained_service True)\<lparr>phase := AwaitingScheduler, shutdown_sent := True\<rparr>"
  let ?b = "?a\<lparr>scheduler_up := False\<rparr>"
  have "run_reach 16 ?a" by (rule run_next [OF idle_service_drains drained_service_step])
  moreover have "run_step ?a ?b" by (rule scheduler_ends) (simp_all add: drained_service_def run_begin_def)
  moreover have "run_step ?b (?b\<lparr>phase := RunReturned, network_aborted := True\<rparr>)" by (rule scheduler_joined) simp_all
  ultimately have "run_reach 16 (?b\<lparr>phase := RunReturned, network_aborted := True\<rparr>)" by (blast intro: run_next)
  then show ?thesis
    by (intro exI [of _ "?b\<lparr>phase := RunReturned, network_aborted := True\<rparr>"])
       (simp add: drained_service_def run_begin_def)
qed

text \<open>A failed accept ends the whole service, without any signal to stop.\<close>

lemma accept_error_stops_the_agent:
  "fst (accept_unix (rs @ [Inl e]) srv) \<and> (\<exists>s. run_reach 16 s \<and> \<not> stop_signal s \<and> phase s = RunReturned)"
proof
  show "fst (accept_unix (rs @ [Inl e]) srv)" 
  proof (induction rs arbitrary: srv)
    case (Cons r rs)
    then show ?case by (cases r) simp_all
  qed simp
  have keeps: "run_step\<^sup>*\<^sup>* s s'" "\<not> stop_signal s" if "s = drained_service False"
     "s' = s\<lparr>shutdown_sent := True, scheduler_up := False, phase := RunReturned, network_aborted := True\<rparr>" for s s'
  proof -
    let ?a = "s\<lparr>phase := AwaitingScheduler, shutdown_sent := True\<rparr>"
    have "run_step s ?a" unfolding that(1) by (rule drained_service_step)
    moreover have "run_step ?a (?a\<lparr>scheduler_up := False\<rparr>)"
      by (rule scheduler_ends) (simp_all add: that(1) drained_service_def run_begin_def)
    moreover have "run_step (?a\<lparr>scheduler_up := False\<rparr>) s'"
      using scheduler_joined [of "?a\<lparr>scheduler_up := False\<rparr>"] by (simp add: that(2))
    ultimately show "run_step\<^sup>*\<^sup>* s s'" by (meson converse_rtranclp_into_rtranclp r_into_rtranclp)
    show "\<not> stop_signal s" by (simp add: that(1) drained_service_def)
  qed
  let ?t = "(drained_service False)\<lparr>shutdown_sent := True, scheduler_up := False, phase := RunReturned,
    network_aborted := True\<rparr>"
  have "run_reach 16 ?t" by (rule run_star_reach [OF keeps(1) [OF refl refl] idle_service_drains])
  moreover have "\<not> stop_signal ?t" "phase ?t = RunReturned" using keeps(2) [OF refl refl] by simp_all
  ultimately show "\<exists>s. run_reach 16 s \<and> \<not> stop_signal s \<and> phase s = RunReturned" by blast
qed

text \<open>A request on a connection that is still open can start a run after the wait for runs is over.\<close>

lemma run_started_too_late:
  "\<exists>s. run_reach 16 s \<and> phase s = AwaitingScheduler \<and> active_executions (job_sys s) \<noteq> []"
proof -
  let ?t = "TaskId 1"
  let ?s0 = "(drained_service True)\<lparr>phase := AwaitingScheduler, shutdown_sent := True\<rparr>"
  let ?j0 = "initial_jobs 16"
  let ?m1 = "\<lparr>global_limiter = 15, task_running_counts = []\<rparr>"
  let ?m2 = "\<lparr>global_limiter = 15, task_running_counts = [(?t, 1)]\<rparr>"
  let ?j1 = "?j0\<lparr>manager := ?m1, jobs := [HasPermit ?t AllowParallel]\<rparr>"
  let ?j2 = "?j1\<lparr>manager := ?m2, jobs := [HasSlot ?t]\<rparr>"
  let ?j3 = "?j2\<lparr>active_executions := [(ExecutionId 1, ?t)], jobs := [Registered ?t (ExecutionId 1)]\<rparr>"
  have 0: "run_reach 16 ?s0" by (rule run_next [OF idle_service_drains drained_service_step])
  have "job_step ?j0 ?j1"
    using permit [of ?j0 ?m1 ?t AllowParallel]
    by (simp add: initial_jobs_def new_manager_def try_acquire_owned_def)
  then have 1: "run_reach 16 (?s0\<lparr>job_sys := ?j1\<rparr>)"
    by (intro run_next [OF 0] job_moves) (simp add: drained_service_def run_begin_def)
  have "job_step ?j1 ?j2"
    using slot [of 0 ?j1 ?t AllowParallel ?m2]
    by (simp add: try_acquire_slot_def count_of_def get_or_def set_count_def Let_def)
  with run_next [OF 1 job_moves] have 2: "run_reach 16 (?s0\<lparr>job_sys := ?j2\<rparr>)" by simp
  have "job_step ?j2 ?j3"
    using register [of 0 ?j2 ?t "ExecutionId 1"] by (simp add: initial_jobs_def)
  with run_next [OF 2 job_moves] have 3: "run_reach 16 (?s0\<lparr>job_sys := ?j3\<rparr>)" by simp
  then show ?thesis by (intro exI [of _ "?s0\<lparr>job_sys := ?j3\<rparr>"]) simp
qed

end
