(* ===== verification/Store_Types.thy ===== *)
theory Store_Types
  imports Store_Props
begin

text \<open>
  Type soundness of the store of \<^verbatim>\<open>crates/persistence\<close>: the text columns of every row a repository call can
  leave are texts that the row readers accept, so reading never fails with a conversion error.
\<close>

section \<open>Well-typed rows\<close>

definition accepts :: "('a \<Rightarrow> 'e + 'b) \<Rightarrow> 'a \<Rightarrow> bool" where
  "accepts f x \<longleftrightarrow> (case f x of Inr _ \<Rightarrow> True | Inl _ \<Rightarrow> False)"

lemma accepts_iff: "accepts f x \<longleftrightarrow> (\<exists>y. f x = Inr y)"
  by (simp add: accepts_def split: sum.splits)

lemma acceptsI: "f x = Inr y \<Longrightarrow> accepts f x"
  by (simp add: accepts_def)

definition task_row_typed :: "codec \<Rightarrow> task_row \<Rightarrow> bool" where
  "task_row_typed K r \<longleftrightarrow> accepts (dec_policy K) (row_policy_json r) \<and> accepts (dec_env K) (row_environment_json r)"

definition setting_typed :: "codec \<Rightarrow> string \<times> string \<times> string \<Rightarrow> bool" where
  "setting_typed K s = (case s of (k, v, u) \<Rightarrow> k \<noteq> system_settings_key \<or> accepts (dec_settings K) v)"

definition db_typed :: "codec \<Rightarrow> db \<Rightarrow> bool" where
  "db_typed K d \<longleftrightarrow>
     list_all (task_row_typed K) (tasks d)
     \<and> list_all (\<lambda>r. accepts (dec_trigger K) (trow_config_json r)) (trigger_rows d)
     \<and> list_all (\<lambda>r. accepts (dec_action K) (arow_config_json r)) (action_rows d)
     \<and> list_all (\<lambda>r. accepts status_from_json (run_status r)) (runs d)
     \<and> list_all (setting_typed K) (settings_rows d)"

lemma list_all_filterI: "list_all P xs \<Longrightarrow> list_all P (filter Q xs)"
  by (simp add: list_all_iff)

lemma list_all_mapI: "list_all P xs \<Longrightarrow> (\<And>x. P x \<Longrightarrow> P (f x)) \<Longrightarrow> list_all P (map f xs)"
  by (simp add: list_all_iff)

lemma status_typed [simp]: "accepts status_from_json (status_json st)"
  by (rule acceptsI) (rule status_from_json_of)

section \<open>Preservation\<close>

lemma cascade_typed: "db_typed K d \<Longrightarrow> db_typed K (cascade_runs dead d)"
  by (simp add: db_typed_def cascade_runs_def Let_def list_all_filterI)

lemma upsert_typed:
  assumes "list_all (task_row_typed K) rows" and "task_row_typed K r"
  shows "list_all (task_row_typed K) (upsert_task r rows)"
proof -
  have "task_row_typed K (r\<lparr>row_version := v, row_created_at := c\<rparr>)" for v c
    using assms(2) by (simp add: task_row_typed_def)
  then show ?thesis using assms by (auto simp: upsert_task_def intro: list_all_mapI)
qed

lemma save_task_typed:
  assumes K: "codec_ok K" and d: "db_typed K d" and s: "save_task K f t d = (r, d')"
  shows "db_typed K d'"
proof (cases r)
  case (Inl e)
  with s have "d' = d" by (auto simp: save_task_def split: sum.splits)
  with d show ?thesis by simp
next
  case (Inr u)
  with s have "save_task K f t d = (Inr (), d')" by simp
  from save_task_ok [OF this] obtain policy_json env_json tnew anew where
    p: "enc_policy K (execution_policy t) = Inr policy_json"
    and e: "enc_env K (environment t) = Inr env_json"
    and d': "d' = d\<lparr>tasks := upsert_task (task_to_row K t policy_json env_json) (tasks d),
        trigger_rows := filter (\<lambda>r. trow_task_id r \<noteq> task_id t) (trigger_rows d) @ tnew,
        action_rows := filter (\<lambda>r. arow_task_id r \<noteq> task_id t) (action_rows d) @ anew\<rparr>"
    and new: "list_all2 (trigger_saved K (task_id t)) (triggers t) tnew"
      "list_all2 (action_saved K (task_id t)) (actions t) anew"
    by blast
  note cd = codec_okD [OF K]
  have row: "task_row_typed K (task_to_row K t policy_json env_json)"
    using cd(1) [OF p] cd(2) [OF e] by (auto simp: task_row_typed_def task_to_row_def intro: acceptsI)
  have "list_all (\<lambda>r. accepts (dec_trigger K) (trow_config_json r)) tnew"
    using list_all2_in2 [OF new(1)] cd(3) by (fastforce simp: list_all_iff trigger_saved_def intro: acceptsI)
  moreover have "list_all (\<lambda>r. accepts (dec_action K) (arow_config_json r)) anew"
    using list_all2_in2 [OF new(2)] cd(4) by (fastforce simp: list_all_iff action_saved_def intro: acceptsI)
  ultimately show ?thesis
    using d upsert_typed [OF _ row] by (simp add: d' db_typed_def list_all_filterI)
qed

lemma run_op_typed:
  assumes "db_typed K d"
  shows "db_typed K (snd (create_run K f e d))" and "db_typed K (snd (update_run K f e d))"
    and "db_typed K (snd (recover_dangling_executions f d))"
  using assms
  by (auto simp: db_typed_def create_run_def update_run_def recover_dangling_executions_def
      intro!: list_all_mapI split: sum.splits)

lemma settings_typed:
  assumes K: "codec_ok K" and d: "db_typed K d"
  shows "db_typed K (snd (save_system_settings K f now s d))"
proof (cases "enc_settings K s")
  case (Inl e)
  with d show ?thesis by (simp add: save_system_settings_def)
next
  case (Inr j)
  have "setting_typed K (system_settings_key, j, u)" for u
    using codec_okD(5) [OF K Inr] by (auto simp: setting_typed_def intro: acceptsI)
  with d Inr show ?thesis
    by (auto simp: save_system_settings_def db_typed_def Let_def outcome_simps intro!: list_all_mapI
        split: sum.splits)
qed

lemma apply_op_typed:
  assumes "codec_ok K" and "db_typed K d"
  shows "db_typed K (apply_op K f now x d)"
proof (cases x)
  case (SaveTask t)
  then show ?thesis using save_task_typed [OF assms surjective_pairing] by simp
next
  case (DeleteTask t)
  then show ?thesis
    using assms(2)
    by (auto simp: delete_task_def db_typed_def cascade_runs_def Let_def list_all_filterI split: sum.splits)
next
  case (AppendOutput i s c)
  then show ?thesis
    using assms(2) by (auto simp: append_output_def db_typed_def Let_def split: sum.splits)
next
  case (PurgeRuns t u)
  then show ?thesis
    using assms(2) by (auto simp: purge_expired_runs_def intro!: cascade_typed split: sum.splits)
qed (use assms in \<open>simp_all add: run_op_typed settings_typed\<close>)

section \<open>Progress\<close>

lemma rmap_list_accepts: "list_all (accepts f) xs \<Longrightarrow> \<exists>ys. rmap_list f xs = Inr ys"
  by (induction xs) (auto simp: accepts_iff)

lemma typed_find_task:
  assumes "db_typed K d"
  shows "\<exists>found. find_task_by_id K no_faults now t d = Inr found"
proof (cases "find (\<lambda>r. row_task_id r = t) (tasks d)")
  case None
  then show ?thesis by (simp add: find_task_by_id_def call_db_def no_faults_def)
next
  case (Some r)
  from assms have rows: "list_all (task_row_typed K) (tasks d)"
    "list_all (\<lambda>r. accepts (dec_trigger K) (trow_config_json r)) (trigger_rows d)"
    "list_all (\<lambda>r. accepts (dec_action K) (arow_config_json r)) (action_rows d)"
    by (simp_all add: db_typed_def)
  have "task_row_typed K r" using find_Some_in [OF Some] rows(1) by (simp add: list_all_iff)
  then obtain p e where r: "dec_policy K (row_policy_json r) = Inr p" "dec_env K (row_environment_json r) = Inr e"
    by (auto simp: task_row_typed_def accepts_iff)
  have "list_all (accepts (\<lambda>r. dec_trigger K (trow_config_json r)))
      (filter (\<lambda>r. trow_task_id r = t) (trigger_rows d))"
    using rows(2) by (simp add: list_all_iff accepts_def)
  then obtain trs where trs: "rmap_list (\<lambda>r. dec_trigger K (trow_config_json r))
      (filter (\<lambda>r. trow_task_id r = t) (trigger_rows d)) = Inr trs"
    using rmap_list_accepts by blast
  have "list_all (accepts (\<lambda>r. dec_action K (arow_config_json r)))
      (sort_key arow_sequence (filter (\<lambda>r. arow_task_id r = t) (action_rows d)))"
    using rows(3) by (simp add: list_all_iff accepts_def)
  then obtain acts where acts: "rmap_list (\<lambda>r. dec_action K (arow_config_json r))
      (sort_key arow_sequence (filter (\<lambda>r. arow_task_id r = t) (action_rows d))) = Inr acts"
    using rmap_list_accepts by blast
  show ?thesis
    by (simp add: find_task_by_id_def call_db_def no_faults_def Some trs acts row_to_task_def r)
qed

lemma typed_find_each: "db_typed K d \<Longrightarrow> \<exists>ts. find_each K (\<lambda>_. no_faults) now d i ids = Inr ts"
proof (induction ids arbitrary: i)
  case (Cons t ids)
  obtain found where "find_task_by_id K no_faults now t d = Inr found" using typed_find_task [OF Cons.prems] by blast
  moreover obtain ts where "find_each K (\<lambda>_. no_faults) now d (Suc i) ids = Inr ts" using Cons by blast
  ultimately show ?case by simp
qed simp

lemma typed_run:
  assumes "db_typed K d" and "r \<in> set (runs d)"
  shows "\<exists>e. row_to_execution K now r = Inr e"
  using assms by (auto simp: db_typed_def list_all_iff accepts_iff row_to_execution_def)

lemma order_desc_set [simp]: "set (order_desc k xs) = set xs"
  by (simp add: order_desc_def)

text \<open>C14. From the empty database, after any sequence of repository calls with any faults, every row is
  well-typed, so that reading a task, all tasks, an execution, the recent executions or the settings fails
  only when a database call fails.\<close>

theorem stored_rows_are_well_typed:
  assumes K: "codec_ok K" and d: "d = fold (\<lambda>(f, now, x). apply_op K f now x) history empty_db"
  shows "db_typed K d
    \<and> (\<exists>found. find_task_by_id K no_faults now t d = Inr found)
    \<and> (\<exists>ts. find_all_tasks K (\<lambda>_. no_faults) now d = Inr ts)
    \<and> (\<exists>ts. find_all_enabled K (\<lambda>_. no_faults) now d = Inr ts)
    \<and> (\<exists>found. find_run_by_id K no_faults now e d = Inr found)
    \<and> (\<exists>es. find_recent_runs K no_faults now n d = Inr es)
    \<and> (\<exists>s. get_system_settings K no_faults d = Inr s)"
proof -
  have "db_typed K (fold (\<lambda>(f, now, x). apply_op K f now x) history d)" if "db_typed K d" for d
    using that by (induction history arbitrary: d) (auto simp: apply_op_typed [OF K])
  moreover have "db_typed K empty_db" by (simp add: db_typed_def empty_db_def)
  ultimately have typed: "db_typed K d" by (simp add: d)
  have "\<exists>found. find_run_by_id K no_faults now e d = Inr found"
  proof (cases "find (\<lambda>r. run_id r = e) (runs d)")
    case None
    then show ?thesis by (simp add: find_run_by_id_def call_db_def no_faults_def)
  next
    case (Some r)
    with typed_run [OF typed, of r now] find_Some_in [OF Some] show ?thesis
      by (auto simp: find_run_by_id_def call_db_def no_faults_def)
  qed
  moreover have "\<exists>es. find_recent_runs K no_faults now n d = Inr es"
  proof -
    have "list_all (accepts (row_to_execution K now)) (take (unat n) (order_desc run_started_at (runs d)))"
      using typed_run [OF typed] set_take_subset [of "unat n" "order_desc run_started_at (runs d)"]
      by (auto simp: list_all_iff accepts_iff)
    from rmap_list_accepts [OF this] show ?thesis by (simp add: find_recent_runs_def call_db_def no_faults_def)
  qed
  moreover have "\<exists>s. get_system_settings K no_faults d = Inr s"
  proof (cases "find (\<lambda>(k, v, u). k = system_settings_key) (settings_rows d)")
    case None
    then show ?thesis by (simp add: get_system_settings_def call_db_def no_faults_def)
  next
    case (Some r)
    with typed find_Some_in [OF Some] show ?thesis
      by (cases r) (auto simp: get_system_settings_def call_db_def no_faults_def db_typed_def list_all_iff
          setting_typed_def accepts_iff)
  qed
  ultimately show ?thesis
    using typed typed_find_task [OF typed] typed_find_each [OF typed]
    by (simp add: find_all_tasks_def find_all_enabled_def call_db_def no_faults_def)
qed

lemma stored_rows_are_well_typed_witness:
  "\<exists>d ts. d \<noteq> empty_db \<and> find_all_tasks text_codec (\<lambda>_. no_faults) 0 d = Inr ts"
proof -
  let ?h = "[(no_faults, 0, SaveSettings default_system_settings)]"
  let ?d = "fold (\<lambda>(f, now, x). apply_op text_codec f now x) ?h empty_db"
  have "settings_rows ?d \<noteq> []"
  proof -
    obtain j where "enc_settings text_codec default_system_settings = Inr j"
      using text_codec_ok unfolding codec_ok_def by blast
    then show ?thesis by (simp add: save_system_settings_def empty_db_def call_db_def no_faults_def Let_def)
  qed
  then have "?d \<noteq> empty_db" by (auto simp: empty_db_def)
  with stored_rows_are_well_typed [OF text_codec_ok refl, of ?h 0] show ?thesis by blast
qed

end
