(* ===== verification/Network_Forward.thy ===== *)
theory Network_Forward
  imports Network_Props Text_Codec "HOL-Library.Sublist"
begin

text \<open>
  From the watchers to the scheduler: \<open>spawn_network_monitor\<close> of \<^verbatim>\<open>apps/agent/src/network.rs\<close>, which passes the
  watcher's events on through a channel of 64 places and drops what does not fit, and the dispatcher task of
  \<^verbatim>\<open>apps/agent/src/service.rs\<close> at its end.  The locale \<open>event_source\<close> is what this needs of a watcher.
\<close>

section \<open>The pipe\<close>

definition FORWARD_CAPACITY :: nat where
  "FORWARD_CAPACITY = 64"

record 'w net_pipe =
  watcher :: 'w
  unsent :: "network_event list"
  waiting :: "network_event list"
  dispatched :: "network_event list"
  lost_events :: "network_event list"
  net_commands :: "sched_command list"

definition open_pipe :: "'w \<Rightarrow> 'w net_pipe" where
  "open_pipe w =
     \<lparr>watcher = w, unsent = [], waiting = [], dispatched = [], lost_events = [], net_commands = []\<rparr>"

text \<open>The watcher reports over the unbounded channel.\<close>

definition watch :: "('w \<Rightarrow> 'w) \<Rightarrow> ('w \<Rightarrow> network_event list) \<Rightarrow> 'w net_pipe \<Rightarrow> 'w net_pipe" where
  "watch step reported p =
     (let w = step (watcher p)
      in p\<lparr>watcher := w, unsent := unsent p @ drop (length (reported (watcher p))) (reported w)\<rparr>)"

text \<open>The loop of the monitor: \<open>try_send\<close> drops the event when the channel is full.\<close>

definition forward_event :: "'w net_pipe \<Rightarrow> 'w net_pipe" where
  "forward_event p =
     (case unsent p of
        [] \<Rightarrow> p
      | ev # evs \<Rightarrow>
          if length (waiting p) < FORWARD_CAPACITY
          then p\<lparr>unsent := evs, waiting := waiting p @ [ev]\<rparr>
          else p\<lparr>unsent := evs, lost_events := lost_events p @ [ev]\<rparr>)"

text \<open>The dispatcher task, with the store and the clock it meets.\<close>

definition dispatch_next ::
  "codec \<Rightarrow> (nat \<Rightarrow> faults) \<Rightarrow> instant \<Rightarrow> db \<Rightarrow> 'w net_pipe \<Rightarrow> 'w net_pipe" where
  "dispatch_next K f now d p =
     (case waiting p of
        [] \<Rightarrow> p
      | ev # evs \<Rightarrow>
          p\<lparr>waiting := evs, dispatched := dispatched p @ [ev],
            net_commands := net_commands p @ dispatch_network_event K f now ev d\<rparr>)"

inductive pipe_reach ::
  "('i \<Rightarrow> 'w \<Rightarrow> 'w) \<Rightarrow> ('w \<Rightarrow> network_event list) \<Rightarrow> 'w \<Rightarrow> 'w net_pipe \<Rightarrow> bool"
  for step reported start where
  pipe_opened: "pipe_reach step reported start (open_pipe start)"
| pipe_watches: "pipe_reach step reported start p \<Longrightarrow> pipe_reach step reported start (watch (step i) reported p)"
| pipe_forwards: "pipe_reach step reported start p \<Longrightarrow> pipe_reach step reported start (forward_event p)"
| pipe_dispatches: "pipe_reach step reported start p \<Longrightarrow>
     pipe_reach step reported start (dispatch_next K f now d p)"

section \<open>What the pipe needs of a watcher\<close>

locale event_source =
  fixes step :: "'i \<Rightarrow> 'w \<Rightarrow> 'w" and reported :: "'w \<Rightarrow> network_event list" and start :: 'w
  assumes no_event_yet: "reported start = []"
    and reports_append: "prefix (reported w) (reported (step i w))"
begin

definition pipe_inv :: "'w net_pipe \<Rightarrow> bool" where
  "pipe_inv p \<longleftrightarrow> subseq (dispatched p @ waiting p @ unsent p) (reported (watcher p))
     \<and> length (reported (watcher p))
         = length (dispatched p @ waiting p @ unsent p) + length (lost_events p)
     \<and> length (waiting p) \<le> FORWARD_CAPACITY
     \<and> (lost_events p \<noteq> [] \<longrightarrow> FORWARD_CAPACITY < length (reported (watcher p)))"

lemma watch_keeps:
  assumes "pipe_inv p"
  shows "pipe_inv (watch (step i) reported p)"
proof -
  obtain zs where zs: "reported (step i (watcher p)) = reported (watcher p) @ zs"
    using reports_append [of "watcher p" i] by (auto simp: prefix_def)
  have "subseq ((dispatched p @ waiting p @ unsent p) @ zs) (reported (watcher p) @ zs)"
    by (rule list_emb_append_mono) (use assms in \<open>simp_all add: pipe_inv_def\<close>)
  with assms show ?thesis by (auto simp: pipe_inv_def watch_def Let_def zs)
qed

lemma drop_one: "subseq (xs @ ys @ z # zs) us \<Longrightarrow> subseq (xs @ ys @ zs) us"
  by (rule subseq_order.trans [of _ "xs @ ys @ z # zs"]) (auto intro: list_emb_append_mono)

lemma forward_keeps: "pipe_inv p \<Longrightarrow> pipe_inv (forward_event p)"
  by (auto simp: pipe_inv_def forward_event_def dest: drop_one split: list.splits)

lemma dispatch_keeps: "pipe_inv p \<Longrightarrow> pipe_inv (dispatch_next K f now d p)"
  by (auto simp: pipe_inv_def dispatch_next_def split: list.splits)

lemma reached_pipe: "pipe_reach step reported start p \<Longrightarrow> pipe_inv p"
proof (induction rule: pipe_reach.induct)
  case pipe_opened
  show ?case by (simp add: pipe_inv_def open_pipe_def no_event_yet)
qed (simp_all add: watch_keeps forward_keeps dispatch_keeps)

lemma in_order:
  assumes "pipe_reach step reported start p"
  shows "subseq (dispatched p) (reported (watcher p))"
    and "lost_events p = [] \<Longrightarrow> dispatched p @ waiting p @ unsent p = reported (watcher p)"
    and "length (reported (watcher p)) \<le> FORWARD_CAPACITY \<Longrightarrow> lost_events p = []"
proof -
  note inv = reached_pipe [OF assms, unfolded pipe_inv_def]
  show "lost_events p = []" if "length (reported (watcher p)) \<le> FORWARD_CAPACITY"
    using inv that by linarith
  have "subseq (dispatched p) (dispatched p @ waiting p @ unsent p)" by (simp add: subseq_rev_drop_many)
  then show "subseq (dispatched p) (reported (watcher p))" using inv subseq_order.trans by blast
  show "dispatched p @ waiting p @ unsent p = reported (watcher p)" if "lost_events p = []"
    by (rule subseq_same_length) (use inv that in simp_all)
qed

end

section \<open>Both watchers\<close>

lemma mac_events_grow: "prefix (mac_events w) (mac_events (mac_step h i w))"
  by (cases i)
     (auto simp: mac_callback_def probe_done_def spawn_online_probe_def Let_def split: prod.splits option.splits bool.splits)

lemma emit_grows: "prefix (win_events w) (win_events (emit_arbitrated ev now w))"
  by (auto simp: emit_arbitrated_def split: prod.splits bool.splits)

lemma arbitrate_grows: "prefix (win_events w) (win_events (arbitrate sq reachable now1 now2 ssid w))"
proof -
  have "prefix (win_events w) (win_events (emit_arbitrated ev now (w\<lparr>arbitrations := a, online_state := o'\<rparr>)))" for ev now a o'
    using emit_grows [of "w\<lparr>arbitrations := a, online_state := o'\<rparr>"] by simp
  then show ?thesis
    using emit_grows prefix_order.trans by (fastforce simp: arbitrate_def Let_def)
qed

lemma win_events_grow: "prefix (win_events w) (win_events (win_step h i w))"
  by (cases i)
     (auto simp: arbitrate_grows ip_callback_def wlan_callback_def spawn_arbitrated_event_def baseline_def Let_def
       split: prod.splits option.splits)

interpretation mac_pipe: event_source "mac_step h" mac_events mac_start for h
  by unfold_locales (simp_all add: mac_start_def mac_events_grow)

interpretation win_pipe: event_source "win_step h" win_events win_start for h
  by unfold_locales (simp_all add: win_start_def win_events_grow)

text \<open>C33. The dispatcher sees the events of a watcher in their order and each at most once; all of them when none
  was dropped, and none is dropped among the first 64.\<close>

theorem network_events_keep_their_order:
  assumes "pipe_reach (mac_step h) mac_events mac_start p" and "pipe_reach (win_step h) win_events win_start q"
  shows "(subseq (dispatched p) (mac_events (watcher p)) \<and> subseq (dispatched q) (win_events (watcher q)))
    \<and> (lost_events p = [] \<longrightarrow> dispatched p @ waiting p @ unsent p = mac_events (watcher p))
    \<and> (lost_events q = [] \<longrightarrow> dispatched q @ waiting q @ unsent q = win_events (watcher q))
    \<and> (length (mac_events (watcher p)) \<le> 64 \<longrightarrow> lost_events p = [])
    \<and> (length (win_events (watcher q)) \<le> 64 \<longrightarrow> lost_events q = [])"
  using mac_pipe.in_order [OF assms(1), unfolded FORWARD_CAPACITY_def]
    win_pipe.in_order [OF assms(2), unfolded FORWARD_CAPACITY_def] by blast

text \<open>A Mac goes off line and its disconnection is dispatched.\<close>

definition off_line :: "mac_watcher net_pipe" where
  "off_line =
     dispatch_next text_codec (\<lambda>_. no_faults) 0 empty_db
       (forward_event
         (watch (mac_step False (PathUpdate 2 1000 1000 None)) mac_events
           (watch (mac_step False (PathUpdate 1 0 0 None)) mac_events (open_pipe mac_start))))"

lemma off_line_reached: "pipe_reach (mac_step False) mac_events mac_start off_line"
  unfolding off_line_def by (intro pipe_dispatches pipe_forwards pipe_watches pipe_opened)

lemma network_events_keep_their_order_witness:
  "\<exists>p. pipe_reach (mac_step False) mac_events mac_start p \<and> dispatched p = [Disconnect None]
     \<and> mac_events (watcher p) = dispatched p @ waiting p @ unsent p"
proof -
  have ev: "mac_events (watcher off_line) = [Disconnect None]" and d: "dispatched off_line = [Disconnect None]"
    by (simp_all add: off_line_def dispatch_next_def forward_event_def watch_def open_pipe_def Let_def mac_start_def
        mac_callback_def status_to_connect_change_def edge_changed_def NW_PATH_STATUS_SATISFIED_def
        NW_PATH_STATUS_UNSATISFIED_def debounce_allow_def FORWARD_CAPACITY_def)
  have "lost_events off_line = []"
    using network_events_keep_their_order [OF off_line_reached pipe_opened] ev by simp
  then have "dispatched off_line @ waiting off_line @ unsent off_line = mac_events (watcher off_line)"
    using network_events_keep_their_order [OF off_line_reached pipe_opened] by blast
  with off_line_reached d show ?thesis by metis
qed

end
