(* ===== verification/Desktop_Shell.thy ===== *)
theory Desktop_Shell
  imports Desktop_Props Instance_Lock Ipc_Server
begin

text \<open>
  The life of the desktop application (\<^verbatim>\<open>apps/desktop/src-tauri/src\<close>): its window, Dock icon and tray
  (\<^verbatim>\<open>lib.rs\<close>, \<^verbatim>\<open>tray.rs\<close>, \<^verbatim>\<open>macos_notification.rs\<close>), the relay of the agent's events (\<^verbatim>\<open>events.rs\<close>), the search for
  the agent's binary (\<^verbatim>\<open>agent_manager.rs\<close>) and the commands on files and links (\<^verbatim>\<open>commands.rs\<close>).
\<close>

section \<open>Window, Dock and tray\<close>

text \<open>
  The state that the handlers change; \<open>has_window\<close> is whether the main window exists, \<open>window_visible\<close> whether the
  program has it shown, \<open>set_aside\<close> whether the user minimised it or hid the application with the means of the
  system, \<open>close_prevented\<close> the answer of the handler to the last request to close it.  The clock counts
  milliseconds, and \<open>reopen_jumps\<close> counts the jumps to the executions that \<open>Reopen\<close> made.
\<close>

record shell =
  has_window :: bool
  window_visible :: bool
  set_aside :: bool
  close_prevented :: bool
  dock_visible :: bool
  last_notification_time :: "nat option"
  shown_notifications :: "(notification_title \<times> string) list"
  navigations :: "string list"
  reopen_jumps :: nat
  emitted :: "ipc_event list"
  manager_of :: agent_manager
  told_to_stop :: "nat list"
  exited :: bool

definition set_dock_visible :: "target_os \<Rightarrow> bool \<Rightarrow> shell \<Rightarrow> shell" where
  "set_dock_visible target visible s = (if target = TargetMacos then s\<lparr>dock_visible := visible\<rparr> else s)"

definition set_window_visible :: "bool \<Rightarrow> shell \<Rightarrow> shell" where
  "set_window_visible visible s = (if has_window s then s\<lparr>window_visible := visible\<rparr> else s)"

definition show_main :: "target_os \<Rightarrow> shell \<Rightarrow> shell" where
  "show_main target s = set_window_visible True (set_dock_visible target True s)"

definition close_requested :: "target_os \<Rightarrow> shell \<Rightarrow> shell" where
  "close_requested target s =
     (let s = s\<lparr>close_prevented := True\<rparr>; s = set_window_visible False s
      in set_dock_visible target False s)"

text \<open>\<open>setup\<close>: a launch with \<open>--minimized\<close> stays hidden.\<close>

definition setup_shell :: "target_os \<Rightarrow> string list \<Rightarrow> shell \<Rightarrow> shell" where
  "setup_shell target argv s =
     (if is_minimized_launch argv then set_window_visible False (set_dock_visible target False s) else s)"

definition shell_start :: "target_os \<Rightarrow> service_status \<Rightarrow> string list \<Rightarrow> shell" where
  "shell_start target st argv = setup_shell target argv
     \<lparr>has_window = True, window_visible = True, set_aside = False, close_prevented = False, dock_visible = True, last_notification_time = None,
      shown_notifications = [], navigations = [], reopen_jumps = 0, emitted = [], manager_of = desktop_start st,
      told_to_stop = [], exited = False\<rparr>"

datatype menu_item = ShowItem | QuitItem | OtherItem

definition exit_app :: "nat option \<Rightarrow> shell \<Rightarrow> shell" where
  "exit_app fresh_connection s =
     (case exit_requested fresh_connection (manager_of s) of
        (m, cs) \<Rightarrow> s\<lparr>manager_of := m, told_to_stop := told_to_stop s @ cs, exited := True\<rparr>)"

text \<open>
  What Tauri does with a request to close the window: it asks the handler; a window whose closing was not
  prevented is destroyed, and as it is the last one, the application exits.
\<close>

definition window_closes :: "target_os \<Rightarrow> nat option \<Rightarrow> shell \<Rightarrow> shell" where
  "window_closes target fresh_connection s =
     (let s = close_requested target (s\<lparr>close_prevented := False\<rparr>)
      in if close_prevented s then s
         else exit_app fresh_connection (s\<lparr>has_window := False, window_visible := False\<rparr>))"

fun menu_event :: "target_os \<Rightarrow> nat option \<Rightarrow> menu_item \<Rightarrow> shell \<Rightarrow> shell" where
  "menu_event target conn ShowItem s = show_main target s"
| "menu_event target conn QuitItem s = exit_app conn s"
| "menu_event target conn OtherItem s = s"

definition tray_click :: "target_os \<Rightarrow> bool \<Rightarrow> shell \<Rightarrow> shell" where
  "tray_click target left_button_up s = (if left_button_up then show_main target s else s)"

text \<open>A jump to the executions after a notification of the last 30 seconds, which is used up by it.\<close>

definition should_navigate :: "nat \<Rightarrow> nat option \<Rightarrow> bool" where
  "should_navigate now last_time = (case last_time of Some t \<Rightarrow> now - t < 30000 | None \<Rightarrow> False)"

definition reopened :: "nat \<Rightarrow> shell \<Rightarrow> shell" where
  "reopened now s =
     (let s = set_dock_visible TargetMacos True s
      in if \<not> has_window s then s
         else
           let s = set_window_visible True s
           in if should_navigate now (last_notification_time s)
              then s\<lparr>last_notification_time := None, navigations := navigations s @ [''executions''],
                     reopen_jumps := reopen_jumps s + 1\<rparr>
              else s)"

text \<open>\<open>swizzled_did_activate\<close>: a click on a banner of macOS.\<close>

definition banner_clicked :: "shell \<Rightarrow> shell" where
  "banner_clicked s =
     (let s = set_dock_visible TargetMacos True s
      in if has_window s
         then (set_window_visible True s)\<lparr>navigations := navigations s @ [''executions'']\<rparr>
         else s)"

section \<open>The event relay\<close>

text \<open>An event of the agent goes to the front end, and may be shown as a notification.\<close>

definition relay_to_shell :: "(u64 \<Rightarrow> string) \<Rightarrow> nat \<Rightarrow> ipc_event \<Rightarrow> shell \<Rightarrow> shell" where
  "relay_to_shell secs_text now ev s =
     (let s = s\<lparr>emitted := emitted s @ [ev]\<rparr>
      in case relay_notification secs_text ev of
           None \<Rightarrow> s
         | Some n \<Rightarrow> s\<lparr>last_notification_time := Some now, shown_notifications := shown_notifications s @ [n]\<rparr>)"

text \<open>\<open>spawn_event_relay\<close>: the client it listens to, and the sleeps between its attempts in milliseconds.\<close>

record relay =
  listening_to :: "nat option"
  sleeps :: "nat list"

datatype relay_input =
    RelayConnects connect_world
  | ClientCancelled
  | RelayReceives recv_result nat

definition relay_ended :: "relay \<times> shell \<Rightarrow> relay \<times> shell" where
  "relay_ended rs =
     (case rs of (r, s) \<Rightarrow>
        (r\<lparr>listening_to := None, sleeps := sleeps r @ [1000]\<rparr>, s\<lparr>manager_of := disconnect_agent (manager_of s)\<rparr>))"

fun relay_loop :: "(u64 \<Rightarrow> string) \<Rightarrow> relay_input \<Rightarrow> relay \<times> shell \<Rightarrow> relay \<times> shell" where
  "relay_loop secs_text (RelayConnects W) (r, s) =
     (if listening_to r \<noteq> None then (r, s)
      else (case ensure_connected W (manager_of s) of
              (Inr c, m, _) \<Rightarrow> (r\<lparr>listening_to := Some c\<rparr>, s\<lparr>manager_of := m\<rparr>)
            | (Inl _, m, _) \<Rightarrow> (r\<lparr>sleeps := sleeps r @ [2000]\<rparr>, s\<lparr>manager_of := m\<rparr>)))"
| "relay_loop secs_text ClientCancelled (r, s) =
     (if listening_to r = None then (r, s) else relay_ended (r, s))"
| "relay_loop secs_text (RelayReceives res now) (r, s) =
     (if listening_to r = None then (r, s)
      else (case res of
              RecvOk ev \<Rightarrow> (r, relay_to_shell secs_text now ev s)
            | RecvLagged _ \<Rightarrow> (r, s)
            | RecvClosed \<Rightarrow> relay_ended (r, s)))"

section \<open>A session of the application\<close>

text \<open>
  What happens to the application.  Besides its own handlers, the default menu, the Dock and the keys of the
  system can set the window aside or bring it back, and quit the application, with or without an
  \<open>ExitRequested\<close> for its handler.
\<close>

datatype shell_input =
    CloseRequested "nat option"
  | SetAside bool
  | SystemQuits bool "nat option"
  | Menu menu_item "nat option"
  | TrayClick bool
  | Reopen nat
  | BannerClick
  | Relayed relay_input

text \<open>\<open>Reopen\<close> and the banners exist on macOS only; nothing happens to an application that has ended.\<close>

fun shell_event :: "target_os \<Rightarrow> (u64 \<Rightarrow> string) \<Rightarrow> shell_input \<Rightarrow> relay \<times> shell \<Rightarrow> relay \<times> shell" where
  "shell_event target secs_text (CloseRequested conn) (r, s) = (r, if has_window s then window_closes target conn s else s)"
| "shell_event target secs_text (SetAside aside) (r, s) = (r, s\<lparr>set_aside := aside\<rparr>)"
| "shell_event target secs_text (SystemQuits announced conn) (r, s) =
     (r, if announced then exit_app conn s else s\<lparr>exited := True\<rparr>)"
| "shell_event target secs_text (Menu item conn) (r, s) = (r, menu_event target conn item s)"
| "shell_event target secs_text (TrayClick up) (r, s) = (r, tray_click target up s)"
| "shell_event target secs_text (Reopen now) (r, s) = (r, if target = TargetMacos then reopened now s else s)"
| "shell_event target secs_text BannerClick (r, s) = (r, if target = TargetMacos then banner_clicked s else s)"
| "shell_event target secs_text (Relayed inp) (r, s) = relay_loop secs_text inp (r, s)"

definition shell_step :: "target_os \<Rightarrow> (u64 \<Rightarrow> string) \<Rightarrow> shell_input \<Rightarrow> relay \<times> shell \<Rightarrow> relay \<times> shell" where
  "shell_step target secs_text i rs = (if exited (snd rs) then rs else shell_event target secs_text i rs)"

definition shell_session ::
  "target_os \<Rightarrow> (u64 \<Rightarrow> string) \<Rightarrow> service_status \<Rightarrow> string list \<Rightarrow> shell_input list \<Rightarrow> relay \<times> shell" where
  "shell_session target secs_text st argv ins =
     fold (shell_step target secs_text) ins (\<lparr>listening_to = None, sleeps = []\<rparr>, shell_start target st argv)"

section \<open>The agent's binary\<close>

definition bin_name :: "target_os \<Rightarrow> string" where
  "bin_name target = (if target = TargetWindows then ''easyjob-agent.exe'' else ''easyjob-agent'')"

text \<open>\<open>PathBuf::pop\<close>, and \<open>ends_with("deps")\<close>, which compares whole components.\<close>

definition path_pop :: "target_os \<Rightarrow> string \<Rightarrow> string" where
  "path_pop target p = (case path_parent target p of Some d \<Rightarrow> d | None \<Rightarrow> p)"

definition last_component :: "target_os \<Rightarrow> string \<Rightarrow> string" where
  "last_component target p = rev (takeWhile (\<lambda>c. \<not> is_sep target c) (rev (drop_seps target p)))"

definition beside_exe :: "target_os \<Rightarrow> (string \<Rightarrow> bool) \<Rightarrow> string \<Rightarrow> string option" where
  "beside_exe target file_exists current_exe =
     (let bin = bin_name target;
          dir = path_pop target current_exe;
          target_bin = path_join_name target dir bin
      in if file_exists target_bin then Some target_bin
         else
           let in_deps = (last_component target dir = ''deps'');
               dir = (if in_deps then path_pop target dir else dir);
               target_bin = path_join_name target dir bin
           in if in_deps \<and> file_exists target_bin then Some target_bin
              else
                find file_exists
                  [path_join_name target (path_join_name target dir ''../Resources'') bin,
                   path_join_name target (path_join_name target dir ''binaries'') bin])"

definition find_agent_binary ::
  "target_os \<Rightarrow> (string \<Rightarrow> bool) \<Rightarrow> string option \<Rightarrow> string option \<Rightarrow> string" where
  "find_agent_binary target file_exists current_exe current_dir =
     (let bin = bin_name target
      in case Option.bind current_exe (beside_exe target file_exists) of
           Some p \<Rightarrow> p
         | None \<Rightarrow>
             (case Option.bind current_dir (\<lambda>cwd.
                     find file_exists
                       (map (\<lambda>sub. path_join_name target (path_join_name target cwd sub) bin)
                         [''target/release'', ''target/debug''])) of
                Some p \<Rightarrow> p
              | None \<Rightarrow> bin))"

text \<open>\<open>spawn_agent_process\<close>: the program, its arguments, and whether it gets no console window.\<close>

definition spawn_agent_command ::
  "target_os \<Rightarrow> (string \<Rightarrow> bool) \<Rightarrow> string option \<Rightarrow> string option \<Rightarrow> process_env \<Rightarrow> string \<times> string list \<times> bool" where
  "spawn_agent_command target file_exists current_exe current_dir V =
     (find_agent_binary target file_exists current_exe current_dir,
      [''--daemon'', ''--data-dir'', system_data_dir target V (Option.bind current_exe (path_parent target))],
      target = TargetWindows)"

section \<open>Commands on files and links\<close>

datatype file_error =
    NoDownloadDir string
  | ExportFailed export_error
  | FileMissing
  | ManagerNotOpened string
  | ManagerFailed string
  | LinkRefused
  | LinkFailed string

definition export_tasks_json ::
  "string + string \<Rightarrow> string \<Rightarrow> string + unit \<Rightarrow> (string \<Rightarrow> string + unit) \<Rightarrow> file_error + string" where
  "export_tasks_json download_dir filename mkdir write =
     (case download_dir of
        Inl e \<Rightarrow> Inl (NoDownloadDir e)
      | Inr dir \<Rightarrow>
          (case write_export_file dir filename mkdir write of
             Inl e \<Rightarrow> Inl (ExportFailed e)
           | Inr path \<Rightarrow> Inr (from_utf8_lossy path)))"

definition reveal_command_for_platform :: "target_os \<Rightarrow> string \<Rightarrow> string \<times> string list" where
  "reveal_command_for_platform target path =
     (case target of
        TargetMacos \<Rightarrow> (''open'', [''-R'', from_utf8_lossy path])
      | TargetWindows \<Rightarrow> (''explorer'', [''/select,'' @ from_utf8_lossy path])
      | TargetOther \<Rightarrow>
          (''xdg-open'', [from_utf8_lossy (case path_parent target path of Some d \<Rightarrow> d | None \<Rightarrow> path)]))"

definition reveal_in_file_manager ::
  "target_os \<Rightarrow> (string \<Rightarrow> bool) \<Rightarrow> (string \<times> string list \<Rightarrow> string + bool) \<Rightarrow> string \<Rightarrow> file_error + unit" where
  "reveal_in_file_manager target is_file run path =
     (if \<not> is_file path then Inl FileMissing
      else
        let cmd = reveal_command_for_platform target path
        in case run cmd of
             Inl e \<Rightarrow> Inl (ManagerNotOpened e)
           | Inr ok \<Rightarrow> if ok \<or> target = TargetWindows then Inr () else Inl (ManagerFailed (fst cmd)))"

definition open_external_url :: "(string \<Rightarrow> string + unit) \<Rightarrow> string \<Rightarrow> file_error + unit" where
  "open_external_url open_link url =
     (if \<not> url_allowed url then Inl LinkRefused
      else (case open_link url of Inl e \<Rightarrow> Inl (LinkFailed e) | Inr _ \<Rightarrow> Inr ()))"

section \<open>Properties\<close>

text \<open>What every handler keeps: the window exists, on macOS the Dock icon is there exactly when the window is shown,
  and every jump of \<open>Reopen\<close> used up a notification of its own.\<close>

definition shell_inv :: "shell \<Rightarrow> bool" where
  "shell_inv s \<longleftrightarrow> has_window s \<and> dock_visible s = window_visible s
     \<and> reopen_jumps s + (if last_notification_time s = None then 0 else 1) \<le> length (shown_notifications s)"

named_theorems shell_defs "the handlers of the shell"

lemmas [shell_defs] = set_dock_visible_def set_window_visible_def show_main_def close_requested_def window_closes_def tray_click_def
  reopened_def should_navigate_def banner_clicked_def exit_app_def relay_to_shell_def relay_ended_def

lemma relay_inv:
  assumes "shell_inv s"
  shows "shell_inv (snd (relay_loop secs_text i (r, s)))"
proof (cases i)
  case (RelayConnects W)
  with assms show ?thesis by (auto simp: shell_inv_def split: prod.splits sum.splits)
next
  case ClientCancelled
  with assms show ?thesis by (simp add: shell_inv_def relay_ended_def)
next
  case (RelayReceives res now)
  with assms show ?thesis
    by (cases res) (auto simp: shell_inv_def relay_to_shell_def relay_ended_def Let_def split: option.splits)
qed

lemma shell_event_inv:
  assumes "shell_inv s"
  shows "shell_inv (snd (shell_event TargetMacos secs_text i (r, s)))"
proof (cases i)
  case (Menu item conn)
  with assms show ?thesis by (cases item) (auto simp: shell_inv_def shell_defs split: prod.splits)
next
  case (Reopen now)
  with assms show ?thesis by (auto simp: shell_inv_def shell_defs Let_def split: option.splits if_splits)
next
  case (Relayed inp)
  with assms relay_inv show ?thesis by simp
qed (use assms in \<open>auto simp: shell_inv_def shell_defs Let_def split: prod.splits\<close>)

lemma shell_step_inv: "shell_inv (snd rs) \<Longrightarrow> shell_inv (snd (shell_step TargetMacos secs_text i rs))"
  using shell_event_inv by (cases rs) (simp add: shell_step_def)

lemma session_inv: "shell_inv (snd (shell_session TargetMacos secs_text st argv ins))"
proof -
  have "shell_inv (snd (fold (shell_step TargetMacos secs_text) ins rs))" if "shell_inv (snd rs)" for rs
    using that by (induction ins arbitrary: rs) (simp_all add: shell_step_inv)
  moreover have "shell_inv (shell_start TargetMacos st argv)"
    by (auto simp: shell_inv_def shell_start_def setup_shell_def shell_defs)
  ultimately show ?thesis by (simp add: shell_session_def)
qed

lemma relay_keeps_running: "exited (snd (relay_loop secs_text i rs)) = exited (snd rs)"
  by (cases rs; cases i)
     (auto simp: relay_to_shell_def relay_ended_def Let_def split: option.splits prod.splits sum.splits recv_result.splits)

text \<open>What ends the application: the item of the tray, or the system.\<close>

fun quits :: "shell_input \<Rightarrow> bool" where
  "quits (Menu QuitItem conn) = True"
| "quits (SystemQuits announced conn) = True"
| "quits _ = False"

lemma only_quit_exits: "exited (snd (shell_step target secs_text i rs)) \<Longrightarrow> \<not> exited (snd rs) \<Longrightarrow> quits i"
proof (cases i)
  case (Menu item conn)
  then show "exited (snd (shell_step target secs_text i rs)) \<Longrightarrow> \<not> exited (snd rs) \<Longrightarrow> quits i"
    by (cases item; cases rs) (auto simp: shell_step_def shell_defs split: if_splits)
next
  case (Relayed inp)
  then show "exited (snd (shell_step target secs_text i rs)) \<Longrightarrow> \<not> exited (snd rs) \<Longrightarrow> quits i"
    using relay_keeps_running [of secs_text inp rs] by (cases rs) (simp add: shell_step_def)
qed (cases rs, auto simp: shell_step_def shell_defs Let_def split: if_splits option.splits)+

lemma session_exits:
  assumes "exited (snd (shell_session target secs_text st argv ins))"
  shows "list_ex quits ins"
proof -
  have "list_ex quits ins"
    if "exited (snd (fold (shell_step target secs_text) ins rs))" "\<not> exited (snd rs)" for rs
    using that
  proof (induction ins arbitrary: rs)
    case (Cons i ins)
    show ?case
    proof (cases "exited (snd (shell_step target secs_text i rs))")
      case True
      from only_quit_exits [OF this Cons.prems(2)] show ?thesis by simp
    next
      case False
      with Cons show ?thesis by simp
    qed
  qed simp
  moreover have "\<not> exited (shell_start target st argv)" by (simp add: shell_start_def setup_shell_def shell_defs)
  ultimately show ?thesis using assms by (simp add: shell_session_def)
qed

text \<open>C38. On macOS, in every session, also one in which the user minimises, hides or quits with the means of the
  system: the Dock icon is there exactly when the program has the window shown; the application has ended only
  if the tray's item or the system quit it, and while it runs, closing the window hides window and Dock icon,
  destroys nothing and ends nothing; and \<open>Reopen\<close> has jumped to the executions at most once per notification
  shown.\<close>

theorem window_and_dock_agree:
  assumes "shell_session TargetMacos secs_text st argv ins = (r, s)"
  shows "dock_visible s = window_visible s
    \<and> reopen_jumps s \<le> length (shown_notifications s)
    \<and> (exited s \<longrightarrow> list_ex quits ins)
    \<and> (\<forall>conn. \<not> exited s \<longrightarrow> (\<exists>s'. shell_step TargetMacos secs_text (CloseRequested conn) (r, s) = (r, s')
         \<and> has_window s' \<and> \<not> window_visible s' \<and> \<not> dock_visible s' \<and> \<not> exited s'))"
proof -
  have inv: "shell_inv s" using session_inv [of secs_text st argv ins] assms by simp
  then have "\<exists>s'. shell_step TargetMacos secs_text (CloseRequested conn) (r, s) = (r, s')
         \<and> has_window s' \<and> \<not> window_visible s' \<and> \<not> dock_visible s' \<and> \<not> exited s'" if "\<not> exited s" for conn
    using that by (simp add: shell_step_def shell_inv_def shell_defs Let_def)
  moreover have "exited s \<longrightarrow> list_ex quits ins" using session_exits [of TargetMacos secs_text st argv ins] assms by simp
  ultimately show ?thesis using inv by (auto simp: shell_inv_def split: if_splits)
qed

definition finished_event_of :: "string \<Rightarrow> ipc_event" where
  "finished_event_of st =
     \<lparr>event_name = ''execution.finished'',
      event_data = JObj [(''notification_policy'', JStr ''All''), (''status'', JStr st)]\<rparr>"

definition notified_session :: "shell_input list" where
  "notified_session =
     [CloseRequested None, Relayed (RelayConnects (reachable_agent 2)),
      Relayed (RelayReceives (RecvOk (finished_event_of ''Failed'')) 1000)]"

lemma finished_is_shown: "\<exists>n. relay_notification (\<lambda>_. []) (finished_event_of ''Failed'') = Some n"
proof -
  have "\<not> Option.is_none (relay_notification (\<lambda>_. []) (finished_event_of ''Failed''))" by code_simp
  then show ?thesis by (cases "relay_notification (\<lambda>_. []) (finished_event_of ''Failed'')") simp_all
qed

lemma notified_state:
  "\<exists>r s. shell_session TargetMacos (\<lambda>_. []) no_service [] notified_session = (r, s)
     \<and> has_window s \<and> \<not> exited s \<and> navigations s = [] \<and> reopen_jumps s = 0
     \<and> length (shown_notifications s) = 1 \<and> last_notification_time s = Some 1000"
proof -
  obtain n where n: "relay_notification (\<lambda>_. []) (finished_event_of ''Failed'') = Some n"
    using finished_is_shown by blast
  have conn: "ensure_connected (reachable_agent 2) (desktop_start no_service)
      = (Inr 2, (desktop_start no_service)\<lparr>mgr_client := Some 2\<rparr>, [])"
    by (simp add: ensure_connected_def reachable_agent_def desktop_start_def set_allow_spawn_def new_agent_manager_def)
  show ?thesis
    by (simp add: shell_session_def notified_session_def shell_start_def setup_shell_def is_minimized_launch_def
        shell_step_def shell_defs conn n Let_def)
qed

lemma session_append:
  "shell_session target secs_text st argv (ins @ ins')
     = fold (shell_step target secs_text) ins' (shell_session target secs_text st argv ins)"
  by (simp add: shell_session_def)

text \<open>A click on the banner does not use the notification up: the next activation from the Dock jumps again.\<close>

lemma banner_click_jumps_twice:
  "navigations (snd (shell_session TargetMacos (\<lambda>_. []) no_service [] (notified_session @ [BannerClick, Reopen 20000])))
     = [''executions'', ''executions'']"
  using notified_state by (auto simp: session_append shell_step_def shell_defs Let_def)

lemma window_and_dock_agree_witness:
  "\<exists>r s. shell_session TargetMacos (\<lambda>_. []) no_service [] (notified_session @ [Reopen 2000, Reopen 3000]) = (r, s)
     \<and> dock_visible s \<and> window_visible s \<and> reopen_jumps s = 1 \<and> length (shown_notifications s) = 1"
proof -
  obtain r s where s: "shell_session TargetMacos (\<lambda>_. []) no_service [] (notified_session @ [Reopen 2000, Reopen 3000]) = (r, s)"
    "window_visible s" "reopen_jumps s = 1" "length (shown_notifications s) = 1"
    using notified_state by (auto simp: session_append shell_step_def shell_defs Let_def)
  with window_and_dock_agree [OF s(1)] show ?thesis by blast
qed

section \<open>The binary that is spawned\<close>

text \<open>The agent to spawn is a file that exists, or the bare name, which the system looks up.\<close>

lemma beside_exe_exists: "beside_exe target file_exists p = Some q \<Longrightarrow> file_exists q"
  by (auto simp: beside_exe_def Let_def split: if_splits dest: find_Some_in)

lemma found_binary_exists:
  "find_agent_binary target file_exists current_exe current_dir = p \<Longrightarrow> file_exists p \<or> p = bin_name target"
  by (auto simp: find_agent_binary_def Let_def bind_eq_Some_conv dest!: beside_exe_exists
      split: option.splits if_splits)

end
