(* ===== verification/Notify_Script.thy ===== *)
theory Notify_Script
  imports Service_Commands_Props Instance_Lock
begin

text \<open>
  The notifications of \<^verbatim>\<open>crates/platform/src/notification.rs\<close>: the AppleScript and the PowerShell script made of
  the texts of a notification, read back by the string literals of both languages.
\<close>

section \<open>Scripts\<close>

definition escape_applescript :: "string \<Rightarrow> string" where
  "escape_applescript s = replace_char dq [bs, dq] (replace_char bs [bs, bs] s)"

definition notification_applescript :: "string \<Rightarrow> string option \<Rightarrow> string \<Rightarrow> string" where
  "notification_applescript title subtitle body =
     ''display notification '' @ [dq] @ escape_applescript body @ [dq]
       @ '' with title '' @ [dq] @ escape_applescript title @ [dq]
       @ (case subtitle of
            Some sub \<Rightarrow> '' subtitle '' @ [dq] @ escape_applescript sub @ [dq]
          | None \<Rightarrow> [])
       @ '' sound name '' @ [dq] @ ''default'' @ [dq]"

definition notification_header :: "string \<Rightarrow> string option \<Rightarrow> string" where
  "notification_header title subtitle =
     (case subtitle of Some sub \<Rightarrow> title @ '' - '' @ sub | None \<Rightarrow> title)"

definition double_sq :: "string \<Rightarrow> string" where
  "double_sq s = replace_char sq [sq, sq] s"

definition toast_manager :: string where
  "toast_manager = ''[Windows.UI.Notifications.ToastNotificationManager]''"

definition toast_prefix :: string where
  "toast_prefix =
     ''[Windows.UI.Notifications.ToastNotificationManager, Windows.UI.Notifications, ContentType = WindowsRuntime] > $null; ''
       @ ''$template = '' @ toast_manager @ ''::GetTemplateContent([Windows.UI.Notifications.ToastTemplateType]::ToastText02); ''
       @ ''$xml = [xml]$template.GetXml(); ''
       @ ''$nodes = $xml.GetElementsByTagName('' @ [sq] @ ''text'' @ [sq] @ ''); ''
       @ ''$nodes[0].AppendChild($xml.CreateTextNode(''"

definition toast_middle :: string where
  "toast_middle = '')) > $null; $nodes[1].AppendChild($xml.CreateTextNode(''"

definition toast_suffix :: string where
  "toast_suffix =
     '')) > $null; $toast = [Windows.UI.Notifications.ToastNotification]::new($template); ''
       @ toast_manager @ ''::CreateToastNotifier('' @ [sq] @ ''easyJob'' @ [sq] @ '').Show($toast);''"

definition notification_powershell :: "string \<Rightarrow> string option \<Rightarrow> string \<Rightarrow> string" where
  "notification_powershell title subtitle body =
     toast_prefix @ [sq] @ double_sq (notification_header title subtitle) @ [sq]
       @ toast_middle @ [sq] @ double_sq body @ [sq] @ toast_suffix"

text \<open>What the run of the script comes to; \<open>send_system_notification\<close> succeeds whatever it is.\<close>

datatype script_run =
    ScriptRan bool string
  | ScriptNotStarted string
  | ScriptTimedOut

datatype notify_log =
    NothingLogged
  | FailureLogged string
  | NotStartedLogged string
  | TimeoutLogged
  | UnsupportedLogged

definition notification_command :: "target_os \<Rightarrow> string \<Rightarrow> string option \<Rightarrow> string \<Rightarrow> (string \<times> string list) option" where
  "notification_command target title subtitle body =
     (case target of
        TargetMacos \<Rightarrow> Some (''osascript'', [''-e'', notification_applescript title subtitle body])
      | TargetWindows \<Rightarrow>
          Some (''powershell'',
            [''-NoProfile'', ''-NonInteractive'', ''-WindowStyle'', ''Hidden'', ''-Command'',
             notification_powershell title subtitle body])
      | TargetOther \<Rightarrow> None)"

definition send_system_notification ::
  "target_os \<Rightarrow> (string \<times> string list \<Rightarrow> script_run) \<Rightarrow> string \<Rightarrow> string option \<Rightarrow> string
   \<Rightarrow> (error + unit) \<times> notify_log" where
  "send_system_notification target run title subtitle body =
     (Inr (),
      case notification_command target title subtitle body of
        None \<Rightarrow> UnsupportedLogged
      | Some cmd \<Rightarrow>
          (case run cmd of
             ScriptRan ok err \<Rightarrow> if ok then NothingLogged else FailureLogged (from_utf8_lossy err)
           | ScriptNotStarted e \<Rightarrow> NotStartedLogged e
           | ScriptTimedOut \<Rightarrow> TimeoutLogged))"

section \<open>Reading AppleScript\<close>

text \<open>The string literal of AppleScript: a backslash quotes itself and the quote, and writes control characters.\<close>

fun as_body :: "string \<Rightarrow> (string \<times> string) option" where
  "as_body [] = None"
| "as_body (c # cs) =
     (if c = dq then Some ([], cs)
      else if c = bs then
        (case cs of
           [] \<Rightarrow> None
         | d # ds \<Rightarrow>
             (if d = dq \<or> d = bs then map_option (apfst (Cons d)) (as_body ds)
              else if d = CHR ''n'' then map_option (apfst (Cons (CHR 0x0A))) (as_body ds)
              else if d = CHR ''r'' then map_option (apfst (Cons (CHR 0x0D))) (as_body ds)
              else if d = CHR ''t'' then map_option (apfst (Cons (CHR 0x09))) (as_body ds)
              else None))
      else map_option (apfst (Cons c)) (as_body cs))"

definition as_literal :: "string \<Rightarrow> (string \<times> string) option" where
  "as_literal s = (case s of [] \<Rightarrow> None | c # cs \<Rightarrow> if c = dq then as_body cs else None)"

lemma escape_Nil [simp]: "escape_applescript [] = []"
  by (simp add: escape_applescript_def)

lemma escape_Cons:
  "escape_applescript (c # s) =
     (if c = dq then [bs, dq] else if c = bs then [bs, bs] else [c]) @ escape_applescript s"
  by (simp add: escape_applescript_def)

lemma as_body_escaped: "as_body (escape_applescript s @ dq # rest) = Some (s, rest)"
  by (induction s) (auto simp: escape_Cons)

lemma as_literal_escaped: "as_literal (dq # escape_applescript s @ dq # rest) = Some (s, rest)"
  by (simp add: as_literal_def as_body_escaped)

text \<open>AppleScript reads the body and the title of a notification as they were given, whatever they contain.\<close>

theorem applescript_reads_the_texts:
  "\<exists>s t. notification_applescript title subtitle body = ''display notification '' @ s
     \<and> as_literal s = Some (body, '' with title '' @ t)
     \<and> (\<exists>u. as_literal t = Some (title, u)
          \<and> (case subtitle of
               None \<Rightarrow> u = '' sound name '' @ [dq] @ ''default'' @ [dq]
             | Some sub \<Rightarrow> \<exists>v. u = '' subtitle '' @ v
                 \<and> as_literal v = Some (sub, '' sound name '' @ [dq] @ ''default'' @ [dq])))"
proof -
  let ?sound = "'' sound name '' @ [dq] @ ''default'' @ [dq]"
  define u where "u = (case subtitle of
      Some sub \<Rightarrow> '' subtitle '' @ [dq] @ escape_applescript sub @ [dq] | None \<Rightarrow> []) @ ?sound"
  define t where "t = dq # escape_applescript title @ dq # u"
  define s where "s = dq # escape_applescript body @ dq # '' with title '' @ t"
  have "notification_applescript title subtitle body = ''display notification '' @ s"
    unfolding notification_applescript_def s_def t_def u_def by (simp only: append.simps append_assoc)
  moreover have "as_literal s = Some (body, '' with title '' @ t)" unfolding s_def by (rule as_literal_escaped)
  moreover have "as_literal t = Some (title, u)" unfolding t_def by (rule as_literal_escaped)
  moreover have "case subtitle of None \<Rightarrow> u = ?sound
      | Some sub \<Rightarrow> \<exists>v. u = '' subtitle '' @ v \<and> as_literal v = Some (sub, ?sound)"
  proof (cases subtitle)
    case None
    then show ?thesis by (simp add: u_def)
  next
    case (Some sub)
    define v where "v = dq # escape_applescript sub @ dq # ?sound"
    have "u = '' subtitle '' @ v" unfolding u_def v_def Some by (simp only: option.case append.simps append_assoc)
    moreover have "as_literal v = Some (sub, ?sound)" unfolding v_def by (rule as_literal_escaped)
    ultimately show ?thesis using Some by auto
  qed
  ultimately show ?thesis by blast
qed

text \<open>PowerShell reads the header and the body unless they contain a typographic quote.\<close>

theorem powershell_reads_the_toast:
  assumes "plain_quotes (notification_header title subtitle)" and "plain_quotes body"
  shows "\<exists>s t. notification_powershell title subtitle body = toast_prefix @ s
     \<and> ps_literal s = Some (notification_header title subtitle, toast_middle @ t)
     \<and> ps_literal t = Some (body, toast_suffix)"
proof -
  define t where "t = quote_ps_arg body @ toast_suffix"
  define s where "s = quote_ps_arg (notification_header title subtitle) @ toast_middle @ t"
  have "notification_powershell title subtitle body = toast_prefix @ s"
    unfolding notification_powershell_def s_def t_def quote_ps_arg_def double_sq_def by (simp only: append_assoc)
  moreover have "ps_quote_len (toast_middle @ t) = 0" "ps_quote_len toast_suffix = 0"
    by (simp_all add: toast_middle_def toast_suffix_def ps_quote_len_def starts_with_def typographic_quote_def)
  then have "ps_literal s = Some (notification_header title subtitle, toast_middle @ t)"
    "ps_literal t = Some (body, toast_suffix)"
    using ps_literal_quoted [OF assms(1)] ps_literal_quoted [OF assms(2)] by (simp_all add: s_def t_def)
  ultimately show ?thesis by blast
qed

end
