(* ===== verification/Ipc_Connection.thy ===== *)
theory Ipc_Connection
  imports Ipc_Client Ipc_Server Agent_Props
begin

text \<open>
  One connection from end to end: the calls of \<^verbatim>\<open>crates/ipc/src/client.rs\<close> with its writer and reader tasks,
  the connection of \<^verbatim>\<open>crates/ipc/src/server.rs\<close> with its reader, handler and writer tasks, and the requests of
  \<^verbatim>\<open>apps/agent/src/service.rs\<close> behind it, as an interleaving of their steps.
\<close>

section \<open>State\<close>

definition REQUEST_QUEUE :: nat where
  "REQUEST_QUEUE = 256"

text \<open>
  The client, what each of its calls asks and whether it is yet to be sent, the queue of its writer, the lines
  on their way to the server, the requests whose handler task has not run and the responses it has not queued,
  the server, the lines on their way back, the agent, and the log of the requests it has answered.
\<close>

record link =
  caller :: ipc_client
  asked :: "string \<rightharpoonup> ipc_request"
  yet_to_send :: "string set"
  req_queue :: "ipc_request list"
  upstream :: "json list"
  unanswered :: "ipc_request list"
  ready :: "ipc_response list"
  peer :: ipc_server
  downstream :: "json list"
  backend :: agent
  served :: "(ipc_request \<times> ipc_response) list"

text \<open>\<open>IpcClient::connect\<close> to a server that has just accepted the connection with number \<open>k\<close>.\<close>

definition client_connect :: "string + unit \<Rightarrow> error + ipc_client" where
  "client_connect opened = (case opened of Inl e \<Rightarrow> Inl (Io e) | Inr _ \<Rightarrow> Inr new_client)"

definition new_link :: "ipc_server \<Rightarrow> agent \<Rightarrow> link" where
  "new_link srv ag =
     \<lparr>caller = new_client, asked = Map.empty, yet_to_send = {}, req_queue = [], upstream = [], unanswered = [],
      ready = [], peer = connect srv, downstream = [], backend = ag, served = []\<rparr>"

text \<open>The call registers; its request enters the queue of the writer.\<close>

definition register_call :: "ipc_request \<Rightarrow> link \<Rightarrow> link" where
  "register_call q s =
     (let i = request_id q; c = caller s
      in s\<lparr>caller := c\<lparr>pending_responses := insert i (pending_responses c), calls := (calls c)(i \<mapsto> Registered)\<rparr>,
           asked := (asked s)(i \<mapsto> q), yet_to_send := insert i (yet_to_send s)\<rparr>)"

definition enqueue_call :: "ipc_request \<Rightarrow> link \<Rightarrow> link" where
  "enqueue_call q s =
     (let i = request_id q; c = caller s
      in s\<lparr>caller := (if calls c i = Some Registered then c\<lparr>calls := (calls c)(i \<mapsto> Waiting)\<rparr> else c),
           yet_to_send := yet_to_send s - {i}, req_queue := req_queue s @ [q]\<rparr>)"

text \<open>The reader of the connection: a request gets a handler task of its own.\<close>

definition take_line :: "nat \<Rightarrow> json \<Rightarrow> link \<Rightarrow> link" where
  "take_line k l s =
     s\<lparr>peer := read_line k (Some l) (peer s),
       unanswered := unanswered s @ (case request_of_json l of Some q \<Rightarrow> [q] | None \<Rightarrow> [])\<rparr>"

text \<open>What other connections, the relay and the end of this one do to the server.\<close>

fun foreign :: "nat \<Rightarrow> server_input \<Rightarrow> bool" where
  "foreign k (Line j _) = (j \<noteq> k)"
| "foreign k (Responded j _) = (j \<noteq> k)"
| "foreign k (Written j _) = (j \<noteq> k)"
| "foreign k _ = True"

inductive link_step :: "codec \<Rightarrow> serde \<Rightarrow> nat \<Rightarrow> link \<Rightarrow> link \<Rightarrow> bool" for K J k where
  call_begins: "calls (caller s) (request_id q) = None \<Longrightarrow> asked s (request_id q) = None \<Longrightarrow>
     link_step K J k s (register_call q s)"
| call_sent: "request_id q \<in> yet_to_send s \<Longrightarrow> asked s (request_id q) = Some q \<Longrightarrow>
     length (req_queue s) < REQUEST_QUEUE \<Longrightarrow> link_step K J k s (enqueue_call q s)"
| caller_moves: "client_step (caller s) c \<Longrightarrow> responses_read c = responses_read (caller s) \<Longrightarrow>
     link_step K J k s (s\<lparr>caller := c\<rparr>)"
| client_writes: "req_queue s = q # qs \<Longrightarrow>
     link_step K J k s (s\<lparr>req_queue := qs, upstream := upstream s @ [request_to_json q]\<rparr>)"
| line_lost: "upstream s = l # ls \<Longrightarrow> link_step K J k s (s\<lparr>upstream := ls\<rparr>)"
| line_read: "upstream s = l # ls \<Longrightarrow> link_step K J k s (take_line k l (s\<lparr>upstream := ls\<rparr>))"
| handled_by_agent: "unanswered s = us @ q # vs \<Longrightarrow> handle_request K J W q (backend s) = (r, ag) \<Longrightarrow>
     link_step K J k s (s\<lparr>unanswered := us @ vs, ready := ready s @ [r], backend := ag,
       served := served s @ [(q, r)]\<rparr>)"
| agent_moves: "link_step K J k s (s\<lparr>backend := ag\<rparr>)"
| response_queued: "ready s = us @ r # vs \<Longrightarrow> can_respond k (peer s) \<Longrightarrow>
     link_step K J k s (s\<lparr>ready := us @ vs, peer := respond k r (peer s)\<rparr>)"
| server_writes: "chan_of (peer s) k = Some c \<Longrightarrow> queued c = f # fs \<Longrightarrow>
     link_step K J k s (s\<lparr>peer := write_frame k True (peer s), downstream := downstream s @ [f]\<rparr>)"
| write_fails: "link_step K J k s (s\<lparr>peer := write_frame k False (peer s)\<rparr>)"
| others_served: "foreign k inp \<Longrightarrow> link_step K J k s (s\<lparr>peer := server_step inp (peer s)\<rparr>)"
| client_reads: "downstream s = f # fs \<Longrightarrow> reader_running (caller s) \<Longrightarrow>
     link_step K J k s (s\<lparr>downstream := fs, caller := read_frame (Some f) (caller s)\<rparr>)"

inductive_cases link_stepE: "link_step K J k s s'"

inductive link_reach :: "codec \<Rightarrow> serde \<Rightarrow> nat \<Rightarrow> link \<Rightarrow> bool" for K J k where
  link_opens: "server_inv srv \<Longrightarrow> next_client_id srv = k \<Longrightarrow> link_reach K J k (new_link srv ag)"
| link_next: "link_reach K J k s \<Longrightarrow> link_step K J k s s' \<Longrightarrow> link_reach K J k s'"

section \<open>Frames of one connection\<close>

lemma chan_read_line [simp]: "chan_of (read_line j l s) k = chan_of s k"
  by (simp add: read_line_def chan_of_def split: option.splits)

text \<open>A frame in the queue of connection \<open>k\<close> was there before, is an event, or is a response put there.\<close>

definition frames_of :: "nat \<Rightarrow> ipc_server \<Rightarrow> json set" where
  "frames_of k s = (case chan_of s k of Some c \<Rightarrow> set (queued c) | None \<Rightarrow> {})"

lemma frames_respond: "frames_of k (respond k r s) \<subseteq> insert (response_to_json r) (frames_of k s)"
  by (auto simp: frames_of_def respond_def chan_of_def update_conv' split: option.splits)

lemma frames_write: "frames_of k (write_frame k ok s) \<subseteq> frames_of k s"
  by (auto simp: frames_of_def write_frame_def chan_of_def update_conv' dest: list.set_sel(2)
      split: option.splits) (metis list.sel(2) list.set_sel(2))+

lemma frames_fate: "set (queued (fate f c)) \<subseteq> insert f (set (queued c))"
  by (auto simp: fate_def try_send_frame_def)

lemma frames_relay:
  assumes "server_inv s"
  shows "frames_of k (relay_event e s) \<subseteq> insert (event_to_json e) (frames_of k s)"
proof -
  obtain chans dead where r: "send_to_all (event_to_json e) (clients s) (channels s) [] = (chans, dead)" by fastforce
  have d: "distinct (clients s)" using assms by (simp add: server_inv_def)
  show ?thesis
    using frames_fate [of "event_to_json e"]
    by (auto simp: frames_of_def relay_event_def r chan_of_def send_to_all_spec(1) [OF d r]
        split: option.splits if_splits)
qed

lemma frames_foreign:
  assumes inv: "server_inv s" and foreign: "foreign k inp"
  shows "frames_of k (server_step inp s) \<subseteq> frames_of k s \<union> range event_to_json"
proof (cases inp)
  case (Received r)
  then show ?thesis
    using frames_relay [OF inv, of k]
    by (cases r) (auto simp: relay_step_def frames_of_def chan_of_def)
next
  case Accepted
  then show ?thesis
    by (auto simp: frames_of_def connect_def Let_def chan_of_def update_conv' split: option.splits if_splits)
next
  case (Line j l)
  then show ?thesis by (simp add: frames_of_def)
next
  case (Responded j r)
  with foreign show ?thesis
    by (auto simp: frames_of_def respond_def chan_of_def update_conv' split: option.splits)
next
  case (Written j ok)
  with foreign show ?thesis
    by (auto simp: frames_of_def write_frame_def chan_of_def update_conv' split: option.splits)
next
  case (Ended j)
  then show ?thesis
    by (auto simp: frames_of_def disconnect_def chan_of_def update_conv' split: option.splits if_splits)
qed

end
