(* ===== verification/Ipc_Connection_Props.thy ===== *)
theory Ipc_Connection_Props
  imports Ipc_Connection
begin

text \<open>
  End to end: a call that succeeds returns what the agent answered to its own request, and no request is
  executed twice.
\<close>

section \<open>Invariant\<close>

definition asks :: "json list \<Rightarrow> ipc_request list" where
  "asks ls = List.map_filter request_of_json ls"

lemma asks_simps [simp]:
  "asks [] = []" "asks (request_to_json q # ls) = q # asks ls" "asks (ls @ ls') = asks ls @ asks ls'"
  by (simp_all add: asks_def map_filter_simps map_filter_def)

text \<open>The requests on their way, from the writer's queue to the agent's log.\<close>

definition flow :: "link \<Rightarrow> ipc_request list" where
  "flow s = req_queue s @ asks (upstream s) @ unanswered s @ map fst (served s)"

definition flow_ok :: "link \<Rightarrow> bool" where
  "flow_ok s \<longleftrightarrow> distinct (map request_id (flow s))
     \<and> (\<forall>q \<in> set (flow s). asked s (request_id q) = Some q \<and> request_id q \<notin> yet_to_send s)
     \<and> (\<forall>l \<in> set (upstream s). \<exists>q. l = request_to_json q)
     \<and> yet_to_send s \<subseteq> dom (asked s)"

definition reply_frame :: "link \<Rightarrow> json \<Rightarrow> bool" where
  "reply_frame s f \<longleftrightarrow> f \<in> range event_to_json \<or> f \<in> response_to_json ` snd ` set (served s)"

definition replies_ok :: "nat \<Rightarrow> link \<Rightarrow> bool" where
  "replies_ok k s \<longleftrightarrow>
     (\<forall>f \<in> set (downstream s) \<union> frames_of k (peer s). reply_frame s f)
     \<and> set (ready s) \<subseteq> snd ` set (served s)
     \<and> set (responses_read (caller s)) \<subseteq> read_back ` snd ` set (served s)
     \<and> (\<forall>(q, r) \<in> set (served s). response_id r = request_id q)"

definition link_inv :: "nat \<Rightarrow> link \<Rightarrow> bool" where
  "link_inv k s \<longleftrightarrow> server_inv (peer s) \<and> client_inv (caller s) \<and> flow_ok s \<and> replies_ok k s"

lemma distinct_sub_mset: "mset xs \<subseteq># mset ys \<Longrightarrow> distinct ys \<Longrightarrow> distinct xs"
proof -
  assume sub: "mset xs \<subseteq># mset ys" and d: "distinct ys"
  obtain C where "mset ys = mset xs + C" using sub by (auto simp: subset_mset.le_iff_add)
  moreover obtain zs where "mset zs = C" using ex_mset by blast
  ultimately have "mset ys = mset (xs @ zs)" by simp
  with d have "distinct (xs @ zs)" using mset_eq_imp_distinct_iff by blast
  then show "distinct xs" by simp
qed

text \<open>A change of the flow that only reorders or drops requests.\<close>

lemma flow_less:
  assumes "flow_ok s" and "mset (flow s') \<subseteq># mset (flow s)" and "asked s' = asked s"
    and "yet_to_send s' = yet_to_send s" and "set (upstream s') \<subseteq> set (upstream s)"
  shows "flow_ok s'"
proof -
  have "image_mset request_id (mset (flow s')) \<subseteq># image_mset request_id (mset (flow s))"
    by (rule image_mset_subseteq_mono [OF assms(2)])
  then have "mset (map request_id (flow s')) \<subseteq># mset (map request_id (flow s))" by simp
  then have "distinct (map request_id (flow s'))"
    by (rule distinct_sub_mset) (use assms(1) in \<open>simp add: flow_ok_def\<close>)
  moreover have "set (flow s') \<subseteq> set (flow s)" using assms(2) set_mset_mono by fastforce
  ultimately show ?thesis using assms unfolding flow_ok_def by (auto; blast)
qed

lemma flow_same:
  "flow_ok s \<Longrightarrow> req_queue s' = req_queue s \<Longrightarrow> upstream s' = upstream s \<Longrightarrow> unanswered s' = unanswered s
   \<Longrightarrow> served s' = served s \<Longrightarrow> asked s' = asked s \<Longrightarrow> yet_to_send s' = yet_to_send s \<Longrightarrow> flow_ok s'"
  by (simp add: flow_ok_def flow_def)

lemma replies_mono:
  assumes "replies_ok k s" and "set (served s) \<subseteq> set (served s')" and "set (downstream s') \<subseteq> set (downstream s)"
    and "frames_of k (peer s') \<subseteq> frames_of k (peer s) \<union> range event_to_json \<union> response_to_json ` snd ` set (served s')"
    and "set (ready s') \<subseteq> set (ready s) \<union> snd ` set (served s')"
    and "set (responses_read (caller s')) \<subseteq> set (responses_read (caller s)) \<union> read_back ` snd ` set (served s')"
    and "\<forall>(q, r) \<in> set (served s'). response_id r = request_id q"
  shows "replies_ok k s'"
proof -
  have mono: "reply_frame s f \<Longrightarrow> reply_frame s' f" for f
    using assms(2) by (auto simp: reply_frame_def)
  have "reply_frame s' f" if "f \<in> set (downstream s') \<union> frames_of k (peer s')" for f
  proof (cases "f \<in> set (downstream s) \<union> frames_of k (peer s)")
    case True
    then show ?thesis using assms(1) mono by (auto simp: replies_ok_def)
  next
    case False
    then show ?thesis using that assms(3,4) by (auto simp: reply_frame_def)
  qed
  moreover have up: "snd ` set (served s) \<subseteq> snd ` set (served s')" using assms(2) by (rule image_mono)
  have old: "set (ready s) \<subseteq> snd ` set (served s)"
    "set (responses_read (caller s)) \<subseteq> read_back ` snd ` set (served s)"
    using assms(1) by (simp_all add: replies_ok_def)
  have "set (ready s) \<subseteq> snd ` set (served s')" by (rule subset_trans [OF old(1) up])
  then have "set (ready s') \<subseteq> snd ` set (served s')"
    by (rule subset_trans [OF assms(5) Un_least]) (rule subset_refl)
  moreover have "set (responses_read (caller s)) \<subseteq> read_back ` snd ` set (served s')"
    by (rule subset_trans [OF old(2) image_mono [OF up]])
  then have "set (responses_read (caller s')) \<subseteq> read_back ` snd ` set (served s')"
    by (rule subset_trans [OF assms(6) Un_least]) (rule subset_refl)
  ultimately show ?thesis using assms(7) by (simp add: replies_ok_def)
qed

lemma read_frame_responses:
  assumes "f \<in> range event_to_json \<or> f \<in> response_to_json ` R"
  shows "set (responses_read (read_frame (Some f) c)) \<subseteq> set (responses_read c) \<union> read_back ` R"
  using assms by (auto simp: read_frame_def hand_over_simps)

lemma register_is_step: "calls (caller s) (request_id q) = None \<Longrightarrow> client_step (caller s) (caller (register_call q s))"
  by (simp add: register_call_def Let_def client_step.begin_call)

lemma enqueue_client_inv: "client_inv (caller s) \<Longrightarrow> client_inv (caller (enqueue_call q s))"
  by (auto simp: enqueue_call_def Let_def intro: client_step_inv [OF client_step.sent])

lemma link_inv_step:
  assumes step: "link_step K J k s s'" and inv: "link_inv k s"
  shows "link_inv k s'"
proof -
  have srv: "server_inv (peer s)" and cl: "client_inv (caller s)" and fl: "flow_ok s" and rp: "replies_ok k s"
    using inv by (simp_all add: link_inv_def)
  have ids: "\<forall>(q, r) \<in> set (served s). response_id r = request_id q" using rp by (simp add: replies_ok_def)
  from step show ?thesis
  proof cases
    case (call_begins q)
    have flw: "flow (register_call q s) = flow s" by (simp add: flow_def register_call_def Let_def)
    have fresh: "request_id p \<noteq> request_id q" if "p \<in> set (flow s)" for p
      using fl that call_begins(3) by (auto simp: flow_ok_def)
    have "flow_ok (register_call q s)"
      using fl fresh unfolding flow_ok_def flw by (auto simp: register_call_def Let_def)
    moreover have "replies_ok k (register_call q s)"
      by (rule replies_mono [OF rp]) (use ids in \<open>auto simp: register_call_def Let_def\<close>)
    moreover have "client_inv (caller (register_call q s))"
      by (rule client_step_inv [OF register_is_step [OF call_begins(2)] cl])
    ultimately show ?thesis using srv call_begins(1) by (simp add: link_inv_def register_call_def Let_def)
  next
    case (call_sent q)
    have "request_id q \<notin> request_id ` set (flow s)"
      using fl call_sent(2) by (auto simp: flow_ok_def)
    then have "flow_ok (enqueue_call q s)"
      using fl call_sent(3) by (auto simp: flow_ok_def flow_def enqueue_call_def Let_def)
    moreover have "replies_ok k (enqueue_call q s)"
      by (rule replies_mono [OF rp]) (use ids in \<open>auto simp: enqueue_call_def Let_def\<close>)
    ultimately show ?thesis
      using srv cl call_sent(1) enqueue_client_inv [of s q] by (simp add: link_inv_def enqueue_call_def Let_def)
  next
    case (caller_moves c)
    have "replies_ok k s'" by (rule replies_mono [OF rp]) (use ids caller_moves in auto)
    moreover have "flow_ok s'" by (rule flow_same [OF fl]) (simp_all add: caller_moves)
    ultimately show ?thesis using srv client_step_inv [OF caller_moves(2) cl] caller_moves(1) by (simp add: link_inv_def)
  next
    case (client_writes q qs)
    have "flow_ok s'"
      using fl client_writes by (auto simp: flow_ok_def flow_def)
    moreover have "replies_ok k s'" by (rule replies_mono [OF rp]) (use ids client_writes in auto)
    ultimately show ?thesis using srv cl client_writes by (simp add: link_inv_def)
  next
    case (line_lost l ls)
    obtain q where l: "l = request_to_json q" using fl line_lost(2) by (auto simp: flow_ok_def)
    have "flow_ok s'"
      by (rule flow_less [OF fl]) (use line_lost l in \<open>auto simp: flow_def\<close>)
    moreover have "replies_ok k s'" by (rule replies_mono [OF rp]) (use ids line_lost in auto)
    ultimately show ?thesis using srv cl line_lost by (simp add: link_inv_def)
  next
    case (line_read l ls)
    obtain q where l: "l = request_to_json q" using fl line_read(2) by (auto simp: flow_ok_def)
    have "flow_ok s'"
      by (rule flow_less [OF fl]) (use line_read l in \<open>auto simp: flow_def take_line_def\<close>)
    moreover have "replies_ok k s'"
      by (rule replies_mono [OF rp]) (use ids line_read in \<open>auto simp: take_line_def frames_of_def\<close>)
    moreover have "server_inv (read_line k (Some l) (peer s))"
      using server_step_inv [OF srv, of "Line k (Some l)"] by simp
    ultimately show ?thesis using cl line_read by (simp add: link_inv_def take_line_def)
  next
    case (handled_by_agent us q vs W r ag)
    have r: "response_id r = request_id q" using request_id_kept [of K J W q "backend s"] handled_by_agent(3) by simp
    have "flow_ok s'"
      by (rule flow_less [OF fl]) (use handled_by_agent in \<open>auto simp: flow_def\<close>)
    moreover have "replies_ok k s'"
      by (rule replies_mono [OF rp]) (use ids r handled_by_agent in auto)
    ultimately show ?thesis using srv cl handled_by_agent(1) by (simp add: link_inv_def)
  next
    case (agent_moves ag)
    have "replies_ok k s'" by (rule replies_mono [OF rp]) (use ids agent_moves in auto)
    moreover have "flow_ok s'" by (rule flow_same [OF fl]) (simp_all add: agent_moves)
    ultimately show ?thesis using srv cl agent_moves by (simp add: link_inv_def)
  next
    case (response_queued us r vs)
    have r: "r \<in> snd ` set (served s)" using rp response_queued(2) by (auto simp: replies_ok_def)
    have "replies_ok k s'"
      by (rule replies_mono [OF rp])
         (use ids r response_queued frames_respond [of k r "peer s"] in auto)
    moreover have "flow_ok s'" by (rule flow_same [OF fl]) (simp_all add: response_queued)
    moreover have "server_inv (respond k r (peer s))"
      using server_step_inv [OF srv, of "Responded k r"] response_queued(3) by simp
    ultimately show ?thesis using cl response_queued(1) by (simp add: link_inv_def)
  next
    case (server_writes c f fs)
    have f: "f \<in> frames_of k (peer s)" using server_writes by (simp add: frames_of_def)
    have "replies_ok k (s\<lparr>peer := write_frame k True (peer s)\<rparr>)"
      by (rule replies_mono [OF rp]) (use ids frames_write [of k True "peer s"] in auto)
    then have "replies_ok k s'"
      using rp f server_writes(1) by (auto simp: replies_ok_def reply_frame_def)
    moreover have "flow_ok s'" by (rule flow_same [OF fl]) (simp_all add: server_writes)
    moreover have "server_inv (write_frame k True (peer s))"
      using server_step_inv [OF srv, of "Written k True"] by simp
    ultimately show ?thesis using cl server_writes(1) by (simp add: link_inv_def)
  next
    case write_fails
    have "replies_ok k s'"
      by (rule replies_mono [OF rp]) (use ids write_fails frames_write [of k False "peer s"] in auto)
    moreover have "flow_ok s'" by (rule flow_same [OF fl]) (simp_all add: write_fails)
    moreover have "server_inv (write_frame k False (peer s))"
      using server_step_inv [OF srv, of "Written k False"] by simp
    ultimately show ?thesis using cl write_fails by (simp add: link_inv_def)
  next
    case (others_served inp)
    have "replies_ok k s'"
      by (rule replies_mono [OF rp]) (use ids others_served frames_foreign [OF srv others_served(2)] in auto)
    moreover have "flow_ok s'" by (rule flow_same [OF fl]) (simp_all add: others_served)
    ultimately show ?thesis using cl server_step_inv [OF srv] others_served(1) by (simp add: link_inv_def)
  next
    case (client_reads f fs)
    have f: "f \<in> range event_to_json \<or> f \<in> response_to_json ` snd ` set (served s)"
      using rp client_reads(2) by (auto simp: replies_ok_def reply_frame_def)
    have "replies_ok k s'"
      by (rule replies_mono [OF rp]) (use ids client_reads read_frame_responses [OF f] in auto)
    moreover have "flow_ok s'" by (rule flow_same [OF fl]) (simp_all add: client_reads)
    ultimately show ?thesis
      using srv client_step_inv [OF client_step.frame [OF client_reads(3)] cl] client_reads(1) by (simp add: link_inv_def)
  qed
qed

lemma new_link_inv:
  assumes "server_inv srv" and "next_client_id srv = k"
  shows "link_inv k (new_link srv ag)"
proof -
  have "server_inv (connect srv)" using server_step_inv [OF assms(1), of Accepted] by simp
  moreover have "client_inv new_client" by (rule client_reach_inv [OF client_start])
  moreover have "frames_of k (connect srv) = {}"
    using assms(2) by (simp add: frames_of_def connect_def Let_def chan_of_def update_conv')
  ultimately show ?thesis
    by (simp add: link_inv_def new_link_def flow_ok_def flow_def replies_ok_def new_client_def)
qed

lemma link_inv_reached: "link_reach K J k s \<Longrightarrow> link_inv k s"
proof (induction rule: link_reach.induct)
  case (link_opens srv ag)
  then show ?case by (rule new_link_inv)
next
  case (link_next s s')
  then show ?case by (blast intro: link_inv_step)
qed

section \<open>Properties\<close>

lemma read_back_result [simp]:
  "call_result (read_back r) = call_result r" "response_ok (read_back r) = response_ok r"
  "response_id (read_back r) = response_id r"
  by (auto simp: call_result_def read_back_def)

text \<open>C22. Over one connection, with any other clients and any interleaving: a call that succeeds returns the data
  of the response that the agent gave to this call's own request, the only one it gave to it; and no request,
  answered or given up, is executed twice.\<close>

theorem call_gets_the_agents_answer:
  assumes "link_reach K J k s"
  shows "(\<forall>i v. calls (caller s) i = Some (Finished (Inr v)) \<longrightarrow>
        (\<exists>q r. asked s i = Some q \<and> (q, r) \<in> set (served s) \<and> response_ok r \<and> call_result r = Inr v
          \<and> (\<forall>r'. (q, r') \<in> set (served s) \<longrightarrow> r' = r)))
    \<and> distinct (map (request_id \<circ> fst) (served s))"
proof
  have cl: "client_inv (caller s)" and fl: "flow_ok s" and rp: "replies_ok k s"
    using link_inv_reached [OF assms] by (simp_all add: link_inv_def)
  show once: "distinct (map (request_id \<circ> fst) (served s))"
    using fl by (simp add: flow_ok_def flow_def)
  show "\<forall>i v. calls (caller s) i = Some (Finished (Inr v)) \<longrightarrow>
        (\<exists>q r. asked s i = Some q \<and> (q, r) \<in> set (served s) \<and> response_ok r \<and> call_result r = Inr v
          \<and> (\<forall>r'. (q, r') \<in> set (served s) \<longrightarrow> r' = r))"
  proof (intro allI impI)
    fix i v
    assume "calls (caller s) i = Some (Finished (Inr v))"
    with cl obtain r' where r': "r' \<in> set (responses_read (caller s))" "response_id r' = i" "response_ok r'"
      "call_result r' = Inr v"
      unfolding client_inv_def answers_ok_def by blast
    have "set (responses_read (caller s)) \<subseteq> read_back ` snd ` set (served s)" using rp by (simp add: replies_ok_def)
    then have "r' \<in> read_back ` snd ` set (served s)" using r'(1) by (rule subsetD)
    then obtain q r where qr: "(q, r) \<in> set (served s)" "r' = read_back r" by auto
    have "response_id r = request_id q" using rp qr(1) by (auto simp: replies_ok_def)
    moreover have "asked s (request_id q) = Some q"
    proof -
      have "q \<in> fst ` set (served s)" by (rule image_eqI [OF _ qr(1)]) simp
      then have "q \<in> set (flow s)" by (simp add: flow_def)
      then show ?thesis using fl by (simp add: flow_ok_def)
    qed
    ultimately have "asked s i = Some q" using r'(2) qr(2) by simp
    moreover have "r'' = r" if "(q, r'') \<in> set (served s)" for r''
    proof -
      have inj: "inj_on (request_id \<circ> fst) (set (served s))" using once by (simp add: distinct_map)
      from inj_onD [OF inj _ that qr(1)] show ?thesis by simp
    qed
    ultimately show "\<exists>q r. asked s i = Some q \<and> (q, r) \<in> set (served s) \<and> response_ok r \<and> call_result r = Inr v
        \<and> (\<forall>r'. (q, r') \<in> set (served s) \<longrightarrow> r' = r)"
      using qr(1) r'(3,4) unfolding qr(2) read_back_result by blast
  qed
qed

text \<open>A call of \<open>agent.shutdown\<close>, from its registration to its result.\<close>

definition stop_request :: ipc_request where
  "stop_request = \<lparr>request_id = ''c1'', request_method = ''agent.shutdown'', request_params = JNull\<rparr>"

definition stop_answer :: ipc_response where
  "stop_answer = response_success ''c1'' (JBool True)"

lemma stop_request_handled:
  "handle_request K J W stop_request ag = (stop_answer, ag\<lparr>shutdown_notified := True\<rparr>)"
  by (simp add: handle_request_def handle_shutdown_def stop_request_def stop_answer_def answer_def)

definition stop_link :: "call_state \<Rightarrow> string set \<Rightarrow> string set \<Rightarrow> agent \<Rightarrow> link" where
  "stop_link c pend yet ag =
     \<lparr>caller = \<lparr>pending_responses = pend, calls = [''c1'' \<mapsto> c], reader_running = True,
        responses_read = [], events_read = []\<rparr>,
      asked = [''c1'' \<mapsto> stop_request], yet_to_send = yet, req_queue = [], upstream = [], unanswered = [],
      ready = [], peer = connect new_server, downstream = [], backend = ag, served = []\<rparr>"

lemmas link_run_simps = stop_link_def stop_request_handled take_line_def read_line_def connect_def new_server_def
  Let_def chan_of_def can_respond_def respond_def write_frame_def CLIENT_QUEUE_def

lemma stop_link_run:
  "\<exists>s. link_reach K J 1 s \<and> calls (caller s) ''c1'' = Some (Finished (Inr (JBool True)))
     \<and> served s = [(stop_request, stop_answer)]"
proof -
  fix ag
  have srv: "server_inv new_server" by (rule new_server_inv)
  have s0: "link_reach K J 1 (new_link new_server ag)"
    by (rule link_opens [OF srv]) (simp add: new_server_def)
  have s1: "link_reach K J 1 (stop_link Registered {''c1''} {''c1''} ag)"
    using link_next [OF s0 call_begins [of _ stop_request]]
    by (simp add: new_link_def new_client_def register_call_def Let_def stop_link_def stop_request_def)
  let ?s2 = "(stop_link Waiting {''c1''} {} ag)\<lparr>req_queue := [stop_request]\<rparr>"
  have s2: "link_reach K J 1 ?s2"
    using link_next [OF s1 call_sent [of stop_request]]
    by (simp add: enqueue_call_def Let_def stop_link_def stop_request_def REQUEST_QUEUE_def)
  let ?s3 = "(stop_link Waiting {''c1''} {} ag)\<lparr>upstream := [request_to_json stop_request]\<rparr>"
  have s3: "link_reach K J 1 ?s3"
    using link_next [OF s2 client_writes] by (simp add: stop_link_def)
  let ?s4 = "take_line 1 (request_to_json stop_request) (stop_link Waiting {''c1''} {} ag)"
  have s4: "link_reach K J 1 ?s4"
    using link_next [OF s3 line_read] by (simp add: stop_link_def)
  let ?s5 = "?s4\<lparr>unanswered := [], ready := [stop_answer], backend := ag\<lparr>shutdown_notified := True\<rparr>,
    served := [(stop_request, stop_answer)]\<rparr>"
  have s5: "link_reach K J 1 ?s5"
    using link_next [OF s4 handled_by_agent [where us = "[]" and vs = "[]"]]
    by (simp add: take_line_def stop_link_def stop_request_handled)
  let ?s6 = "?s5\<lparr>ready := [], peer := respond 1 stop_answer (peer ?s4)\<rparr>"
  have s6: "link_reach K J 1 ?s6"
    using link_next [OF s5 response_queued [where us = "[]" and vs = "[]"]]
    by (simp add: link_run_simps)
  let ?s7 = "?s6\<lparr>peer := write_frame 1 True (peer ?s6), downstream := [response_to_json stop_answer]\<rparr>"
  have s7: "link_reach K J 1 ?s7"
    using link_next [OF s6 server_writes [where fs = "[]" and f = "response_to_json stop_answer"]]
    by (simp add: link_run_simps)
  let ?s8 = "?s7\<lparr>downstream := [], caller := read_frame (Some (response_to_json stop_answer)) (caller ?s7)\<rparr>"
  have s8: "link_reach K J 1 ?s8"
    using link_next [OF s7 client_reads] by (simp add: take_line_def stop_link_def)
  have ans: "calls (caller ?s8) ''c1'' = Some (Answered stop_answer)"
    by (simp add: take_line_def stop_link_def read_frame_def hand_over_def Let_def stop_answer_def response_success_def
        read_back_def)
  let ?c = "(caller ?s8)\<lparr>calls := (calls (caller ?s8))(''c1'' \<mapsto> Finished (call_result stop_answer))\<rparr>"
  have s9: "link_reach K J 1 (?s8\<lparr>caller := ?c\<rparr>)"
    by (rule link_next [OF s8 caller_moves [OF client_step.answered [OF ans]]]) simp
  have "calls ?c ''c1'' = Some (Finished (Inr (JBool True)))"
    by (simp add: call_result_def stop_answer_def response_success_def)
  moreover have "served ?s8 = [(stop_request, stop_answer)]" by simp
  ultimately show ?thesis using s9 by (intro exI [of _ "?s8\<lparr>caller := ?c\<rparr>"]) simp
qed

lemma call_gets_the_agents_answer_witness:
  "\<forall>K J. \<exists>s q r. link_reach K J 1 s \<and> asked s ''c1'' = Some q \<and> (q, r) \<in> set (served s)
     \<and> call_result r = Inr (JBool True)"
proof (intro allI)
  fix K J
  obtain s where s: "link_reach K J 1 s" "calls (caller s) ''c1'' = Some (Finished (Inr (JBool True)))"
    using stop_link_run by blast
  from call_gets_the_agents_answer [OF s(1)] s(2)
  obtain q r where "asked s ''c1'' = Some q" "(q, r) \<in> set (served s)" "call_result r = Inr (JBool True)" by blast
  with s(1) show "\<exists>s q r. link_reach K J 1 s \<and> asked s ''c1'' = Some q \<and> (q, r) \<in> set (served s)
      \<and> call_result r = Inr (JBool True)" by blast
qed

end
