(* ===== verification/Fire_To_Run.thy ===== *)
theory Fire_To_Run
  imports Scheduler_Props Manual_Job
begin

text \<open>
  From a due trigger to its recorded run: the timer branch of the scheduler (\<^verbatim>\<open>crates/scheduler\<close>), the dispatcher
  and the job that it spawns (\<^verbatim>\<open>apps/agent/src/service.rs\<close>) on the agent's state.
\<close>

text \<open>
  The whole spawned job: if its record cannot be created it only gives the slot back; otherwise it does its
  work, leaves \<open>active_executions\<close> and gives the slot back.  The permit it owns is dropped with it.
\<close>

definition complete_scheduled_job ::
  "codec \<Rightarrow> platform \<Rightarrow> job_world \<Rightarrow> task \<Rightarrow> trigger_event \<Rightarrow> agent \<Rightarrow> agent" where
  "complete_scheduled_job K P w t ev s =
     (case dispatch_job K P w t (ev_trigger_id ev) (ev_scheduled_at ev) (agent_db s) of
        (Inl _, d, evs) \<Rightarrow>
          s\<lparr>agent_db := d, agent_events := agent_events s @ evs,
            agent_manager := drop_permit (release_slot (task_id t) (agent_manager s))\<rparr>
      | (Inr e, d, evs) \<Rightarrow>
          s\<lparr>agent_db := d, agent_events := agent_events s @ evs,
            agent_active := AList.delete (execution_id e) (agent_active s),
            agent_manager := drop_permit (release_slot (task_id t) (agent_manager s))\<rparr>)"

text \<open>When the dispatcher lets an event through.\<close>

definition let_through :: "task \<Rightarrow> agent \<Rightarrow> bool" where
  "let_through t a \<longleftrightarrow> 0 < global_limiter (agent_manager a)
     \<and> policy_allows (concurrency_policy (execution_policy t)) (running_count (agent_manager a) (task_id t))"

lemma dispatched_iff:
  assumes "find_task_by_id K (db_faults W 0) (now_at W 0) (ev_task_id ev) (agent_db a) = Inr (Some task)"
  obtains (spawned) m where "let_through task a"
      and "dispatch_event K W ev a = a\<lparr>agent_manager := m, agent_jobs := agent_jobs a @ [ScheduledJob task ev]\<rparr>"
      and "\<And>t. count_of m t = count_of (agent_manager a) t + (if t = task_id task then 1 else 0)"
      and "global_limiter (agent_manager a) = global_limiter m + 1"
  | (skipped) "\<not> let_through task a" and "agent_jobs (dispatch_event K W ev a) = agent_jobs a"
proof (cases "try_acquire_owned (agent_manager a)")
  case (Pair ok m1)
  show thesis
  proof (cases ok)
    case False
    then have "global_limiter (agent_manager a) = 0"
      using Pair by (auto simp: try_acquire_owned_def split: if_splits)
    then show thesis using skipped Pair False assms by (simp add: let_through_def dispatch_event_def)
  next
    case True
    then have "try_acquire_owned (agent_manager a) = (True, m1)" using Pair by simp
    note m1 = permit_taken [OF this]
    obtain ok2 m2 where s: "try_acquire_slot (task_id task) (concurrency_policy (execution_policy task)) m1 = (ok2, m2)"
      by fastforce
    have ok2: "ok2 \<longleftrightarrow> let_through task a"
      using acquire_spec(1) [of "task_id task" "concurrency_policy (execution_policy task)" m1] s m1
      by (simp add: let_through_def count_running)
    show thesis
    proof (cases ok2)
      case True
      then have "try_acquire_slot (task_id task) (concurrency_policy (execution_policy task)) m1 = (True, m2)"
        using s by simp
      note m2 = slot_taken [OF this]
      show thesis
        using spawned [of m2] ok2 True Pair \<open>ok\<close> s assms m1 m2 by (simp add: dispatch_event_def)
    next
      case False
      then show thesis using skipped ok2 Pair \<open>ok\<close> s assms by (simp add: dispatch_event_def)
    qed
  qed
qed

lemma created_run:
  assumes "find_task_by_id K f now t d = Inr (Some task)" and "create_faults w 0 = None"
    and "fresh_execution w \<notin> set (map run_id (runs d))"
  shows "\<exists>e d' evs. dispatch_job K P w task tr sched d = (Inr e, d', evs) \<and> execution_id e = fresh_execution w
    \<and> (\<exists>outs duration. evs = started_event e # outs @ [finished_event task e duration])"
proof -
  have "task_id task \<in> set (map row_task_id (tasks d))"
    using assms(1) found_task_id [OF assms(1)]
    by (auto simp: find_task_by_id_def outcome_simps find_Some_iff split: option.splits)
      (metis image_eqI nth_mem)
  then have "\<exists>d'. create_run K (create_faults w) (new_run w task tr (Some sched)) d = (Inr (), d')"
    using assms(2,3) by (simp add: create_run_def call_db_def new_run_def new_execution_def)
  then obtain d' where c: "create_run K (create_faults w) (new_run w task tr (Some sched)) d = (Inr (), d')" ..
  obtain e d'' evs where b: "job_body K P w task (new_run w task tr (Some sched)) d' = (e, d'', evs)"
    by (cases "job_body K P w task (new_run w task tr (Some sched)) d'")
  have "dispatch_job K P w task tr sched d = (Inr e, d'', evs)"
    by (simp add: dispatch_job_def c b)
  moreover have "execution_id e = fresh_execution w"
    using job_body_execution(2) [OF b] by (simp add: new_run_def new_execution_def)
  moreover have "started_event (new_run w task tr (Some sched)) = started_event e"
    unfolding started_event_def job_body_execution(2,3) [OF b] by simp
  then have "\<exists>outs duration. evs = started_event e # outs @ [finished_event task e duration]"
    using b by (auto simp: job_body_def Let_def)
  ultimately show ?thesis by blast
qed

text \<open>C16. A due trigger leads to its run: the scheduler sends the event of the item it pops, the dispatcher spawns
  the job of the stored task exactly if a permit is free and the policy allows it, and the job, run to its
  end, leaves the verdict of the task's actions with the trigger and its planned time in the store, announces
  start and end, and gives permit, slot and registration back.\<close>

theorem fired_trigger_is_recorded:
  assumes "sched_reaches E distinct_triggers n s" and "n < 2 ^ 64 - 2"
    and "fst (queue_pop (queue s)) = Some item" and "handle_timer E orc s = Ret s'"
    and "codec_ok K" and "ev = last (events s')"
    and "find_task_by_id K (db_faults W 0) (now_at W 0) (item_task_id item) (agent_db a) = Inr (Some task)"
    and "fresh_execution w \<notin> set (map run_id (runs (agent_db a)))"
    and "create_faults w 0 = None" and "update_faults w 0 = None"
    and "db_time (next_fire_at item)" and "db_time (start_time w)" and "db_time (finish_time w)"
    and "a' = dispatch_event K W ev a" and "a'' = complete_scheduled_job K P w task ev a'"
  shows "events s' = events s @ [ev]
    \<and> agent_jobs a' = agent_jobs a @ (if let_through task a then [ScheduledJob task ev] else [])
    \<and> (let_through task a \<longrightarrow>
        (\<exists>e outs duration.
            stored_run K (fresh_execution w) (agent_db a'') = Some e
          \<and> execution_task_id e = item_task_id item \<and> execution_trigger_id e = Some (item_trigger_id item)
          \<and> scheduled_at e = Some (next_fire_at item)
          \<and> (status e, exit_code e, error_message e)
              = verdict (action_results P w (timeout_secs (execution_policy task)) 0 (actions task))
          \<and> agent_events a'' = agent_events a @ started_event e # outs @ [finished_event task e duration]
          \<and> global_limiter (agent_manager a'') = global_limiter (agent_manager a)
          \<and> (\<forall>t. running_count (agent_manager a'') t = running_count (agent_manager a) t)
          \<and> map_of (agent_active a'') (fresh_execution w) = None))"
proof -
  have fired: "events s' = events s @
      [\<lparr>ev_task_id = item_task_id item, ev_trigger_id = Some (item_trigger_id item),
        ev_scheduled_at = next_fire_at item\<rparr>]"
    using timer_effect [OF reaches_inv [OF assms(1,2)] assms(4,3)] by blast
  then have ev: "ev = \<lparr>ev_task_id = item_task_id item, ev_trigger_id = Some (item_trigger_id item),
      ev_scheduled_at = next_fire_at item\<rparr>" by (simp add: assms(6))
  have found: "find_task_by_id K (db_faults W 0) (now_at W 0) (ev_task_id ev) (agent_db a) = Inr (Some task)"
    by (simp add: ev assms(7))
  from found show ?thesis
  proof (cases rule: dispatched_iff)
    case (spawned m)
    obtain e d evs outs duration where
      j: "dispatch_job K P w task (ev_trigger_id ev) (ev_scheduled_at ev) (agent_db a) = (Inr e, d, evs)"
      and e: "execution_id e = fresh_execution w" "evs = started_event e # outs @ [finished_event task e duration]"
      using created_run [OF found assms(9,8), of P "ev_trigger_id ev" "ev_scheduled_at ev"] by blast
    have "stored_run K (fresh_execution w) d = Some e
      \<and> (status e, exit_code e, error_message e)
          = verdict (action_results P w (timeout_secs (execution_policy task)) 0 (actions task))
      \<and> execution_task_id e = task_id task \<and> execution_trigger_id e = ev_trigger_id ev
      \<and> scheduled_at e = Some (ev_scheduled_at ev)"
      using dispatched_run_recorded [OF assms(5) j assms(10) _ assms(12,13)] assms(11) by (simp add: ev)
    moreover have "agent_db a'' = d" "agent_events a'' = agent_events a @ evs"
      "agent_active a'' = AList.delete (fresh_execution w) (agent_active a)"
      "agent_manager a'' = drop_permit (release_slot (task_id task) m)"
      unfolding assms(14,15) spawned(2) complete_scheduled_job_def by (simp_all add: j e(1))
    moreover have "global_limiter (drop_permit (release_slot (task_id task) m)) = global_limiter (agent_manager a)"
      "running_count (drop_permit (release_slot (task_id task) m)) u = running_count (agent_manager a) u" for u
      using spawned(3,4) by (simp_all add: count_running release_spec)
    moreover have "agent_jobs a' = agent_jobs a @ [ScheduledJob task ev]" unfolding assms(14) spawned(2) by simp
    moreover have "execution_task_id e = item_task_id item \<and> execution_trigger_id e = Some (item_trigger_id item)
        \<and> scheduled_at e = Some (next_fire_at item)"
      using calculation(1) found_task_id [OF found] by (simp add: ev)
    ultimately show ?thesis
      using spawned(1) fired ev e(2)
      by (intro conjI impI exI [of _ e] exI [of _ outs] exI [of _ duration]) (simp_all add: delete_conv')
  next
    case skipped
    with fired show ?thesis by (simp add: assms(14) ev)
  qed
qed

text \<open>The first trigger of the demonstration scheduler fires, and its run is stored by a fresh agent.\<close>

lemma fired_trigger_is_recorded_witness:
  "\<exists>task e. stored_run text_codec (ExecutionId 5)
       (agent_db (complete_scheduled_job text_codec unix_build demo_world task (last (events demo_fired))
         (dispatch_event text_codec demo_request_world (last (events demo_fired)) saved_agent))) = Some e
     \<and> scheduled_at e = Some (10 * sec_ns) \<and> execution_trigger_id e = Some (TriggerId 1)"
proof -
  have item: "item_task_id (hd demo_items) = TaskId 7" "item_trigger_id (hd demo_items) = TriggerId 1"
    "next_fire_at (hd demo_items) = 10 * sec_ns"
    by (simp_all add: demo_items_def)
  obtain t where t: "find_task_by_id text_codec no_faults 0 (TaskId 7) saved_db = Inr (Some t)"
    "concurrency_policy (execution_policy t) = SkipIfRunning"
    using saved_agent_task by blast
  have through: "let_through t saved_agent"
    by (simp add: let_through_def saved_agent_def initial_agent_def new_manager_def running_count_def count_of_def
        get_or_def policy_allows_def t(2))
  have found: "find_task_by_id text_codec (db_faults demo_request_world 0) (now_at demo_request_world 0)
      (item_task_id (hd demo_items)) (agent_db saved_agent) = Inr (Some t)"
    using t(1) by (simp add: item saved_agent_def initial_agent_def)
  have fresh: "fresh_execution demo_world \<notin> set (map run_id (runs (agent_db saved_agent)))"
    by (simp add: saved_agent_def initial_agent_def saved_db_rows)
  have world: "create_faults demo_world 0 = None" "update_faults demo_world 0 = None"
    "db_time (next_fire_at (hd demo_items))" "db_time (start_time demo_world)" "db_time (finish_time demo_world)"
    by (simp_all add: demo_world_def no_faults_def item db_time_def sec_ns_def)
  have "fst (queue_pop (queue demo_state)) = Some (hd demo_items)" by (simp add: demo_pop)
  from fired_trigger_is_recorded [OF demo_reached _ this demo_fires text_codec_ok refl found fresh world refl refl,
      of unix_build] through
  show ?thesis by (intro exI [of _ t]) (auto simp: item demo_world_def)
qed

end
