(* ===== verification/Agent_Main.thy ===== *)
theory Agent_Main
  imports Service_Start
begin

text \<open>
  The main program of the agent (\<^verbatim>\<open>apps/agent/src/main.rs\<close>): the set-up of logging (\<^verbatim>\<open>crates/logging\<close>), the
  dispatch on the command line, the daemon, and the Windows service under the service manager.
\<close>

section \<open>Logging\<close>

text \<open>The layers of \<open>init_logging\<close>, each with its filter: the rolling file, and the console.\<close>

datatype log_layer =
    FileLayer string
  | ConsoleLayer string

definition log_layers :: "string option \<Rightarrow> bool \<Rightarrow> string \<Rightarrow> log_layer list" where
  "log_layers env_filter to_console default_level =
     (let filter = (case env_filter of Some f \<Rightarrow> f | None \<Rightarrow> default_level)
      in FileLayer filter # (if to_console then [ConsoleLayer filter] else []))"

definition init_logging ::
  "string + unit \<Rightarrow> string option \<Rightarrow> (log_layer list \<Rightarrow> string + unit) \<Rightarrow> bool \<Rightarrow> string \<Rightarrow> log_layer list result" where
  "init_logging make_log_dir env_filter try_init to_console default_level =
     (case make_log_dir of
        Inl e \<Rightarrow> Inl (Io e)
      | Inr _ \<Rightarrow>
          let layers = log_layers env_filter to_console default_level
          in (case try_init layers of Inl e \<Rightarrow> Inl (Other e) | Inr _ \<Rightarrow> Inr layers))"

section \<open>The daemon\<close>

datatype service_report = ReportRunning | ReportStopped

text \<open>How \<open>main\<close> ends: with the result of a service command, a refused flag, an error, the notice that another
  agent runs, or after serving.\<close>

datatype main_end =
    CommandDone "setup_error + unit"
  | ServiceFlagRefused
  | MainFailed error
  | AlreadyThere
  | Served agent_service
  | ServiceEnded "service_report list"

definition daemon_main ::
  "target_os \<Rightarrow> codec \<Rightarrow> (string \<Rightarrow> error + lock_outcome) \<Rightarrow> init_world \<Rightarrow> instant \<Rightarrow> launch \<Rightarrow> main_end" where
  "daemon_main target K acquire W now l =
     (case acquire (launch_lock_path l) of
        Inl e \<Rightarrow> MainFailed e
      | Inr AlreadyRunning \<Rightarrow> AlreadyThere
      | Inr (Acquired _) \<Rightarrow>
          (case fst (init_shared target K W now (launch_db_url l) (launch_ipc_path l) (launch_max l)
                  (launch_shared l)) of
             Inl e \<Rightarrow> MainFailed e
           | Inr svc \<Rightarrow> Served svc))"

section \<open>The Windows service\<close>

datatype service_control = StopControl | ShutdownControl | OtherControl

datatype control_answer = ControlOk | ControlNotImplemented

text \<open>\<open>WINDOWS_SERVICE_CONFIG\<close>: the first value set stays.\<close>

record service_config =
  config_db_url :: string
  config_ipc_path :: string
  config_max :: nat

definition once_set :: "'a \<Rightarrow> 'a option \<Rightarrow> 'a option" where
  "once_set x cell = (case cell of None \<Rightarrow> Some x | Some y \<Rightarrow> Some y)"

text \<open>
  \<open>service_main_inner\<close> on what it meets: what it reports to the service manager, and the service it ran.  It
  takes its own lock, beside the channel.
\<close>

record service_world =
  runtime_built :: bool
  service_lock :: "string \<Rightarrow> error + lock_outcome"
  service_init :: init_world
  service_clock :: instant
  handler_registered :: bool

definition service_main_inner ::
  "codec \<Rightarrow> service_config option \<Rightarrow> service_world \<Rightarrow> service_report list \<times> agent_service option" where
  "service_main_inner K config W =
     (case config of
        None \<Rightarrow> ([], None)
      | Some c \<Rightarrow>
          if \<not> runtime_built W then ([], None)
          else
            (case service_lock W (service_lock_path TargetWindows (config_ipc_path c)) of
               Inr (Acquired _) \<Rightarrow>
                 (case fst (init_shared TargetWindows K (service_init W) (service_clock W) (config_db_url c)
                         (config_ipc_path c) (config_max c) True) of
                    Inl _ \<Rightarrow> ([], None)
                  | Inr svc \<Rightarrow>
                      if \<not> handler_registered W then ([], None)
                      else ([ReportRunning, ReportStopped], Some svc))
             | _ \<Rightarrow> ([], None)))"

text \<open>The control handler, over the permit of the shutdown signal.\<close>

fun service_control_handler :: "service_control \<Rightarrow> bool \<Rightarrow> control_answer \<times> bool" where
  "service_control_handler StopControl notified = (ControlOk, True)"
| "service_control_handler ShutdownControl notified = (ControlOk, True)"
| "service_control_handler OtherControl notified = (ControlNotImplemented, notified)"

text \<open>\<open>run_as_windows_service\<close>: the dispatcher either fails, outside the service manager, or runs the service.\<close>

definition run_as_windows_service ::
  "codec \<Rightarrow> string + unit \<Rightarrow> service_world \<Rightarrow> service_config option \<Rightarrow> launch
   \<Rightarrow> (string + service_report list) \<times> agent_service option" where
  "run_as_windows_service K dispatcher W cell l =
     (let cell = once_set \<lparr>config_db_url = launch_db_url l, config_ipc_path = launch_ipc_path l,
                           config_max = launch_max l\<rparr> cell
      in case dispatcher of
           Inl e \<Rightarrow> (Inl e, None)
         | Inr _ \<Rightarrow> (case service_main_inner K cell W of (reports, svc) \<Rightarrow> (Inr reports, svc)))"

section \<open>The main function\<close>

record main_world =
  main_env :: process_env
  setup_answers :: setup_world
  data_dir_made :: "string + unit"
  logs_made :: "string + unit"
  log_filter :: "string option"
  log_init :: "log_layer list \<Rightarrow> string + unit"
  lock_answer :: "string \<Rightarrow> error + lock_outcome"
  start_answers :: init_world
  start_clock :: instant
  dispatcher_answer :: "string + unit"
  service_answers :: service_world

definition agent_main :: "target_os \<Rightarrow> codec \<Rightarrow> main_world \<Rightarrow> cli \<Rightarrow> main_end" where
  "agent_main target K M c =
     (if install_service c then
        CommandDone
          (if target = TargetWindows
           then snd (install_service_cmd (setup_answers M) (resolve_data_dir target (main_env M) (cli_data_dir c)))
           else Inl OnlyOnWindows)
      else if uninstall_service c then
        CommandDone (if target = TargetWindows then snd (uninstall_service_cmd (setup_answers M)) else Inl OnlyOnWindows)
      else if service c \<and> target \<noteq> TargetWindows then ServiceFlagRefused
      else
        let data_dir = resolve_data_dir target (main_env M) (cli_data_dir c)
        in (case data_dir_made M of
              Inl e \<Rightarrow> MainFailed (Io e)
            | Inr _ \<Rightarrow>
                (case init_logging (logs_made M) (log_filter M) (log_init M) (\<not> daemon c \<and> \<not> service c) ''info'' of
                   Inl e \<Rightarrow> MainFailed e
                 | Inr _ \<Rightarrow>
                     let l = launch_of target c data_dir
                     in if target = TargetWindows \<and> service c
                        then (case fst (run_as_windows_service K (dispatcher_answer M) (service_answers M) None l) of
                                Inl e \<Rightarrow> MainFailed (Other e)
                              | Inr reports \<Rightarrow> ServiceEnded reports)
                        else daemon_main target K (lock_answer M) (start_answers M) (start_clock M) l)))"

section \<open>Facts\<close>

text \<open>An agent that serves holds the lock of its data directory and works on the database and the channel in it.\<close>

lemma served_agent:
  assumes "agent_main target K M c = Served svc"
  shows "\<exists>p. lock_answer M (daemon_lock_path target (resolve_data_dir target (main_env M) (cli_data_dir c))) = Inr (Acquired p)
    \<and> svc_ipc_path svc = ipc_path_for_data_dir target (resolve_data_dir target (main_env M) (cli_data_dir c))
    \<and> global_limiter (svc_manager svc) = cli_max_concurrent c"
  using assms
  by (auto simp: agent_main_def daemon_main_def launch_of_def Let_def init_shared_def initial_agent_def new_manager_def
      split: if_splits sum.splits lock_outcome.splits prod.splits)

text \<open>The service reports to the service manager only while it serves; a service that has the channel path of
  the program asks for a lock beside the pipe.\<close>

lemma silent_service_start:
  assumes "service_main_inner K config W = (reports, svc)"
  shows "reports = (if svc = None then [] else [ReportRunning, ReportStopped])"
  using assms
  by (auto simp: service_main_inner_def split: option.splits if_splits sum.splits lock_outcome.splits)

end
