(* ===== verification/Desktop_Setup.thy ===== *)
theory Desktop_Setup
  imports Desktop_Shell
begin

text \<open>
  What the desktop finds out about its machine before it installs the service
  (\<^verbatim>\<open>apps/desktop/src-tauri/src/startup.rs\<close>): the agent's binary, the data directory and whether it can be written;
  and the commands it offers its front end (\<^verbatim>\<open>lib.rs\<close>).
\<close>

section \<open>Binary and data directory of the service\<close>

text \<open>This search is not that of the connection manager: it looks beside the executable and in the resources.\<close>

definition service_binary :: "target_os \<Rightarrow> (string \<Rightarrow> bool) \<Rightarrow> string option \<Rightarrow> string" where
  "service_binary target file_exists current_exe =
     (let bin = bin_name target
      in case current_exe of
           None \<Rightarrow> bin
         | Some exe \<Rightarrow>
             let dir = path_pop target exe
             in (case find file_exists
                        [path_join_name target dir bin,
                         path_join_name target (path_join_name target dir ''../Resources'') bin] of
                   Some p \<Rightarrow> p
                 | None \<Rightarrow> bin))"

definition system_data_dir_for_desktop :: "target_os \<Rightarrow> process_env \<Rightarrow> string" where
  "system_data_dir_for_desktop target V = system_data_dir target V (exe_dir V)"

definition install_from_desktop ::
  "target_os \<Rightarrow> process_env \<Rightarrow> (string \<Rightarrow> bool) \<Rightarrow> string option \<Rightarrow> (elevated_command \<Rightarrow> elevated_run)
   \<Rightarrow> desktop_error + unit" where
  "install_from_desktop target V file_exists current_exe run_command =
     install_service_impl target (service_binary target file_exists current_exe)
       (system_data_dir_for_desktop target V) run_command"

text \<open>\<open>data_dir_writable\<close> writes a probe and removes it, over the files there are.\<close>

record probe_world =
  dir_created :: bool
  probe_written :: bool
  probe_removed :: bool

definition write_probe :: "target_os \<Rightarrow> string \<Rightarrow> string" where
  "write_probe target dir = path_join_name target dir ''.easyjob_write_probe''"

definition data_dir_writable :: "target_os \<Rightarrow> probe_world \<Rightarrow> string \<Rightarrow> string set \<Rightarrow> bool \<times> string set" where
  "data_dir_writable target B dir files =
     (if \<not> dir_created B then (False, files)
      else if probe_written B
      then (True, if probe_removed B then files - {write_probe target dir} else insert (write_probe target dir) files)
      else (False, files))"

definition prepare_data_dir ::
  "target_os \<Rightarrow> process_env \<Rightarrow> probe_world \<Rightarrow> probe_world \<Rightarrow> (elevated_command \<Rightarrow> elevated_run)
   \<Rightarrow> (desktop_error + service_status) \<Rightarrow> string set \<Rightarrow> (desktop_error + service_status) \<times> string set" where
  "prepare_data_dir target V before after run_command st files =
     (let dir = system_data_dir_for_desktop target V;
          (writable, files) = data_dir_writable target before dir files;
          (writable', files') = data_dir_writable target after dir files
      in case prepare_data_dir_impl target dir writable writable' run_command of
           Inl e \<Rightarrow> (Inl e, if e = StillNotWritable then files' else files)
         | Inr _ \<Rightarrow> (st, if writable then files else files'))"

section \<open>The commands\<close>

text \<open>The handlers that \<open>run\<close> registers for the front end.\<close>

definition registered_commands :: "string list" where
  "registered_commands =
     [''get_agent_status'', ''list_tasks'', ''get_task'', ''save_task'', ''delete_task'', ''trigger_task'',
      ''list_executions'', ''get_execution'', ''cancel_execution'', ''get_execution_output'', ''restart_agent'',
      ''service_status'', ''service_install'', ''service_uninstall'', ''prepare_data_dir'', ''get_system_settings'',
      ''save_system_settings'', ''task_overview'', ''reroll_trigger'', ''export_tasks_json'',
      ''reveal_in_file_manager'', ''open_external_url'']"

fun command_name :: "desktop_command \<Rightarrow> string" where
  "command_name GetAgentStatus = ''get_agent_status''"
| "command_name ListTasks = ''list_tasks''"
| "command_name (GetTask _) = ''get_task''"
| "command_name (SaveTaskCommand _) = ''save_task''"
| "command_name (DeleteTaskCommand _) = ''delete_task''"
| "command_name (TriggerTask _) = ''trigger_task''"
| "command_name (ListExecutions _) = ''list_executions''"
| "command_name (GetExecution _) = ''get_execution''"
| "command_name (CancelExecution _) = ''cancel_execution''"
| "command_name (GetExecutionOutput _) = ''get_execution_output''"
| "command_name GetSystemSettings = ''get_system_settings''"
| "command_name (SaveSystemSettings _) = ''save_system_settings''"
| "command_name TaskOverview = ''task_overview''"
| "command_name (RerollTriggerOf _ _) = ''reroll_trigger''"

lemma commands_are_registered: "command_name c \<in> set registered_commands" "distinct registered_commands"
  by (cases c) (simp_all add: registered_commands_def)

section \<open>Facts\<close>

text \<open>A binary that the service installation finds is the one the connection manager spawns, except in the
  build directory of the tests.\<close>

lemma service_and_manager_agree:
  assumes "current_exe = Some exe" and "file_exists (service_binary target file_exists current_exe)"
    and "service_binary target file_exists current_exe \<noteq> bin_name target"
    and "last_component target (path_pop target exe) \<noteq> ''deps''"
  shows "find_agent_binary target file_exists current_exe current_dir = service_binary target file_exists current_exe"
  using assms
  by (simp add: service_binary_def find_agent_binary_def beside_exe_def Let_def split: if_splits)

text \<open>When nothing is found a bare name is registered: launchd is given a program without a directory.\<close>

lemma missing_binary_is_registered:
  assumes "\<And>p. \<not> file_exists p"
  shows "service_binary target file_exists current_exe = bin_name target"
    and "install_from_desktop TargetMacos V file_exists current_exe run_command
      = run_macos_admin (run_command (AppleScript (admin_apple_script (script_bytes
          (macos_install_script MACOS_DAEMON_PLIST_PATH (macos_daemon_plist ''easyjob-agent'' MACOS_SYSTEM_DATA_DIR)
             MACOS_SYSTEM_DATA_DIR)))))"
proof -
  show b: "service_binary target file_exists current_exe = bin_name target" for target
    using assms by (simp add: service_binary_def Let_def split: option.splits)
  show "install_from_desktop TargetMacos V file_exists current_exe run_command
      = run_macos_admin (run_command (AppleScript (admin_apple_script (script_bytes
          (macos_install_script MACOS_DAEMON_PLIST_PATH (macos_daemon_plist ''easyjob-agent'' MACOS_SYSTEM_DATA_DIR)
             MACOS_SYSTEM_DATA_DIR)))))"
    by (simp add: install_from_desktop_def b install_service_impl_def bin_name_def Let_def)
qed

text \<open>The daemon that macOS starts listens where the desktop connects.\<close>

lemma daemon_is_where_the_desktop_looks:
  "ipc_path_for_data_dir TargetMacos MACOS_SYSTEM_DATA_DIR = system_ipc_path TargetMacos V"
  by (simp add: ipc_path_for_data_dir_def system_ipc_path_def system_data_dir_fallback_def MACOS_SYSTEM_DATA_DIR_def)

text \<open>A check that could remove its probe leaves no file behind, and a check that fails changes none.\<close>

lemma probe_leaves_nothing:
  assumes "data_dir_writable target B dir files = (w, files')" and "probe_removed B" and "write_probe target dir \<notin> files"
  shows "files' = files"
  using assms by (auto simp: data_dir_writable_def split: if_splits)

text \<open>Whether the desktop may spawn an agent is decided once: an installation during the session does not
  change it.\<close>

lemma spawning_is_decided_at_the_start:
  "allow_spawn (desktop_start st) \<longleftrightarrow> \<not> installed st"
  by (simp add: desktop_start_def set_allow_spawn_def new_agent_manager_def)

end
