(* ===== verification/Network_Start.thy ===== *)
theory Network_Start
  imports Network_Props
begin

text \<open>
  The watchers of \<^verbatim>\<open>apps/agent/src/network.rs\<close> towards their systems: which objects they create and give back,
  who keeps the state alive that the callbacks of Windows use, and the query of the current SSID.
\<close>

section \<open>macOS\<close>

text \<open>The calls of \<open>MacosNetworkWatcher::start\<close>, of \<open>stop\<close> and of \<open>drop\<close>.\<close>

datatype mac_call =
    CreateMonitor
  | CreateQueue
  | SetQueue
  | SetHandler
  | StartMonitor
  | ClearRunning
  | CancelMonitor
  | ReleaseMonitor
  | ReleaseQueue

definition mac_open :: "mac_call list" where
  "mac_open = [CreateMonitor, CreateQueue, SetQueue, SetHandler, StartMonitor]"

definition mac_stop :: "mac_call list" where
  "mac_stop = [ClearRunning, CancelMonitor]"

definition mac_drop :: "mac_call list" where
  "mac_drop = mac_stop @ [ReleaseMonitor, ReleaseQueue]"

section \<open>The SSID on Windows\<close>

text \<open>The name of an association: its length is cut to the array.\<close>

definition dot11_ssid :: "nat \<Rightarrow> string \<Rightarrow> string option" where
  "dot11_ssid n raw =
     (let len = min n (length raw) in if len > 0 then Some (from_utf8_lossy (take len raw)) else None)"

datatype wlan_call =
    OpenHandle
  | CloseHandle
  | EnumInterfaces
  | FreeList
  | QueryInterface nat
  | FreeData nat

text \<open>
  The interfaces in their order; the answer to the query of one is nothing, or the length and the bytes of a
  name, whose memory is to be freed.
\<close>

fun query_interfaces :: "nat \<Rightarrow> (nat \<times> string) option list \<Rightarrow> wlan_call list \<times> string option" where
  "query_interfaces i [] = ([], None)"
| "query_interfaces i (None # rest) =
     (case query_interfaces (Suc i) rest of (cs, r) \<Rightarrow> (QueryInterface i # cs, r))"
| "query_interfaces i (Some (n, raw) # rest) =
     (case dot11_ssid n raw of
        Some name \<Rightarrow> ([QueryInterface i, FreeData i], Some name)
      | None \<Rightarrow>
          (case query_interfaces (Suc i) rest of (cs, r) \<Rightarrow> (QueryInterface i # FreeData i # cs, r)))"

definition query_current_ssid ::
  "bool \<Rightarrow> (nat \<times> string) option list option \<Rightarrow> wlan_call list \<times> string option" where
  "query_current_ssid opened interfaces =
     (if \<not> opened then ([], None)
      else (case interfaces of
              None \<Rightarrow> ([OpenHandle, CloseHandle], None)
            | Some infos \<Rightarrow>
                (case query_interfaces 0 infos of
                   (cs, r) \<Rightarrow> ([OpenHandle, EnumInterfaces] @ cs @ [FreeList, CloseHandle], r))))"

text \<open>The answer is the first name that is not empty.\<close>

definition answered_name :: "(nat \<times> string) option \<Rightarrow> string option" where
  "answered_name a = Option.bind a (\<lambda>(n, raw). dot11_ssid n raw)"

lemma query_interfaces_first:
  "snd (query_interfaces i infos) = (case List.map_filter answered_name infos of [] \<Rightarrow> None | x # _ \<Rightarrow> Some x)"
  by (induction i infos rule: query_interfaces.induct)
     (auto simp: List.map_filter_simps answered_name_def split: prod.splits option.splits)

lemma ssid_is_the_first_name:
  "snd (query_current_ssid True (Some infos))
     = (case List.map_filter answered_name infos of [] \<Rightarrow> None | x # _ \<Rightarrow> Some x)"
  using query_interfaces_first [of 0 infos]
  by (cases "query_interfaces 0 infos") (simp add: query_current_ssid_def)

text \<open>Whatever the system answers, the handle is closed, the list is freed, and so is the data of every interface
  that returned some.\<close>

lemma queried_range:
  "QueryInterface j \<in> set (fst (query_interfaces i infos)) \<or> FreeData j \<in> set (fst (query_interfaces i infos))
     \<Longrightarrow> i \<le> j \<and> j < i + length infos"
  by (induction i infos rule: query_interfaces.induct) (auto split: prod.splits option.splits)

lemma query_frees_once:
  "count_list (fst (query_interfaces i infos)) (FreeData j)
     = (if QueryInterface j \<in> set (fst (query_interfaces i infos)) \<and> infos ! (j - i) \<noteq> None then 1 else 0)"
proof (induction i infos rule: query_interfaces.induct)
  case (1 i)
  show ?case by simp
next
  case (2 i rest)
  obtain cs r where q: "query_interfaces (Suc i) rest = (cs, r)" by fastforce
  show ?case
  proof (cases "j = i")
    case True
    have "FreeData i \<notin> set cs" using queried_range [of i "Suc i" rest] q by auto
    then have "count_list cs (FreeData i) = 0" by (simp add: count_list_0_iff)
    with True q show ?thesis by simp
  next
    case False
    have "QueryInterface j \<in> set cs \<Longrightarrow> j - i = Suc (j - Suc i)"
      using queried_range [of j "Suc i" rest] q by auto
    with 2 q False show ?thesis by auto
  qed
next
  case (3 i n raw rest)
  show ?case
  proof (cases "dot11_ssid n raw")
    case (Some name)
    then show ?thesis by auto
  next
    case None
    obtain cs r where q: "query_interfaces (Suc i) rest = (cs, r)" by fastforce
    show ?thesis
    proof (cases "j = i")
      case True
      have "FreeData i \<notin> set cs" using queried_range [of i "Suc i" rest] q by auto
      then have "count_list cs (FreeData i) = 0" by (simp add: count_list_0_iff)
      with True q None show ?thesis by simp
    next
      case False
      have "QueryInterface j \<in> set cs \<Longrightarrow> j - i = Suc (j - Suc i)"
        using queried_range [of j "Suc i" rest] q by auto
      with 3 [OF None] q None False show ?thesis by auto
    qed
  qed
qed

lemma query_keeps_handles:
  "c \<in> {OpenHandle, CloseHandle, EnumInterfaces, FreeList} \<Longrightarrow> count_list (fst (query_interfaces i infos)) c = 0"
  by (induction i infos rule: query_interfaces.induct) (auto split: prod.splits option.splits)

lemma ssid_query_is_balanced:
  "count_list (fst (query_current_ssid opened infos)) OpenHandle = count_list (fst (query_current_ssid opened infos)) CloseHandle
    \<and> count_list (fst (query_current_ssid opened infos)) EnumInterfaces = count_list (fst (query_current_ssid opened infos)) FreeList"
proof (cases infos)
  case (Some ans)
  then show ?thesis
    using query_keeps_handles [of _ 0 ans]
    by (cases "query_interfaces 0 ans") (simp add: query_current_ssid_def)
qed (simp add: query_current_ssid_def)

section \<open>Who keeps the state of the Windows watcher alive\<close>

text \<open>
  The strong references to \<open>WatcherState\<close>: one of the watcher, one that the registered interface callback
  leaks, one of the thread that holds the WLAN handle, one of the baseline task.  Both callbacks get a raw
  pointer to the state.
\<close>

datatype wlan_thread = ThreadStarted | ThreadWaiting bool | ThreadEnded

record watch_refs =
  strong_refs :: nat
  ip_registered :: bool
  wlan_thread_at :: wlan_thread
  baseline_runs :: bool
  watcher_held :: bool
  running_flag :: bool

definition start_interface_watch :: "bool \<Rightarrow> watch_refs \<Rightarrow> watch_refs" where
  "start_interface_watch registered s =
     (let s = s\<lparr>strong_refs := strong_refs s + 1\<rparr>
      in if registered then s\<lparr>ip_registered := True\<rparr> else s\<lparr>strong_refs := strong_refs s - 1\<rparr>)"

definition windows_watcher_start :: "bool \<Rightarrow> bool \<Rightarrow> watch_refs" where
  "windows_watcher_start registered has_handle =
     (let s = \<lparr>strong_refs = 1, ip_registered = False, wlan_thread_at = ThreadEnded, baseline_runs = False,
               watcher_held = True, running_flag = True\<rparr>;
          s = start_interface_watch registered s;
          s = s\<lparr>strong_refs := strong_refs s + 1, wlan_thread_at := ThreadStarted\<rparr>
      in if has_handle then s\<lparr>strong_refs := strong_refs s + 1, baseline_runs := True\<rparr> else s)"

text \<open>
  The steps: the thread cannot open the handle and ends, or has it and waits (the flag: whether the
  notification is registered), or sees the end of the watcher and closes the handle; the baseline task ends;
  the watcher is dropped.
\<close>

inductive refs_step :: "watch_refs \<Rightarrow> watch_refs \<Rightarrow> bool" where
  handle_refused: "wlan_thread_at s = ThreadStarted \<Longrightarrow>
     refs_step s (s\<lparr>wlan_thread_at := ThreadEnded, strong_refs := strong_refs s - 1\<rparr>)"
| handle_opened: "wlan_thread_at s = ThreadStarted \<Longrightarrow> refs_step s (s\<lparr>wlan_thread_at := ThreadWaiting ok\<rparr>)"
| handle_closed: "wlan_thread_at s = ThreadWaiting ok \<Longrightarrow> \<not> running_flag s \<Longrightarrow>
     refs_step s (s\<lparr>wlan_thread_at := ThreadEnded, strong_refs := strong_refs s - 1\<rparr>)"
| baseline_ended: "baseline_runs s \<Longrightarrow> refs_step s (s\<lparr>baseline_runs := False, strong_refs := strong_refs s - 1\<rparr>)"
| watcher_dropped: "watcher_held s \<Longrightarrow>
     refs_step s (s\<lparr>watcher_held := False, running_flag := False, strong_refs := strong_refs s - 1\<rparr>)"

inductive refs_reach :: "bool \<Rightarrow> bool \<Rightarrow> watch_refs \<Rightarrow> bool" for registered has_handle where
  refs_start: "refs_reach registered has_handle (windows_watcher_start registered has_handle)"
| refs_next: "refs_reach registered has_handle s \<Longrightarrow> refs_step s s' \<Longrightarrow> refs_reach registered has_handle s'"

definition holders :: "watch_refs \<Rightarrow> nat" where
  "holders s = of_bool (ip_registered s) + of_bool (wlan_thread_at s \<noteq> ThreadEnded) + of_bool (baseline_runs s)
     + of_bool (watcher_held s)"

definition may_call_back :: "watch_refs \<Rightarrow> bool" where
  "may_call_back s \<longleftrightarrow> ip_registered s \<or> wlan_thread_at s = ThreadWaiting True"

lemma refs_counted: "refs_reach registered has_handle s \<Longrightarrow> strong_refs s = holders s \<and> (running_flag s = watcher_held s)"
proof (induction rule: refs_reach.induct)
  case refs_start
  show ?case by (simp add: windows_watcher_start_def start_interface_watch_def holders_def Let_def)
next
  case (refs_next s s')
  from refs_next(2) refs_next.IH show ?case by cases (simp_all add: holders_def)
qed

text \<open>As long as the system may call one of the callbacks of the Windows watcher, the state their raw pointer
  points to is alive; after the watcher, the thread and the baseline task have ended it stays exactly if
  the interface callback is registered, whose reference is leaked on purpose.\<close>

theorem callbacks_have_their_state:
  assumes "refs_reach registered has_handle s"
  shows "(may_call_back s \<longrightarrow> 0 < strong_refs s)
    \<and> (\<not> watcher_held s \<and> wlan_thread_at s = ThreadEnded \<and> \<not> baseline_runs s
         \<longrightarrow> strong_refs s = of_bool (ip_registered s))"
  using refs_counted [OF assms] by (auto simp: holders_def may_call_back_def)

lemma callbacks_have_their_state_witness:
  "\<exists>s. refs_reach True False s \<and> \<not> watcher_held s \<and> strong_refs s = 1"
proof -
  let ?s0 = "windows_watcher_start True False"
  let ?s1 = "?s0\<lparr>wlan_thread_at := ThreadEnded, strong_refs := strong_refs ?s0 - 1\<rparr>"
  let ?s2 = "?s1\<lparr>watcher_held := False, running_flag := False, strong_refs := strong_refs ?s1 - 1\<rparr>"
  have start: "wlan_thread_at ?s0 = ThreadStarted" "watcher_held ?s0" "\<not> baseline_runs ?s0" "ip_registered ?s0"
    by (simp_all add: windows_watcher_start_def start_interface_watch_def Let_def)
  have "refs_reach True False ?s1" by (rule refs_next [OF refs_start handle_refused [OF start(1)]])
  then have r: "refs_reach True False ?s2" by (rule refs_next [OF _ watcher_dropped]) (simp add: start)
  have "\<not> watcher_held ?s2 \<and> wlan_thread_at ?s2 = ThreadEnded \<and> \<not> baseline_runs ?s2" by (simp add: start)
  then have "strong_refs ?s2 = of_bool (ip_registered ?s2)"
    using callbacks_have_their_state [OF r] by blast
  with r start show ?thesis by (intro exI [of _ ?s2]) simp
qed

end
