(* ===== verification/Mac_Delegate.thy ===== *)
theory Mac_Delegate
  imports Desktop_Shell Agent_Main
begin

text \<open>
  The notification delegate of macOS (\<^verbatim>\<open>apps/desktop/src-tauri/src/macos_notification.rs\<close>): the set-up exchanges
  the implementation of \<open>didActivateNotification\<close> in the Objective-C runtime, and the new one calls the old.
\<close>

section \<open>The delegate\<close>

datatype activation = OriginalHandler | SwizzledHandler

record delegate =
  app_handle :: bool
  delegate_set :: bool
  presents_in_front :: bool
  did_activate :: activation
  original_did_activate :: "activation option"

definition fresh_delegate :: delegate where
  "fresh_delegate =
     \<lparr>app_handle = False, delegate_set = False, presents_in_front = False, did_activate = OriginalHandler,
      original_did_activate = None\<rparr>"

text \<open>\<open>should_present\<close> says yes; the runtime has it once \<open>class_addMethod\<close> has added it.\<close>

definition should_present :: bool where
  "should_present = True"

record runtime_world =
  delegate_class :: bool
  center_class :: bool
  method_added :: bool
  method_found :: bool

definition setup_macos_notifications :: "runtime_world \<Rightarrow> delegate \<Rightarrow> delegate" where
  "setup_macos_notifications R d =
     (let d = d\<lparr>app_handle := True\<rparr>
      in if \<not> delegate_class R then d
         else
           let d = (if center_class R then d\<lparr>delegate_set := True\<rparr> else d);
               d = (if method_added R then d\<lparr>presents_in_front := should_present\<rparr> else d)
           in if method_found R
              then d\<lparr>did_activate := SwizzledHandler,
                     original_did_activate := once_set (did_activate d) (original_did_activate d)\<rparr>
              else d)"

section \<open>A click\<close>

text \<open>The handlers a click runs, in order: the new one ends by calling the one that was kept.\<close>

partial_function (option) run_handler :: "delegate \<Rightarrow> activation \<Rightarrow> activation list option" where
  "run_handler d h =
     (case h of
        OriginalHandler \<Rightarrow> Some [OriginalHandler]
      | SwizzledHandler \<Rightarrow>
          (case original_did_activate d of
             None \<Rightarrow> Some [SwizzledHandler]
           | Some g \<Rightarrow> Option.bind (run_handler d g) (\<lambda>hs. Some (SwizzledHandler # hs))))"

text \<open>\<open>swizzled_did_activate\<close> on the application.\<close>

definition swizzled_did_activate :: "delegate \<Rightarrow> shell \<Rightarrow> shell" where
  "swizzled_did_activate d s = (if app_handle d then banner_clicked s else s)"

definition notification_click :: "delegate \<Rightarrow> shell \<Rightarrow> (activation list \<times> shell) option" where
  "notification_click d s =
     (case run_handler d (did_activate d) of
        None \<Rightarrow> None
      | Some hs \<Rightarrow> Some (hs, if SwizzledHandler \<in> set hs then swizzled_did_activate d s else s))"

section \<open>Properties\<close>

definition delegate_ok :: "delegate \<Rightarrow> bool" where
  "delegate_ok d \<longleftrightarrow>
     (case did_activate d of
        OriginalHandler \<Rightarrow> original_did_activate d = None
      | SwizzledHandler \<Rightarrow> original_did_activate d = Some OriginalHandler \<and> app_handle d)"

lemma setup_keeps_ok: "delegate_ok d \<Longrightarrow> delegate_ok (setup_macos_notifications R d)"
  by (auto simp: delegate_ok_def setup_macos_notifications_def once_set_def Let_def split: activation.splits)

lemma setups_ok: "delegate_ok (fold setup_macos_notifications Rs fresh_delegate)"
proof -
  have "delegate_ok (fold setup_macos_notifications Rs d)" if "delegate_ok d" for d
    using that by (induction Rs arbitrary: d) (simp_all add: setup_keeps_ok)
  then show ?thesis by (simp add: delegate_ok_def fresh_delegate_def)
qed

lemma setups_swizzle:
  "did_activate (fold setup_macos_notifications Rs d) = SwizzledHandler \<longleftrightarrow>
     did_activate d = SwizzledHandler \<or> (\<exists>R \<in> set Rs. delegate_class R \<and> method_found R)"
  by (induction Rs arbitrary: d) (auto simp: setup_macos_notifications_def Let_def)

text \<open>However often the set-up runs and whatever the runtime answers, a click on a banner ends: it runs the
  original handler exactly once, after the jump of the application if one of the set-ups found the method.\<close>

theorem banner_click_ends:
  "notification_click (fold setup_macos_notifications Rs fresh_delegate) s =
     Some (if \<exists>R \<in> set Rs. delegate_class R \<and> method_found R
           then ([SwizzledHandler, OriginalHandler], banner_clicked s)
           else ([OriginalHandler], s))"
proof -
  let ?d = "fold setup_macos_notifications Rs fresh_delegate"
  have fresh: "did_activate fresh_delegate \<noteq> SwizzledHandler" by (simp add: fresh_delegate_def)
  show ?thesis
  proof (cases "did_activate ?d")
    case OriginalHandler
    then have "\<not> (\<exists>R \<in> set Rs. delegate_class R \<and> method_found R)"
      using setups_swizzle [of Rs fresh_delegate] by auto
    moreover have "run_handler ?d OriginalHandler = Some [OriginalHandler]" by (subst run_handler.simps) simp
    ultimately show ?thesis using OriginalHandler by (simp add: notification_click_def)
  next
    case SwizzledHandler
    then have "\<exists>R \<in> set Rs. delegate_class R \<and> method_found R"
      using setups_swizzle [of Rs fresh_delegate] fresh by simp
    moreover have ok: "original_did_activate ?d = Some OriginalHandler" "app_handle ?d"
      using setups_ok [of Rs] SwizzledHandler by (simp_all add: delegate_ok_def)
    moreover have "run_handler ?d OriginalHandler = Some [OriginalHandler]" by (subst run_handler.simps) simp
    then have "run_handler ?d SwizzledHandler = Some [SwizzledHandler, OriginalHandler]"
      by (subst run_handler.simps) (simp add: ok)
    ultimately show ?thesis
      using SwizzledHandler by (simp add: notification_click_def swizzled_did_activate_def)
  qed
qed

end
