(* ===== verification/Agent_System.thy ===== *)
theory Agent_System
  imports Fire_To_Run Job_Props Network Service_Start
begin

text \<open>
  The whole agent as one interleaving (\<^verbatim>\<open>apps/agent/src/service.rs\<close> with the scheduler of
  \<^verbatim>\<open>crates/scheduler\<close>): requests, the dispatcher, the network dispatcher, the jobs, the purges and the
  scheduler's loop work on one state, and what one of them does between two \<open>await\<close>s is one step.  The
  handlers of \<open>Agent\<close> and the jobs of \<open>Job_Run\<close> are the schedules in which nothing comes between.
\<close>

section \<open>State\<close>

text \<open>Where a run comes from: an event the dispatcher took, or a request for \<open>task.trigger_now\<close>.\<close>

datatype origin = Fired trigger_event | ByHand request_world

text \<open>
  Where a job stands, with the values of its local variables: the execution record, the position in the list of
  actions, the exit code, the result of the action whose output is being stored, and the verdict.
\<close>

datatype run_stage =
    Permitted
  | Slotted
  | Created execution
  | Acting execution nat "int option"
  | WritingOut execution nat run_result
  | WritingErr execution nat run_result
  | Concluded execution execution_status "int option" "string option"
  | Reported execution
  | Removed execution
  | Freed
  | Ended

text \<open>
  A job, with what it did so far: the identifier of its run, the results of its actions, the output it
  broadcast, whether storing some of it failed, and whether recording the verdict failed.
\<close>

record run_job =
  job_origin :: origin
  its_task :: task
  at_stage :: run_stage
  its_run :: "execution_id option"
  results :: "(error + run_result) list"
  emitted :: "(string \<times> string) list"
  append_failed :: bool
  unrecorded :: bool

text \<open>
  The state of the agent: what its parts share, the scheduler, how much of the commands and of the scheduler's
  events was taken, the tasks that were looked up and have no permit yet, the jobs, the commands of requests
  that are still to be sent, the purges under way, and the identifiers of all executions so far.
\<close>

record agent_system =
  shared :: agent
  scheduler :: sched
  commands_taken :: nat
  events_taken :: nat
  lookups :: "(origin \<times> task) list"
  running :: "run_job list"
  sending :: "sched_command list"
  purging :: "task list"
  used_ids :: "execution_id list"

definition started_system :: "readings \<Rightarrow> agent \<Rightarrow> agent_system" where
  "started_system orc a =
     \<lparr>shared = a, scheduler = initial_sched orc, commands_taken = 0, events_taken = 0, lookups = [],
      running = [], sending = [], purging = [], used_ids = map run_id (runs (agent_db a))\<rparr>"

definition without_nth :: "nat \<Rightarrow> 'a list \<Rightarrow> 'a list" where
  "without_nth i xs = take i xs @ drop (Suc i) xs"

section \<open>Looking a task up\<close>

definition look_up :: "codec \<Rightarrow> request_world \<Rightarrow> origin \<Rightarrow> task_id \<Rightarrow> agent_system \<Rightarrow> agent_system" where
  "look_up K W orig t s =
     (case find_task_by_id K (db_faults W 0) (now_at W 0) t (agent_db (shared s)) of
        Inr (Some task) \<Rightarrow> s\<lparr>lookups := lookups s @ [(orig, task)]\<rparr>
      | _ \<Rightarrow> s)"

definition new_job :: "origin \<Rightarrow> task \<Rightarrow> run_job" where
  "new_job orig task =
     \<lparr>job_origin = orig, its_task = task, at_stage = Permitted, its_run = None, results = [], emitted = [],
      append_failed = False, unrecorded = False\<rparr>"

text \<open>\<open>try_acquire_owned\<close> for the task found; without a permit the event or the request ends.\<close>

definition take_permit :: "nat \<Rightarrow> agent_system \<Rightarrow> agent_system" where
  "take_permit i s =
     (case lookups s ! i of (orig, task) \<Rightarrow>
        (case try_acquire_owned (agent_manager (shared s)) of
           (False, _) \<Rightarrow> s\<lparr>lookups := without_nth i (lookups s)\<rparr>
         | (True, m) \<Rightarrow>
             s\<lparr>shared := (shared s)\<lparr>agent_manager := m\<rparr>, lookups := without_nth i (lookups s),
               running := running s @ [new_job orig task]\<rparr>))"

section \<open>The steps of a job\<close>

text \<open>The slot, or the permit back.  The dispatcher spawns its job here, the request when it is announced.\<close>

definition take_slot :: "run_job \<Rightarrow> agent \<Rightarrow> run_job \<times> agent" where
  "take_slot j a =
     (let t = its_task j
      in case try_acquire_slot (task_id t) (concurrency_policy (execution_policy t)) (agent_manager a) of
           (False, m) \<Rightarrow> (j\<lparr>at_stage := Ended\<rparr>, a\<lparr>agent_manager := drop_permit m\<rparr>)
         | (True, m) \<Rightarrow>
             (j\<lparr>at_stage := Slotted\<rparr>,
              a\<lparr>agent_manager := m,
                agent_jobs := agent_jobs a
                  @ (case job_origin j of Fired ev \<Rightarrow> [ScheduledJob t ev] | ByHand W \<Rightarrow> [])\<rparr>))"

text \<open>The identifier of a run is drawn when its record is made, also that of a manual run.\<close>

definition fresh_run :: "job_world \<Rightarrow> run_job \<Rightarrow> execution" where
  "fresh_run w j =
     (case job_origin j of
        Fired ev \<Rightarrow> new_run w (its_task j) (ev_trigger_id ev) (Some (ev_scheduled_at ev))
      | ByHand W \<Rightarrow> manual_run (W\<lparr>new_execution_id := fresh_execution w\<rparr>) (its_task j))"

definition create_record :: "codec \<Rightarrow> job_world \<Rightarrow> run_job \<Rightarrow> agent \<Rightarrow> run_job \<times> agent" where
  "create_record K w j a =
     (let e = fresh_run w j;
          f = (case job_origin j of Fired ev \<Rightarrow> create_faults w | ByHand W \<Rightarrow> db_faults W 1)
      in case create_run K f e (agent_db a) of
           (Inl err, d) \<Rightarrow>
             (j\<lparr>at_stage := Freed\<rparr>,
              a\<lparr>agent_db := d, agent_manager := release_slot (task_id (its_task j)) (agent_manager a)\<rparr>)
         | (Inr _, d) \<Rightarrow> (j\<lparr>at_stage := Created e, its_run := Some (execution_id e)\<rparr>, a\<lparr>agent_db := d\<rparr>))"

definition announce_run :: "execution \<Rightarrow> run_job \<Rightarrow> agent \<Rightarrow> run_job \<times> agent" where
  "announce_run e j a =
     (j\<lparr>at_stage := Acting e 0 (Some 0)\<rparr>,
      a\<lparr>agent_active := AList.update (execution_id e) False (agent_active a),
        agent_events := agent_events a @ [started_event e],
        agent_jobs := agent_jobs a
          @ (case job_origin j of Fired ev \<Rightarrow> [] | ByHand W \<Rightarrow> [ManualJob (its_task j) e])\<rparr>)"

text \<open>The loop over the actions: the end, a disabled action, or the result of its child.\<close>

definition next_action ::
  "platform \<Rightarrow> job_world \<Rightarrow> execution \<Rightarrow> nat \<Rightarrow> int option \<Rightarrow> run_job \<Rightarrow> run_job" where
  "next_action P w e k code j =
     (if length (actions (its_task j)) \<le> k then j\<lparr>at_stage := Concluded e Succeeded code None\<rparr>
      else let act = actions (its_task j) ! k
           in if \<not> action_enabled act then j\<lparr>at_stage := Acting e (Suc k) code\<rparr>
              else let res = fst (run_action P (child_at w k) act
                               (timeout_secs (execution_policy (its_task j))))
                   in (case res of
                         Inr r \<Rightarrow> j\<lparr>at_stage := WritingOut e k r, results := results j @ [res]\<rparr>
                       | Inl err \<Rightarrow>
                           j\<lparr>at_stage := Concluded e Failed code (Some (error_to_string err)),
                             results := results j @ [res]\<rparr>))"

definition write_output ::
  "codec \<Rightarrow> faults \<Rightarrow> instant \<Rightarrow> execution \<Rightarrow> string \<Rightarrow> string \<Rightarrow> run_job \<Rightarrow> agent \<Rightarrow> run_job \<times> agent" where
  "write_output K f now e strm out j a =
     (if out = [] then (j, a)
      else (case append_output K f now (execution_id e) strm out (agent_db a) of
              (r, d) \<Rightarrow>
                (j\<lparr>emitted := emitted j @ [(strm, out)], append_failed := append_failed j \<or> isl r\<rparr>,
                 a\<lparr>agent_db := d, agent_events := agent_events a @ [output_event e strm out]\<rparr>)))"

definition write_stdout ::
  "codec \<Rightarrow> job_world \<Rightarrow> execution \<Rightarrow> nat \<Rightarrow> run_result \<Rightarrow> run_job \<Rightarrow> agent \<Rightarrow> run_job \<times> agent" where
  "write_stdout K w e k r j a =
     (case write_output K (output_faults w (2 * k)) (output_time w (2 * k)) e ''stdout'' (result_stdout r) j a of
        (j, a) \<Rightarrow> (j\<lparr>at_stage := WritingErr e k r\<rparr>, a))"

definition write_stderr ::
  "codec \<Rightarrow> job_world \<Rightarrow> execution \<Rightarrow> nat \<Rightarrow> run_result \<Rightarrow> run_job \<Rightarrow> agent \<Rightarrow> run_job \<times> agent" where
  "write_stderr K w e k r j a =
     (case write_output K (output_faults w (2 * k + 1)) (output_time w (2 * k + 1)) e ''stderr''
             (result_stderr r) j a of
        (j, a) \<Rightarrow>
          (j\<lparr>at_stage := (if result_status r \<noteq> Succeeded
                          then Concluded e (result_status r) (result_exit_code r) (result_error r)
                          else Acting e (Suc k) (result_exit_code r))\<rparr>, a))"

text \<open>The verdict is recorded and the end broadcast; a failed \<open>update_run\<close> is only logged.\<close>

definition record_end ::
  "codec \<Rightarrow> job_world \<Rightarrow> execution \<Rightarrow> execution_status \<Rightarrow> int option \<Rightarrow> string option \<Rightarrow> run_job \<Rightarrow> agent
   \<Rightarrow> run_job \<times> agent" where
  "record_end K w e st code err j a =
     (let finished = finish_run w \<lparr>loop_db = agent_db a, loop_events = [], final_status = st,
                                   final_exit_code = code, final_error = err\<rparr> e;
          duration = (case duration_ms finished of Some n \<Rightarrow> n | None \<Rightarrow> 0)
      in case update_run K (update_faults w) finished (agent_db a) of
           (r, d) \<Rightarrow>
             (j\<lparr>at_stage := Reported e, unrecorded := isl r\<rparr>,
              a\<lparr>agent_db := d,
                agent_events := agent_events a @ [finished_event (its_task j) finished duration]\<rparr>))"

definition remove_active :: "execution \<Rightarrow> run_job \<Rightarrow> agent \<Rightarrow> run_job \<times> agent" where
  "remove_active e j a =
     (j\<lparr>at_stage := Removed e\<rparr>, a\<lparr>agent_active := AList.delete (execution_id e) (agent_active a)\<rparr>)"

definition free_slot :: "run_job \<Rightarrow> agent \<Rightarrow> run_job \<times> agent" where
  "free_slot j a =
     (j\<lparr>at_stage := Freed\<rparr>, a\<lparr>agent_manager := release_slot (task_id (its_task j)) (agent_manager a)\<rparr>)"

definition end_job :: "run_job \<Rightarrow> agent \<Rightarrow> run_job \<times> agent" where
  "end_job j a = (j\<lparr>at_stage := Ended\<rparr>, a\<lparr>agent_manager := drop_permit (agent_manager a)\<rparr>)"

definition job_move :: "codec \<Rightarrow> platform \<Rightarrow> job_world \<Rightarrow> run_job \<Rightarrow> agent \<Rightarrow> run_job \<times> agent" where
  "job_move K P w j a =
     (case at_stage j of
        Permitted \<Rightarrow> take_slot j a
      | Slotted \<Rightarrow> create_record K w j a
      | Created e \<Rightarrow> announce_run e j a
      | Acting e k code \<Rightarrow> (next_action P w e k code j, a)
      | WritingOut e k r \<Rightarrow> write_stdout K w e k r j a
      | WritingErr e k r \<Rightarrow> write_stderr K w e k r j a
      | Concluded e st code err \<Rightarrow> record_end K w e st code err j a
      | Reported e \<Rightarrow> remove_active e j a
      | Removed e \<Rightarrow> free_slot j a
      | Freed \<Rightarrow> end_job j a
      | Ended \<Rightarrow> (j, a))"

text \<open>The step of one job in the whole; the one that records its end spawns the purge.\<close>

fun is_concluded :: "run_stage \<Rightarrow> bool" where
  "is_concluded (Concluded e st code err) = True"
| "is_concluded _ = False"

definition advance :: "codec \<Rightarrow> platform \<Rightarrow> job_world \<Rightarrow> nat \<Rightarrow> agent_system \<Rightarrow> agent_system" where
  "advance K P w i s =
     (let j = running s ! i
      in case job_move K P w j (shared s) of
           (j', a) \<Rightarrow>
             s\<lparr>shared := a, running := (running s)[i := j'],
               purging := purging s @ (if is_concluded (at_stage j) then [its_task j] else []),
               used_ids := used_ids s
                 @ (case at_stage j of
                      Slotted \<Rightarrow> (case its_run j' of Some x \<Rightarrow> [x] | None \<Rightarrow> [])
                    | _ \<Rightarrow> [])\<rparr>)"

text \<open>An identifier of a run that was never used (\<open>Uuid::new_v4\<close>).\<close>

definition fresh_for :: "job_world \<Rightarrow> nat \<Rightarrow> agent_system \<Rightarrow> bool" where
  "fresh_for w i s \<longleftrightarrow>
     (at_stage (running s ! i) = Slotted \<longrightarrow> execution_id (fresh_run w (running s ! i)) \<notin> set (used_ids s))"

section \<open>Requests, purges, the scheduler\<close>

text \<open>
  The requests that wait between two changes of the shared state are taken apart: \<open>task.save\<close> and
  \<open>task.delete\<close> send their command later, \<open>task.trigger_now\<close> goes on as a job.
\<close>

definition delete_in_store :: "serde \<Rightarrow> request_world \<Rightarrow> ipc_request \<Rightarrow> agent_system \<Rightarrow> agent_system" where
  "delete_in_store S W req s =
     (case task_id_param S (pick_param ''id'' (request_params req)) of
        Inl e \<Rightarrow> s
      | Inr t \<Rightarrow>
          (case delete_task (db_faults W 0) t (agent_db (shared s)) of
             (Inr _, d) \<Rightarrow>
               s\<lparr>shared := (shared s)\<lparr>agent_db := d\<rparr>, sending := sending s @ [RemoveTask t]\<rparr>
           | (Inl e, d) \<Rightarrow> s\<lparr>shared := (shared s)\<lparr>agent_db := d\<rparr>\<rparr>))"

definition begin_request ::
  "codec \<Rightarrow> serde \<Rightarrow> request_world \<Rightarrow> ipc_request \<Rightarrow> agent_system \<Rightarrow> agent_system" where
  "begin_request K S W req s =
     (if request_method req = ''task.save'' then
        (case save_in_store K S W req (shared s) of
           (Inl e, a) \<Rightarrow> s\<lparr>shared := a\<rparr>
         | (Inr t, a) \<Rightarrow> s\<lparr>shared := a, sending := sending s @ [AddTask t]\<rparr>)
      else if request_method req = ''task.delete'' then delete_in_store S W req s
      else if request_method req = ''task.trigger_now'' then
        (case task_id_param S (pick_param ''id'' (request_params req)) of
           Inl e \<Rightarrow> s
         | Inr t \<Rightarrow> look_up K W (ByHand W) t s)
      else s\<lparr>shared := snd (handle_request K S W req (shared s))\<rparr>)"

definition send_pending :: "request_world \<Rightarrow> nat \<Rightarrow> agent_system \<Rightarrow> agent_system" where
  "send_pending W i s =
     s\<lparr>shared := send_command W (sending s ! i) (shared s), sending := without_nth i (sending s)\<rparr>"

definition purge ::
  "codec \<Rightarrow> chrono_env \<Rightarrow> faults \<Rightarrow> faults \<Rightarrow> instant \<Rightarrow> nat \<Rightarrow> agent_system \<Rightarrow> agent_system" where
  "purge K E f g now i s =
     (case trigger_log_retention_purge K E f g now (purging s ! i) (agent_db (shared s)) of
        Ret d \<Rightarrow> s\<lparr>shared := (shared s)\<lparr>agent_db := d\<rparr>, purging := without_nth i (purging s)\<rparr>
      | Panic \<Rightarrow> s\<lparr>purging := without_nth i (purging s)\<rparr>)"

text \<open>The dispatcher takes the next event when it has spawned or skipped the last one.\<close>

fun from_event :: "origin \<Rightarrow> bool" where
  "from_event (Fired ev) = True"
| "from_event (ByHand W) = False"

definition dispatcher_waits :: "agent_system \<Rightarrow> bool" where
  "dispatcher_waits s \<longleftrightarrow>
     list_all (\<lambda>(orig, t). \<not> from_event orig) (lookups s)
     \<and> list_all (\<lambda>j. from_event (job_origin j) \<longrightarrow> at_stage j \<noteq> Permitted) (running s)"

definition take_event :: "codec \<Rightarrow> request_world \<Rightarrow> agent_system \<Rightarrow> agent_system" where
  "take_event K W s =
     (let ev = events (scheduler s) ! events_taken s
      in look_up K W (Fired ev) (ev_task_id ev) (s\<lparr>events_taken := Suc (events_taken s)\<rparr>))"

section \<open>The interleaving\<close>

inductive agent_step ::
  "codec \<Rightarrow> serde \<Rightarrow> chrono_env \<Rightarrow> platform \<Rightarrow> agent_system \<Rightarrow> agent_system \<Rightarrow> bool"
  for K :: codec and S :: serde and E :: chrono_env and P :: platform where
  requested: "agent_step K S E P s (begin_request K S W req s)"
| sent: "i < length (sending s) \<Longrightarrow> agent_step K S E P s (send_pending W i s)"
| network: "agent_step K S E P s
     (s\<lparr>sending := sending s @ dispatch_network_event K f now ev (agent_db (shared s))\<rparr>)"
| commanded: "commands_taken s < length (agent_commands (shared s)) \<Longrightarrow>
     inp = sched_input.Received (agent_commands (shared s) ! commands_taken s) \<Longrightarrow>
     enabled_input inp (scheduler s) \<Longrightarrow> sched_turn E orc inp (scheduler s) = Ret sc \<Longrightarrow>
     agent_step K S E P s (s\<lparr>scheduler := sc, commands_taken := Suc (commands_taken s)\<rparr>)"
| timed: "inp = TimerElapsed \<or> inp = ClockTick \<Longrightarrow> enabled_input inp (scheduler s) \<Longrightarrow>
     sched_turn E orc inp (scheduler s) = Ret sc \<Longrightarrow> agent_step K S E P s (s\<lparr>scheduler := sc\<rparr>)"
| fired: "events_taken s < length (events (scheduler s)) \<Longrightarrow> dispatcher_waits s \<Longrightarrow>
     agent_step K S E P s (take_event K W s)"
| permitted: "i < length (lookups s) \<Longrightarrow> agent_step K S E P s (take_permit i s)"
| moved: "i < length (running s) \<Longrightarrow> at_stage (running s ! i) \<noteq> Ended \<Longrightarrow> fresh_for w i s \<Longrightarrow>
     agent_step K S E P s (advance K P w i s)"
| purged: "i < length (purging s) \<Longrightarrow> agent_step K S E P s (purge K E f g now i s)"

text \<open>
  What an agent reaches that starts on a database with \<open>n\<close> permits, as \<open>init_shared\<close> leaves it: the opened
  database satisfies the constraints of its schema, and the triggers it holds decode to their own identifiers.
\<close>

definition rows_coded :: "codec \<Rightarrow> db \<Rightarrow> bool" where
  "rows_coded K d \<longleftrightarrow>
     list_all (\<lambda>r. case dec_trigger K (trow_config_json r) of Inr tr \<Rightarrow> trigger_id tr = trow_id r | Inl _ \<Rightarrow> True)
       (trigger_rows d)"

inductive agent_reaches ::
  "codec \<Rightarrow> serde \<Rightarrow> chrono_env \<Rightarrow> platform \<Rightarrow> nat \<Rightarrow> agent_system \<Rightarrow> bool"
  for K :: codec and S :: serde and E :: chrono_env and P :: platform and n :: nat where
  agent_start: "init_shared target K W now url ipc n sock = (Inr svc, d) \<Longrightarrow> db_ok (svc_db svc) \<Longrightarrow>
     rows_coded K (svc_db svc) \<Longrightarrow> agent_reaches K S E P n (started_system orc (svc_agent svc))"
| agent_next: "agent_reaches K S E P n s \<Longrightarrow> agent_step K S E P s s' \<Longrightarrow> agent_reaches K S E P n s'"

end
