(* ===== verification/Agent_System_Jobs.thy ===== *)
theory Agent_System_Jobs
  imports Agent_System
begin

text \<open>
  The jobs of the whole agent (\<open>Agent_System\<close>) are those of \<open>Job_System\<close>: what requests, dispatcher, network,
  scheduler and purges do between the steps of a job leaves permits, slots and registrations alone.
\<close>

section \<open>What steps outside the jobs leave alone\<close>

definition taken_apart :: "ipc_request \<Rightarrow> bool" where
  "taken_apart req \<longleftrightarrow>
     request_method req \<in> {''task.save'', ''task.delete'', ''task.trigger_now''}"

text \<open>The commands that follow a change of the stored tasks.\<close>

fun changes_tasks :: "sched_command \<Rightarrow> bool" where
  "changes_tasks (AddTask t) = True"
| "changes_tasks (RemoveTask t) = True"
| "changes_tasks _ = False"

text \<open>A request that is one step changes at most the settings, a cancelled token, the commands, the shutdown.\<close>

definition aside :: "codec \<Rightarrow> agent \<Rightarrow> agent \<Rightarrow> bool" where
  "aside K a a' \<longleftrightarrow>
     agent_manager a' = agent_manager a \<and> map fst (agent_active a') = map fst (agent_active a)
     \<and> agent_jobs a' = agent_jobs a \<and> agent_events a' = agent_events a
     \<and> (agent_db a' = agent_db a
        \<or> (\<exists>f now x r. save_system_settings K f now x (agent_db a) = (r, agent_db a')))
     \<and> (\<exists>cs. agent_commands a' = agent_commands a @ cs \<and> list_all (\<lambda>c. \<not> changes_tasks c) cs)"

lemma aside_refl [simp]: "aside K a a"
  by (simp add: aside_def)

lemma aside_if: "(c \<Longrightarrow> aside K a (snd x)) \<Longrightarrow> (\<not> c \<Longrightarrow> aside K a (snd y)) \<Longrightarrow> aside K a (snd (if c then x else y))"
  by simp

lemma aside_settings: "aside K a (snd (handle_settings_set K S W req a))"
  by (auto simp: aside_def handle_settings_set_def split: sum.splits prod.splits)

lemma aside_shutdown: "aside K a (snd (handle_shutdown req a))"
  by (simp add: aside_def handle_shutdown_def)

lemma aside_cancel: "aside K a (snd (handle_execution_cancel S req a))"
  by (auto simp: aside_def handle_execution_cancel_def update_keys split: sum.splits option.splits
      dest!: map_of_SomeD intro: rev_image_eqI)

lemma aside_reroll: "aside K a (snd (handle_trigger_reroll S W req a))"
  by (auto simp: aside_def handle_trigger_reroll_def send_command_def split: sum.splits option.splits)

lemma aside_read: "snd x = a \<Longrightarrow> aside K a (snd x)"
  by simp

lemma plain_request: "\<not> taken_apart req \<Longrightarrow> aside K a (snd (handle_request K S W req a))"
  unfolding handle_request_def Let_def taken_apart_def
  by (intro aside_if) (simp_all add: aside_settings aside_shutdown aside_cancel aside_reroll aside_read read_handlers)

text \<open>Permits, slots, registrations and jobs, which only the steps of jobs change.\<close>

definition same_jobs :: "agent_system \<Rightarrow> agent_system \<Rightarrow> bool" where
  "same_jobs s s' \<longleftrightarrow> running s' = running s \<and> agent_manager (shared s') = agent_manager (shared s)
     \<and> map fst (agent_active (shared s')) = map fst (agent_active (shared s)) \<and> used_ids s' = used_ids s"

lemma look_up_jobs: "same_jobs s (look_up K W orig t s)"
  by (auto simp: same_jobs_def look_up_def split: sum.splits option.splits)

lemma look_up_shared [simp]:
  "shared (look_up K W orig t s) = shared s" "scheduler (look_up K W orig t s) = scheduler s"
  "sending (look_up K W orig t s) = sending s" "commands_taken (look_up K W orig t s) = commands_taken s"
  "running (look_up K W orig t s) = running s" "used_ids (look_up K W orig t s) = used_ids s"
  "purging (look_up K W orig t s) = purging s"
  by (auto simp: look_up_def split: sum.splits option.splits)

lemma request_jobs: "same_jobs s (begin_request K S W req s)"
  using plain_request [of req K "shared s" S W] look_up_jobs
  by (auto simp: begin_request_def taken_apart_def same_jobs_def aside_def save_in_store_def delete_in_store_def
      split: sum.splits prod.splits)

lemma other_steps_jobs:
  "same_jobs s (send_pending W i s)" "same_jobs s (take_event K W s)" "same_jobs s (purge K E f g now i s)"
  by (auto simp: same_jobs_def send_pending_def send_command_def take_event_def purge_def Let_def
      split: outcome.splits)

text \<open>
  The runs such a step keeps: all but dead ones, whose output goes with them.  A run that is recorded as running
  dies with its task only.
\<close>

definition rows_kept :: "db \<Rightarrow> db \<Rightarrow> bool" where
  "rows_kept d d' \<longleftrightarrow> (db_ok d \<longrightarrow> db_ok d') \<and>
     (\<exists>dead. runs d' = filter (\<lambda>r. \<not> dead r) (runs d)
        \<and> outputs d' = filter (\<lambda>x. out_run_id x \<notin> run_id ` {r \<in> set (runs d). dead r}) (outputs d)
        \<and> (\<forall>r \<in> set (runs d). dead r \<longrightarrow>
             run_status r \<noteq> status_json Running \<or> run_task_id r \<notin> row_task_id ` set (tasks d')))"

lemma rows_kept_same: "runs d' = runs d \<Longrightarrow> outputs d' = outputs d \<Longrightarrow> (db_ok d \<Longrightarrow> db_ok d') \<Longrightarrow> rows_kept d d'"
  unfolding rows_kept_def by (intro conjI impI exI [of _ "\<lambda>_. False"]) auto

lemma rows_kept_refl [simp]: "rows_kept d d"
  by (rule rows_kept_same) simp_all

lemma settings_rows_only:
  "save_system_settings K f now x d = (r, d') \<Longrightarrow> runs d' = runs d \<and> outputs d' = outputs d"
  by (auto simp: save_system_settings_def Let_def split: sum.splits)

lemma kept_settings: "save_system_settings K f now x d = (r, d') \<Longrightarrow> rows_kept d d'"
  by (rule rows_kept_same) (simp_all add: settings_rows_only save_settings_db_ok)

lemma kept_save:
  assumes s: "save_task K f t d = (r, d')" shows "rows_kept d d'"
proof (cases r)
  case (Inl e)
  with s have "d' = d" by (simp add: save_task_Inl)
  then show ?thesis by simp
next
  case (Inr u)
  with s have "save_task K f t d = (Inr (), d')" by simp
  from save_task_ok [OF this] have "runs d' = runs d" "outputs d' = outputs d" by auto
  then show ?thesis by (rule rows_kept_same) (rule save_task_db_ok [OF _ s])
qed

lemma kept_delete:
  assumes s: "delete_task f t d = (r, d')" shows "rows_kept d d'"
proof (cases r)
  case (Inl e)
  with s have "d' = d" by (metis delete_task_Inl)
  then show ?thesis by simp
next
  case (Inr u)
  with s have ok: "delete_task f t d = (Inr (), d')" by simp
  show ?thesis
    unfolding rows_kept_def delete_task_ok [OF ok]
    by (intro conjI impI exI [of _ "\<lambda>r. run_task_id r = t"] refl ballI)
       (auto intro: delete_task_db_ok [OF _ s])
qed

lemma kept_purge: "trigger_log_retention_purge K E f g now t d = Ret d' \<Longrightarrow> rows_kept d d'"
proof (cases "retention_days K f t d")
  case None
  moreover assume "trigger_log_retention_purge K E f g now t d = Ret d'"
  ultimately show ?thesis by (simp add: trigger_log_retention_purge_def)
next
  case (Some days)
  moreover assume "trigger_log_retention_purge K E f g now t d = Ret d'"
  ultimately obtain cutoff where d': "d' = snd (purge_expired_runs K g (task_id t) cutoff d)"
    by (auto simp: trigger_log_retention_purge_def outcome_simps)
  then obtain r where s: "purge_expired_runs K g (task_id t) cutoff d = (r, d')" by (metis surjective_pairing)
  show ?thesis
  proof (cases r)
    case (Inl e)
    with s show ?thesis by (auto simp: purge_expired_runs_def split: sum.splits)
  next
    case (Inr u)
    with s have c: "d' = cascade_runs (expired K (task_id t) cutoff) d"
      by (auto simp: purge_expired_runs_def split: sum.splits)
    have "db_ok d \<longrightarrow> db_ok d'" using purge_db_ok [OF _ s] by simp
    then show ?thesis
      unfolding rows_kept_def
      by (intro conjI exI [of _ "expired K (task_id t) cutoff"] ballI)
         (auto simp: c cascade_runs_def Let_def expired_def status_json_def)
  qed
qed

section \<open>The jobs as stages\<close>

fun stage_of :: "task \<Rightarrow> run_stage \<Rightarrow> stage" where
  "stage_of t Permitted = HasPermit (task_id t) (concurrency_policy (execution_policy t))"
| "stage_of t Slotted = HasSlot (task_id t)"
| "stage_of t (Created e) = HasSlot (task_id t)"
| "stage_of t (Acting e k code) = Registered (task_id t) (execution_id e)"
| "stage_of t (WritingOut e k r) = Registered (task_id t) (execution_id e)"
| "stage_of t (WritingErr e k r) = Registered (task_id t) (execution_id e)"
| "stage_of t (Concluded e st code err) = Registered (task_id t) (execution_id e)"
| "stage_of t (Reported e) = Registered (task_id t) (execution_id e)"
| "stage_of t (Removed e) = Unregistered (task_id t) (execution_id e)"
| "stage_of t Freed = SlotFreed (task_id t)"
| "stage_of t Ended = Over"

definition job_stage :: "run_job \<Rightarrow> stage" where
  "job_stage j = stage_of (its_task j) (at_stage j)"

definition job_view :: "agent_system \<Rightarrow> job_system \<Rightarrow> bool" where
  "job_view s js \<longleftrightarrow> manager js = agent_manager (shared s)
     \<and> map fst (active_executions js) = map fst (agent_active (shared s))
     \<and> jobs js = map job_stage (running s)"

lemma job_view_same: "same_jobs s s' \<Longrightarrow> job_view s js \<Longrightarrow> job_view s' js"
  by (simp add: same_jobs_def job_view_def)

lemma keys_update: "map fst xs = map fst ys \<Longrightarrow> map fst (AList.update k u xs) = map fst (AList.update k v ys)"
  by (simp only: update_keys)

lemma keys_delete:
  fixes xs :: "('a \<times> 'b) list" and ys :: "('a \<times> 'c) list"
  shows "map fst xs = map fst ys \<Longrightarrow> map fst (AList.delete k xs) = map fst (AList.delete k ys)"
proof (induction xs arbitrary: ys)
  case Nil
  then show ?case by simp
next
  case (Cons x xs)
  then obtain y ys' where "ys = y # ys'" "fst x = fst y" "map fst xs = map fst ys'" by (cases ys) auto
  with Cons.IH [of ys'] show ?case by (cases x; cases y) (auto simp: AList.delete_eq)
qed

lemma write_output_fields [simp]:
  "its_task (fst (write_output K f now e strm out j a)) = its_task j"
  "its_run (fst (write_output K f now e strm out j a)) = its_run j"
  "results (fst (write_output K f now e strm out j a)) = results j"
  "unrecorded (fst (write_output K f now e strm out j a)) = unrecorded j"
  "at_stage (fst (write_output K f now e strm out j a)) = at_stage j"
  "agent_manager (snd (write_output K f now e strm out j a)) = agent_manager a"
  "agent_active (snd (write_output K f now e strm out j a)) = agent_active a"
  "agent_commands (snd (write_output K f now e strm out j a)) = agent_commands a"
  by (simp_all add: write_output_def split: prod.splits)

lemma take_permit_cases:
  assumes "i < length (lookups s)"
  obtains (none) "same_jobs s (take_permit i s)" and "agent_db (shared (take_permit i s)) = agent_db (shared s)"
  | (taken) orig task m where "try_acquire_owned (agent_manager (shared s)) = (True, m)"
      "lookups s ! i = (orig, task)"
      "take_permit i s = s\<lparr>shared := (shared s)\<lparr>agent_manager := m\<rparr>, lookups := without_nth i (lookups s),
               running := running s @ [new_job orig task]\<rparr>"
proof -
  obtain orig task where l: "lookups s ! i = (orig, task)" by fastforce
  obtain b m where p: "try_acquire_owned (agent_manager (shared s)) = (b, m)" by fastforce
  show thesis
    by (cases b) (use l p in \<open>auto simp: take_permit_def same_jobs_def intro: none taken\<close>)
qed

lemma permit_view:
  assumes "i < length (lookups s)" and "job_view s js"
  shows "\<exists>js'. job_step\<^sup>*\<^sup>* js js' \<and> job_view (take_permit i s) js'"
  using assms(1)
proof (cases rule: take_permit_cases)
  case none
  with assms(2) show ?thesis by (meson job_view_same rtranclp.rtrancl_refl)
next
  case (taken orig task m)
  have "try_acquire_owned (manager js) = (True, m)" using taken(1) assms(2) by (simp add: job_view_def)
  from job_step.permit [OF this]
  have "job_step js (js\<lparr>manager := m, jobs := jobs js @ [job_stage (new_job orig task)]\<rparr>)"
    by (simp add: job_stage_def new_job_def)
  moreover have "job_view (take_permit i s) (js\<lparr>manager := m, jobs := jobs js @ [job_stage (new_job orig task)]\<rparr>)"
    using assms(2) taken(3) by (simp add: job_view_def)
  ultimately show ?thesis by blast
qed

text \<open>A job that keeps its stage, its permit, its slot and its registration is not seen.\<close>

lemma hidden_move:
  assumes "job_view s js" and "i < length (running s)"
    and "job_move K P w (running s ! i) (shared s) = (j', a)"
    and "job_stage j' = job_stage (running s ! i)" and "agent_manager a = agent_manager (shared s)"
    and "agent_active a = agent_active (shared s)"
  shows "job_view (advance K P w i s) js"
proof -
  have "map job_stage ((running s)[i := j']) = map job_stage (running s)"
    using assms(2,4) by (simp add: map_update list_update_same_conv)
  then show ?thesis using assms by (simp add: job_view_def advance_def Let_def)
qed

lemma seen_move:
  assumes "job_view s js" and "i < length (running s)"
    and "job_move K P w (running s ! i) (shared s) = (j', a)"
    and "job_step js js'" and "manager js' = agent_manager a" and "jobs js' = (jobs js)[i := job_stage j']"
    and "map fst (active_executions js') = map fst (agent_active a)"
  shows "job_step js js'" and "job_view (advance K P w i s) js'"
  using assms by (simp_all add: job_view_def advance_def Let_def map_update)

section \<open>Runs of their own\<close>

text \<open>The execution a stage works on, which is the one the job created; no two jobs have the same.\<close>

fun stage_run :: "run_stage \<Rightarrow> execution option" where
  "stage_run (Created e) = Some e"
| "stage_run (Acting e k code) = Some e"
| "stage_run (WritingOut e k r) = Some e"
| "stage_run (WritingErr e k r) = Some e"
| "stage_run (Concluded e st code err) = Some e"
| "stage_run (Reported e) = Some e"
| "stage_run (Removed e) = Some e"
| "stage_run _ = None"

fun before_run :: "run_stage \<Rightarrow> bool" where
  "before_run Permitted = True"
| "before_run Slotted = True"
| "before_run _ = False"

definition own_run :: "execution_id set \<Rightarrow> run_job \<Rightarrow> bool" where
  "own_run ids j \<longleftrightarrow>
     (\<forall>e. stage_run (at_stage j) = Some e \<longrightarrow> its_run j = Some (execution_id e))
     \<and> (before_run (at_stage j) \<longrightarrow> its_run j = None)
     \<and> set_option (its_run j) \<subseteq> ids"

definition runs_own :: "agent_system \<Rightarrow> bool" where
  "runs_own s \<longleftrightarrow>
     (\<forall>j \<in> set (running s). own_run (set (used_ids s)) j)
     \<and> (\<forall>i < length (running s). \<forall>k < length (running s). \<forall>x.
          its_run (running s ! i) = Some x \<longrightarrow> its_run (running s ! k) = Some x \<longrightarrow> i = k)"

lemma runs_ownD:
  assumes "runs_own s" and "i < length (running s)"
  shows "stage_run (at_stage (running s ! i)) = Some e \<Longrightarrow> its_run (running s ! i) = Some (execution_id e)"
    and "before_run (at_stage (running s ! i)) \<Longrightarrow> its_run (running s ! i) = None"
    and "its_run (running s ! i) = Some x \<Longrightarrow> x \<in> set (used_ids s)"
    and "its_run (running s ! i) = Some x \<Longrightarrow> k < length (running s) \<Longrightarrow> its_run (running s ! k) = Some x \<Longrightarrow> i = k"
proof -
  have "own_run (set (used_ids s)) (running s ! i)" using assms by (simp add: runs_own_def)
  then show "stage_run (at_stage (running s ! i)) = Some e \<Longrightarrow> its_run (running s ! i) = Some (execution_id e)"
    "before_run (at_stage (running s ! i)) \<Longrightarrow> its_run (running s ! i) = None"
    "its_run (running s ! i) = Some x \<Longrightarrow> x \<in> set (used_ids s)"
    by (auto simp: own_run_def)
  show "its_run (running s ! i) = Some x \<Longrightarrow> k < length (running s) \<Longrightarrow> its_run (running s ! k) = Some x \<Longrightarrow> i = k"
    using assms by (simp add: runs_own_def)
qed

lemma ball_update: "\<forall>x \<in> set xs. Q x \<Longrightarrow> Q y \<Longrightarrow> \<forall>x \<in> set (xs[i := y]). Q x"
  using set_update_subset_insert [of xs i y] by blast

lemma own_same: "same_jobs s s' \<Longrightarrow> runs_own s \<Longrightarrow> runs_own s'"
  by (simp add: same_jobs_def runs_own_def)

lemma own_permit:
  assumes "i < length (lookups s)" and "runs_own s"
  shows "runs_own (take_permit i s)"
  using assms(1)
proof (cases rule: take_permit_cases)
  case none
  with assms(2) show ?thesis by (meson own_same)
next
  case (taken orig task m)
  with assms(2) show ?thesis
    by (auto simp: runs_own_def own_run_def new_job_def nth_append less_Suc_eq)
qed

text \<open>What one step of a job does to its stage and its run.\<close>

lemmas move_defs = take_slot_def create_record_def announce_run_def next_action_def write_stdout_def
  write_stderr_def write_output_def record_end_def remove_active_def free_slot_def end_job_def

lemma move_task:
  assumes "job_move K P w j a = (j', a')"
  shows "its_task j' = its_task j" and "job_origin j' = job_origin j"
  using assms
  by (auto simp: job_move_def move_defs Let_def
      split: run_stage.splits prod.splits sum.splits if_splits bool.splits)

lemma move_run:
  assumes "job_move K P w j a = (j', a')" and "before_run (at_stage j) \<Longrightarrow> its_run j = None"
    and "\<And>e. stage_run (at_stage j) = Some e \<Longrightarrow> its_run j = Some (execution_id e)"
  shows "its_run j' = its_run j \<or> at_stage j = Slotted \<and> its_run j' = Some (execution_id (fresh_run w j))"
    and "stage_run (at_stage j') = Some e \<Longrightarrow> its_run j' = Some (execution_id e)"
    and "before_run (at_stage j') \<Longrightarrow> its_run j' = None"
  using assms
  by (auto simp: job_move_def move_defs Let_def
      split: run_stage.splits prod.splits sum.splits if_splits bool.splits)

lemma advance_simps:
  assumes "job_move K P w (running s ! i) (shared s) = (j', a)"
  shows "shared (advance K P w i s) = a" and "running (advance K P w i s) = (running s)[i := j']"
    and "scheduler (advance K P w i s) = scheduler s" and "sending (advance K P w i s) = sending s"
    and "commands_taken (advance K P w i s) = commands_taken s"
    and "set (used_ids (advance K P w i s)) = set (used_ids s)
      \<union> (if at_stage (running s ! i) = Slotted then set_option (its_run j') else {})"
  using assms by (auto simp: advance_def Let_def split: run_stage.splits option.splits)

lemma own_move:
  assumes own: "runs_own s" and i: "i < length (running s)" and fresh: "fresh_for w i s"
  shows "runs_own (advance K P w i s)"
proof -
  let ?j = "running s ! i"
  obtain j' a where m: "job_move K P w ?j (shared s) = (j', a)" by fastforce
  note run = move_run [OF m runs_ownD(2) [OF own i] runs_ownD(1) [OF own i]]
  have new: "its_run j' = its_run ?j \<or> (\<exists>x. its_run j' = Some x \<and> x \<notin> set (used_ids s) \<and> at_stage ?j = Slotted)"
    using run(1) fresh by (auto simp: fresh_for_def)
  have used: "its_run j' = Some x \<Longrightarrow> x \<in> set (used_ids (advance K P w i s))" for x
    using new runs_ownD(3) [OF own i] by (auto simp: advance_simps(6) [OF m])
  have mono: "set (used_ids s) \<subseteq> set (used_ids (advance K P w i s))" by (auto simp: advance_simps(6) [OF m])
  have apart: "its_run j' = Some x \<Longrightarrow> k < length (running s) \<Longrightarrow> its_run (running s ! k) = Some x \<Longrightarrow> k = i" for x k
    using new runs_ownD(4) [OF own i] runs_ownD(3) [OF own, of k] by (metis option.inject)
  have "\<forall>j \<in> set (running s). own_run (set (used_ids (advance K P w i s))) j"
    using own mono unfolding runs_own_def own_run_def by blast
  moreover have "own_run (set (used_ids (advance K P w i s))) j'"
    using run(2,3) used by (auto simp: own_run_def)
  ultimately have "\<forall>j \<in> set ((running s)[i := j']). own_run (set (used_ids (advance K P w i s))) j"
    by (rule ball_update)
  moreover have "\<forall>i' < length ((running s)[i := j']). \<forall>k < length ((running s)[i := j']). \<forall>x.
        its_run ((running s)[i := j'] ! i') = Some x \<longrightarrow> its_run ((running s)[i := j'] ! k) = Some x \<longrightarrow> i' = k"
    using apart runs_ownD(4) [OF own] i
    by (intro allI impI) (auto simp: nth_list_update split: if_split_asm dest: apart)
  ultimately show ?thesis unfolding runs_own_def advance_simps(2) [OF m] by blast
qed

lemma own_start: "runs_own (started_system orc a)"
  by (simp add: runs_own_def started_system_def)

section \<open>Each step of the agent is a step of the jobs, or none\<close>

lemma registered_job:
  assumes "job_stage j = Registered t e" shows "\<exists>x. stage_run (at_stage j) = Some x \<and> execution_id x = e"
  using assms by (cases "at_stage j") (auto simp: job_stage_def)

lemma created_not_active:
  assumes "jobs_inv n js" and "job_view s js" and own: "runs_own s" and i: "i < length (running s)"
    and at: "at_stage (running s ! i) = Created e"
  shows "execution_id e \<notin> set (map fst (active_executions js))"
proof
  assume "execution_id e \<in> set (map fst (active_executions js))"
  then obtain t where "map_of (active_executions js) (execution_id e) = Some t"
    by (metis map_of_eq_None_iff not_None_eq set_map)
  from entry_is_registered [OF assms(1) this] obtain k where
    k: "k < length (running s)" "job_stage (running s ! k) = Registered t (execution_id e)"
    using assms(2) by (auto simp: job_view_def in_set_conv_nth)
  from registered_job [OF k(2)] runs_ownD(1) [OF own k(1)]
  have "its_run (running s ! k) = Some (execution_id e)" by auto
  moreover have "its_run (running s ! i) = Some (execution_id e)" using runs_ownD(1) [OF own i] at by simp
  ultimately have "i = k" using runs_ownD(4) [OF own i] k(1) by blast
  with k(2) at show False by (simp add: job_stage_def)
qed

lemma view_move:
  assumes inv: "jobs_inv n js" and view: "job_view s js" and own: "runs_own s"
    and i: "i < length (running s)" and live: "at_stage (running s ! i) \<noteq> Ended"
  shows "\<exists>js'. job_step\<^sup>*\<^sup>* js js' \<and> job_view (advance K P w i s) js'"
proof -
  let ?j = "running s ! i"
  let ?t = "its_task ?j"
  obtain j' a where m: "job_move K P w ?j (shared s) = (j', a)" by fastforce
  have it: "jobs js ! i = stage_of ?t (at_stage ?j)" "i < length (jobs js)"
    "manager js = agent_manager (shared s)"
    "map fst (active_executions js) = map fst (agent_active (shared s))"
    using view i by (simp_all add: job_view_def job_stage_def)
  note task = move_task(1) [OF m]
  have seen: "job_step js js' \<Longrightarrow> manager js' = agent_manager a \<Longrightarrow> jobs js' = (jobs js)[i := job_stage j'] \<Longrightarrow>
      map fst (active_executions js') = map fst (agent_active a) \<Longrightarrow> ?thesis" for js'
    using seen_move [OF view i m] by blast
  have hidden: "job_stage j' = job_stage ?j \<Longrightarrow> agent_manager a = agent_manager (shared s) \<Longrightarrow>
      agent_active a = agent_active (shared s) \<Longrightarrow> ?thesis"
    using hidden_move [OF view i m] by blast
  show ?thesis
  proof (cases "at_stage ?j")
    case Permitted
    then have mv: "take_slot ?j (shared s) = (j', a)" using m by (simp add: job_move_def)
    obtain ok mm where sl: "try_acquire_slot (task_id ?t) (concurrency_policy (execution_policy ?t))
        (agent_manager (shared s)) = (ok, mm)" by fastforce
    show ?thesis
    proof (cases ok)
      case True
      show ?thesis
        by (rule seen [OF job_step.slot [OF it(2), of "task_id ?t" "concurrency_policy (execution_policy ?t)" mm]])
           (use it Permitted sl True mv in \<open>auto simp: take_slot_def job_stage_def Let_def\<close>)
    next
      case False
      show ?thesis
        by (rule seen [OF job_step.refused [OF it(2), of "task_id ?t" "concurrency_policy (execution_policy ?t)" mm]])
           (use it Permitted sl False mv in \<open>auto simp: take_slot_def job_stage_def Let_def\<close>)
    qed
  next
    case Slotted
    then have mv: "create_record K w ?j (shared s) = (j', a)" using m by (simp add: job_move_def)
    show ?thesis
    proof (cases "at_stage j' = Freed")
      case True
      show ?thesis
        by (rule seen [OF job_step.create_failed [OF it(2), of "task_id ?t"]])
           (use it Slotted True mv task in \<open>auto simp: create_record_def job_stage_def Let_def
              split: prod.splits sum.splits\<close>)
    next
      case False
      show ?thesis
        by (rule hidden) (use Slotted False mv in \<open>auto simp: create_record_def job_stage_def Let_def
              split: prod.splits sum.splits\<close>)
    qed
  next
    case (Created e)
    have "execution_id e \<notin> set (map fst (active_executions js))"
      using created_not_active [OF inv view own i Created] .
    then show ?thesis
      by (rule seen [OF job_step.register [OF it(2), of "task_id ?t"], rotated])
         (use it Created m in \<open>auto simp: job_move_def announce_run_def job_stage_def intro: keys_update\<close>)
  next
    case (Acting e k code)
    show ?thesis
      by (rule hidden) (use Acting m in \<open>auto simp: job_move_def next_action_def job_stage_def Let_def
          split: if_splits sum.splits\<close>)
  next
    case (WritingOut e k r)
    show ?thesis
      by (rule hidden) (use WritingOut m in \<open>auto simp: job_move_def write_stdout_def write_output_def job_stage_def
          split: if_splits prod.splits\<close>)
  next
    case (WritingErr e k r)
    show ?thesis
      by (rule hidden) (use WritingErr m in \<open>auto simp: job_move_def write_stderr_def write_output_def job_stage_def
          split: if_splits prod.splits\<close>)
  next
    case (Concluded e st code err)
    show ?thesis
      by (rule hidden) (use Concluded m in \<open>auto simp: job_move_def record_end_def job_stage_def Let_def
          split: prod.splits\<close>)
  next
    case (Reported e)
    show ?thesis
      by (rule seen [OF job_step.unregister [OF it(2), of "task_id ?t" "execution_id e"]])
         (use it Reported m in \<open>auto simp: job_move_def remove_active_def job_stage_def intro: keys_delete\<close>)
  next
    case (Removed e)
    show ?thesis
      by (rule seen [OF job_step.release [OF it(2), of "task_id ?t" "execution_id e"]])
         (use it Removed m in \<open>auto simp: job_move_def free_slot_def job_stage_def\<close>)
  next
    case Freed
    show ?thesis
      by (rule seen [OF job_step.drop [OF it(2), of "task_id ?t"]])
         (use it Freed m in \<open>auto simp: job_move_def end_job_def job_stage_def\<close>)
  next
    case Ended
    with live show ?thesis by simp
  qed
qed

lemma request_rows: "rows_kept (agent_db (shared s)) (agent_db (shared (begin_request K S W req s)))"
proof (cases "taken_apart req")
  case True
  then show ?thesis
    by (auto simp: begin_request_def taken_apart_def save_in_store_def delete_in_store_def
        intro: kept_save kept_delete split: sum.splits prod.splits)
next
  case False
  from plain_request [OF this] have "aside K (shared s) (snd (handle_request K S W req (shared s)))" .
  with False show ?thesis
    by (auto simp: begin_request_def taken_apart_def aside_def intro: kept_settings)
qed

lemma other_steps_rows:
  "rows_kept (agent_db (shared s)) (agent_db (shared (send_pending W i s)))"
  "rows_kept (agent_db (shared s)) (agent_db (shared (take_event K W s)))"
  "rows_kept (agent_db (shared s)) (agent_db (shared (purge K E f g now i s)))"
  by (auto simp: send_pending_def send_command_def take_event_def purge_def Let_def intro: kept_purge
      split: outcome.splits)

lemma rest_of_step:
  "same_jobs s (s\<lparr>sending := x\<rparr>)" "same_jobs s (s\<lparr>scheduler := sc, commands_taken := k\<rparr>)"
  "same_jobs s (s\<lparr>scheduler := sc\<rparr>)"
  by (simp_all add: same_jobs_def)

text \<open>A step outside the jobs, a permit for a task that was looked up, or the step of one job.\<close>

lemma step_cases:
  assumes "agent_step K S E P s s'"
  obtains (outside) "same_jobs s s'" and "rows_kept (agent_db (shared s)) (agent_db (shared s'))"
  | (permit) i where "i < length (lookups s)" and "s' = take_permit i s"
  | (job) i w where "i < length (running s)" and "at_stage (running s ! i) \<noteq> Ended" and "fresh_for w i s"
      and "s' = advance K P w i s"
  using assms
proof cases
  case (requested W req)
  then show ?thesis using outside request_jobs request_rows by simp
next
  case (sent i W)
  then show ?thesis using outside other_steps_jobs(1) other_steps_rows(1) by simp
next
  case (network f now ev)
  then show ?thesis using outside rest_of_step(1) by simp
next
  case (commanded inp orc sc)
  then show ?thesis using outside rest_of_step(2) by simp
next
  case (timed inp orc sc)
  then show ?thesis using outside rest_of_step(3) by simp
next
  case (fired W)
  then show ?thesis using outside other_steps_jobs(2) other_steps_rows(2) by simp
next
  case (permitted i)
  then show ?thesis using permit by blast
next
  case (moved i w)
  then show ?thesis using job by blast
next
  case (purged i f g now)
  then show ?thesis using outside other_steps_jobs(3) other_steps_rows(3) by simp
qed

lemma own_step: "agent_step K S E P s s' \<Longrightarrow> runs_own s \<Longrightarrow> runs_own s'"
  by (erule step_cases) (auto intro: own_same own_permit own_move)

lemma view_step:
  assumes "agent_step K S E P s s'" and "jobs_inv n js" and "job_view s js" and "runs_own s"
  shows "\<exists>js'. job_step\<^sup>*\<^sup>* js js' \<and> job_view s' js'"
  using assms(1)
proof (cases rule: step_cases)
  case outside
  with assms(3) show ?thesis using job_view_same by blast
next
  case (permit i)
  with permit_view [OF _ assms(3)] show ?thesis by simp
next
  case (job i w)
  with view_move [OF assms(2-4)] show ?thesis by simp
qed

text \<open>What the start leaves.\<close>

lemma started_agent:
  assumes "init_shared target K W now url ipc n sock = (Inr svc, d)"
  obtains ts where "svc_agent svc = (initial_agent (svc_db svc) n)\<lparr>agent_commands := startup_commands ts\<rparr>"
    and "find_all_enabled K (load_faults W) now (svc_db svc) = Inr ts"
    and "\<forall>r \<in> set (runs (svc_db svc)). run_status r \<noteq> status_json Running"
  using assms by (elim init_shared_ok) (blast dest: recovered_runs)

lemma view_start:
  assumes "init_shared target K W now url ipc n sock = (Inr svc, d)"
  shows "job_view (started_system orc (svc_agent svc)) (initial_jobs n)"
proof -
  from assms obtain ts where
    "svc_agent svc = (initial_agent (svc_db svc) n)\<lparr>agent_commands := startup_commands ts\<rparr>"
    by (elim started_agent)
  then have "agent_manager (svc_agent svc) = new_manager n" "agent_active (svc_agent svc) = []"
    by (metis agent.simps initial_agent_def)+
  then show ?thesis by (simp add: job_view_def started_system_def initial_jobs_def)
qed

lemma reached_own: "agent_reaches K S E P n s \<Longrightarrow> runs_own s"
  by (induction rule: agent_reaches.induct) (auto intro: own_start own_step)

lemma reached_view:
  "agent_reaches K S E P n s \<Longrightarrow> \<exists>js. jobs_reach n js \<and> job_view s js"
proof (induction rule: agent_reaches.induct)
  case (agent_start target W now url ipc sock svc d orc)
  then show ?case using view_start jobs_start by blast
next
  case (agent_next s s')
  then obtain js where "jobs_reach n js" "job_view s js" by blast
  with view_step [OF agent_next(2) jobs_reach_inv _ reached_own [OF agent_next(1)]] show ?case
    by (meson jobs_reach_steps)
qed

end
