(* ===== verification/Agent_System_Runs.thy ===== *)
theory Agent_System_Runs
  imports Agent_System_Jobs "HOL-Library.Sublist"
begin

text \<open>
  What the store holds of the runs while everything else goes on (\<open>Agent_System\<close>): the row of a run follows its
  own job and no other, its output rows are what that job wrote, and a run recorded as running has a job.
\<close>

section \<open>The invariant of a job\<close>

text \<open>The results so far are those of the enabled actions before position \<open>k\<close>, all successful.\<close>

definition ran_upto :: "task \<Rightarrow> (error + run_result) list \<Rightarrow> nat \<Rightarrow> bool" where
  "ran_upto t rs k \<longleftrightarrow> list_all succeeded rs \<and> k \<le> length (actions t)
     \<and> length rs = length (filter action_enabled (take k (actions t)))"

text \<open>Every enabled action succeeded, or one failed and was the last.\<close>

definition complete_run :: "task \<Rightarrow> (error + run_result) list \<Rightarrow> bool" where
  "complete_run t rs \<longleftrightarrow>
     list_all succeeded rs \<and> length rs = length (filter action_enabled (actions t))
     \<or> rs \<noteq> [] \<and> list_all succeeded (butlast rs) \<and> \<not> succeeded (last rs)
       \<and> length rs \<le> length (filter action_enabled (actions t))"

definition outputs_so_far :: "(error + run_result) list \<Rightarrow> (string \<times> string) list" where
  "outputs_so_far rs = concat (map outputs_of rs)"

definition final_result :: "run_result \<Rightarrow> bool" where
  "final_result r \<longleftrightarrow> result_status r \<noteq> Running
     \<and> (result_status r = Succeeded \<longrightarrow> result_exit_code r = Some 0 \<and> result_error r = None)"

definition in_action :: "task \<Rightarrow> (error + run_result) list \<Rightarrow> nat \<Rightarrow> run_result \<Rightarrow> bool" where
  "in_action t rs k r \<longleftrightarrow> final_result r
     \<and> (\<exists>rs0. rs = rs0 @ [Inr r] \<and> ran_upto t rs0 k \<and> k < length (actions t) \<and> action_enabled (actions t ! k))"

definition closed_run :: "task \<Rightarrow> (error + run_result) list \<Rightarrow> (string \<times> string) list \<Rightarrow> bool" where
  "closed_run t rs outs \<longleftrightarrow>
     complete_run t rs \<and> outs = outputs_so_far rs \<and> fst (verdict rs) \<noteq> Running"

fun stage_ok :: "task \<Rightarrow> (error + run_result) list \<Rightarrow> (string \<times> string) list \<Rightarrow> run_stage \<Rightarrow> bool" where
  "stage_ok t rs outs Permitted \<longleftrightarrow> rs = [] \<and> outs = []"
| "stage_ok t rs outs Slotted \<longleftrightarrow> rs = [] \<and> outs = []"
| "stage_ok t rs outs (Created e) \<longleftrightarrow> rs = [] \<and> outs = []"
| "stage_ok t rs outs (Acting e k code) \<longleftrightarrow> ran_upto t rs k \<and> outs = outputs_so_far rs \<and> code = Some 0"
| "stage_ok t rs outs (WritingOut e k r) \<longleftrightarrow> in_action t rs k r \<and> outs = outputs_so_far (butlast rs)"
| "stage_ok t rs outs (WritingErr e k r) \<longleftrightarrow> in_action t rs k r
     \<and> outs = outputs_so_far (butlast rs) @ (if result_stdout r = [] then [] else [(''stdout'', result_stdout r)])"
| "stage_ok t rs outs (Concluded e st code err) \<longleftrightarrow> closed_run t rs outs \<and> (st, code, err) = verdict rs"
| "stage_ok t rs outs _ \<longleftrightarrow> True"

fun is_over :: "run_stage \<Rightarrow> bool" where
  "is_over (Reported e) = True"
| "is_over (Removed e) = True"
| "is_over Freed = True"
| "is_over Ended = True"
| "is_over _ = False"

text \<open>A settled job has recorded its verdict.\<close>

definition settled :: "run_job \<Rightarrow> bool" where
  "settled j \<longleftrightarrow> is_over (at_stage j) \<and> \<not> unrecorded j"

definition local_ok :: "run_job \<Rightarrow> bool" where
  "local_ok j \<longleftrightarrow> stage_ok (its_task j) (results j) (emitted j) (at_stage j)
     \<and> (is_over (at_stage j) \<and> its_run j \<noteq> None \<longrightarrow> closed_run (its_task j) (results j) (emitted j))"

lemma run_action_final:
  assumes "fst (run_action P w a t) = Inr r" shows "final_result r"
proof -
  have "result_status r \<noteq> Running"
    using assms by (auto simp: run_action_def Let_def split: if_splits option.splits child_end.splits sum.splits)
  with run_action_exit_code [OF assms] show ?thesis by (simp add: final_result_def)
qed

lemma outputs_so_far_snoc: "outputs_so_far (rs @ [r]) = outputs_so_far rs @ outputs_of r"
  by (simp add: outputs_so_far_def)

lemma ran_upto_skip: "ran_upto t rs k \<Longrightarrow> k < length (actions t) \<Longrightarrow> \<not> action_enabled (actions t ! k) \<Longrightarrow> ran_upto t rs (Suc k)"
  by (simp add: ran_upto_def take_Suc_conv_app_nth)

lemma ran_upto_next:
  "ran_upto t rs k \<Longrightarrow> k < length (actions t) \<Longrightarrow> action_enabled (actions t ! k) \<Longrightarrow> succeeded r \<Longrightarrow>
     ran_upto t (rs @ [r]) (Suc k)"
  by (simp add: ran_upto_def take_Suc_conv_app_nth)

lemma enabled_left:
  assumes "k < length as" and "p (as ! k)"
  shows "length (filter p (take k as)) < length (filter p as)"
proof -
  have "as = take k as @ as ! k # drop (Suc k) as" using assms(1) by (rule id_take_nth_drop)
  then have "filter p as = filter p (take k as) @ as ! k # filter p (drop (Suc k) as)"
    using assms(2) by (metis filter.simps(2) filter_append)
  then show ?thesis by simp
qed

lemma verdict_ran: "list_all succeeded rs \<Longrightarrow> verdict rs = (Succeeded, Some 0, None)"
  by (induction rs) (simp_all add: verdict_simps(1,2))

lemma verdict_failed: "list_all succeeded rs \<Longrightarrow> \<not> succeeded r \<Longrightarrow> verdict (rs @ [r]) = verdict [r]"
proof (induction rs)
  case Nil
  then show ?case by simp
next
  case (Cons x xs)
  then show ?case by (simp add: verdict_simps(2))
qed

lemma closed_ran:
  assumes "ran_upto t rs k" and "length (actions t) \<le> k"
  shows "closed_run t rs (outputs_so_far rs)" and "verdict rs = (Succeeded, Some 0, None)"
proof -
  have "list_all succeeded rs" "length rs = length (filter action_enabled (actions t))"
    using assms by (simp_all add: ran_upto_def)
  then show "closed_run t rs (outputs_so_far rs)" and "verdict rs = (Succeeded, Some 0, None)"
    by (simp_all add: closed_run_def complete_run_def verdict_ran)
qed

lemma closed_failed:
  assumes ran: "ran_upto t rs k" and k: "k < length (actions t)" "action_enabled (actions t ! k)"
    and bad: "\<not> succeeded r" and fin: "fst (verdict [r]) \<noteq> Running"
  shows "closed_run t (rs @ [r]) (outputs_so_far (rs @ [r]))" and "verdict (rs @ [r]) = verdict [r]"
proof -
  show v: "verdict (rs @ [r]) = verdict [r]" using ran bad by (simp add: ran_upto_def verdict_failed)
  have "length rs < length (filter action_enabled (actions t))"
    using enabled_left [of k "actions t" action_enabled] k ran by (simp add: ran_upto_def)
  then show "closed_run t (rs @ [r]) (outputs_so_far (rs @ [r]))"
    using ran bad fin v by (simp add: closed_run_def complete_run_def ran_upto_def)
qed

lemma verdict_one:
  "verdict [Inl err] = (Failed, Some 0, Some (error_to_string err))"
  "result_status r \<noteq> Succeeded \<Longrightarrow> verdict [Inr r] = (result_status r, result_exit_code r, result_error r)"
  by (simp_all add: verdict_def succeeded_def)

lemma next_action_ok:
  assumes "stage_ok (its_task j) (results j) (emitted j) (Acting e k code)"
  shows "local_ok (next_action P w e k code j)"
proof -
  let ?t = "its_task j"
  have ran: "ran_upto ?t (results j) k" and out: "emitted j = outputs_so_far (results j)" and c: "code = Some 0"
    using assms by simp_all
  show ?thesis
  proof (cases "length (actions ?t) \<le> k")
    case True
    with closed_ran [OF ran] out c show ?thesis by (simp add: next_action_def local_ok_def)
  next
    case False
    then have k: "k < length (actions ?t)" by simp
    let ?res = "fst (run_action P (child_at w k) (actions ?t ! k) (timeout_secs (execution_policy ?t)))"
    show ?thesis
    proof (cases "action_enabled (actions ?t ! k)")
      case off: False
      with ran_upto_skip [OF ran k] k out c show ?thesis
        by (simp add: next_action_def Let_def local_ok_def)
    next
      case on: True
      show ?thesis
      proof (cases ?res)
        case (Inl err)
        have "closed_run ?t (results j @ [Inl err]) (emitted j)"
          and v: "verdict (results j @ [Inl err]) = (Failed, Some 0, Some (error_to_string err))"
          using closed_failed [OF ran k on, of "Inl err"] out
          by (simp_all add: verdict_one succeeded_def outputs_so_far_snoc outputs_of_def)
        then show ?thesis using Inl k on c by (simp add: next_action_def Let_def local_ok_def)
      next
        case (Inr r)
        then show ?thesis
          using k on ran out run_action_final [OF Inr]
          by (simp add: next_action_def Let_def local_ok_def in_action_def)
      qed
    qed
  qed
qed

lemma after_stderr_ok:
  assumes "in_action (its_task j) (results j) k r"
    and "emitted j = outputs_so_far (butlast (results j)) @ outputs_of (Inr r)"
    and "at_stage j = (if result_status r \<noteq> Succeeded
       then Concluded e (result_status r) (result_exit_code r) (result_error r)
       else Acting e (Suc k) (result_exit_code r))"
  shows "local_ok j"
proof -
  obtain rs where rs: "results j = rs @ [Inr r]" "ran_upto (its_task j) rs k" "k < length (actions (its_task j))"
    "action_enabled (actions (its_task j) ! k)" and fin: "final_result r"
    using assms(1) by (auto simp: in_action_def)
  show ?thesis
  proof (cases "result_status r = Succeeded")
    case True
    then have "succeeded (Inr r)" by (simp add: succeeded_def)
    with ran_upto_next [OF rs(2-4) this] fin True assms(2,3) rs(1) show ?thesis
      by (simp add: local_ok_def final_result_def outputs_so_far_snoc)
  next
    case False
    then have "\<not> succeeded (Inr r)" by (simp add: succeeded_def)
    with closed_failed [OF rs(2-4) this] fin False assms(2,3) rs(1) show ?thesis
      by (simp add: local_ok_def final_result_def outputs_so_far_snoc verdict_one)
  qed
qed

section \<open>The rows of a job\<close>

definition written :: "execution_id \<Rightarrow> db \<Rightarrow> (string \<times> string) list" where
  "written x d = map (\<lambda>r. (out_stream r, out_content r)) (run_outputs x d)"

text \<open>
  The row of a run: its task, and the status that is running until its job has recorded the verdict.
\<close>

definition row_ok :: "run_job \<Rightarrow> run_row \<Rightarrow> bool" where
  "row_ok j r \<longleftrightarrow> run_task_id r = task_id (its_task j)
     \<and> (if settled j
        then (case verdict (results j) of (st, code, err) \<Rightarrow>
                run_status r = status_json st \<and> run_exit_code r = code \<and> run_error_message r = err)
        else run_status r = status_json Running)"

definition outputs_ok :: "db \<Rightarrow> run_job \<Rightarrow> execution_id \<Rightarrow> bool" where
  "outputs_ok d j x \<longleftrightarrow> x \<in> run_id ` set (runs d) \<longrightarrow>
     subseq (written x d) (emitted j) \<and> (\<not> append_failed j \<longrightarrow> written x d = emitted j)"

definition rows_ok :: "db \<Rightarrow> run_job \<Rightarrow> bool" where
  "rows_ok d j \<longleftrightarrow> (\<forall>x. its_run j = Some x \<longrightarrow>
     (\<forall>r \<in> set (runs d). run_id r = x \<longrightarrow> row_ok j r) \<and> outputs_ok d j x)"

lemma rows_ok_none: "its_run j = None \<Longrightarrow> rows_ok d j"
  by (simp add: rows_ok_def)

text \<open>Steps that leave the rows of other runs alone.\<close>

definition same_elsewhere :: "execution_id \<Rightarrow> db \<Rightarrow> db \<Rightarrow> bool" where
  "same_elsewhere x d d' \<longleftrightarrow>
     filter (\<lambda>r. run_id r \<noteq> x) (runs d') = filter (\<lambda>r. run_id r \<noteq> x) (runs d)
     \<and> filter (\<lambda>r. out_run_id r \<noteq> x) (outputs d') = filter (\<lambda>r. out_run_id r \<noteq> x) (outputs d)
     \<and> tasks d' = tasks d"

lemma same_elsewhere_refl [simp]: "same_elsewhere x d d"
  by (simp add: same_elsewhere_def)

lemma elsewhere_rows:
  assumes "same_elsewhere x d d'" and "run_id r \<noteq> x"
  shows "r \<in> set (runs d') \<longleftrightarrow> r \<in> set (runs d)"
proof -
  have "set (filter (\<lambda>r. run_id r \<noteq> x) (runs d')) = set (filter (\<lambda>r. run_id r \<noteq> x) (runs d))"
    using assms(1) by (simp add: same_elsewhere_def)
  with assms(2) show ?thesis by auto
qed

lemma elsewhere_outputs:
  assumes "same_elsewhere x d d'" and "y \<noteq> x"
  shows "run_outputs y d' = run_outputs y d"
proof -
  have "run_outputs y c = filter (\<lambda>r. out_run_id r = y) (filter (\<lambda>r. out_run_id r \<noteq> x) (outputs c))" for c
    using assms(2) by (simp add: run_outputs_def) (rule filter_cong; auto)
  then show ?thesis using assms(1) unfolding same_elsewhere_def by metis
qed

lemma elsewhere_rows_ok:
  assumes el: "same_elsewhere x d d'" and "its_run j \<noteq> Some x" and ok: "rows_ok d j"
  shows "rows_ok d' j"
  unfolding rows_ok_def
proof (intro allI impI conjI)
  fix y
  assume y: "its_run j = Some y"
  then have "y \<noteq> x" using assms(2) by auto
  have rows: "r \<in> set (runs d') \<longleftrightarrow> r \<in> set (runs d)" if "run_id r = y" for r
    using elsewhere_rows [OF el, of r] that \<open>y \<noteq> x\<close> by simp
  then show "\<forall>r \<in> set (runs d'). run_id r = y \<longrightarrow> row_ok j r"
    using ok y unfolding rows_ok_def by blast
  have "y \<in> run_id ` set (runs d') \<longleftrightarrow> y \<in> run_id ` set (runs d)" using rows by blast
  then show "outputs_ok d' j y"
    using ok y elsewhere_outputs [OF el \<open>y \<noteq> x\<close>] by (simp add: rows_ok_def outputs_ok_def written_def)
qed

text \<open>Steps outside the jobs only take rows away, with their output.\<close>

lemma kept_rows_ok:
  assumes k: "rows_kept d d'" and "db_ok d" and ok: "rows_ok d j"
  shows "rows_ok d' j"
  unfolding rows_ok_def
proof (intro allI impI conjI)
  from k obtain dead where
    runs: "runs d' = filter (\<lambda>r. \<not> dead r) (runs d)"
    and outs: "outputs d' = filter (\<lambda>x. out_run_id x \<notin> run_id ` {r \<in> set (runs d). dead r}) (outputs d)"
    unfolding rows_kept_def by blast
  fix y
  assume y: "its_run j = Some y"
  show "\<forall>r \<in> set (runs d'). run_id r = y \<longrightarrow> row_ok j r"
    using ok y by (auto simp: runs rows_ok_def)
  show "outputs_ok d' j y"
    unfolding outputs_ok_def
  proof
    assume "y \<in> run_id ` set (runs d')"
    then obtain r where r: "r \<in> set (runs d)" "\<not> dead r" "run_id r = y" by (auto simp: runs)
    have "y \<notin> run_id ` {r \<in> set (runs d). dead r}"
      using r db_okD(4) [OF assms(2)] by (auto simp: distinct_map dest: inj_onD)
    then have "run_outputs y d' = run_outputs y d"
      unfolding run_outputs_def outs filter_filter by (intro filter_cong) auto
    moreover have "y \<in> run_id ` set (runs d)" using r by blast
    ultimately show "subseq (written y d') (emitted j) \<and> (\<not> append_failed j \<longrightarrow> written y d' = emitted j)"
      using ok y by (simp add: rows_ok_def outputs_ok_def written_def)
  qed
qed

section \<open>What the steps of a job do to the tables\<close>

lemma created_row:
  assumes c: "create_run K f e d = (Inr u, d')" and "db_ok d"
  shows "same_elsewhere (execution_id e) d d'" and "execution_id e \<notin> run_id ` set (runs d)"
    and "run_outputs (execution_id e) d' = []"
    and "\<forall>r \<in> set (runs d'). run_id r = execution_id e \<longrightarrow>
      run_task_id r = execution_task_id e \<and> run_status r = status_json (status e)"
    and "run_id ` set (runs d') = insert (execution_id e) (run_id ` set (runs d))"
proof -
  obtain row where row: "d' = d\<lparr>runs := runs d @ [row]\<rparr>" "run_id row = execution_id e"
      "run_task_id row = execution_task_id e" "run_status row = status_json (status e)"
    and new: "execution_id e \<notin> run_id ` set (runs d)"
    using c by (auto simp: create_run_def split: sum.splits if_splits)
  show "execution_id e \<notin> run_id ` set (runs d)" by (rule new)
  show "same_elsewhere (execution_id e) d d'" using row by (simp add: same_elsewhere_def)
  have "out_run_id r \<noteq> execution_id e" if "r \<in> set (outputs d)" for r
    using db_okD(9) [OF assms(2)] new that by metis
  then show "run_outputs (execution_id e) d' = []" by (simp add: run_outputs_def row(1))
  have "run_id r \<noteq> execution_id e" if "r \<in> set (runs d)" for r using new that by (metis imageI)
  then show "\<forall>r \<in> set (runs d'). run_id r = execution_id e \<longrightarrow>
      run_task_id r = execution_task_id e \<and> run_status r = status_json (status e)"
    using row by auto
  show "run_id ` set (runs d') = insert (execution_id e) (run_id ` set (runs d))" using row by auto
qed

lemma appended_row:
  assumes a: "append_output K f now x strm c d = (r, d')"
  shows "same_elsewhere x d d'" and "runs d' = runs d"
    and "written x d' = written x d @ (if isl r then [] else [(strm, c)])"
proof -
  have "same_elsewhere x d d' \<and> runs d' = runs d
    \<and> written x d' = written x d @ (if isl r then [] else [(strm, c)])"
  proof (cases "call_db f 0")
    case (Inl err)
    then have "r = Inl err" "d' = d" using a by (simp_all add: append_output_def)
    then show ?thesis by simp
  next
    case (Inr u)
    show ?thesis
    proof (cases "x \<in> set (map run_id (runs d))")
      case True
      have "d' = snd (append_output K f now x strm c d)" using a by simp
      moreover have "fst (append_output K f now x strm c d) = Inr ()"
        using True Inr by (simp add: append_output_def)
      then have "r = Inr ()" using a by simp
      ultimately
      show ?thesis using Inr True
        by (simp add: append_output_def same_elsewhere_def written_def run_outputs_def)
    next
      case False
      then have "r = Inl foreign_key_error" "d' = d" using a Inr by (simp_all add: append_output_def)
      then show ?thesis by simp
    qed
  qed
  then show "same_elsewhere x d d'" and "runs d' = runs d"
    and "written x d' = written x d @ (if isl r then [] else [(strm, c)])" by simp_all
qed

lemma updated_failed:
  assumes "update_run K f e d = (r, d')" and "isl r" shows "d' = d"
proof -
  have "isl (fst (update_run K f e d)) \<longrightarrow> snd (update_run K f e d) = d"
    by (simp add: update_run_def split: sum.splits)
  with assms show ?thesis by simp
qed

lemma updated_ok:
  assumes "update_run K f e d = (r, d')" and "\<not> isl r"
  shows "d' = d\<lparr>runs := map (\<lambda>r. if run_id r = execution_id e
             then r\<lparr>run_status := status_json (status e),
                    run_finished_at := map_option (to_rfc3339 K) (finished_at e),
                    run_duration_ms := map_option as_i64 (duration_ms e),
                    run_exit_code := exit_code e, run_error_message := error_message e\<rparr>
             else r) (runs d)\<rparr>"
proof -
  obtain u where "call_db f 0 = Inr u"
    using assms by (cases "call_db f 0") (simp_all add: update_run_def, metis sum.disc(1))
  then show ?thesis using assms(1) by (simp add: update_run_def)
qed

lemma updated_row:
  assumes u: "update_run K f e d = (r, d')"
  shows "same_elsewhere (execution_id e) d d'" and "outputs d' = outputs d"
    and "run_id ` set (runs d') = run_id ` set (runs d)"
    and "\<not> isl r \<Longrightarrow> x \<in> set (runs d') \<Longrightarrow> run_id x = execution_id e \<Longrightarrow>
      run_status x = status_json (status e) \<and> run_exit_code x = exit_code e \<and> run_error_message x = error_message e
      \<and> (\<exists>y \<in> set (runs d). run_id y = execution_id e \<and> run_task_id x = run_task_id y)"
proof -
  have *: "filter (\<lambda>r. run_id r \<noteq> execution_id e)
      (map (\<lambda>r. if run_id r = execution_id e then g r else r) rs) = filter (\<lambda>r. run_id r \<noteq> execution_id e) rs"
    if "\<And>r. run_id (g r) = run_id r" for g and rs :: "run_row list"
    using that by (induction rs) auto
  have "same_elsewhere (execution_id e) d d' \<and> outputs d' = outputs d
    \<and> run_id ` set (runs d') = run_id ` set (runs d)"
  proof (cases "isl r")
    case True
    then show ?thesis using updated_failed [OF u] by simp
  next
    case False
    have ids: "map run_id (runs d') = map run_id (runs d)" by (subst updated_ok [OF u False]) simp
    have "run_id ` set (runs d') = run_id ` set (runs d)" using arg_cong [OF ids, of set] by simp
    moreover have "same_elsewhere (execution_id e) d d'" "outputs d' = outputs d"
      by (subst updated_ok [OF u False], simp add: same_elsewhere_def *)+
    ultimately show ?thesis by simp
  qed
  then show "same_elsewhere (execution_id e) d d'" and "outputs d' = outputs d"
    and "run_id ` set (runs d') = run_id ` set (runs d)" by simp_all
  show "\<not> isl r \<Longrightarrow> x \<in> set (runs d') \<Longrightarrow> run_id x = execution_id e \<Longrightarrow>
      run_status x = status_json (status e) \<and> run_exit_code x = exit_code e \<and> run_error_message x = error_message e
      \<and> (\<exists>y \<in> set (runs d). run_id y = execution_id e \<and> run_task_id x = run_task_id y)"
    using updated_ok [OF u] by (auto split: if_splits)
qed

section \<open>A step of a job keeps its invariant\<close>

text \<open>What a step may change of the tables: the rows of the job's own run.\<close>

definition own_rows_only :: "run_job \<Rightarrow> db \<Rightarrow> db \<Rightarrow> bool" where
  "own_rows_only j d d' \<longleftrightarrow> (db_ok d \<longrightarrow> db_ok d') \<and>
     (case its_run j of
        None \<Rightarrow> d' = d
      | Some x \<Rightarrow> same_elsewhere x d d' \<and> run_id ` set (runs d') \<subseteq> insert x (run_id ` set (runs d)))"

lemma own_rows_same [simp]: "own_rows_only j d d"
  by (auto simp: own_rows_only_def split: option.splits)

lemma write_output_ok:
  assumes wr: "write_output K f now e strm out j a = (j', a')" and run: "its_run j = Some (execution_id e)"
    and rows: "rows_ok (agent_db a) j"
  shows "rows_ok (agent_db a') (j'\<lparr>at_stage := at_stage j\<rparr>)" and "own_rows_only j' (agent_db a) (agent_db a')"
    and "emitted j' = emitted j @ (if out = [] then [] else [(strm, out)])"
proof -
  have "rows_ok (agent_db a') (j'\<lparr>at_stage := at_stage j\<rparr>) \<and> own_rows_only j' (agent_db a) (agent_db a')
    \<and> emitted j' = emitted j @ (if out = [] then [] else [(strm, out)])"
  proof (cases "out = []")
    case True
    with wr rows show ?thesis by (simp add: write_output_def)
  next
    case False
    obtain r d where ap: "append_output K f now (execution_id e) strm out (agent_db a) = (r, d)" by fastforce
    have j': "j' = j\<lparr>emitted := emitted j @ [(strm, out)], append_failed := append_failed j \<or> isl r\<rparr>"
      and a': "agent_db a' = d"
      using wr False ap by (auto simp: write_output_def)
    have same_row: "row_ok (j'\<lparr>at_stage := at_stage j\<rparr>) = row_ok j" "row_ok j' = row_ok j"
      by (rule ext, simp add: row_ok_def settled_def j')+
    have "outputs_ok d j' (execution_id e)"
      using rows run appended_row [OF ap] by (auto simp: rows_ok_def outputs_ok_def j' intro: list_emb_append_mono [of _ _ _ _ "[]", simplified] list_emb_append_mono)
    moreover have "\<forall>r \<in> set (runs d). run_id r = execution_id e \<longrightarrow> row_ok j' r"
      using rows run appended_row(2) [OF ap] same_row by (simp add: rows_ok_def)
    moreover have "own_rows_only j' (agent_db a) d"
      using appended_row(1,2) [OF ap] append_output_db_ok [OF _ ap] run by (simp add: own_rows_only_def j' subset_insertI)
    ultimately show ?thesis
      using run False a' same_row by (simp add: rows_ok_def outputs_ok_def j')
  qed
  then show "rows_ok (agent_db a') (j'\<lparr>at_stage := at_stage j\<rparr>)" and "own_rows_only j' (agent_db a) (agent_db a')"
    and "emitted j' = emitted j @ (if out = [] then [] else [(strm, out)])" by simp_all
qed

text \<open>The row depends on the stage only through its end.\<close>

lemma rows_ok_stage:
  assumes "rows_ok d j" and "its_run j' = its_run j" and "its_task j' = its_task j" and "settled j' = settled j"
    and "settled j \<Longrightarrow> results j' = results j" and "emitted j' = emitted j" and "append_failed j' = append_failed j"
  shows "rows_ok d j'"
  using assms by (simp add: rows_ok_def row_ok_def outputs_ok_def split: if_splits)

lemma fresh_run_fields [simp]:
  "execution_task_id (fresh_run w j) = task_id (its_task j)" "status (fresh_run w j) = Running"
  by (simp_all add: fresh_run_def new_run_def manual_run_def new_execution_def split: origin.splits)

lemma create_record_ok:
  assumes c: "create_record K w j a = (j', a')" and loc: "local_ok j" and at: "at_stage j = Slotted"
    and none: "its_run j = None" and ok: "db_ok (agent_db a)"
  shows "local_ok j'" and "rows_ok (agent_db a') j'" and "own_rows_only j' (agent_db a) (agent_db a')"
proof -
  let ?e = "fresh_run w j"
  let ?f = "case job_origin j of Fired ev \<Rightarrow> create_faults w | ByHand W \<Rightarrow> db_faults W 1"
  obtain r d where cr: "create_run K ?f ?e (agent_db a) = (r, d)" by fastforce
  have "local_ok j' \<and> rows_ok (agent_db a') j' \<and> own_rows_only j' (agent_db a) (agent_db a')"
  proof (cases r)
    case (Inl err)
    with cr create_run_Inl have "d = agent_db a" by metis
    with c cr Inl none have "j' = j\<lparr>at_stage := Freed\<rparr>" "agent_db a' = agent_db a"
      by (auto simp: create_record_def Let_def)
    with none show ?thesis by (simp add: local_ok_def rows_ok_none)
  next
    case (Inr u)
    note row = created_row [OF cr [unfolded Inr] ok]
    from c cr Inr have j': "j' = j\<lparr>at_stage := Created ?e, its_run := Some (execution_id ?e)\<rparr>"
      and a': "agent_db a' = d" by (auto simp: create_record_def Let_def)
    have "own_rows_only j' (agent_db a) d"
      using row(1,5) create_run_db_ok [OF _ cr] by (simp add: own_rows_only_def j')
    moreover have "written (execution_id ?e) d = []" using row(3) by (simp add: written_def)
    then have "rows_ok d j'"
      using row(4) loc at by (auto simp: rows_ok_def row_ok_def settled_def outputs_ok_def j' local_ok_def)
    ultimately show ?thesis using loc at a' by (simp add: local_ok_def j')
  qed
  then show "local_ok j'" and "rows_ok (agent_db a') j'" and "own_rows_only j' (agent_db a) (agent_db a')" by simp_all
qed

lemma finish_run_fields [simp]:
  "execution_id (finish_run w l e) = execution_id e" "status (finish_run w l e) = final_status l"
  "exit_code (finish_run w l e) = final_exit_code l" "error_message (finish_run w l e) = final_error l"
  by (simp_all add: finish_run_def)

lemma record_end_ok:
  assumes c: "record_end K w e st code err j a = (j', a')" and loc: "local_ok j"
    and at: "at_stage j = Concluded e st code err" and run: "its_run j = Some (execution_id e)"
    and rows: "rows_ok (agent_db a) j"
  shows "local_ok j'" and "rows_ok (agent_db a') j'" and "own_rows_only j' (agent_db a) (agent_db a')"
proof -
  let ?fin = "finish_run w \<lparr>loop_db = agent_db a, loop_events = [], final_status = st,
                                   final_exit_code = code, final_error = err\<rparr> e"
  obtain r d where up: "update_run K (update_faults w) ?fin (agent_db a) = (r, d)" by fastforce
  have j': "j' = j\<lparr>at_stage := Reported e, unrecorded := isl r\<rparr>" and a': "agent_db a' = d"
    using c up by (auto simp: record_end_def Let_def)
  note row = updated_row [OF up, unfolded finish_run_fields]
  have v: "verdict (results j) = (st, code, err)" and closed: "closed_run (its_task j) (results j) (emitted j)"
    using loc at by (simp_all add: local_ok_def)
  show "local_ok j'" using closed by (simp add: local_ok_def j')
  show "own_rows_only j' (agent_db a) (agent_db a')"
    using row(1,3) run update_run_db_ok [OF _ up] a' by (auto simp: own_rows_only_def j')
  have "row_ok j' x" if x: "x \<in> set (runs d)" "run_id x = execution_id e" for x
  proof (cases "isl r")
    case True
    with updated_failed [OF up] x rows run at show ?thesis
      by (auto simp: rows_ok_def row_ok_def settled_def j')
  next
    case False
    from row(4) [OF False x] have "run_status x = status_json st" "run_exit_code x = code"
      "run_error_message x = err" and "\<exists>y \<in> set (runs (agent_db a)). run_id y = execution_id e \<and> run_task_id x = run_task_id y"
      by simp_all
    then show ?thesis using rows run v False by (auto simp: rows_ok_def row_ok_def settled_def j')
  qed
  moreover have "outputs_ok d j' (execution_id e)"
    using rows run row(2,3) by (simp add: rows_ok_def outputs_ok_def written_def run_outputs_def j')
  ultimately show "rows_ok (agent_db a') j'" using run a' by (simp add: rows_ok_def j')
qed

lemma write_stages_ok:
  assumes m: "job_move K P w j a = (j', a')" and loc: "local_ok j" and rows: "rows_ok (agent_db a) j"
    and run: "its_run j = Some (execution_id e)"
    and at: "at_stage j = WritingOut e k r \<or> at_stage j = WritingErr e k r"
  shows "local_ok j' \<and> rows_ok (agent_db a') j' \<and> own_rows_only j' (agent_db a) (agent_db a')"
  using at
proof
  assume at: "at_stage j = WritingOut e k r"
  let ?f = "output_faults w (2 * k)" and ?now = "output_time w (2 * k)"
  obtain j1 a1 where wr: "write_output K ?f ?now e ''stdout'' (result_stdout r) j a = (j1, a1)" by fastforce
  note ok = write_output_ok [OF wr run rows]
  note kept = write_output_fields [of K ?f ?now e "''stdout''" "result_stdout r" j a, unfolded wr fst_conv]
  have j': "j' = j1\<lparr>at_stage := WritingErr e k r\<rparr>" and a': "a' = a1"
    using m at wr by (auto simp: job_move_def write_stdout_def)
  have "rows_ok (agent_db a') j'"
    unfolding a' by (rule rows_ok_stage [OF ok(1)]) (use at kept in \<open>simp_all add: j' settled_def\<close>)
  moreover have "local_ok j'" using loc at ok(3) kept by (simp add: local_ok_def j')
  ultimately show ?thesis using ok(2) by (simp add: own_rows_only_def a' j')
next
  assume at: "at_stage j = WritingErr e k r"
  let ?f = "output_faults w (2 * k + 1)" and ?now = "output_time w (2 * k + 1)"
  obtain j1 a1 where wr: "write_output K ?f ?now e ''stderr'' (result_stderr r) j a = (j1, a1)" by fastforce
  note ok = write_output_ok [OF wr run rows]
  note kept = write_output_fields [of K ?f ?now e "''stderr''" "result_stderr r" j a, unfolded wr fst_conv]
  let ?st = "if result_status r \<noteq> Succeeded then Concluded e (result_status r) (result_exit_code r) (result_error r)
    else Acting e (Suc k) (result_exit_code r)"
  have j': "j' = j1\<lparr>at_stage := ?st\<rparr>" and a': "a' = a1"
    using m at wr by (auto simp: job_move_def write_stderr_def)
  have "rows_ok (agent_db a') j'"
    unfolding a' by (rule rows_ok_stage [OF ok(1)]) (use at kept in \<open>simp_all add: j' settled_def\<close>)
  moreover have "local_ok j'"
    by (rule after_stderr_ok [of _ k r e])
       (use loc at ok(3) kept in \<open>simp_all add: j' local_ok_def outputs_of_def\<close>)
  ultimately show ?thesis using ok(2) by (simp add: own_rows_only_def a' j')
qed

lemma move_ok:
  assumes m: "job_move K P w j a = (j', a')" and loc: "local_ok j" and rows: "rows_ok (agent_db a) j"
    and ok: "db_ok (agent_db a)" and live: "at_stage j \<noteq> Ended"
    and none: "before_run (at_stage j) \<Longrightarrow> its_run j = None"
    and run: "\<And>e. stage_run (at_stage j) = Some e \<Longrightarrow> its_run j = Some (execution_id e)"
  shows "local_ok j' \<and> rows_ok (agent_db a') j' \<and> own_rows_only j' (agent_db a) (agent_db a')"
proof -
  have still: "agent_db a' = agent_db a \<Longrightarrow> its_run j' = its_run j \<Longrightarrow> settled j' = settled j \<Longrightarrow>
      (settled j \<Longrightarrow> results j' = results j) \<Longrightarrow> emitted j' = emitted j \<Longrightarrow> append_failed j' = append_failed j \<Longrightarrow>
      local_ok j' \<Longrightarrow> ?thesis"
    using rows_ok_stage [OF rows, of j'] move_task(1) [OF m] by simp
  show ?thesis
  proof (cases "at_stage j")
    case Permitted
    then have "its_run j = None" using none by simp
    with Permitted m loc show ?thesis
      by (auto simp: job_move_def take_slot_def Let_def local_ok_def rows_ok_none split: prod.splits bool.splits)
  next
    case Slotted
    with m have "create_record K w j a = (j', a')" by (simp add: job_move_def)
    from create_record_ok [OF this loc Slotted _ ok] none Slotted show ?thesis by simp
  next
    case (Created e)
    with m have j': "j' = j\<lparr>at_stage := Acting e 0 (Some 0)\<rparr>" and "agent_db a' = agent_db a"
      by (auto simp: job_move_def announce_run_def)
    with Created loc show ?thesis
      by (intro still) (simp_all add: settled_def local_ok_def ran_upto_def outputs_so_far_def)
  next
    case (Acting e k code)
    with m have j': "j' = next_action P w e k code j" and a': "agent_db a' = agent_db a"
      by (auto simp: job_move_def)
    have "its_run j' = its_run j" "emitted j' = emitted j" "append_failed j' = append_failed j"
      "\<not> settled j'" "\<not> settled j"
      using Acting by (auto simp: j' next_action_def Let_def settled_def split: sum.splits)
    moreover have "local_ok j'" unfolding j' by (rule next_action_ok) (use loc Acting in \<open>simp add: local_ok_def\<close>)
    ultimately show ?thesis using a' by (intro still) simp_all
  next
    case (WritingOut e k r)
    with write_stages_ok [OF m loc rows] run show ?thesis by simp
  next
    case (WritingErr e k r)
    with write_stages_ok [OF m loc rows] run show ?thesis by simp
  next
    case (Concluded e st code err)
    with m have "record_end K w e st code err j a = (j', a')" by (simp add: job_move_def)
    from record_end_ok [OF this loc Concluded _ rows] run Concluded show ?thesis by simp
  next
    case (Reported e)
    with m have "j' = j\<lparr>at_stage := Removed e\<rparr>" "agent_db a' = agent_db a"
      by (auto simp: job_move_def remove_active_def)
    with Reported loc show ?thesis by (intro still) (simp_all add: settled_def local_ok_def)
  next
    case (Removed e)
    with m have "j' = j\<lparr>at_stage := Freed\<rparr>" "agent_db a' = agent_db a"
      by (auto simp: job_move_def free_slot_def)
    with Removed loc show ?thesis by (intro still) (simp_all add: settled_def local_ok_def)
  next
    case Freed
    with m have "j' = j\<lparr>at_stage := Ended\<rparr>" "agent_db a' = agent_db a"
      by (auto simp: job_move_def end_job_def)
    with Freed loc show ?thesis by (intro still) (simp_all add: settled_def local_ok_def)
  next
    case Ended
    with live show ?thesis by simp
  qed
qed

section \<open>The invariant of the store\<close>

definition store_inv :: "agent_system \<Rightarrow> bool" where
  "store_inv s \<longleftrightarrow> db_ok (agent_db (shared s))
     \<and> run_id ` set (runs (agent_db (shared s))) \<subseteq> set (used_ids s)
     \<and> (\<forall>j \<in> set (running s). local_ok j \<and> rows_ok (agent_db (shared s)) j)
     \<and> (\<forall>r \<in> set (runs (agent_db (shared s))). run_status r = status_json Running \<longrightarrow>
          (\<exists>j \<in> set (running s). its_run j = Some (run_id r) \<and> \<not> settled j))"

lemma store_invI:
  assumes "db_ok (agent_db (shared s))" and "run_id ` set (runs (agent_db (shared s))) \<subseteq> set (used_ids s)"
    and "\<And>j. j \<in> set (running s) \<Longrightarrow> local_ok j \<and> rows_ok (agent_db (shared s)) j"
    and "\<And>r. r \<in> set (runs (agent_db (shared s))) \<Longrightarrow> run_status r = status_json Running \<Longrightarrow>
      \<exists>j \<in> set (running s). its_run j = Some (run_id r) \<and> \<not> settled j"
  shows "store_inv s"
  using assms unfolding store_inv_def by blast

lemma store_invD:
  assumes "store_inv s"
  shows "db_ok (agent_db (shared s))" and "run_id ` set (runs (agent_db (shared s))) \<subseteq> set (used_ids s)"
    and "j \<in> set (running s) \<Longrightarrow> local_ok j" and "j \<in> set (running s) \<Longrightarrow> rows_ok (agent_db (shared s)) j"
    and "r \<in> set (runs (agent_db (shared s))) \<Longrightarrow> run_status r = status_json Running \<Longrightarrow>
      \<exists>j \<in> set (running s). its_run j = Some (run_id r) \<and> \<not> settled j"
  using assms by (simp_all add: store_inv_def)

lemma store_inv_outside:
  assumes inv: "store_inv s" and same: "same_jobs s s'" and kept: "rows_kept (agent_db (shared s)) (agent_db (shared s'))"
  shows "store_inv s'"
proof (rule store_invI)
  have sub: "set (runs (agent_db (shared s'))) \<subseteq> set (runs (agent_db (shared s)))"
    using kept by (auto simp: rows_kept_def)
  have jobs: "running s' = running s" "used_ids s' = used_ids s" using same by (simp_all add: same_jobs_def)
  show "db_ok (agent_db (shared s'))" using store_invD(1) [OF inv] kept by (simp add: rows_kept_def)
  show "run_id ` set (runs (agent_db (shared s'))) \<subseteq> set (used_ids s')"
    using store_invD(2) [OF inv] sub unfolding jobs by blast
  show "local_ok j \<and> rows_ok (agent_db (shared s')) j" if "j \<in> set (running s')" for j
    using that store_invD(3,4) [OF inv, of j] kept_rows_ok [OF kept store_invD(1) [OF inv]] unfolding jobs by simp
  show "\<exists>j \<in> set (running s'). its_run j = Some (run_id r) \<and> \<not> settled j"
    if "r \<in> set (runs (agent_db (shared s')))" "run_status r = status_json Running" for r
    unfolding jobs by (rule store_invD(5) [OF inv]) (use that sub in blast)+
qed

lemma store_inv_permit:
  assumes "i < length (lookups s)" and inv: "store_inv s"
  shows "store_inv (take_permit i s)"
  using assms(1)
proof (cases rule: take_permit_cases)
  case none
  then show ?thesis by (intro store_inv_outside [OF inv]) simp_all
next
  case (taken orig task m)
  have "local_ok (new_job orig task)" "rows_ok d (new_job orig task)" for d
    by (simp_all add: new_job_def local_ok_def rows_ok_none)
  then show ?thesis using store_invD [OF inv]
    by (intro store_invI) (auto simp: taken(3))
qed

lemma settled_row:
  assumes "local_ok j" and "rows_ok d j" and "its_run j = Some (run_id r)" and "r \<in> set (runs d)" and "settled j"
  shows "run_status r \<noteq> status_json Running"
proof -
  have "row_ok j r" using assms by (simp add: rows_ok_def)
  moreover have "fst (verdict (results j)) \<noteq> Running"
    using assms(1,3,5) by (simp add: local_ok_def settled_def closed_run_def)
  ultimately show ?thesis using assms(5) by (auto simp: row_ok_def status_json_inj split: prod.splits)
qed

lemma own_elsewhere:
  assumes "own_rows_only j d d'" and "its_run j \<noteq> Some (run_id r)"
  shows "r \<in> set (runs d') \<longleftrightarrow> r \<in> set (runs d)"
  using assms elsewhere_rows by (auto simp: own_rows_only_def split: option.splits)

lemma store_inv_move:
  assumes inv: "store_inv s" and own: "runs_own s" and i: "i < length (running s)"
    and live: "at_stage (running s ! i) \<noteq> Ended" and fresh: "fresh_for w i s"
  shows "store_inv (advance K P w i s)"
proof -
  let ?j = "running s ! i" and ?d = "agent_db (shared s)"
  obtain j' a where m: "job_move K P w ?j (shared s) = (j', a)" by fastforce
  let ?d' = "agent_db a"
  have j: "local_ok ?j" "rows_ok ?d ?j" and ok: "db_ok ?d" using inv nth_mem [OF i] by (auto simp: store_inv_def)
  have moved: "local_ok j'" "rows_ok ?d' j'" "own_rows_only j' ?d ?d'"
    using move_ok [OF m j ok live runs_ownD(2) [OF own i] runs_ownD(1) [OF own i]] by simp_all
  have own': "runs_own (advance K P w i s)" by (rule own_move [OF own i fresh])
  note adv = advance_simps [OF m]
  have len: "i < length (running (advance K P w i s))" using i by (simp add: adv(2))
  have others: "its_run (running s ! k) \<noteq> its_run j' \<or> its_run j' = None" if "k < length (running s)" "k \<noteq> i" for k
    using runs_ownD(4) [OF own' len, of _ k] that i by (cases "its_run j'") (auto simp: adv(2))
  have rest: "local_ok (running s ! k) \<and> rows_ok ?d' (running s ! k)" if "k < length (running s)" "k \<noteq> i" for k
  proof -
    have k: "local_ok (running s ! k)" "rows_ok ?d (running s ! k)" using inv nth_mem [OF that(1)] by (auto simp: store_inv_def)
    with moved(3) others [OF that] elsewhere_rows_ok show ?thesis
      by (auto simp: own_rows_only_def split: option.splits)
  qed
  have "\<forall>j \<in> set ((running s)[i := j']). local_ok j \<and> rows_ok ?d' j"
    using rest moved(1,2) i by (auto simp: in_set_conv_nth nth_list_update)
  moreover have "run_id ` set (runs ?d') \<subseteq> set (used_ids (advance K P w i s))"
  proof -
    have "run_id ` set (runs ?d) \<subseteq> set (used_ids (advance K P w i s))"
      using inv by (auto simp: store_inv_def adv(6))
    moreover have "set_option (its_run j') \<subseteq> set (used_ids (advance K P w i s))"
      using runs_ownD(3) [OF own' len] i by (auto simp: adv(2))
    moreover have "run_id ` set (runs ?d') \<subseteq> run_id ` set (runs ?d) \<union> set_option (its_run j')"
      using moved(3) by (cases "its_run j'") (auto simp: own_rows_only_def)
    ultimately show ?thesis by (meson Un_least order_trans)
  qed
  moreover have "\<exists>j \<in> set ((running s)[i := j']). its_run j = Some (run_id r) \<and> \<not> settled j"
    if r: "r \<in> set (runs ?d')" "run_status r = status_json Running" for r
  proof (cases "its_run j' = Some (run_id r)")
    case True
    then have "\<not> settled j'" using settled_row [OF moved(1,2) _ r(1)] r(2) by blast
    with True i show ?thesis by (meson set_update_memI)
  next
    case False
    then have "r \<in> set (runs ?d)" using own_elsewhere [OF moved(3)] r(1) by blast
    then obtain k where k: "k < length (running s)" "its_run (running s ! k) = Some (run_id r)" "\<not> settled (running s ! k)"
      using store_invD(5) [OF inv _ r(2)] by (metis in_set_conv_nth)
    have "k \<noteq> i"
    proof
      assume "k = i"
      then have "its_run ?j = Some (run_id r)" using k by simp
      moreover have "its_run j' = its_run ?j \<or> at_stage ?j = Slotted"
        using move_run(1) [OF m runs_ownD(2) [OF own i] runs_ownD(1) [OF own i]] by blast
      ultimately show False using False runs_ownD(2) [OF own i] by auto
    qed
    then have "(running s)[i := j'] ! k = running s ! k" by simp
    with k show ?thesis by (metis length_list_update nth_mem)
  qed
  moreover have "db_ok ?d'" using moved(3) ok by (simp add: own_rows_only_def)
  ultimately show ?thesis unfolding store_inv_def adv(1,2) by blast
qed

lemma store_inv_step:
  assumes "agent_step K S E P s s'" and "store_inv s" and "runs_own s"
  shows "store_inv s'"
  using assms(1)
proof (cases rule: step_cases)
  case outside
  with store_inv_outside [OF assms(2)] show ?thesis by blast
next
  case (permit i)
  with store_inv_permit assms(2) show ?thesis by simp
next
  case (job i w)
  with store_inv_move assms(2,3) show ?thesis by simp
qed

lemma started_db:
  assumes "init_shared target K W now url ipc n sock = (Inr svc, d)"
  shows "agent_db (svc_agent svc) = svc_db svc" and "\<forall>r \<in> set (runs (svc_db svc)). run_status r \<noteq> status_json Running"
  using assms by (auto elim: started_agent)

lemma reached_store: "agent_reaches K S E P n s \<Longrightarrow> store_inv s"
proof (induction rule: agent_reaches.induct)
  case (agent_start target W now url ipc sock svc d orc)
  with started_db [OF agent_start(1)] show ?case by (simp add: store_inv_def started_system_def)
next
  case (agent_next s s')
  with store_inv_step reached_own show ?case by blast
qed

section \<open>Finished runs are final\<close>

lemma over_db:
  assumes "job_move K P w j a = (j', a')" and "is_over (at_stage j)"
  shows "agent_db a' = agent_db a"
  using assms by (cases "at_stage j") (auto simp: job_move_def remove_active_def free_slot_def end_job_def)

lemma write_output_ids:
  "run_id ` set (runs (agent_db (snd (write_output K f now e strm out j a)))) = run_id ` set (runs (agent_db a))"
  using appended_row(2) [of K f now "execution_id e" strm out "agent_db a"]
  by (auto simp: write_output_def split: prod.splits)

lemma move_ids:
  assumes m: "job_move K P w j a = (j', a')" and "at_stage j \<noteq> Slotted"
  shows "run_id ` set (runs (agent_db a')) = run_id ` set (runs (agent_db a))"
proof (cases "at_stage j")
  case (WritingOut e k r)
  with m write_output_ids [of K "output_faults w (2 * k)" "output_time w (2 * k)" e "''stdout''" "result_stdout r" j a]
  show ?thesis by (auto simp: job_move_def write_stdout_def split: prod.splits)
next
  case (WritingErr e k r)
  with m write_output_ids [of K "output_faults w (2 * k + 1)" "output_time w (2 * k + 1)" e "''stderr''" "result_stderr r" j a]
  show ?thesis by (auto simp: job_move_def write_stderr_def split: prod.splits)
next
  case (Concluded e st code err)
  with m updated_row(3) show ?thesis
    by (fastforce simp: job_move_def record_end_def Let_def split: prod.splits)
qed (use assms in \<open>auto simp: job_move_def take_slot_def announce_run_def remove_active_def free_slot_def end_job_def
      Let_def split: prod.splits bool.splits\<close>)

text \<open>A row that is not running, with its output, stays as it is or goes; what is gone does not come back.\<close>

definition final_row :: "run_row \<Rightarrow> db \<Rightarrow> db \<Rightarrow> bool" where
  "final_row r d d' \<longleftrightarrow>
     r \<in> set (runs d') \<and> run_outputs (run_id r) d' = run_outputs (run_id r) d
     \<or> run_id r \<notin> run_id ` set (runs d')"

lemma kept_final:
  assumes k: "rows_kept d d'" and "db_ok d" and r: "r \<in> set (runs d)"
  shows "final_row r d d'"
proof -
  from k obtain dead where
    runs: "runs d' = filter (\<lambda>r. \<not> dead r) (runs d)"
    and outs: "outputs d' = filter (\<lambda>x. out_run_id x \<notin> run_id ` {r \<in> set (runs d). dead r}) (outputs d)"
    unfolding rows_kept_def by blast
  have one: "y = r" if "y \<in> set (runs d)" "run_id y = run_id r" for y
    using that r db_okD(4) [OF assms(2)] by (auto simp: distinct_map dest: inj_onD)
  show ?thesis
  proof (cases "dead r")
    case True
    then have "run_id r \<notin> run_id ` set (runs d')" using one by (auto simp: runs)
    then show ?thesis by (simp add: final_row_def)
  next
    case False
    then have "run_id r \<notin> run_id ` {r \<in> set (runs d). dead r}" using one by auto
    then have "run_outputs (run_id r) d' = run_outputs (run_id r) d"
      unfolding run_outputs_def outs filter_filter by (intro filter_cong refl) metis
    then show ?thesis using False r by (simp add: final_row_def runs)
  qed
qed

lemma move_final:
  assumes inv: "store_inv s" and own: "runs_own s" and i: "i < length (running s)"
    and live: "at_stage (running s ! i) \<noteq> Ended" and fresh: "fresh_for w i s"
    and r: "r \<in> set (runs (agent_db (shared s)))" "run_status r \<noteq> status_json Running"
  shows "final_row r (agent_db (shared s)) (agent_db (shared (advance K P w i s)))"
proof -
  let ?j = "running s ! i" and ?d = "agent_db (shared s)"
  obtain j' a where m: "job_move K P w ?j (shared s) = (j', a)" by fastforce
  have j: "local_ok ?j" "rows_ok ?d ?j" using store_invD(3,4) [OF inv] i by simp_all
  have moved: "own_rows_only j' ?d (agent_db a)"
    using move_ok [OF m j store_invD(1) [OF inv] live runs_ownD(2) [OF own i] runs_ownD(1) [OF own i]] by simp
  show ?thesis
  proof (cases "its_run j' = Some (run_id r)")
    case False
    then have "r \<in> set (runs (agent_db a))" using own_elsewhere [OF moved] r(1) by blast
    moreover have "run_outputs (run_id r) (agent_db a) = run_outputs (run_id r) ?d"
      using moved False elsewhere_outputs by (auto simp: own_rows_only_def split: option.splits)
    ultimately show ?thesis by (simp add: final_row_def advance_simps(1) [OF m])
  next
    case True
    have used: "run_id r \<in> set (used_ids s)" using store_invD(2) [OF inv] r(1) by blast
    have "its_run ?j = Some (run_id r)"
      using move_run(1) [OF m runs_ownD(2) [OF own i] runs_ownD(1) [OF own i]] True used fresh
      by (auto simp: fresh_for_def)
    then have "row_ok ?j r" using j(2) r(1) by (simp add: rows_ok_def)
    then have "is_over (at_stage ?j)" using r(2) by (auto simp: row_ok_def settled_def split: if_splits)
    then show ?thesis using over_db [OF m] r(1) by (simp add: final_row_def advance_simps(1) [OF m])
  qed
qed

lemma step_final:
  assumes st: "agent_step K S E P s s'" and inv: "store_inv s" and own: "runs_own s"
    and r: "r \<in> set (runs (agent_db (shared s)))" "run_status r \<noteq> status_json Running"
  shows "final_row r (agent_db (shared s)) (agent_db (shared s'))"
  using st
proof (cases rule: step_cases)
  case outside
  with kept_final [OF _ store_invD(1) [OF inv] r(1)] show ?thesis by blast
next
  case (permit i)
  then have "agent_db (shared s') = agent_db (shared s)"
    by (auto simp: take_permit_def split: prod.splits bool.splits)
  with r(1) show ?thesis by (simp add: final_row_def)
next
  case (job i w)
  with move_final [OF inv own _ _ _ r] show ?thesis by simp
qed

lemma step_gone:
  assumes st: "agent_step K S E P s s'" and own: "runs_own s"
    and x: "x \<in> set (used_ids s)" "x \<notin> run_id ` set (runs (agent_db (shared s)))"
  shows "x \<notin> run_id ` set (runs (agent_db (shared s')))" and "x \<in> set (used_ids s')"
proof -
  have "x \<notin> run_id ` set (runs (agent_db (shared s'))) \<and> x \<in> set (used_ids s')"
    using st
  proof (cases rule: step_cases)
    case outside
    then have "set (runs (agent_db (shared s'))) \<subseteq> set (runs (agent_db (shared s)))" "used_ids s' = used_ids s"
      by (auto simp: rows_kept_def same_jobs_def)
    with x show ?thesis by auto
  next
    case (permit i)
    then have "agent_db (shared s') = agent_db (shared s)" "used_ids s' = used_ids s"
      by (auto simp: take_permit_def split: prod.splits bool.splits)
    with x show ?thesis by simp
  next
    case (job i w)
    obtain j' a where m: "job_move K P w (running s ! i) (shared s) = (j', a)" by fastforce
    note adv = advance_simps [OF m]
    have "x \<notin> run_id ` set (runs (agent_db a))"
    proof (cases "at_stage (running s ! i) = Slotted")
      case False
      with move_ids [OF m] x(2) show ?thesis by simp
    next
      case True
      have "x \<noteq> execution_id (fresh_run w (running s ! i))" using job(3) True x(1) by (auto simp: fresh_for_def)
      moreover have "run_id ` set (runs (agent_db a)) \<subseteq>
          insert (execution_id (fresh_run w (running s ! i))) (run_id ` set (runs (agent_db (shared s))))"
        using m True by (auto simp: job_move_def create_record_def create_run_def Let_def
            split: prod.splits sum.splits if_splits)
      ultimately show ?thesis using x(2) by blast
    qed
    then show ?thesis using x(1) by (simp add: job(4) adv)
  qed
  then show "x \<notin> run_id ` set (runs (agent_db (shared s')))" and "x \<in> set (used_ids s')" by simp_all
qed

lemma steps_reach: "(agent_step K S E P)\<^sup>*\<^sup>* s s' \<Longrightarrow> agent_reaches K S E P n s \<Longrightarrow> agent_reaches K S E P n s'"
  by (induction rule: rtranclp_induct) (auto intro: agent_next)

lemma steps_final:
  assumes "(agent_step K S E P)\<^sup>*\<^sup>* s s'" and "agent_reaches K S E P n s"
    and r: "r \<in> set (runs (agent_db (shared s)))" "run_status r \<noteq> status_json Running"
  shows "final_row r (agent_db (shared s)) (agent_db (shared s')) \<and> run_id r \<in> set (used_ids s')"
  using assms(1)
proof (induction rule: rtranclp_induct)
  case base
  have "run_id r \<in> set (used_ids s)" using store_invD(2) [OF reached_store [OF assms(2)]] r(1) by blast
  with r(1) show ?case by (simp add: final_row_def)
next
  case (step y z)
  have y: "agent_reaches K S E P n y" by (rule steps_reach [OF step(1) assms(2)])
  note inv = reached_store [OF y] and own = reached_own [OF y]
  show ?case
  proof (cases "run_id r \<in> run_id ` set (runs (agent_db (shared y)))")
    case False
    with step_gone [OF step(2) own] step.IH show ?thesis by (simp add: final_row_def)
  next
    case True
    then have ry: "r \<in> set (runs (agent_db (shared y)))"
      and o: "run_outputs (run_id r) (agent_db (shared y)) = run_outputs (run_id r) (agent_db (shared s))"
      using step.IH by (auto simp: final_row_def)
    from step_final [OF step(2) inv own ry r(2)] o have "final_row r (agent_db (shared s)) (agent_db (shared z))"
      by (simp add: final_row_def)
    moreover have "set (used_ids y) \<subseteq> set (used_ids z)"
      using step(2) by (cases rule: step_cases)
        (auto simp: same_jobs_def take_permit_def advance_def Let_def split: prod.splits bool.splits)
    ultimately show ?thesis using step.IH by blast
  qed
qed

lemma steps_gone:
  assumes "(agent_step K S E P)\<^sup>*\<^sup>* s s'" and "agent_reaches K S E P n s"
    and "x \<in> set (used_ids s)" and "x \<notin> run_id ` set (runs (agent_db (shared s)))"
  shows "x \<notin> run_id ` set (runs (agent_db (shared s'))) \<and> x \<in> set (used_ids s')"
  using assms(1)
proof (induction rule: rtranclp_induct)
  case base
  show ?case using assms(3,4) by simp
next
  case (step y z)
  have "agent_reaches K S E P n y" by (rule steps_reach [OF step(1) assms(2)])
  with step_gone [OF step(2) reached_own] step.IH show ?case by blast
qed

end
