(* ===== verification/Agent_System_Progress.thy ===== *)
theory Agent_System_Progress
  imports Agent_System_Runs
begin

text \<open>
  Progress of the whole agent (\<open>Agent_System\<close>): every step brings its job closer to the end, the jobs can always
  run to their end, and the handlers and jobs that are one function elsewhere are schedules of the steps.
\<close>

section \<open>Jobs end\<close>

definition acts_left :: "run_job \<Rightarrow> nat \<Rightarrow> nat" where
  "acts_left j k = length (actions (its_task j)) - k"

definition job_left :: "run_job \<Rightarrow> nat" where
  "job_left j =
     (case at_stage j of
        Permitted \<Rightarrow> 4 * acts_left j 0 + 8
      | Slotted \<Rightarrow> 4 * acts_left j 0 + 7
      | Created e \<Rightarrow> 4 * acts_left j 0 + 6
      | Acting e k code \<Rightarrow> 4 * acts_left j k + 5
      | WritingOut e k r \<Rightarrow> 4 * acts_left j (Suc k) + 8
      | WritingErr e k r \<Rightarrow> 4 * acts_left j (Suc k) + 7
      | Concluded e st code err \<Rightarrow> 4
      | Reported e \<Rightarrow> 3
      | Removed e \<Rightarrow> 2
      | Freed \<Rightarrow> 1
      | Ended \<Rightarrow> 0)"

lemma move_left:
  assumes m: "job_move K P w j a = (j', a')" and live: "at_stage j \<noteq> Ended"
  shows "job_left j' < job_left j"
proof -
  note task = move_task(1) [OF m]
  show ?thesis
  proof (cases "at_stage j")
    case (Acting e k code)
    have "k < length (actions (its_task j)) \<Longrightarrow> acts_left j k = Suc (acts_left j (Suc k))"
      by (simp add: acts_left_def)
    with Acting m show ?thesis
      by (auto simp: job_move_def next_action_def job_left_def acts_left_def Let_def not_le split: if_splits sum.splits)
  next
    case (WritingOut e k r)
    with m task show ?thesis
      by (auto simp: job_move_def write_stdout_def job_left_def acts_left_def split: prod.splits)
  next
    case (WritingErr e k r)
    with m task show ?thesis
      by (auto simp: job_move_def write_stderr_def job_left_def acts_left_def split: prod.splits)
  qed (use live m in \<open>auto simp: job_move_def take_slot_def create_record_def announce_run_def record_end_def
      remove_active_def free_slot_def end_job_def job_left_def acts_left_def Let_def
      split: prod.splits bool.splits sum.splits\<close>)
qed

lemma ended_left: "job_left j = 0 \<longleftrightarrow> at_stage j = Ended"
  by (simp add: job_left_def split: run_stage.splits)

lemma job_left_bound: "job_left j \<le> 4 * length (actions (its_task j)) + 8"
  by (auto simp: job_left_def acts_left_def split: run_stage.splits)

text \<open>There is always a fresh identifier, and the database may work.\<close>

lemma fresh_run_id: "execution_id (fresh_run w j) = fresh_execution w"
  by (simp add: fresh_run_def new_run_def manual_run_def new_execution_def split: origin.splits)

lemma fresh_world: "\<exists>w. fresh_for w i s \<and> update_faults w = no_faults"
proof -
  obtain x where "x \<notin> set (used_ids s)"
    using ex_new_if_finite [OF infinite_execution_ids List.finite_set] by blast
  then show ?thesis
    by (intro exI [of _ "undefined\<lparr>fresh_execution := x, update_faults := no_faults\<rparr>"])
       (simp add: fresh_for_def fresh_run_id)
qed

lemma move_recorded:
  assumes "job_move K P w j a = (j', a')" and "update_faults w = no_faults" and "\<not> unrecorded j"
  shows "\<not> unrecorded j'"
  using assms
  by (auto simp: job_move_def move_defs update_run_def no_faults_def call_db_def Let_def
      split: run_stage.splits prod.splits sum.splits if_splits bool.splits)

definition system_left :: "agent_system \<Rightarrow> nat" where
  "system_left s = sum_list (map job_left (running s))"

lemma sum_list_smaller:
  assumes "i < length xs" and "f y < f (xs ! i)"
  shows "sum_list (map f (xs[i := y])) < sum_list (map f xs :: nat list)"
  using assms
proof (induction xs arbitrary: i)
  case Nil
  then show ?case by simp
next
  case (Cons x xs)
  then show ?case by (cases i) auto
qed

lemma jobs_can_drain:
  "\<exists>s'. (agent_step K S E P)\<^sup>*\<^sup>* s s' \<and> (\<forall>j \<in> set (running s'). at_stage j = Ended)
     \<and> ((\<forall>j \<in> set (running s). \<not> unrecorded j) \<longrightarrow> (\<forall>j \<in> set (running s'). \<not> unrecorded j))"
proof (induction "system_left s" arbitrary: s rule: less_induct)
  case less
  show ?case
  proof (cases "\<forall>j \<in> set (running s). at_stage j = Ended")
    case True
    then show ?thesis by blast
  next
    case False
    then obtain i where i: "i < length (running s)" "at_stage (running s ! i) \<noteq> Ended" by (metis in_set_conv_nth)
    obtain w where w: "fresh_for w i s" "update_faults w = no_faults" using fresh_world by blast
    obtain j' a where m: "job_move K P w (running s ! i) (shared s) = (j', a)" by fastforce
    let ?s = "advance K P w i s"
    note adv = advance_simps [OF m]
    have "system_left ?s < system_left s"
      unfolding system_left_def adv(2) by (rule sum_list_smaller) (use i move_left [OF m i(2)] in auto)
    from less [OF this] obtain s' where s': "(agent_step K S E P)\<^sup>*\<^sup>* ?s s'" "\<forall>j \<in> set (running s'). at_stage j = Ended"
      "(\<forall>j \<in> set (running ?s). \<not> unrecorded j) \<longrightarrow> (\<forall>j \<in> set (running s'). \<not> unrecorded j)" by blast
    have "(\<forall>j \<in> set (running s). \<not> unrecorded j) \<longrightarrow> (\<forall>j \<in> set (running ?s). \<not> unrecorded j)"
      unfolding adv(2)
      by (intro impI ball_update) (use i move_recorded [OF m w(2)] in auto)
    moreover have "agent_step K S E P s ?s" using i w(1) by (rule moved)
    ultimately show ?thesis using s' by (meson converse_rtranclp_into_rtranclp)
  qed
qed

text \<open>A store without a running row, which a restart leaves as it is.\<close>

lemma nothing_to_recover:
  assumes "\<And>r. r \<in> set (runs d) \<Longrightarrow> run_status r \<noteq> status_json Running"
  shows "recover_dangling_executions no_faults d = (Inr 0, d)"
proof -
  have "map (\<lambda>r. if run_status r = status_json Running
        then r\<lparr>run_status := status_json Interrupted, run_error_message := Some ''Agent restarted unexpectedly''\<rparr> else r)
      (runs d) = runs d"
    by (rule map_idI) (use assms in auto)
  with assms show ?thesis by (simp add: recover_dangling_executions_def call_db_def no_faults_def filter_empty_conv)
qed

section \<open>One job left alone\<close>

text \<open>The agent while the loop of a job is at \<open>l\<close>, after the events \<open>before\<close>.\<close>

definition in_loop :: "ipc_event list \<Rightarrow> job_loop \<Rightarrow> agent \<Rightarrow> agent" where
  "in_loop before l a = a\<lparr>agent_db := loop_db l, agent_events := before @ loop_events l\<rparr>"

lemma write_output_in_loop:
  "snd (write_output K f now e strm out j (in_loop before l a)) = in_loop before (emit_output K f now e strm out l) a"
  by (simp add: write_output_def emit_output_def in_loop_def split: prod.splits)

lemma own_move_step:
  assumes "i < length (running s)" and "at_stage (running s ! i) \<noteq> Ended" and "at_stage (running s ! i) \<noteq> Slotted"
    and "job_move K P w (running s ! i) (shared s) = (j', a)" and "(agent_step K S E P)\<^sup>*\<^sup>* (advance K P w i s) s'"
  shows "(agent_step K S E P)\<^sup>*\<^sup>* s s'"
  using moved [OF assms(1,2), of w K S E P] assms(3,5) by (auto simp: fresh_for_def intro: converse_rtranclp_into_rtranclp)

text \<open>The output of one action is stored, both streams; the job goes on or ends.\<close>

lemma writes_alone:
  fixes w :: job_world
  assumes i: "i < length (running s)" and at: "at_stage (running s ! i) = WritingOut e k r"
    and task: "its_task (running s ! i) = t" and sh: "shared s = in_loop before l a"
    and l2: "l2 = emit_output K (output_faults w (2 * k + 1)) (output_time w (2 * k + 1)) e ''stderr'' (result_stderr r)
        (emit_output K (output_faults w (2 * k)) (output_time w (2 * k)) e ''stdout'' (result_stdout r) l)"
  shows "\<exists>s' j'. (agent_step K S E P)\<^sup>*\<^sup>* s s' \<and> running s' = (running s)[i := j'] \<and> its_task j' = t
    \<and> at_stage j' = (if result_status r \<noteq> Succeeded
              then Concluded e (result_status r) (result_exit_code r) (result_error r)
              else Acting e (Suc k) (result_exit_code r))
    \<and> shared s' = in_loop before l2 a"
proof -
  let ?l1 = "emit_output K (output_faults w (2 * k)) (output_time w (2 * k)) e ''stdout'' (result_stdout r) l"
  obtain j2 a2 where m2: "job_move K P w (running s ! i) (shared s) = (j2, a2)" by fastforce
  note adv2 = advance_simps [OF m2]
  have a2: "a2 = in_loop before ?l1 a" and at2: "at_stage j2 = WritingErr e k r"
    using m2 at sh write_output_in_loop [of K "output_faults w (2 * k)" "output_time w (2 * k)" e "''stdout''"
        "result_stdout r" "running s ! i" before l a]
    by (auto simp: job_move_def write_stdout_def split: prod.splits)
  let ?s2 = "advance K P w i s"
  have i2: "i < length (running ?s2)" "running ?s2 ! i = j2" using i by (simp_all add: adv2)
  obtain j3 a3 where m3: "job_move K P w (running ?s2 ! i) (shared ?s2) = (j3, a3)" by fastforce
  note adv3 = advance_simps [OF m3]
  have "a3 = in_loop before l2 a" and at3: "at_stage j3 = (if result_status r \<noteq> Succeeded
        then Concluded e (result_status r) (result_exit_code r) (result_error r)
        else Acting e (Suc k) (result_exit_code r))"
    using m3 at2 i2(2) a2 adv2(1) l2 write_output_in_loop [of K "output_faults w (2 * k + 1)" "output_time w (2 * k + 1)" e
        "''stderr''" "result_stderr r" j2 before ?l1 a]
    by (auto simp: job_move_def write_stderr_def split: prod.splits)
  moreover have "its_task j3 = t" using move_task(1) [OF m3] move_task(1) [OF m2] i2 task by simp
  moreover have "(agent_step K S E P)\<^sup>*\<^sup>* ?s2 (advance K P w i ?s2)"
    by (rule own_move_step [OF i2(1) _ _ m3]) (simp_all add: i2 at2)
  then have "(agent_step K S E P)\<^sup>*\<^sup>* s (advance K P w i ?s2)"
    by (rule own_move_step [OF i _ _ m2, rotated 2]) (simp_all add: at)
  ultimately show ?thesis
    by (intro exI [of _ "advance K P w i ?s2"] exI [of _ j3]) (simp add: adv3 adv2)
qed

lemma acting_alone:
  assumes "i < length (running s)" and "at_stage (running s ! i) = Acting e k code"
    and "its_task (running s ! i) = t" and "shared s = in_loop before l a"
    and "final_status l = Succeeded" and "final_exit_code l = code" and "final_error l = None"
    and "L = run_actions K P w t e k (drop k (actions t)) l"
  shows "\<exists>s' j'. (agent_step K S E P)\<^sup>*\<^sup>* s s' \<and> running s' = (running s)[i := j'] \<and> its_task j' = t
    \<and> at_stage j' = Concluded e (final_status L) (final_exit_code L) (final_error L)
    \<and> shared s' = in_loop before L a"
  using assms
proof (induction "length (actions t) - k" arbitrary: s k code l rule: less_induct)
  case less
  let ?j = "running s ! i"
  obtain j1 a1 where m1: "job_move K P w ?j (shared s) = (j1, a1)" by fastforce
  note one = own_move_step [OF less.prems(1) _ _ m1, of S E] and adv1 = advance_simps [OF m1]
  have j1: "j1 = next_action P w e k code ?j" and a1: "a1 = shared s"
    using m1 less.prems(2) by (simp_all add: job_move_def)
  show ?case
  proof (cases "k < length (actions t)")
    case False
    then have "L = l" "at_stage j1 = Concluded e Succeeded code None" "its_task j1 = t"
      using less.prems by (simp_all add: j1 next_action_def)
    moreover have "(agent_step K S E P)\<^sup>*\<^sup>* s (advance K P w i s)" by (rule one) (use less.prems(2) in simp_all)
    ultimately show ?thesis using less.prems adv1 a1 by (intro exI [of _ "advance K P w i s"] exI [of _ j1]) simp
  next
    case True
    then have drop: "drop k (actions t) = actions t ! k # drop (Suc k) (actions t)" by (simp add: Cons_nth_drop_Suc)
    let ?res = "fst (run_action P (child_at w k) (actions t ! k) (timeout_secs (execution_policy t)))"
    let ?s = "advance K P w i s"
    have i1: "i < length (running ?s)" "running ?s ! i = j1" using less.prems(1) by (simp_all add: adv1)
    have t1: "its_task j1 = t" using move_task(1) [OF m1] less.prems(3) by simp
    show ?thesis
    proof (cases "action_enabled (actions t ! k)")
      case off: False
      have "at_stage j1 = Acting e (Suc k) code"
        using less.prems(3) True off by (simp add: j1 next_action_def Let_def)
      then have "\<exists>s' j'. (agent_step K S E P)\<^sup>*\<^sup>* ?s s' \<and> running s' = (running ?s)[i := j'] \<and> its_task j' = t
        \<and> at_stage j' = Concluded e (final_status L) (final_exit_code L) (final_error L)
        \<and> shared s' = in_loop before L a"
        by (intro less.hyps [of "Suc k" ?s code l])
           (use i1 t1 True less.prems(4-8) drop off adv1(1) a1 in simp_all)
      then obtain s' j' where s': "(agent_step K S E P)\<^sup>*\<^sup>* ?s s'" "running s' = (running ?s)[i := j']" "its_task j' = t"
        "at_stage j' = Concluded e (final_status L) (final_exit_code L) (final_error L)"
        "shared s' = in_loop before L a" by blast
      moreover have "(agent_step K S E P)\<^sup>*\<^sup>* s s'" by (rule one [OF _ _ s'(1)]) (use less.prems(2) in simp_all)
      ultimately show ?thesis using adv1(2) by auto
    next
      case on: True
      show ?thesis
      proof (cases ?res)
        case (Inl err)
        then have "L = l\<lparr>final_status := Failed, final_error := Some (error_to_string err)\<rparr>"
          "at_stage j1 = Concluded e Failed code (Some (error_to_string err))"
          using less.prems True on drop by (simp_all add: j1 next_action_def Let_def)
        moreover have "(agent_step K S E P)\<^sup>*\<^sup>* s ?s" by (rule one) (use less.prems(2) in simp_all)
        ultimately show ?thesis using less.prems adv1 a1 t1
          by (intro exI [of _ ?s] exI [of _ j1]) (simp add: in_loop_def)
      next
        case (Inr r)
        have at1: "at_stage j1 = WritingOut e k r"
          using less.prems(3) True on Inr by (simp add: j1 next_action_def Let_def)
        let ?l2 = "emit_output K (output_faults w (2 * k + 1)) (output_time w (2 * k + 1)) e ''stderr'' (result_stderr r)
          (emit_output K (output_faults w (2 * k)) (output_time w (2 * k)) e ''stdout'' (result_stdout r) l)"
        let ?l3 = "?l2\<lparr>final_exit_code := result_exit_code r\<rparr>"
        have "shared ?s = in_loop before l a" using less.prems(4) adv1(1) a1 by simp
        from writes_alone [where e = e and k = k and r = r and t = t and K = K and w = w and S = S and E = E and P = P,
            OF i1(1) _ _ this refl] i1 at1 t1 obtain s3 j3 where
          s3: "(agent_step K S E P)\<^sup>*\<^sup>* ?s s3" "running s3 = (running ?s)[i := j3]" and t3: "its_task j3 = t"
          and at3: "at_stage j3 = (if result_status r \<noteq> Succeeded
              then Concluded e (result_status r) (result_exit_code r) (result_error r)
              else Acting e (Suc k) (result_exit_code r))" and sh3: "shared s3 = in_loop before ?l2 a" by auto
        have i3: "i < length (running s3)" "running s3 ! i = j3" using i1(1) s3(2) by simp_all
        have to3: "(agent_step K S E P)\<^sup>*\<^sup>* s s'" if "(agent_step K S E P)\<^sup>*\<^sup>* s3 s'" for s'
          by (rule one [rotated 2]) (use less.prems(2) s3(1) that in simp_all)
        have shared3: "shared s3 = in_loop before ?l3 a" by (simp add: sh3 in_loop_def)
        have run3: "running s3 = (running s)[i := j3]" by (simp add: s3(2) adv1)
        show ?thesis
        proof (cases "result_status r = Succeeded")
          case False
          then have "L = ?l3\<lparr>final_status := result_status r, final_error := result_error r\<rparr>"
            using less.prems(8) on Inr drop by (simp add: Let_def)
          with False show ?thesis using to3 [OF rtranclp.rtrancl_refl] run3 t3 at3 shared3
            by (intro exI [of _ s3] exI [of _ j3]) (simp add: in_loop_def)
        next
          case ok: True
          have L: "L = run_actions K P w t e (Suc k) (drop (Suc k) (actions t)) ?l3"
            using less.prems(8) on Inr drop ok by (simp add: Let_def)
          have "\<exists>s' j'. (agent_step K S E P)\<^sup>*\<^sup>* s3 s' \<and> running s' = (running s3)[i := j'] \<and> its_task j' = t
            \<and> at_stage j' = Concluded e (final_status L) (final_exit_code L) (final_error L)
            \<and> shared s' = in_loop before L a"
            by (intro less.hyps [of "Suc k" s3 "result_exit_code r" ?l3])
               (use i3 t3 at3 ok True less.prems(5,7) shared3 L in simp_all)
          then obtain s' j' where s': "(agent_step K S E P)\<^sup>*\<^sup>* s3 s'" "running s' = (running s3)[i := j']" "its_task j' = t"
            "at_stage j' = Concluded e (final_status L) (final_exit_code L) (final_error L)"
            "shared s' = in_loop before L a" by blast
          show ?thesis
            by (rule exI [of _ s'], rule exI [of _ j']) (use to3 [OF s'(1)] s'(2-5) run3 in simp)
        qed
      qed
    qed
  qed
qed

text \<open>The end of a job: the verdict, the registration, the slot and the permit.\<close>

definition closed_agent ::
  "codec \<Rightarrow> job_world \<Rightarrow> task \<Rightarrow> execution \<Rightarrow> ipc_event list \<Rightarrow> job_loop \<Rightarrow> agent \<Rightarrow> agent" where
  "closed_agent K w t e before L a =
     (let finished = finish_run w L e;
          duration = (case duration_ms finished of Some n \<Rightarrow> n | None \<Rightarrow> 0)
      in a\<lparr>agent_db := snd (update_run K (update_faults w) finished (loop_db L)),
           agent_events := before @ loop_events L @ [finished_event t finished duration],
           agent_active := AList.delete (execution_id e) (agent_active a),
           agent_manager := drop_permit (release_slot (task_id t) (agent_manager a))\<rparr>)"

lemma ending_moves:
  assumes "at_stage j = Concluded e (final_status L) (final_exit_code L) (final_error L)" and "its_task j = t"
  shows "\<exists>j4 a4 j3 a3 j2 a2 j1 a1. job_move K P w j (in_loop before L a) = (j1, a1) \<and> at_stage j1 = Reported e
    \<and> job_move K P w j1 a1 = (j2, a2) \<and> at_stage j2 = Removed e
    \<and> job_move K P w j2 a2 = (j3, a3) \<and> at_stage j3 = Freed
    \<and> job_move K P w j3 a3 = (j4, a4) \<and> at_stage j4 = Ended \<and> a4 = closed_agent K w t e before L a"
proof -
  have fin: "finish_run w \<lparr>loop_db = d, loop_events = [], final_status = final_status L,
      final_exit_code = final_exit_code L, final_error = final_error L\<rparr> e = finish_run w L e" for d
    by (simp add: finish_run_def)
  show ?thesis
    using assms
    by (auto simp: job_move_def record_end_def remove_active_def free_slot_def end_job_def fin in_loop_def
        closed_agent_def Let_def split: prod.splits)
qed

lemma ending_alone:
  assumes i: "i < length (running s)" and task: "its_task (running s ! i) = t"
    and at: "at_stage (running s ! i) = Concluded e (final_status L) (final_exit_code L) (final_error L)"
    and sh: "shared s = in_loop before L a"
  shows "\<exists>s' j'. (agent_step K S E P)\<^sup>*\<^sup>* s s' \<and> running s' = (running s)[i := j'] \<and> at_stage j' = Ended
    \<and> shared s' = closed_agent K w t e before L a"
proof -
  obtain j4 a4 j3 a3 j2 a2 j1 a1 where
    m1: "job_move K P w (running s ! i) (shared s) = (j1, a1)" "at_stage j1 = Reported e"
    and m2: "job_move K P w j1 a1 = (j2, a2)" "at_stage j2 = Removed e"
    and m3: "job_move K P w j2 a2 = (j3, a3)" "at_stage j3 = Freed"
    and m4: "job_move K P w j3 a3 = (j4, a4)" "at_stage j4 = Ended" "a4 = closed_agent K w t e before L a"
    using ending_moves [OF at task, of K P w before a] unfolding sh by blast
  let ?s1 = "advance K P w i s"
  let ?s2 = "advance K P w i ?s1"
  let ?s3 = "advance K P w i ?s2"
  let ?s4 = "advance K P w i ?s3"
  note a1 = advance_simps [OF m1(1)]
  have n2: "job_move K P w (running ?s1 ! i) (shared ?s1) = (j2, a2)" and l1: "i < length (running ?s1)"
    using m2 i by (simp_all add: a1)
  note a2 = advance_simps [OF n2]
  have n3: "job_move K P w (running ?s2 ! i) (shared ?s2) = (j3, a3)" and l2: "i < length (running ?s2)"
    using m3 l1 by (simp_all add: a2)
  note a3 = advance_simps [OF n3]
  have n4: "job_move K P w (running ?s3 ! i) (shared ?s3) = (j4, a4)" and l3: "i < length (running ?s3)"
    using m4 l2 by (simp_all add: a3)
  note a4 = advance_simps [OF n4]
  have "(agent_step K S E P)\<^sup>*\<^sup>* ?s3 ?s4"
    by (rule own_move_step [OF l3 _ _ n4]) (use l2 m3 in \<open>simp_all add: a3\<close>)
  then have "(agent_step K S E P)\<^sup>*\<^sup>* ?s2 ?s4"
    by (rule own_move_step [OF l2 _ _ n3, rotated 2]) (use l1 m2 in \<open>simp_all add: a2\<close>)
  then have "(agent_step K S E P)\<^sup>*\<^sup>* ?s1 ?s4"
    by (rule own_move_step [OF l1 _ _ n2, rotated 2]) (use i m1 in \<open>simp_all add: a1\<close>)
  then have "(agent_step K S E P)\<^sup>*\<^sup>* s ?s4"
    by (rule own_move_step [OF i _ _ m1(1), rotated 2]) (use at in simp_all)
  then show ?thesis using m4
    by (intro exI [of _ ?s4] exI [of _ j4]) (simp add: a1(2) a2(2) a3(2) a4(1,2))
qed

lemma started_alone:
  assumes i: "i < length (running s)" and at: "at_stage (running s ! i) = Acting e 0 (Some 0)"
    and task: "its_task (running s ! i) = t"
  shows "\<exists>s' j'. (agent_step K S E P)\<^sup>*\<^sup>* s s' \<and> running s' = (running s)[i := j'] \<and> at_stage j' = Ended
    \<and> shared s' = complete_manual_job K P w t e (shared s)"
proof -
  let ?l = "loop_start (agent_db (shared s))" and ?before = "agent_events (shared s)"
  let ?L = "run_actions K P w t e 0 (actions t) ?l"
  have sh: "shared s = in_loop ?before ?l (shared s)" by (simp add: in_loop_def loop_start_def)
  obtain s1 j1 where s1: "(agent_step K S E P)\<^sup>*\<^sup>* s s1" "running s1 = (running s)[i := j1]" "its_task j1 = t"
    "at_stage j1 = Concluded e (final_status ?L) (final_exit_code ?L) (final_error ?L)"
    "shared s1 = in_loop ?before ?L (shared s)"
    using acting_alone [OF i at task sh, of ?L K P w S E] by (auto simp: loop_start_def)
  have i1: "i < length (running s1)" "running s1 ! i = j1" using i s1(2) by simp_all
  obtain s2 j2 where s2: "(agent_step K S E P)\<^sup>*\<^sup>* s1 s2" "running s2 = (running s1)[i := j2]" "at_stage j2 = Ended"
    "shared s2 = closed_agent K w t e ?before ?L (shared s)"
    using ending_alone [of i s1 t e ?L ?before "shared s" K S E P w] i1 s1 by auto
  have "closed_agent K w t e ?before ?L (shared s) = complete_manual_job K P w t e (shared s)"
    by (simp add: closed_agent_def complete_manual_job_def manual_job_def Let_def)
  with s1 s2 show ?thesis
    by (intro exI [of _ s2] exI [of _ j2]) (simp add: rtranclp_trans [OF s1(1)])
qed

section \<open>The handlers as schedules\<close>

lemma without_last [simp]: "without_nth (length xs) (xs @ [x]) = xs"
  by (simp add: without_nth_def)

text \<open>A task that was looked up is taken through permit and slot without interruption.\<close>

definition permit_slot :: "origin \<Rightarrow> task \<Rightarrow> agent \<Rightarrow> run_job list \<times> agent" where
  "permit_slot orig task a =
     (case try_acquire_owned (agent_manager a) of
        (False, _) \<Rightarrow> ([], a)
      | (True, m) \<Rightarrow> (case take_slot (new_job orig task) (a\<lparr>agent_manager := m\<rparr>) of (j, a) \<Rightarrow> ([j], a)))"

lemma permit_and_slot:
  assumes look: "lookups s = ls @ [(orig, task)]"
  shows "\<exists>s'. (agent_step K S E P)\<^sup>*\<^sup>* s s' \<and> lookups s' = ls \<and> sending s' = sending s
    \<and> used_ids s' = used_ids s \<and> events_taken s' = events_taken s
    \<and> shared s' = snd (permit_slot orig task (shared s))
    \<and> running s' = running s @ fst (permit_slot orig task (shared s))"
proof -
  let ?s1 = "take_permit (length ls) s"
  have st1: "agent_step K S E P s ?s1" by (rule permitted) (simp add: look)
  obtain b m where p: "try_acquire_owned (agent_manager (shared s)) = (b, m)" by fastforce
  show ?thesis
  proof (cases b)
    case False
    then have "?s1 = s\<lparr>lookups := ls\<rparr>" using p look by (simp add: take_permit_def)
    with st1 p False show ?thesis by (intro exI [of _ ?s1]) (auto simp: permit_slot_def)
  next
    case True
    let ?i = "length (running s)" and ?w = "undefined :: job_world"
    have s1: "?s1 = s\<lparr>shared := (shared s)\<lparr>agent_manager := m\<rparr>, lookups := ls, running := running s @ [new_job orig task]\<rparr>"
      using p look True by (simp add: take_permit_def)
    have st2: "agent_step K S E P ?s1 (advance K P ?w ?i ?s1)"
      by (rule moved) (simp_all add: s1 new_job_def fresh_for_def)
    obtain j a where ja: "take_slot (new_job orig task) ((shared s)\<lparr>agent_manager := m\<rparr>) = (j, a)" by fastforce
    have "advance K P ?w ?i ?s1 = s\<lparr>shared := a, lookups := ls, running := running s @ [j]\<rparr>"
      using ja by (simp add: s1 advance_def job_move_def new_job_def list_update_append)
    moreover have "(agent_step K S E P)\<^sup>*\<^sup>* s (advance K P ?w ?i ?s1)" using st1 st2 by simp
    ultimately show ?thesis using ja p True
      by (intro exI [of _ "advance K P ?w ?i ?s1"]) (simp add: permit_slot_def)
  qed
qed

lemma permit_slot_simps:
  "try_acquire_owned (agent_manager a) = (False, m) \<Longrightarrow> permit_slot orig task a = ([], a)"
  "try_acquire_owned (agent_manager a) = (True, m) \<Longrightarrow>
     try_acquire_slot (task_id task) (concurrency_policy (execution_policy task)) m = (False, m') \<Longrightarrow>
     permit_slot orig task a = ([(new_job orig task)\<lparr>at_stage := Ended\<rparr>], a\<lparr>agent_manager := drop_permit m'\<rparr>)"
  "try_acquire_owned (agent_manager a) = (True, m) \<Longrightarrow>
     try_acquire_slot (task_id task) (concurrency_policy (execution_policy task)) m = (True, m') \<Longrightarrow>
     permit_slot (ByHand W) task a = ([(new_job (ByHand W) task)\<lparr>at_stage := Slotted\<rparr>], a\<lparr>agent_manager := m'\<rparr>)"
  "try_acquire_owned (agent_manager a) = (True, m) \<Longrightarrow>
     try_acquire_slot (task_id task) (concurrency_policy (execution_policy task)) m = (True, m') \<Longrightarrow>
     permit_slot (Fired ev) task a = ([(new_job (Fired ev) task)\<lparr>at_stage := Slotted\<rparr>],
       a\<lparr>agent_manager := m', agent_jobs := agent_jobs a @ [ScheduledJob task ev]\<rparr>)"
  by (simp_all add: permit_slot_def take_slot_def new_job_def)

text \<open>A job with its slot makes its record and announces it, or gives permit and slot back.\<close>

definition recorded_job :: "codec \<Rightarrow> job_world \<Rightarrow> run_job \<Rightarrow> agent \<Rightarrow> run_job \<times> agent" where
  "recorded_job K w j a =
     (case create_record K w j a of
        (j', a') \<Rightarrow> (case at_stage j' of Created e \<Rightarrow> announce_run e j' a' | _ \<Rightarrow> end_job j' a'))"

lemma record_alone:
  assumes i: "i < length (running s)" and at: "at_stage (running s ! i) = Slotted" and fresh: "fresh_for w i s"
  shows "\<exists>s'. (agent_step K S E P)\<^sup>*\<^sup>* s s' \<and> lookups s' = lookups s \<and> sending s' = sending s
    \<and> running s' = (running s)[i := fst (recorded_job K w (running s ! i) (shared s))]
    \<and> shared s' = snd (recorded_job K w (running s ! i) (shared s))"
proof -
  let ?j = "running s ! i"
  obtain j1 a1 where m1: "job_move K P w ?j (shared s) = (j1, a1)" by fastforce
  note adv1 = advance_simps [OF m1]
  let ?s1 = "advance K P w i s"
  have st1: "agent_step K S E P s ?s1" by (rule moved [OF i _ fresh]) (simp add: at)
  have i1: "i < length (running ?s1)" "running ?s1 ! i = j1" using i by (simp_all add: adv1)
  have mv: "create_record K w ?j (shared s) = (j1, a1)" using m1 at by (simp add: job_move_def)
  obtain j2 a2 where m2: "job_move K P w (running ?s1 ! i) (shared ?s1) = (j2, a2)" by fastforce
  note adv2 = advance_simps [OF m2]
  let ?s2 = "advance K P w i ?s1"
  have look: "lookups ?s2 = lookups s" by (simp add: advance_def Let_def split: prod.splits)
  have "at_stage j1 = Freed \<or> (\<exists>e. at_stage j1 = Created e)"
    using mv by (auto simp: create_record_def Let_def split: prod.splits sum.splits)
  then have "recorded_job K w ?j (shared s) = (j2, a2)" and live: "at_stage j1 \<noteq> Ended" "at_stage j1 \<noteq> Slotted"
    using m2 mv i1 by (auto simp: recorded_job_def job_move_def adv1(1))
  moreover have "(agent_step K S E P)\<^sup>*\<^sup>* ?s1 ?s2"
    by (rule own_move_step [OF i1(1) _ _ m2]) (use live i1 in simp_all)
  with st1 have "(agent_step K S E P)\<^sup>*\<^sup>* s ?s2" by (rule converse_rtranclp_into_rtranclp)
  ultimately show ?thesis using look
    by (intro exI [of _ ?s2]) (simp add: adv2 adv1)
qed

lemma recorded_job_simps:
  assumes "e = fresh_run w j" and "f = (case job_origin j of Fired ev \<Rightarrow> create_faults w | ByHand W \<Rightarrow> db_faults W 1)"
  shows "create_run K f e (agent_db a) = (Inl err, d) \<Longrightarrow>
     recorded_job K w j a = (j\<lparr>at_stage := Ended\<rparr>, a\<lparr>agent_db := d,
       agent_manager := drop_permit (release_slot (task_id (its_task j)) (agent_manager a))\<rparr>)"
    and "create_run K f e (agent_db a) = (Inr u, d) \<Longrightarrow>
     recorded_job K w j a = (j\<lparr>at_stage := Acting e 0 (Some 0), its_run := Some (execution_id e)\<rparr>,
       a\<lparr>agent_db := d, agent_active := AList.update (execution_id e) False (agent_active a),
         agent_events := agent_events a @ [started_event e],
         agent_jobs := agent_jobs a @ (case job_origin j of Fired ev \<Rightarrow> [] | ByHand W \<Rightarrow> [ManualJob (its_task j) e])\<rparr>)"
  using assms
  by (simp_all add: recorded_job_def create_record_def announce_run_def end_job_def Let_def split: origin.splits)

text \<open>The job of a manual run that was spawned between two states is the last one, before its first action.\<close>

definition spawned_manual :: "agent_system \<Rightarrow> agent_system \<Rightarrow> bool" where
  "spawned_manual s s' \<longleftrightarrow>
     (\<forall>task e. agent_jobs (shared s') = agent_jobs (shared s) @ [ManualJob task e] \<longrightarrow>
        (\<exists>j. running s' = running s @ [j] \<and> at_stage j = Acting e 0 (Some 0) \<and> its_task j = task
           \<and> its_run j = Some (execution_id e)))"

lemma spawned_none: "agent_jobs (shared s') = agent_jobs (shared s) \<Longrightarrow> spawned_manual s s'"
  by (simp add: spawned_manual_def)

text \<open>\<open>task.trigger_now\<close> as a whole: what the agent holds is what the handler leaves.\<close>

lemma trigger_now_schedule:
  assumes fresh: "new_execution_id W \<notin> set (used_ids s)" and req: "request_method req = ''task.trigger_now''"
  shows "\<exists>s'. (agent_step K S E P)\<^sup>*\<^sup>* s s' \<and> shared s' = snd (handle_task_trigger_now K S W req (shared s))
    \<and> lookups s' = lookups s \<and> sending s' = sending s \<and> spawned_manual s s'"
proof -
  let ?s1 = "begin_request K S W req s"
  have st1: "agent_step K S E P s ?s1" by (rule requested)
  let ?t = "task_id_param S (pick_param ''id'' (request_params req))"
  show ?thesis
  proof (cases "\<exists>t task. ?t = Inr t \<and> find_task_by_id K (db_faults W 0) (now_at W 0) t (agent_db (shared s)) = Inr (Some task)")
    case False
    then have "?s1 = s" "snd (handle_task_trigger_now K S W req (shared s)) = shared s"
      using req by (auto simp: begin_request_def look_up_def handle_task_trigger_now_def split: sum.splits option.splits)
    then show ?thesis by (intro exI [of _ s]) (simp add: spawned_none)
  next
    case True
    then obtain t task where t: "?t = Inr t"
      and found: "find_task_by_id K (db_faults W 0) (now_at W 0) t (agent_db (shared s)) = Inr (Some task)" by blast
    have s1: "?s1 = s\<lparr>lookups := lookups s @ [(ByHand W, task)]\<rparr>"
      using req t found by (simp add: begin_request_def look_up_def)
    obtain s2 where s2: "(agent_step K S E P)\<^sup>*\<^sup>* ?s1 s2" "lookups s2 = lookups s" "sending s2 = sending s"
      "used_ids s2 = used_ids s" and sh2: "shared s2 = snd (permit_slot (ByHand W) task (shared s))"
      and run2: "running s2 = running s @ fst (permit_slot (ByHand W) task (shared s))"
      using permit_and_slot [of ?s1 "lookups s" "ByHand W" task K S E P] by (auto simp: s1)
    have r2: "(agent_step K S E P)\<^sup>*\<^sup>* s s2" using st1 s2(1) by (rule converse_rtranclp_into_rtranclp)
    obtain b m where p: "try_acquire_owned (agent_manager (shared s)) = (b, m)" by fastforce
    obtain c m' where q: "try_acquire_slot (task_id task) (concurrency_policy (execution_policy task)) m = (c, m')" by fastforce
    show ?thesis
    proof (cases "b \<and> c")
      case False
      with p q t found have "snd (handle_task_trigger_now K S W req (shared s)) = snd (permit_slot (ByHand W) task (shared s))
          \<and> agent_jobs (shared s2) = agent_jobs (shared s)"
        by (cases b; cases c) (simp_all add: handle_task_trigger_now_def permit_slot_simps sh2)
      with r2 s2 sh2 show ?thesis by (intro exI [of _ s2]) (simp add: spawned_none)
    next
      case True
      then have p': "permit_slot (ByHand W) task (shared s)
          = ([(new_job (ByHand W) task)\<lparr>at_stage := Slotted\<rparr>], (shared s)\<lparr>agent_manager := m'\<rparr>)"
        using p q permit_slot_simps(3) by simp
      let ?i = "length (running s)" and ?e = "manual_run W task"
      let ?w = "(undefined :: job_world)\<lparr>fresh_execution := new_execution_id W\<rparr>"
      have j: "?i < length (running s2)" "running s2 ! ?i = (new_job (ByHand W) task)\<lparr>at_stage := Slotted\<rparr>"
        by (simp_all add: run2 p')
      have e: "fresh_run ?w (running s2 ! ?i) = ?e" by (simp add: j fresh_run_def new_job_def)
      have id: "execution_id ?e = new_execution_id W" by (simp add: manual_run_def new_execution_def)
      have "fresh_for ?w ?i s2" using fresh s2(4) by (simp add: fresh_for_def e id)
      from record_alone [OF j(1) _ this, of K S E P] obtain s3 where
        s3: "(agent_step K S E P)\<^sup>*\<^sup>* s2 s3" "lookups s3 = lookups s" "sending s3 = sending s"
        and sh3: "shared s3 = snd (recorded_job K ?w (running s2 ! ?i) (shared s2))"
        and run3: "running s3 = (running s2)[?i := fst (recorded_job K ?w (running s2 ! ?i) (shared s2))]"
        by (auto simp: j s2)
      obtain r d where cr: "create_run K (db_faults W 1) ?e (agent_db (shared s2)) = (r, d)" by fastforce
      note rec = recorded_job_simps [OF e [symmetric] refl, of K "shared s2", unfolded j]
      have "shared s3 = snd (handle_task_trigger_now K S W req (shared s))"
        using rec cr p q t found True unfolding sh3
        by (cases r) (simp_all add: handle_task_trigger_now_def j new_job_def sh2 p' Let_def)
      moreover have "spawned_manual s s3"
      proof (cases r)
        case (Inl err)
        with rec(1) cr show ?thesis by (intro spawned_none) (simp add: sh3 j sh2 p' new_job_def)
      next
        case (Inr u)
        with rec(2) cr show ?thesis
          by (simp add: spawned_manual_def sh3 run3 j sh2 p' new_job_def run2)
      qed
      ultimately show ?thesis using s3 rtranclp_trans [OF r2 s3(1)] by (intro exI [of _ s3]) simp
    qed
  qed
qed

lemma stored_request_schedule:
  assumes other: "request_method req \<noteq> ''task.trigger_now''"
  shows "\<exists>s'. (agent_step K S E P)\<^sup>*\<^sup>* s s' \<and> shared s' = snd (handle_request K S W req (shared s))
    \<and> lookups s' = lookups s \<and> sending s' = sending s"
proof -
  let ?s1 = "begin_request K S W req s"
  have st1: "(agent_step K S E P)\<^sup>*\<^sup>* s ?s1" using requested by (rule r_into_rtranclp)
  have send: "(agent_step K S E P)\<^sup>*\<^sup>* s (send_pending W (length (sending s)) ?s1)"
    if "length (sending s) < length (sending ?s1)"
    using st1 sent [OF that, of K S E P W] by (rule rtranclp.rtrancl_into_rtrancl)
  from other have "request_method req = ''task.save'' \<or> request_method req = ''task.delete'' \<or> \<not> taken_apart req"
    by (auto simp: taken_apart_def)
  then consider (save) "request_method req = ''task.save''" | (del) "request_method req = ''task.delete''"
    | (plain) "\<not> taken_apart req" by blast
  then show ?thesis
  proof cases
    case save
    then have h: "handle_request K S W req (shared s) = handle_task_save K S W req (shared s)"
      by (simp add: handle_request_def)
    obtain r a where r: "save_in_store K S W req (shared s) = (r, a)" by fastforce
    show ?thesis
    proof (cases r)
      case (Inl e)
      with save r st1 show ?thesis unfolding h
        by (intro exI [of _ ?s1]) (simp add: begin_request_def handle_task_save_def send_saved_def)
    next
      case (Inr task)
      with save r send show ?thesis unfolding h
        by (intro exI [of _ "send_pending W (length (sending s)) ?s1"])
           (simp add: begin_request_def handle_task_save_def send_saved_def send_pending_def)
    qed
  next
    case del
    then have h: "handle_request K S W req (shared s) = handle_task_delete K S W req (shared s)"
      by (simp add: handle_request_def)
    show ?thesis
    proof (cases "task_id_param S (pick_param ''id'' (request_params req))")
      case (Inl e)
      with del st1 show ?thesis unfolding h
        by (intro exI [of _ ?s1]) (simp add: begin_request_def delete_in_store_def handle_task_delete_def)
    next
      case id: (Inr t)
      obtain r d where r: "delete_task (db_faults W 0) t (agent_db (shared s)) = (r, d)" by fastforce
      show ?thesis
      proof (cases r)
        case (Inl e)
        with del id r st1 show ?thesis unfolding h
          by (intro exI [of _ ?s1]) (simp add: begin_request_def delete_in_store_def handle_task_delete_def)
      next
        case (Inr u)
        with del id r send show ?thesis unfolding h
          by (intro exI [of _ "send_pending W (length (sending s)) ?s1"])
             (simp add: begin_request_def delete_in_store_def handle_task_delete_def send_pending_def)
      qed
    qed
  next
    case plain
    with st1 show ?thesis
      by (intro exI [of _ ?s1]) (simp add: begin_request_def taken_apart_def)
  qed
qed

lemma stored_request_jobs:
  assumes other: "request_method req \<noteq> ''task.trigger_now''"
  shows "agent_jobs (snd (handle_request K S W req a)) = agent_jobs a"
proof (cases "taken_apart req")
  case False
  with plain_request [OF False, of K a S W] show ?thesis by (simp add: aside_def)
next
  case True
  with other show ?thesis
    by (auto simp: taken_apart_def handle_request_def handle_task_save_def save_in_store_def send_saved_def
        handle_task_delete_def send_command_def split: sum.splits prod.splits)
qed

lemma request_schedule:
  assumes fresh: "new_execution_id W \<notin> set (used_ids s)"
  shows "\<exists>s'. (agent_step K S E P)\<^sup>*\<^sup>* s s' \<and> shared s' = snd (handle_request K S W req (shared s))
    \<and> lookups s' = lookups s \<and> sending s' = sending s \<and> spawned_manual s s'"
proof (cases "request_method req = ''task.trigger_now''")
  case True
  then have "handle_request K S W req (shared s) = handle_task_trigger_now K S W req (shared s)"
    by (simp add: handle_request_def)
  with trigger_now_schedule [OF fresh True] show ?thesis by simp
next
  case False
  from stored_request_schedule [OF False, of K S E P s W] stored_request_jobs [OF False, of K S W "shared s"]
  show ?thesis by (auto intro!: spawned_none)
qed

text \<open>The dispatcher takes an event, and the job it spawns is left alone.\<close>

lemma dispatch_schedule:
  assumes ev: "events_taken s < length (events (scheduler s))" "ev = events (scheduler s) ! events_taken s"
    and waits: "dispatcher_waits s"
  shows "\<exists>s'. (agent_step K S E P)\<^sup>*\<^sup>* s s' \<and> shared s' = dispatch_event K W ev (shared s)
    \<and> events_taken s' = Suc (events_taken s) \<and> lookups s' = lookups s \<and> used_ids s' = used_ids s
    \<and> (agent_jobs (shared s') = agent_jobs (shared s)
       \<or> (\<exists>task. agent_jobs (shared s') = agent_jobs (shared s) @ [ScheduledJob task ev]
            \<and> running s' = running s @ [(new_job (Fired ev) task)\<lparr>at_stage := Slotted\<rparr>]))"
proof -
  let ?s1 = "take_event K W s"
  have st1: "agent_step K S E P s ?s1" using ev(1) waits by (rule fired)
  show ?thesis
  proof (cases "\<exists>task. find_task_by_id K (db_faults W 0) (now_at W 0) (ev_task_id ev) (agent_db (shared s)) = Inr (Some task)")
    case False
    then have "?s1 = s\<lparr>events_taken := Suc (events_taken s)\<rparr>" "dispatch_event K W ev (shared s) = shared s"
      using ev by (auto simp: take_event_def look_up_def dispatch_event_def Let_def split: sum.splits option.splits)
    with st1 show ?thesis by (intro exI [of _ ?s1]) auto
  next
    case True
    then obtain task where
      found: "find_task_by_id K (db_faults W 0) (now_at W 0) (ev_task_id ev) (agent_db (shared s)) = Inr (Some task)" by blast
    have s1: "?s1 = s\<lparr>events_taken := Suc (events_taken s), lookups := lookups s @ [(Fired ev, task)]\<rparr>"
      using ev found by (simp add: take_event_def look_up_def Let_def)
    obtain s2 where s2: "(agent_step K S E P)\<^sup>*\<^sup>* ?s1 s2" "lookups s2 = lookups s" "used_ids s2 = used_ids s"
      "events_taken s2 = Suc (events_taken s)" and sh2: "shared s2 = snd (permit_slot (Fired ev) task (shared s))"
      and run2: "running s2 = running s @ fst (permit_slot (Fired ev) task (shared s))"
      using permit_and_slot [of ?s1 "lookups s" "Fired ev" task K S E P] by (auto simp: s1)
    have r2: "(agent_step K S E P)\<^sup>*\<^sup>* s s2" using st1 s2(1) by (rule converse_rtranclp_into_rtranclp)
    obtain b m where p: "try_acquire_owned (agent_manager (shared s)) = (b, m)" by fastforce
    obtain c m' where q: "try_acquire_slot (task_id task) (concurrency_policy (execution_policy task)) m = (c, m')" by fastforce
    have "dispatch_event K W ev (shared s) = snd (permit_slot (Fired ev) task (shared s))"
      using p q found by (cases b; cases c) (simp_all add: dispatch_event_def permit_slot_simps)
    moreover have "agent_jobs (shared s2) = agent_jobs (shared s)
       \<or> (\<exists>task. agent_jobs (shared s2) = agent_jobs (shared s) @ [ScheduledJob task ev]
            \<and> running s2 = running s @ [(new_job (Fired ev) task)\<lparr>at_stage := Slotted\<rparr>])"
      using p q by (cases b; cases c) (simp_all add: sh2 run2 permit_slot_simps)
    ultimately show ?thesis using r2 s2(2-4) sh2 by (intro exI [of _ s2]) simp
  qed
qed

lemma delete_update_same: "AList.delete k (AList.update k v xs) = AList.delete k xs"
  by (induction xs) (auto simp: AList.delete_eq)

lemma scheduled_alone:
  assumes i: "i < length (running s)" and at: "at_stage (running s ! i) = Slotted" and fresh: "fresh_for w i s"
    and orig: "job_origin (running s ! i) = Fired ev" and task: "its_task (running s ! i) = t"
  shows "\<exists>s' j'. (agent_step K S E P)\<^sup>*\<^sup>* s s' \<and> running s' = (running s)[i := j'] \<and> at_stage j' = Ended
    \<and> shared s' = complete_scheduled_job K P w t ev (shared s)"
proof -
  let ?e = "new_run w t (ev_trigger_id ev) (Some (ev_scheduled_at ev))"
  have e: "?e = fresh_run w (running s ! i)" by (simp add: fresh_run_def orig task)
  let ?r = "recorded_job K w (running s ! i) (shared s)"
  obtain s1 where s1: "(agent_step K S E P)\<^sup>*\<^sup>* s s1" "running s1 = (running s)[i := fst ?r]" "shared s1 = snd ?r"
    using record_alone [OF i at fresh, of K S E P] by blast
  obtain r d where cr: "create_run K (create_faults w) ?e (agent_db (shared s)) = (r, d)" by fastforce
  note rec = recorded_job_simps [OF e refl, of K "shared s", unfolded orig task origin.case append_Nil2]
  show ?thesis
  proof (cases r)
    case (Inl err)
    with rec(1) [of err d] cr have "?r = ((running s ! i)\<lparr>at_stage := Ended\<rparr>, (shared s)\<lparr>agent_db := d,
       agent_manager := drop_permit (release_slot (task_id t) (agent_manager (shared s)))\<rparr>)" by simp
    with Inl cr s1 show ?thesis
      by (intro exI [of _ s1] exI [of _ "fst ?r"]) (simp add: complete_scheduled_job_def dispatch_job_def)
  next
    case (Inr u)
    with rec(2) [of u d] cr have r: "?r = ((running s ! i)\<lparr>at_stage := Acting ?e 0 (Some 0), its_run := Some (execution_id ?e)\<rparr>,
       (shared s)\<lparr>agent_db := d, agent_active := AList.update (execution_id ?e) False (agent_active (shared s)),
         agent_events := agent_events (shared s) @ [started_event ?e]\<rparr>)" by simp
    have i1: "i < length (running s1)" "running s1 ! i = fst ?r" using i s1(2) by simp_all
    obtain s2 j2 where s2: "(agent_step K S E P)\<^sup>*\<^sup>* s1 s2" "running s2 = (running s1)[i := j2]" "at_stage j2 = Ended"
      "shared s2 = complete_manual_job K P w t ?e (shared s1)"
      using started_alone [of i s1 ?e t K S E P w] i1 task by (auto simp: r)
    have "complete_manual_job K P w t ?e (shared s1) = complete_scheduled_job K P w t ev (shared s)"
      using cr Inr
      by (simp add: s1(3) r complete_manual_job_def manual_job_def complete_scheduled_job_def dispatch_job_def job_body_def
          Let_def delete_update_same)
    with s1(1,2) s2 show ?thesis
      by (intro exI [of _ s2] exI [of _ j2]) (simp add: rtranclp_trans [OF s1(1)])
  qed
qed

end
