(* ===== verification/Agent_Timetable.thy ===== *)
theory Agent_Timetable
  imports Agent_System_Runs
begin

text \<open>
  The scheduler inside the whole agent (\<open>Agent_System\<close>): it is the scheduler of \<open>Scheduler\<close> under commands whose
  tasks have distinct triggers, and its registry follows the stored tasks.
\<close>

section \<open>The commands of the agent\<close>

text \<open>Trigger ids are the primary key of a table, so that no task that was stored has one twice.\<close>

definition commands_distinct :: "agent_system \<Rightarrow> bool" where
  "commands_distinct s \<longleftrightarrow>
     list_all (\<lambda>c. distinct_triggers (sched_input.Received c)) (agent_commands (shared s) @ sending s)
     \<and> db_ok (agent_db (shared s)) \<and> commands_taken s \<le> length (agent_commands (shared s))"

lemma unchanging_distinct: "\<not> changes_tasks c \<Longrightarrow> distinct_triggers (sched_input.Received c)"
  by (cases c) simp_all

lemma list_all_without: "list_all Q xs \<Longrightarrow> list_all Q (without_nth i xs)"
  by (auto simp: without_nth_def list_all_iff dest: in_set_takeD in_set_dropD)

lemma hits_unchanging: "list_all (\<lambda>c. \<not> changes_tasks c) (dispatch_hits ev ts)"
  by (induction ts) auto

lemma network_unchanging: "list_all (\<lambda>c. \<not> changes_tasks c) (dispatch_network_event K f now ev d)"
  by (simp add: dispatch_network_event_def hits_unchanging split: sum.splits)

lemma list_all_imp: "list_all Q xs \<Longrightarrow> (\<And>x. Q x \<Longrightarrow> R x) \<Longrightarrow> list_all R xs"
  by (auto simp: list_all_iff)

text \<open>What a step does to the commands and the scheduler.\<close>

lemma command_cases:
  assumes "agent_step K S E P s s'"
  obtains (quiet) "agent_commands (shared s') = agent_commands (shared s)" and "sending s' = sending s"
      and "scheduler s' = scheduler s" and "commands_taken s' = commands_taken s"
  | (request) W req where "s' = begin_request K S W req s"
  | (sent) i W where "i < length (sending s)" and "s' = send_pending W i s"
  | (network) f now ev where "s' = s\<lparr>sending := sending s @ dispatch_network_event K f now ev (agent_db (shared s))\<rparr>"
  | (commanded) orc sc where "commands_taken s < length (agent_commands (shared s))"
      and "enabled_input (sched_input.Received (agent_commands (shared s) ! commands_taken s)) (scheduler s)"
      and "sched_turn E orc (sched_input.Received (agent_commands (shared s) ! commands_taken s)) (scheduler s) = Ret sc"
      and "s' = s\<lparr>scheduler := sc, commands_taken := Suc (commands_taken s)\<rparr>"
  | (timed) inp orc sc where "inp = TimerElapsed \<or> inp = ClockTick" and "enabled_input inp (scheduler s)"
      and "sched_turn E orc inp (scheduler s) = Ret sc" and "s' = s\<lparr>scheduler := sc\<rparr>"
  using assms
proof cases
  case (requested W req)
  then show ?thesis by (rule request)
next
  case (sent i W)
  then show ?thesis using that(3) by blast
next
  case (network f now ev)
  then show ?thesis using that(4) by blast
next
  case (commanded inp orc sc)
  then show ?thesis using that(5) by blast
next
  case (timed inp orc sc)
  then show ?thesis using that(6) by blast
next
  case (fired W)
  then show ?thesis by (intro quiet) (simp_all add: take_event_def Let_def)
next
  case (permitted i)
  then show ?thesis by (intro quiet) (simp_all add: take_permit_def split: prod.splits bool.splits)
next
  case (moved i w)
  obtain j a where m: "job_move K P w (running s ! i) (shared s) = (j, a)" by fastforce
  have "agent_commands a = agent_commands (shared s)"
    using m by (auto simp: job_move_def move_defs Let_def split: run_stage.splits prod.splits sum.splits if_splits bool.splits)
  with moved(1) advance_simps [OF m] show ?thesis by (intro quiet) simp_all
next
  case (purged i f g now)
  then show ?thesis by (intro quiet) (simp_all add: purge_def split: outcome.splits)
qed

lemma request_commands:
  "\<exists>cs. agent_commands (shared (begin_request K S W req s)) = agent_commands (shared s) @ cs
     \<and> list_all (\<lambda>c. \<not> changes_tasks c) cs"
proof (cases "taken_apart req")
  case True
  then have "agent_commands (shared (begin_request K S W req s)) = agent_commands (shared s)"
    by (auto simp: begin_request_def taken_apart_def save_in_store_def delete_in_store_def split: sum.splits prod.splits)
  then show ?thesis by simp
next
  case False
  then show ?thesis using plain_request [OF False, of K "shared s" S W]
    by (auto simp: begin_request_def taken_apart_def aside_def)
qed

lemma request_sending:
  obtains (none) "sending (begin_request K S W req s) = sending s"
  | (save) t d where "save_task K (db_faults W 0) t (agent_db (shared s)) = (Inr (), d)"
      and "sending (begin_request K S W req s) = sending s @ [AddTask t]"
      and "agent_db (shared (begin_request K S W req s)) = d"
  | (delete) t d where "delete_task (db_faults W 0) t (agent_db (shared s)) = (Inr (), d)"
      and "sending (begin_request K S W req s) = sending s @ [RemoveTask t]"
      and "agent_db (shared (begin_request K S W req s)) = d"
proof -
  let ?s = "begin_request K S W req s"
  consider (a) "request_method req = ''task.save''" | (b) "request_method req = ''task.delete''"
    | (c) "request_method req \<noteq> ''task.save''" "request_method req \<noteq> ''task.delete''" by blast
  then show thesis
  proof cases
    case a
    show ?thesis
    proof (cases "task_of_json S (pick_param ''task'' (request_params req))")
      case (Inl e)
      with a show ?thesis by (intro none) (simp add: begin_request_def save_in_store_def)
    next
      case (Inr t)
      obtain r d where r: "save_task K (db_faults W 0) t (agent_db (shared s)) = (r, d)" by fastforce
      show ?thesis by (cases r) (use a Inr r in \<open>auto simp: begin_request_def save_in_store_def intro: none save\<close>)
    qed
  next
    case b
    show ?thesis
    proof (cases "task_id_param S (pick_param ''id'' (request_params req))")
      case (Inl e)
      with b show ?thesis by (intro none) (simp add: begin_request_def delete_in_store_def)
    next
      case (Inr t)
      obtain r d where r: "delete_task (db_faults W 0) t (agent_db (shared s)) = (r, d)" by fastforce
      show ?thesis by (cases r) (use b Inr r in \<open>auto simp: begin_request_def delete_in_store_def intro: none delete\<close>)
    qed
  next
    case c
    then show ?thesis by (intro none) (simp add: begin_request_def split: sum.splits)
  qed
qed

lemma step_db_ok: "agent_step K S E P s s' \<Longrightarrow> runs_own s \<Longrightarrow> store_inv s \<Longrightarrow> db_ok (agent_db (shared s'))"
  using store_inv_step store_invD(1) by blast

lemma commands_distinct_step:
  assumes st: "agent_step K S E P s s'" and inv: "commands_distinct s" and db: "db_ok (agent_db (shared s'))"
  shows "commands_distinct s'"
proof -
  have dist: "list_all (\<lambda>c. distinct_triggers (sched_input.Received c)) (agent_commands (shared s))"
    "list_all (\<lambda>c. distinct_triggers (sched_input.Received c)) (sending s)"
    and le: "commands_taken s \<le> length (agent_commands (shared s))"
    using inv by (simp_all add: commands_distinct_def)
  show ?thesis
    using st
  proof (cases rule: command_cases)
    case quiet
    with inv db show ?thesis by (simp add: commands_distinct_def)
  next
    case (request W req)
    obtain cs where cs: "agent_commands (shared s') = agent_commands (shared s) @ cs" "list_all (\<lambda>c. \<not> changes_tasks c) cs"
      using request_commands request by blast
    have taken: "commands_taken s' = commands_taken s"
      by (auto simp: request begin_request_def delete_in_store_def split: sum.splits prod.splits)
    have "list_all (\<lambda>c. distinct_triggers (sched_input.Received c)) (sending s')"
    proof (cases K S W req s rule: request_sending)
      case none
      with dist request show ?thesis by simp
    next
      case (save t d)
      with dist request saved_triggers_distinct [OF save(1)] show ?thesis by simp
    next
      case (delete t d)
      with dist request show ?thesis by simp
    qed
    with dist cs le taken db show ?thesis
      by (simp add: commands_distinct_def list_all_imp [OF cs(2) unchanging_distinct])
  next
    case (sent i W)
    then have "distinct_triggers (sched_input.Received (sending s ! i))" using dist(2) by (simp add: list_all_length)
    with sent dist le db show ?thesis
      by (simp add: commands_distinct_def send_pending_def send_command_def list_all_without)
  next
    case (network f now ev)
    with dist le db show ?thesis
      by (simp add: commands_distinct_def list_all_imp [OF network_unchanging unchanging_distinct])
  next
    case (commanded orc sc)
    with dist le db show ?thesis by (simp add: commands_distinct_def)
  next
    case (timed inp orc sc)
    with dist le db show ?thesis by (simp add: commands_distinct_def)
  qed
qed

section \<open>The start\<close>

lemma found_row:
  assumes "find_task_by_id K f now t d = Inr (Some task)"
  obtains r where "find (\<lambda>r. row_task_id r = t) (tasks d) = Some r" and "task_id task = t"
    and "task_enabled task = (row_enabled r = 1)"
    and "rmap_list (\<lambda>r. dec_trigger K (trow_config_json r)) (filter (\<lambda>r. trow_task_id r = t) (trigger_rows d))
      = Inr (triggers task)"
proof -
  obtain r where r: "find (\<lambda>r. row_task_id r = t) (tasks d) = Some r"
    using assms by (cases "find (\<lambda>r. row_task_id r = t) (tasks d)") (auto simp: find_task_by_id_def outcome_simps)
  have id: "row_task_id r = t" using r by (auto simp: find_Some_iff)
  show thesis
    by (rule that [OF r]) (use assms r id in \<open>auto simp: find_task_by_id_def row_to_task_def outcome_simps\<close>)
qed

lemma map_list_all2:
  "list_all2 Q xs ys \<Longrightarrow> (\<And>x y. x \<in> set xs \<Longrightarrow> Q x y \<Longrightarrow> g y = f x) \<Longrightarrow> map g ys = map f xs"
  by (induction rule: list_all2_induct) auto

lemma coded_ids:
  assumes "rows_coded K d" and "rmap_list (\<lambda>r. dec_trigger K (trow_config_json r)) (filter Q (trigger_rows d)) = Inr trs"
  shows "map trigger_id trs = map trow_id (filter Q (trigger_rows d))"
proof -
  let ?rs = "filter Q (trigger_rows d)"
  have all: "list_all2 (\<lambda>r tr. dec_trigger K (trow_config_json r) = Inr tr) ?rs trs"
    using assms(2) by (simp add: rmap_list_Inr)
  have coded: "r \<in> set ?rs \<Longrightarrow> dec_trigger K (trow_config_json r) = Inr tr \<Longrightarrow> trigger_id tr = trow_id r" for r tr
    using assms(1) by (fastforce simp: rows_coded_def list_all_iff)
  show ?thesis
    by (rule map_list_all2 [OF all]) (use coded in blast)
qed

lemma found_distinct:
  assumes "find_task_by_id K f now t d = Inr (Some task)" and "db_ok d" and "rows_coded K d"
  shows "distinct (map trigger_id (triggers task))"
proof -
  from assms(1) obtain r where "rmap_list (\<lambda>r. dec_trigger K (trow_config_json r))
      (filter (\<lambda>r. trow_task_id r = t) (trigger_rows d)) = Inr (triggers task)" by (rule found_row)
  from coded_ids [OF assms(3) this] show ?thesis
    using db_okD(2) [OF assms(2)] by (simp add: distinct_map_filter)
qed

text \<open>The tasks that are loaded, one per row.\<close>

lemma find_each_rows:
  assumes "find_each K f now d i ids = Inr ts" and "set ids \<subseteq> row_task_id ` set (tasks d)"
  shows "list_all2 (\<lambda>t task. \<exists>g. find_task_by_id K g now t d = Inr (Some task)) ids ts"
  using assms
proof (induction ids arbitrary: i ts)
  case Nil
  then show ?case by simp
next
  case (Cons t ids)
  obtain found rest where f: "find_task_by_id K (f i) now t d = Inr found" "find_each K f now d (Suc i) ids = Inr rest"
    and ts: "ts = (case found of Some task \<Rightarrow> task # rest | None \<Rightarrow> rest)"
    using Cons.prems(1) by (auto simp: outcome_simps)
  have "found \<noteq> None"
  proof
    assume "found = None"
    with f(1) have "find (\<lambda>r. row_task_id r = t) (tasks d) = None"
      by (auto simp: find_task_by_id_def outcome_simps split: option.splits)
    with Cons.prems(2) show False by (auto simp: find_None_iff)
  qed
  then obtain task where "found = Some task" by blast
  with f ts Cons.IH [OF f(2)] Cons.prems(2) show ?case by auto
qed

lemma loaded_rows:
  assumes "find_all_enabled K f now d = Inr ts"
  shows "list_all2 (\<lambda>r task. \<exists>g. find_task_by_id K g now (row_task_id r) d = Inr (Some task))
    (filter (\<lambda>r. row_enabled r = 1) (tasks d)) ts"
proof -
  let ?rs = "filter (\<lambda>r. row_enabled r = 1) (tasks d)"
  have "find_each K f now d 1 (map row_task_id ?rs) = Inr ts"
    using assms by (auto simp: find_all_enabled_def outcome_simps)
  from find_each_rows [OF this] show ?thesis by (auto simp: list_all2_map1)
qed

lemma startup_distinct:
  assumes "find_all_enabled K f now d = Inr ts" and "db_ok d" and "rows_coded K d"
  shows "list_all (\<lambda>c. distinct_triggers (sched_input.Received c)) (startup_commands ts)"
proof -
  have each: "distinct (map trigger_id (triggers task))" if "task \<in> set ts" for task
  proof -
    from that obtain k where k: "k < length ts" "ts ! k = task" by (metis in_set_conv_nth)
    with loaded_rows [OF assms(1)] obtain g where
      "find_task_by_id K g now (row_task_id (filter (\<lambda>r. row_enabled r = 1) (tasks d) ! k)) d = Inr (Some task)"
      by (auto simp: list_all2_conv_all_nth)
    from found_distinct [OF this assms(2,3)] show ?thesis .
  qed
  have "list_all (\<lambda>c. distinct_triggers (sched_input.Received c)) (startup_commands ts)"
    if "\<And>task. task \<in> set ts \<Longrightarrow> distinct (map trigger_id (triggers task))" for ts
    using that by (induction ts) (simp_all add: startup_commands_def)
  with each show ?thesis by blast
qed

lemma commands_distinct_start:
  assumes "init_shared target K W now url ipc n sock = (Inr svc, d)" and "db_ok (svc_db svc)"
    and "rows_coded K (svc_db svc)"
  shows "commands_distinct (started_system orc (svc_agent svc))"
proof -
  obtain ts where a: "svc_agent svc = (initial_agent (svc_db svc) n)\<lparr>agent_commands := startup_commands ts\<rparr>"
    and ts: "find_all_enabled K (load_faults W) now (svc_db svc) = Inr ts"
    using assms(1) by (elim started_agent)
  have "agent_commands (svc_agent svc) = startup_commands ts" by (subst a) simp
  then show ?thesis using startup_distinct [OF ts assms(2,3)] assms(2)
    by (simp add: commands_distinct_def started_system_def)
qed

lemma reached_distinct: "agent_reaches K S E P n s \<Longrightarrow> commands_distinct s"
proof (induction rule: agent_reaches.induct)
  case (agent_start target W now url ipc sock svc d orc)
  then show ?case by (rule commands_distinct_start)
next
  case (agent_next s s')
  have "db_ok (agent_db (shared s'))"
    using step_db_ok [OF agent_next(2) reached_own [OF agent_next(1)] reached_store [OF agent_next(1)]] .
  with commands_distinct_step [OF agent_next(2)] agent_next.IH show ?case by simp
qed

section \<open>The scheduler of the agent\<close>

lemma step_sched:
  assumes st: "agent_step K S E P s s'" and inv: "commands_distinct s"
    and r: "sched_reaches E distinct_triggers k (scheduler s)"
  shows "sched_reaches E distinct_triggers k (scheduler s') \<or> sched_reaches E distinct_triggers (Suc k) (scheduler s')"
  using st
proof (cases rule: command_cases)
  case quiet
  with r show ?thesis by simp
next
  case (request W req)
  have "scheduler (begin_request K S W req s) = scheduler s"
    by (auto simp: begin_request_def delete_in_store_def split: sum.splits prod.splits)
  with r request show ?thesis by simp
next
  case (sent i W)
  with r show ?thesis by (simp add: send_pending_def)
next
  case (network f now ev)
  with r show ?thesis by simp
next
  case (commanded orc sc)
  have "distinct_triggers (sched_input.Received (agent_commands (shared s) ! commands_taken s))"
    using inv nth_mem [OF commanded(1)] by (auto simp: commands_distinct_def list_all_iff)
  from sched_reaches.turn [OF r this commanded(2,3)] commanded(4) show ?thesis by simp
next
  case (timed inp orc sc)
  then have "distinct_triggers inp" by auto
  from sched_reaches.turn [OF r this timed(2,3)] timed(4) show ?thesis by simp
qed

lemma reached_sched: "agent_reaches K S E P n s \<Longrightarrow> \<exists>k. sched_reaches E distinct_triggers k (scheduler s)"
proof (induction rule: agent_reaches.induct)
  case (agent_start target W now url ipc sock svc d orc)
  show ?case
    by (intro exI [of _ 0]) (simp add: started_system_def sched_reaches.start)
next
  case (agent_next s s')
  with step_sched [OF agent_next(2) reached_distinct [OF agent_next(1)]] show ?case by blast
qed

section \<open>The registry follows the stored tasks\<close>

text \<open>What a command does to the registered tasks, and what all commands under way will do.\<close>

fun registry_after :: "sched_command \<Rightarrow> (task_id \<rightharpoonup> task) \<Rightarrow> (task_id \<rightharpoonup> task)" where
  "registry_after (AddTask t) reg = reg(task_id t \<mapsto> t)"
| "registry_after (RemoveTask t) reg = reg(t := None)"
| "registry_after _ reg = reg"

definition expected_registry :: "agent_system \<Rightarrow> task_id \<rightharpoonup> task" where
  "expected_registry s =
     fold registry_after (drop (commands_taken s) (agent_commands (shared s)) @ filter changes_tasks (sending s))
       (map_of (registered_tasks (scheduler s)))"

text \<open>
  A registered task is stored, enabled or not as it is registered and with the same triggers; a task that is not
  registered is not stored as enabled.
\<close>

definition entry_agrees :: "codec \<Rightarrow> db \<Rightarrow> task_id \<Rightarrow> task option \<Rightarrow> bool" where
  "entry_agrees K d t entry \<longleftrightarrow>
     (case entry of
        None \<Rightarrow> (\<forall>r \<in> set (tasks d). row_task_id r = t \<longrightarrow> row_enabled r \<noteq> 1)
      | Some task \<Rightarrow> task_id task = t
          \<and> (\<exists>r \<in> set (tasks d). row_task_id r = t \<and> (task_enabled task \<longleftrightarrow> row_enabled r = 1))
          \<and> rmap_list (\<lambda>r. dec_trigger K (trow_config_json r)) (filter (\<lambda>r. trow_task_id r = t) (trigger_rows d))
              = Inr (triggers task))"

definition registry_agrees :: "codec \<Rightarrow> db \<Rightarrow> (task_id \<rightharpoonup> task) \<Rightarrow> bool" where
  "registry_agrees K d reg \<longleftrightarrow> (\<forall>t. entry_agrees K d t (reg t))"

lemma entry_other:
  assumes "filter (\<lambda>r. trow_task_id r = t) (trigger_rows d') = filter (\<lambda>r. trow_task_id r = t) (trigger_rows d)"
    and "\<And>r. row_task_id r = t \<Longrightarrow> r \<in> set (tasks d') \<longleftrightarrow> r \<in> set (tasks d)"
  shows "entry_agrees K d' t entry = entry_agrees K d t entry"
proof -
  have "(\<forall>r \<in> set (tasks d'). row_task_id r = t \<longrightarrow> Q r) = (\<forall>r \<in> set (tasks d). row_task_id r = t \<longrightarrow> Q r)"
    and "(\<exists>r \<in> set (tasks d'). row_task_id r = t \<and> Q r) = (\<exists>r \<in> set (tasks d). row_task_id r = t \<and> Q r)" for Q
    using assms(2) by blast+
  then show ?thesis by (cases entry) (simp_all add: entry_agrees_def assms(1))
qed

lemma turn_registry:
  assumes "sched_turn E orc inp s = Ret s'"
  shows "map_of (registered_tasks s')
    = (case inp of sched_input.Received c \<Rightarrow> registry_after c (map_of (registered_tasks s))
       | _ \<Rightarrow> map_of (registered_tasks s))"
proof (cases inp)
  case (Received c)
  with assms show ?thesis
    by (cases c) (auto simp: sched_turn_def handle_add_task_def handle_remove_task_def handle_trigger_now_def
        handle_reroll_def outcome_simps Let_def update_conv' delete_conv' split: prod.splits)
next
  case TimerElapsed
  with assms show ?thesis
    by (auto simp: sched_turn_def handle_timer_def outcome_simps Let_def split: prod.splits option.splits)
next
  case ClockTick
  with assms show ?thesis by (auto simp: sched_turn_def handle_tick_def outcome_simps Let_def)
next
  case CommandChannelClosed
  with assms show ?thesis by (auto simp: sched_turn_def)
qed

lemma unchanging_registry: "\<not> changes_tasks c \<Longrightarrow> registry_after c reg = reg"
  by (cases c) simp_all

lemma fold_unchanging: "list_all (\<lambda>c. \<not> changes_tasks c) cs \<Longrightarrow> fold registry_after cs reg = reg"
  by (induction cs) (simp_all add: unchanging_registry)

lemma upsert_own: "\<exists>r \<in> set (upsert_task row rows). row_task_id r = row_task_id row \<and> row_enabled r = row_enabled row"
proof (cases "row_task_id row \<in> set (map row_task_id rows)")
  case True
  then obtain old where "old \<in> set rows" "row_task_id old = row_task_id row" by auto
  then show ?thesis using True
    by (intro bexI [of _ "row\<lparr>row_version := row_version old + 1, row_created_at := row_created_at old\<rparr>"])
       (auto simp: upsert_task_def image_iff)
next
  case False
  then show ?thesis by (simp add: upsert_task_def)
qed

lemma upsert_other: "row_task_id r \<noteq> row_task_id row \<Longrightarrow> r \<in> set (upsert_task row rows) \<longleftrightarrow> r \<in> set rows"
  by (auto simp: upsert_task_def)

lemma agrees_save:
  assumes K: "codec_ok K" and s: "save_task K f t d = (Inr (), d')" and ag: "registry_agrees K d reg"
  shows "registry_agrees K d' (reg(task_id t \<mapsto> t))"
proof -
  obtain policy_json env_json tnew anew where
    d': "d' = d\<lparr>tasks := upsert_task (task_to_row K t policy_json env_json) (tasks d),
        trigger_rows := filter (\<lambda>r. trow_task_id r \<noteq> task_id t) (trigger_rows d) @ tnew,
        action_rows := filter (\<lambda>r. arow_task_id r \<noteq> task_id t) (action_rows d) @ anew\<rparr>"
    and tnew: "list_all2 (trigger_saved K (task_id t)) (triggers t) tnew"
    using save_task_ok [OF s] by blast
  let ?row = "task_to_row K t policy_json env_json"
  have row: "row_task_id ?row = task_id t" "row_enabled ?row = 1 \<longleftrightarrow> task_enabled t"
    by (simp_all add: task_to_row_def bool_column_def)
  note own = saved_rows_own(1) [OF tnew]
  have own_rows: "filter (\<lambda>r. trow_task_id r = task_id t) (trigger_rows d') = tnew"
    using filter_own_rows [OF own] by (simp add: d')
  have "rmap_list (\<lambda>r. dec_trigger K (trow_config_json r)) tnew = Inr (triggers t)"
    unfolding rmap_list_Inr using tnew
    by (simp add: list_all2_conv_all_nth trigger_saved_def codec_okD(3) [OF K])
  moreover have "\<exists>r \<in> set (tasks d'). row_task_id r = task_id t \<and> (task_enabled t \<longleftrightarrow> row_enabled r = 1)"
    using upsert_own [of ?row "tasks d"] row by (auto simp: d')
  ultimately have "entry_agrees K d' (task_id t) (Some t)" unfolding entry_agrees_def own_rows option.case by blast
  moreover have "entry_agrees K d' u (reg u)" if "u \<noteq> task_id t" for u
  proof -
    have "filter (\<lambda>r. trow_task_id r = u) tnew = []" using own that by (auto simp: filter_empty_conv)
    moreover have "(trow_task_id r \<noteq> task_id t \<and> trow_task_id r = u) = (trow_task_id r = u)" for r :: trigger_row
      using that by auto
    ultimately have "filter (\<lambda>r. trow_task_id r = u) (trigger_rows d') = filter (\<lambda>r. trow_task_id r = u) (trigger_rows d)"
      by (simp add: d')
    moreover have "r \<in> set (tasks d') \<longleftrightarrow> r \<in> set (tasks d)" if "row_task_id r = u" for r
      using upsert_other [of r ?row "tasks d"] that \<open>u \<noteq> task_id t\<close> row(1) by (simp add: d')
    ultimately show ?thesis using ag entry_other [of u d' d] by (simp add: registry_agrees_def)
  qed
  ultimately show ?thesis by (simp add: registry_agrees_def)
qed

lemma agrees_delete:
  assumes s: "delete_task f t d = (Inr (), d')" and ag: "registry_agrees K d reg"
  shows "registry_agrees K d' (reg(t := None))"
proof -
  note d' = delete_task_ok [OF s]
  have "entry_agrees K d' t None" by (simp add: entry_agrees_def d'(1))
  moreover have "entry_agrees K d' u (reg u)" if "u \<noteq> t" for u
  proof -
    have "filter (\<lambda>r. trow_task_id r = u) (trigger_rows d') = filter (\<lambda>r. trow_task_id r = u) (trigger_rows d)"
      unfolding d' filter_filter using that by (intro filter_cong) auto
    then show ?thesis using ag entry_other [of u d' d] that by (auto simp: registry_agrees_def d'(1))
  qed
  ultimately show ?thesis by (simp add: registry_agrees_def)
qed

lemma agrees_tables:
  "tasks d' = tasks d \<Longrightarrow> trigger_rows d' = trigger_rows d \<Longrightarrow> registry_agrees K d' reg = registry_agrees K d reg"
  unfolding registry_agrees_def by (subst entry_other [of _ d' d]) simp_all

section \<open>Orderly requests\<close>

text \<open>
  Steps in which at most one request has stored or deleted a task without having sent its command, and no
  command is lost because the scheduler has ended.
\<close>

definition orderly :: "agent_system \<Rightarrow> agent_system \<Rightarrow> bool" where
  "orderly s s' \<longleftrightarrow> length (filter changes_tasks (sending s')) \<le> 1
     \<and> length (agent_commands (shared s)) + length (sending s)
       \<le> length (agent_commands (shared s')) + length (sending s')"

inductive orderly_reaches ::
  "codec \<Rightarrow> serde \<Rightarrow> chrono_env \<Rightarrow> platform \<Rightarrow> nat \<Rightarrow> agent_system \<Rightarrow> bool"
  for K :: codec and S :: serde and E :: chrono_env and P :: platform and n :: nat where
  orderly_start: "init_shared target K W now url ipc n sock = (Inr svc, d) \<Longrightarrow> db_ok (svc_db svc) \<Longrightarrow>
     rows_coded K (svc_db svc) \<Longrightarrow> orderly_reaches K S E P n (started_system orc (svc_agent svc))"
| orderly_next: "orderly_reaches K S E P n s \<Longrightarrow> agent_step K S E P s s' \<Longrightarrow> orderly s s' \<Longrightarrow>
     orderly_reaches K S E P n s'"

lemma orderly_reached: "orderly_reaches K S E P n s \<Longrightarrow> agent_reaches K S E P n s"
  by (induction rule: orderly_reaches.induct) (auto intro: agent_reaches.intros)

text \<open>The tables of the tasks, which only saving and deleting change.\<close>

definition same_tasks :: "db \<Rightarrow> db \<Rightarrow> bool" where
  "same_tasks d d' \<longleftrightarrow> tasks d' = tasks d \<and> trigger_rows d' = trigger_rows d"

lemma same_tasks_refl [simp]: "same_tasks d d"
  by (simp add: same_tasks_def)

lemma agrees_same: "same_tasks d d' \<Longrightarrow> registry_agrees K d reg \<Longrightarrow> registry_agrees K d' reg"
  using agrees_tables [of d' d K reg] by (simp add: same_tasks_def)

lemma same_tasks_calls:
  "create_run K f e d = (r, d') \<Longrightarrow> same_tasks d d'"
  "update_run K f e d = (r, d') \<Longrightarrow> same_tasks d d'"
  "append_output K f now x strm c d = (r, d') \<Longrightarrow> same_tasks d d'"
  "save_system_settings K f now x' d = (r', d') \<Longrightarrow> same_tasks d d'"
  by (auto simp: same_tasks_def create_run_def update_run_def append_output_def save_system_settings_def Let_def
      split: sum.splits if_splits)

lemma same_tasks_write: "same_tasks (agent_db a) (agent_db (snd (write_output K f now e strm out j a)))"
  by (auto simp: write_output_def same_tasks_calls split: prod.splits)

lemma same_tasks_move: "job_move K P w j a = (j', a') \<Longrightarrow> same_tasks (agent_db a) (agent_db a')"
proof (cases "at_stage j")
  case (WritingOut e k r)
  assume "job_move K P w j a = (j', a')"
  with WritingOut same_tasks_write [of a K "output_faults w (2 * k)" "output_time w (2 * k)" e "''stdout''" "result_stdout r" j]
  show ?thesis by (auto simp: job_move_def write_stdout_def split: prod.splits)
next
  case (WritingErr e k r)
  assume "job_move K P w j a = (j', a')"
  with WritingErr same_tasks_write [of a K "output_faults w (2 * k + 1)" "output_time w (2 * k + 1)" e "''stderr''" "result_stderr r" j]
  show ?thesis by (auto simp: job_move_def write_stderr_def split: prod.splits)
qed (auto simp: job_move_def take_slot_def create_record_def announce_run_def record_end_def remove_active_def
    free_slot_def end_job_def Let_def same_tasks_calls split: prod.splits bool.splits sum.splits)

lemma same_tasks_purge: "trigger_log_retention_purge K E f g now t d = Ret d' \<Longrightarrow> same_tasks d d'"
  by (auto simp: trigger_log_retention_purge_def purge_expired_runs_def cascade_runs_def same_tasks_def Let_def
      outcome_simps split: option.splits sum.splits)

section \<open>The agreement is kept\<close>

lemma expected_unchanged:
  assumes "scheduler s' = scheduler s" and "commands_taken s' = commands_taken s"
    and "agent_commands (shared s') = agent_commands (shared s) @ cs" and "list_all (\<lambda>c. \<not> changes_tasks c) cs"
    and "filter changes_tasks (sending s') = filter changes_tasks (sending s)"
    and "commands_taken s \<le> length (agent_commands (shared s))"
  shows "expected_registry s' = expected_registry s"
  using assms by (simp add: expected_registry_def fold_unchanging)

lemma filter_without: "i < length xs \<Longrightarrow> mset (filter Q (without_nth i xs)) + (if Q (xs ! i) then {#xs ! i#} else {#}) = mset (filter Q xs)"
proof -
  assume "i < length xs"
  then have "xs = take i xs @ xs ! i # drop (Suc i) xs" by (rule id_take_nth_drop)
  then have "filter Q xs = filter Q (take i xs) @ filter Q [xs ! i] @ filter Q (drop (Suc i) xs)"
    by (metis append_Cons append_Nil filter_append)
  then show ?thesis by (simp add: without_nth_def)
qed

lemma length_without: "i < length xs \<Longrightarrow> Suc (length (without_nth i xs)) = length xs"
  by (simp add: without_nth_def)

lemma sent_expected:
  assumes i: "i < length (sending s)" and le: "commands_taken s \<le> length (agent_commands (shared s))"
    and one: "length (filter changes_tasks (sending s)) \<le> 1" and kept: "orderly s (send_pending W i s)"
  shows "expected_registry (send_pending W i s) = expected_registry s"
proof -
  let ?c = "sending s ! i"
  have "scheduler_open W"
  proof (rule ccontr)
    assume "\<not> scheduler_open W"
    with kept length_without [OF i] show False by (simp add: orderly_def send_pending_def send_command_def)
  qed
  then have s': "agent_commands (shared (send_pending W i s)) = agent_commands (shared s) @ [?c]"
    by (simp add: send_pending_def send_command_def)
  have rest: "filter changes_tasks (without_nth i (sending s)) = (if changes_tasks ?c then [] else filter changes_tasks (sending s))
      \<and> (changes_tasks ?c \<longrightarrow> filter changes_tasks (sending s) = [?c])"
  proof (cases "changes_tasks ?c")
    case True
    with filter_without [OF i, of changes_tasks]
    have m: "add_mset ?c (mset (filter changes_tasks (without_nth i (sending s)))) = mset (filter changes_tasks (sending s))"
      by simp
    then have "Suc (length (filter changes_tasks (without_nth i (sending s)))) = length (filter changes_tasks (sending s))"
      by (metis size_add_mset size_mset)
    then have "length (filter changes_tasks (without_nth i (sending s))) = 0" "length (filter changes_tasks (sending s)) = 1"
      using one by linarith+
    then have "filter changes_tasks (without_nth i (sending s)) = []" "length (filter changes_tasks (sending s)) = 1"
      by simp_all
    moreover obtain y where y: "filter changes_tasks (sending s) = [y]"
      using \<open>length (filter changes_tasks (sending s)) = 1\<close> by (auto simp: length_Suc_conv)
    ultimately have "add_mset ?c (mset []) = mset [y]" using m by metis
    then have "filter changes_tasks (sending s) = [?c]" using y by simp
    with \<open>filter changes_tasks (without_nth i (sending s)) = []\<close> show ?thesis using True by simp
  next
    case False
    from i have "sending s = take i (sending s) @ ?c # drop (Suc i) (sending s)" by (rule id_take_nth_drop)
    then have "filter changes_tasks (sending s) = filter changes_tasks (take i (sending s)) @ filter changes_tasks (drop (Suc i) (sending s))"
      using False by (metis filter.simps(2) filter_append)
    with False show ?thesis by (simp add: without_nth_def)
  qed
  show ?thesis
  proof (cases "changes_tasks ?c")
    case True
    then have "filter changes_tasks (without_nth i (sending s)) = []" and one: "filter changes_tasks (sending s) = [?c]"
      using rest by simp_all
    with s' le show ?thesis unfolding expected_registry_def by (subst one) (simp add: send_pending_def send_command_def)
  next
    case False
    with rest s' le show ?thesis
      by (simp add: expected_registry_def send_pending_def send_command_def unchanging_registry)
  qed
qed

lemma request_same_tasks:
  "sending (begin_request K S W req s) = sending s \<Longrightarrow>
     same_tasks (agent_db (shared s)) (agent_db (shared (begin_request K S W req s)))"
proof (cases "taken_apart req")
  case True
  moreover assume "sending (begin_request K S W req s) = sending s"
  ultimately show ?thesis
    by (auto simp: begin_request_def taken_apart_def save_in_store_def delete_in_store_def
        dest: save_task_Inl delete_task_Inl split: sum.splits prod.splits)
next
  case False
  then show ?thesis using plain_request [OF False, of K "shared s" S W]
    by (auto simp: begin_request_def taken_apart_def aside_def same_tasks_calls(4))
qed

lemma agrees_request:
  assumes K: "codec_ok K" and le: "commands_taken s \<le> length (agent_commands (shared s))"
    and ag: "registry_agrees K (agent_db (shared s)) (expected_registry s)"
    and ord: "length (filter changes_tasks (sending (begin_request K S W req s))) \<le> 1"
  shows "registry_agrees K (agent_db (shared (begin_request K S W req s))) (expected_registry (begin_request K S W req s))"
proof -
  let ?s = "begin_request K S W req s"
  obtain cs where cs: "agent_commands (shared ?s) = agent_commands (shared s) @ cs" "list_all (\<lambda>c. \<not> changes_tasks c) cs"
    using request_commands by blast
  have same: "scheduler ?s = scheduler s" "commands_taken ?s = commands_taken s"
    by (auto simp: begin_request_def delete_in_store_def split: sum.splits prod.splits)
  have more: "expected_registry ?s = registry_after c (expected_registry s)"
    if "sending ?s = sending s @ [c]" "changes_tasks c" for c
  proof -
    have none: "filter changes_tasks (sending s) = []" using ord that by simp
    then show ?thesis using that same cs le by (simp add: expected_registry_def fold_unchanging)
  qed
  show ?thesis
  proof (cases K S W req s rule: request_sending)
    case none
    then have "expected_registry ?s = expected_registry s"
      by (intro expected_unchanged [OF same cs]) (simp_all add: le)
    moreover have "same_tasks (agent_db (shared s)) (agent_db (shared ?s))" by (rule request_same_tasks [OF none])
    ultimately show ?thesis using agrees_same [OF _ ag] by simp
  next
    case (save t d)
    with agrees_save [OF K save(1) ag] more show ?thesis by simp
  next
    case (delete t d)
    with agrees_delete [OF delete(1) ag] more show ?thesis by simp
  qed
qed

text \<open>The tables of the tasks in the other steps.\<close>

lemma step_same_tasks:
  assumes "agent_step K S E P s s'" and "sending s' = sending s"
  shows "same_tasks (agent_db (shared s)) (agent_db (shared s'))"
  using assms(1)
proof cases
  case (requested W req)
  with assms(2) request_same_tasks show ?thesis by simp
next
  case (sent i W)
  with assms(2) length_without [OF sent(2)] show ?thesis by (simp add: send_pending_def)
next
  case (fired W)
  then show ?thesis by (simp add: take_event_def Let_def)
next
  case (permitted i)
  then show ?thesis by (simp add: take_permit_def split: prod.splits bool.splits)
next
  case (moved i w)
  obtain j a where m: "job_move K P w (running s ! i) (shared s) = (j, a)" by fastforce
  from same_tasks_move [OF m] show ?thesis by (simp add: moved(1) advance_simps(1) [OF m])
next
  case (purged i f g now)
  then show ?thesis by (auto simp: purge_def same_tasks_purge split: outcome.splits)
qed simp_all

lemma agrees_step:
  assumes K: "codec_ok K" and st: "agent_step K S E P s s'" and ord: "orderly s s'"
    and le: "commands_taken s \<le> length (agent_commands (shared s))"
    and one: "length (filter changes_tasks (sending s)) \<le> 1"
    and ag: "registry_agrees K (agent_db (shared s)) (expected_registry s)"
  shows "registry_agrees K (agent_db (shared s')) (expected_registry s')"
  using st
proof (cases rule: command_cases)
  case quiet
  have "expected_registry s' = expected_registry s"
    using quiet by (simp add: expected_registry_def)
  moreover have "same_tasks (agent_db (shared s)) (agent_db (shared s'))"
    by (rule step_same_tasks [OF st quiet(2)])
  ultimately show ?thesis using agrees_same [OF _ ag] by simp
next
  case (request W req)
  with agrees_request [OF K le ag] ord show ?thesis by (simp add: orderly_def)
next
  case (sent i W)
  then have "expected_registry s' = expected_registry s" using sent_expected [OF sent(1) le one] ord by simp
  moreover have "agent_db (shared s') = agent_db (shared s)" by (simp add: sent(2) send_pending_def send_command_def)
  ultimately show ?thesis using ag by simp
next
  case (network f now ev)
  have "filter changes_tasks (dispatch_network_event K f now ev (agent_db (shared s))) = []"
    using network_unchanging by (auto simp: filter_empty_conv list_all_iff)
  with network ag show ?thesis by (simp add: expected_registry_def)
next
  case (commanded orc sc)
  have "drop (commands_taken s) (agent_commands (shared s))
      = agent_commands (shared s) ! commands_taken s # drop (Suc (commands_taken s)) (agent_commands (shared s))"
    using commanded(1) by (simp add: Cons_nth_drop_Suc)
  then have "expected_registry s' = expected_registry s"
    using turn_registry [OF commanded(3)] by (simp add: expected_registry_def commanded(4))
  then show ?thesis using ag by (simp add: commanded(4))
next
  case (timed inp orc sc)
  then have "expected_registry s' = expected_registry s"
    using turn_registry [OF timed(3)] by (auto simp: expected_registry_def)
  then show ?thesis using ag by (simp add: timed(4))
qed

lemma fold_startup:
  "distinct (map task_id ts) \<Longrightarrow> fold registry_after (startup_commands ts) reg t
     = (case find (\<lambda>x. task_id x = t) ts of Some x \<Rightarrow> Some x | None \<Rightarrow> reg t)"
proof (induction ts arbitrary: reg)
  case Nil
  then show ?case by (simp add: startup_commands_def)
next
  case (Cons x xs)
  have tail: "fold registry_after (startup_commands (x # xs)) reg = fold registry_after (startup_commands xs) (reg(task_id x \<mapsto> x))"
    by (simp add: startup_commands_def)
  have d: "distinct (map task_id xs)" using Cons.prems by simp
  have other: "find (\<lambda>y. task_id y = task_id x) xs = None"
    using Cons.prems by (auto simp: find_None_iff) (metis imageI)
  have "fold registry_after (startup_commands (x # xs)) reg t
      = (case find (\<lambda>y. task_id y = t) xs of Some y \<Rightarrow> Some y | None \<Rightarrow> (reg(task_id x \<mapsto> x)) t)"
    unfolding tail by (rule Cons.IH [OF d])
  then show ?case using other by (cases "task_id x = t") (auto split: option.split)
qed

lemma agrees_start:
  assumes init: "init_shared target K W now url ipc n sock = (Inr svc, d)" and ok: "db_ok (svc_db svc)"
  shows "registry_agrees K (svc_db svc) (expected_registry (started_system orc (svc_agent svc)))"
proof -
  let ?d = "svc_db svc"
  obtain ts where a: "svc_agent svc = (initial_agent ?d n)\<lparr>agent_commands := startup_commands ts\<rparr>"
    and ts: "find_all_enabled K (load_faults W) now ?d = Inr ts"
    using init by (elim started_agent)
  let ?rs = "filter (\<lambda>r. row_enabled r = 1) (tasks ?d)"
  note rows = loaded_rows [OF ts]
  have ids: "map task_id ts = map row_task_id ?rs"
    by (rule map_list_all2 [OF rows]) (auto dest: found_task_id)
  then have dist: "distinct (map task_id ts)" using db_okD(1) [OF ok] by (simp add: distinct_map_filter)
  have "agent_commands (svc_agent svc) = startup_commands ts" by (subst a) simp
  then have reg: "expected_registry (started_system orc (svc_agent svc)) t = find (\<lambda>x. task_id x = t) ts" for t
    using fold_startup [OF dist, of Map.empty t]
    by (simp add: expected_registry_def started_system_def initial_sched_def split: option.splits)
  have "entry_agrees K ?d t (find (\<lambda>x. task_id x = t) ts)" for t
  proof (cases "find (\<lambda>x. task_id x = t) ts")
    case None
    then have "t \<notin> set (map task_id ts)" by (auto simp: find_None_iff)
    then have "t \<notin> row_task_id ` {r \<in> set (tasks ?d). row_enabled r = 1}" unfolding ids by simp
    then show ?thesis using None by (auto simp: entry_agrees_def)
  next
    case (Some task)
    then obtain k where k: "k < length ts" "ts ! k = task" "task_id task = t" by (auto simp: find_Some_iff)
    let ?r = "?rs ! k"
    have len: "length ?rs = length ts" using rows by (rule list_all2_lengthD)
    obtain g where f: "find_task_by_id K g now (row_task_id ?r) ?d = Inr (Some task)"
      using list_all2_nthD2 [OF rows k(1)] k(2) by auto
    have id: "row_task_id ?r = t" using found_task_id [OF f] k(3) by simp
    obtain r where r: "find (\<lambda>r. row_task_id r = t) (tasks ?d) = Some r" "task_enabled task = (row_enabled r = 1)"
      "rmap_list (\<lambda>r. dec_trigger K (trow_config_json r)) (filter (\<lambda>r. trow_task_id r = t) (trigger_rows ?d))
      = Inr (triggers task)"
      using f unfolding id by (rule found_row)
    from r(1) have "r \<in> set (tasks ?d)" "row_task_id r = t" by (auto simp: find_Some_iff)
    with r(2,3) k(3) Some show ?thesis by (auto simp: entry_agrees_def)
  qed
  then show ?thesis by (simp add: registry_agrees_def reg)
qed

lemma orderly_one: "orderly_reaches K S E P n s \<Longrightarrow> length (filter changes_tasks (sending s)) \<le> 1"
  by (induction rule: orderly_reaches.induct) (simp_all add: started_system_def orderly_def)

lemma orderly_agrees:
  "orderly_reaches K S E P n s \<Longrightarrow> codec_ok K \<Longrightarrow> registry_agrees K (agent_db (shared s)) (expected_registry s)"
proof (induction rule: orderly_reaches.induct)
  case (orderly_start target W now url ipc sock svc d orc)
  with agrees_start [OF orderly_start(1,2)] show ?case by (simp add: started_system_def)
next
  case (orderly_next s s')
  have "commands_distinct s" by (rule reached_distinct [OF orderly_reached [OF orderly_next(1)]])
  then have "commands_taken s \<le> length (agent_commands (shared s))" by (simp add: commands_distinct_def)
  with agrees_step [OF orderly_next.prems orderly_next(2,3) _ orderly_one [OF orderly_next(1)]] orderly_next.IH
    orderly_next.prems show ?case by simp
qed

text \<open>A key that is armed in the registry is an enabled trigger of an enabled stored task.\<close>

definition stored_and_enabled :: "codec \<Rightarrow> db \<Rightarrow> task_id \<times> trigger_id \<Rightarrow> bool" where
  "stored_and_enabled K d k \<longleftrightarrow>
     list_ex (\<lambda>r. row_task_id r = fst k \<and> row_enabled r = 1) (tasks d)
     \<and> list_ex (\<lambda>r. trow_task_id r = fst k
          \<and> (case dec_trigger K (trow_config_json r) of
               Inr tr \<Rightarrow> trigger_id tr = snd k \<and> trigger_enabled tr
             | Inl e \<Rightarrow> False)) (trigger_rows d)"

lemma armed_stored:
  assumes ag: "registry_agrees K d (map_of reg)" and arm: "armed reg k"
  shows "stored_and_enabled K d k"
proof -
  from arm obtain task tr where t: "map_of reg (fst k) = Some task" "task_enabled task"
    and tr: "find (\<lambda>x. trigger_id x = snd k) (triggers task) = Some tr" "trigger_enabled tr"
    by (auto simp: armed_def split: option.splits)
  have "entry_agrees K d (fst k) (Some task)" using ag t(1) unfolding registry_agrees_def by metis
  then obtain r where r: "r \<in> set (tasks d)" "row_task_id r = fst k" "row_enabled r = 1"
    and rows: "list_all2 (\<lambda>r y. dec_trigger K (trow_config_json r) = Inr y)
      (filter (\<lambda>r. trow_task_id r = fst k) (trigger_rows d)) (triggers task)"
    using t(2) by (auto simp: entry_agrees_def rmap_list_Inr)
  from tr(1) obtain i where i: "i < length (triggers task)" "triggers task ! i = tr" "trigger_id tr = snd k"
    by (auto simp: find_Some_iff)
  let ?q = "filter (\<lambda>r. trow_task_id r = fst k) (trigger_rows d) ! i"
  have "i < length (filter (\<lambda>r. trow_task_id r = fst k) (trigger_rows d))" using rows i(1) by (simp add: list_all2_lengthD)
  then have "?q \<in> set (trigger_rows d)" "trow_task_id ?q = fst k" using nth_mem by fastforce+
  moreover have "dec_trigger K (trow_config_json ?q) = Inr tr" using list_all2_nthD2 [OF rows i(1)] i(2) by simp
  ultimately show ?thesis using r i(3) tr(2) unfolding stored_and_enabled_def list_ex_iff by force
qed

end
