(* ===== verification/Agent_System_Props.thy ===== *)
theory Agent_System_Props
  imports Agent_System_Progress Agent_Timetable
begin

text \<open>
  Properties of the whole agent (\<open>Agent_System\<close>), whatever is interleaved: requests, dispatched events, network
  events, jobs, purges and turns of the scheduler.
\<close>

section \<open>An instance\<close>

text \<open>An agent that starts on a store with one task and one finished run, and a manual run of the task.\<close>

definition old_run :: execution where
  "old_run = (new_execution (ExecutionId 1) 0 (TaskId 7) None None)\<lparr>status := Succeeded\<rparr>"

definition old_db :: db where
  "old_db = snd (create_run text_codec no_faults old_run saved_db)"

definition old_world :: init_world where
  "old_world = left_world\<lparr>db_opened := \<lambda>_. Inr old_db\<rparr>"

definition demo_system :: agent_system where
  "demo_system = started_system (demo_at 0)
     ((initial_agent old_db 2)\<lparr>agent_commands :=
        (case find_all_enabled text_codec (\<lambda>_. no_faults) 0 old_db of Inr ts \<Rightarrow> startup_commands ts | Inl e \<Rightarrow> [])\<rparr>)"

lemma old_db_created: "create_run text_codec no_faults old_run saved_db = (Inr (), old_db)"
  using saved_db_rows
  by (simp add: old_db_def create_run_def call_db_def no_faults_def old_run_def new_execution_def)

lemma old_db_tables:
  "tasks old_db = tasks saved_db" "trigger_rows old_db = trigger_rows saved_db" "action_rows old_db = action_rows saved_db"
  "map run_id (runs old_db) = [ExecutionId 1]" "map run_status (runs old_db) = [status_json Succeeded]"
  using saved_db_rows by (simp_all add: old_db_def create_run_def call_db_def no_faults_def old_run_def new_execution_def)

lemma old_db_integrity: "db_ok old_db"
proof -
  have "db_ok saved_db" by (rule save_task_db_ok [OF _ saved_db_ok]) (simp add: db_ok_def empty_db_def)
  then show ?thesis by (rule create_run_db_ok [OF _ old_db_created])
qed

lemma saved_db_parts:
  obtains p e where "tasks saved_db = [task_to_row text_codec job_task p e]" and "trigger_rows saved_db = []"
proof -
  obtain p e tnew anew where db: "saved_db = empty_db\<lparr>tasks := upsert_task (task_to_row text_codec job_task p e) (tasks empty_db),
      trigger_rows := filter (\<lambda>r. trow_task_id r \<noteq> task_id job_task) (trigger_rows empty_db) @ tnew,
      action_rows := filter (\<lambda>r. arow_task_id r \<noteq> task_id job_task) (action_rows empty_db) @ anew\<rparr>"
    and tnew: "list_all2 (trigger_saved text_codec (task_id job_task)) (triggers job_task) tnew"
    using save_task_ok [OF saved_db_ok] by blast
  have "tnew = []" using tnew by (simp add: job_task_fields)
  then have "tasks saved_db = [task_to_row text_codec job_task p e]" "trigger_rows saved_db = []"
    by (simp_all add: db empty_db_def upsert_task_def)
  then show thesis by (rule that)
qed

lemma old_db_found: "find_task_by_id text_codec f 0 (TaskId 7) old_db = find_task_by_id text_codec f 0 (TaskId 7) saved_db"
  unfolding find_task_by_id_def old_db_tables ..

lemma old_db_loaded: "\<exists>t. find_all_enabled text_codec (\<lambda>_. no_faults) 0 old_db = Inr [t]"
proof -
  obtain t where t: "find_task_by_id text_codec no_faults 0 (TaskId 7) saved_db = Inr (Some t)"
    using saved_agent_task by blast
  obtain p e where rows: "tasks saved_db = [task_to_row text_codec job_task p e]" by (rule saved_db_parts)
  have "filter (\<lambda>r. row_enabled r = 1) (tasks old_db) = tasks old_db" "map row_task_id (tasks old_db) = [TaskId 7]"
    by (simp_all add: old_db_tables rows task_to_row_def job_task_fields job_task_simps bool_column_def)
  with t show ?thesis
    by (simp add: find_all_enabled_def call_db_def no_faults_def [abs_def] old_db_found)
qed

lemma demo_shared:
  "agent_db (shared demo_system) = old_db" "agent_manager (shared demo_system) = new_manager 2"
  "agent_active (shared demo_system) = []" "agent_jobs (shared demo_system) = []" "running demo_system = []"
  "used_ids demo_system = [ExecutionId 1]" "sending demo_system = []" "lookups demo_system = []"
  by (simp_all add: demo_system_def started_system_def initial_agent_def old_db_tables)

lemma demo_init:
  "\<exists>svc. init_shared TargetOther text_codec old_world 0 [] [] 2 True = (Inr svc, Some (svc_db svc))
     \<and> svc_db svc = old_db \<and> demo_system = started_system (demo_at 0) (svc_agent svc)"
proof -
  obtain ts where ts: "find_all_enabled text_codec (\<lambda>_. no_faults) 0 old_db = Inr ts" using old_db_loaded by blast
  have quiet: "run_status r \<noteq> status_json Running" if "r \<in> set (runs old_db)" for r
  proof -
    have "run_status r \<in> set (map run_status (runs old_db))" using that by simp
    then have "run_status r = status_json Succeeded" by (simp only: old_db_tables) simp
    then show ?thesis by (simp add: status_json_inj)
  qed
  have "recover_dangling_executions no_faults old_db = (Inr 0, old_db)" by (rule nothing_to_recover [OF quiet])
  moreover let ?svc = "\<lparr>svc_agent = (initial_agent old_db 2)\<lparr>agent_commands := startup_commands ts\<rparr>, svc_ipc_path = [],
            svc_socket = Some (socket_perm SharedSocket), svc_server = new_server\<rparr>"
  have "svc_db ?svc = old_db" by (simp add: initial_agent_def)
  ultimately have "init_shared TargetOther text_codec old_world 0 [] [] 2 True = (Inr ?svc, Some (svc_db ?svc))"
    using ts by (simp add: init_shared_def init_pool_def run_migrations_def old_world_def left_world_def
        bind_shared_with_event_tx_def bind_server_def)
  moreover have "demo_system = started_system (demo_at 0) (svc_agent ?svc)" using ts by (simp add: demo_system_def)
  ultimately show ?thesis using \<open>svc_db ?svc = old_db\<close> by blast
qed

lemma demo_coded: "rows_coded text_codec old_db"
proof -
  have "trigger_rows saved_db = []" by (rule saved_db_parts)
  then show ?thesis by (simp add: rows_coded_def old_db_tables)
qed

abbreviation demo_reaches :: "agent_system \<Rightarrow> bool" where
  "demo_reaches \<equiv> agent_reaches text_codec (demo_serde job_task) utc_env unix_build 2"

abbreviation demo_step :: "agent_system \<Rightarrow> agent_system \<Rightarrow> bool" where
  "demo_step \<equiv> agent_step text_codec (demo_serde job_task) utc_env unix_build"

lemma demo_start: "demo_reaches demo_system"
  using demo_init agent_start [of TargetOther text_codec old_world 0 "[]" "[]" 2 True] old_db_integrity demo_coded
  by metis

text \<open>The manual run, up to its first action.\<close>

lemma demo_manual:
  "\<exists>s j e r. demo_step\<^sup>*\<^sup>* demo_system s \<and> running s = [j] \<and> at_stage j = Acting e 0 (Some 0)
     \<and> its_run j = Some (ExecutionId 9) \<and> r \<in> set (runs (agent_db (shared s))) \<and> run_id r = ExecutionId 9
     \<and> ExecutionId 1 \<in> run_id ` set (runs (agent_db (shared s)))"
proof -
  let ?S = "demo_serde job_task" and ?req = "request_for ''task.trigger_now''"
  obtain resp a where h: "handle_request text_codec ?S demo_request_world ?req (shared demo_system) = (resp, a)" by fastforce
  then have now: "handle_task_trigger_now text_codec ?S demo_request_world ?req (shared demo_system) = (resp, a)"
    by (simp add: handle_request_def)
  obtain t where t: "find_task_by_id text_codec no_faults 0 (TaskId 7) saved_db = Inr (Some t)"
    "concurrency_policy (execution_policy t) = SkipIfRunning" "task_id t = TaskId 7"
    using saved_agent_task by blast
  have ids: "run_id ` set (runs old_db) = {ExecutionId 1}"
    using arg_cong [OF old_db_tables(4), of set] by simp
  have row: "TaskId 7 \<in> row_task_id ` set (tasks old_db)" using saved_db_rows(2) by (simp add: old_db_tables)
  have ok: "response_ok resp"
    using h [symmetric] t ids row
    by (simp add: handle_request_def handle_task_trigger_now_def task_id_param_def demo_shared old_db_found
        new_manager_def try_acquire_owned_def try_acquire_slot_def Let_def count_of_def get_or_def set_count_def
        create_run_def call_db_def no_faults_def manual_run_def new_execution_def)
  from now obtain task d where
    run: "create_run text_codec no_faults (manual_run demo_request_world task) old_db = (Inr (), d)"
    and a: "agent_db a = d" "agent_jobs a = [ManualJob task (manual_run demo_request_world task)]"
    by (cases rule: trigger_now_cases) (use ok in \<open>auto simp: demo_shared\<close>)
  have id: "execution_id (manual_run demo_request_world task) = ExecutionId 9"
    by (simp add: manual_run_def new_execution_def)
  obtain s where s: "demo_step\<^sup>*\<^sup>* demo_system s" "shared s = a" "spawned_manual demo_system s"
    using request_schedule [of demo_request_world demo_system text_codec ?S utc_env unix_build ?req] h
    by (auto simp: demo_shared)
  obtain j where j: "running s = [j]" "at_stage j = Acting (manual_run demo_request_world task) 0 (Some 0)"
    "its_run j = Some (ExecutionId 9)"
    using s(2,3) a(2) id by (auto simp: spawned_manual_def demo_shared)
  have "ExecutionId 9 \<in> run_id ` set (runs (agent_db (shared s)))"
    and first: "ExecutionId 1 \<in> run_id ` set (runs (agent_db (shared s)))"
    using created_row(5) [OF run old_db_integrity] id s(2) a(1) ids by simp_all
  then obtain r where r: "r \<in> set (runs (agent_db (shared s)))" "run_id r = ExecutionId 9" by auto
  show ?thesis by (intro exI conjI) (rule s(1) j r first)+
qed

section \<open>What the jobs hold\<close>

text \<open>The jobs of a task that occupy a slot, and the run a job is registered as.\<close>

fun in_slot :: "run_stage \<Rightarrow> bool" where
  "in_slot Permitted = False"
| "in_slot Freed = False"
| "in_slot Ended = False"
| "in_slot _ = True"

definition occupies :: "task_id \<Rightarrow> run_job \<Rightarrow> bool" where
  "occupies t j \<longleftrightarrow> task_id (its_task j) = t \<and> in_slot (at_stage j)"

fun is_registered :: "run_stage \<Rightarrow> bool" where
  "is_registered (Acting e k code) = True"
| "is_registered (WritingOut e k r) = True"
| "is_registered (WritingErr e k r) = True"
| "is_registered (Concluded e st code err) = True"
| "is_registered (Reported e) = True"
| "is_registered _ = False"

lemma occupies_stage: "holds_slot t (job_stage j) = occupies t j"
  by (cases "at_stage j") (auto simp: holds_slot_def job_stage_def occupies_def)

lemma ended_stage: "job_stage j = Over \<longleftrightarrow> at_stage j = Ended"
  by (cases "at_stage j") (simp_all add: job_stage_def)

lemma registered_stage:
  assumes "own_run ids j"
  shows "(\<exists>t. job_stage j = Registered t x) \<longleftrightarrow> is_registered (at_stage j) \<and> its_run j = Some x"
  using assms by (cases "at_stage j") (auto simp: job_stage_def own_run_def)

lemma active_registered:
  assumes inv: "jobs_inv n js"
  shows "set (map fst (active_executions js)) = {x. \<exists>t. Registered t x \<in> set (jobs js)}"
proof (intro set_eqI iffI)
  fix x
  assume "x \<in> set (map fst (active_executions js))"
  then obtain t where "map_of (active_executions js) x = Some t" by (metis map_of_eq_None_iff not_None_eq set_map)
  with entry_is_registered [OF inv] show "x \<in> {x. \<exists>t. Registered t x \<in> set (jobs js)}" by blast
next
  fix x
  assume "x \<in> {x. \<exists>t. Registered t x \<in> set (jobs js)}"
  then obtain t where "Registered t x \<in> set (jobs js)" by blast
  from map_of_SomeD [OF registered_entry [OF inv this]] show "x \<in> set (map fst (active_executions js))" by force
qed

text \<open>C4. In every interleaving of the whole agent its jobs are a run of the job system: each live job holds one
  permit, the count of a task is the number of its jobs between taking their slot and giving it back, and the
  registered executions are exactly the runs of the jobs between their announcement and their removal.\<close>

theorem agent_holds_what_its_jobs_hold:
  assumes "agent_reaches K S E P n s"
  shows "(\<exists>js. jobs_reach n js \<and> job_view s js)
    \<and> global_limiter (agent_manager (shared s)) + length (filter (\<lambda>j. at_stage j \<noteq> Ended) (running s)) = n
    \<and> (\<forall>t. running_count (agent_manager (shared s)) t = length (filter (occupies t) (running s)))
    \<and> distinct (map fst (agent_active (shared s)))
    \<and> set (map fst (agent_active (shared s)))
        = {x. \<exists>j. j \<in> set (running s) \<and> is_registered (at_stage j) \<and> its_run j = Some x}"
proof -
  obtain js where js: "jobs_reach n js" "job_view s js" using reached_view [OF assms] by blast
  have inv: "jobs_inv n js" by (rule jobs_reach_inv [OF js(1)])
  have view: "manager js = agent_manager (shared s)" "jobs js = map job_stage (running s)"
    "map fst (active_executions js) = map fst (agent_active (shared s))"
    using js(2) by (simp_all add: job_view_def)
  have own: "own_run (set (used_ids s)) j" if "j \<in> set (running s)" for j
    using reached_own [OF assms] that by (simp add: runs_own_def)
  have "global_limiter (agent_manager (shared s)) + length (filter (\<lambda>j. at_stage j \<noteq> Ended) (running s)) = n"
    using inv by (simp add: jobs_inv_def view live_jobs filter_map o_def ended_stage)
  moreover have "running_count (agent_manager (shared s)) t = length (filter (occupies t) (running s))" for t
    using inv by (simp add: jobs_inv_def view running_count_def counting.counts_holders_def slots_count
        filter_map o_def occupies_stage)
  moreover have "set (map fst (active_executions js)) = {x. \<exists>t. Registered t x \<in> set (jobs js)}"
    by (rule active_registered [OF inv])
  moreover have "Registered t x \<in> set (jobs js) \<longleftrightarrow> (\<exists>j \<in> set (running s). job_stage j = Registered t x)" for t x
    by (simp add: view image_iff) metis
  then have "{x. \<exists>t. Registered t x \<in> set (jobs js)}
      = {x. \<exists>j. j \<in> set (running s) \<and> is_registered (at_stage j) \<and> its_run j = Some x}"
    using registered_stage [OF own] by blast
  ultimately have "set (map fst (agent_active (shared s)))
      = {x. \<exists>j. j \<in> set (running s) \<and> is_registered (at_stage j) \<and> its_run j = Some x}"
    and "global_limiter (agent_manager (shared s)) + length (filter (\<lambda>j. at_stage j \<noteq> Ended) (running s)) = n"
    and "\<And>t. running_count (agent_manager (shared s)) t = length (filter (occupies t) (running s))"
    by (simp_all only: view(3))
  moreover have "distinct (map fst (agent_active (shared s)))" using inv by (simp add: jobs_inv_def flip: view(3))
  ultimately show ?thesis using js by blast
qed

lemma agent_holds_what_its_jobs_hold_witness:
  "\<exists>s. demo_reaches s \<and> length (running s) = 1 \<and> global_limiter (agent_manager (shared s)) = 1
     \<and> set (map fst (agent_active (shared s))) = {ExecutionId 9}"
proof -
  obtain s j e r where s: "demo_step\<^sup>*\<^sup>* demo_system s" "running s = [j]" "at_stage j = Acting e 0 (Some 0)"
    "its_run j = Some (ExecutionId 9)" using demo_manual by blast
  have reach: "demo_reaches s" by (rule steps_reach [OF s(1) demo_start])
  from agent_holds_what_its_jobs_hold [OF reach] reach s(2-4) show ?thesis by (intro exI [of _ s]) auto
qed

section \<open>What the store holds\<close>

text \<open>C5. Whatever other runs, requests, purges and deletions come between: the stored row of a run belongs to the task
  of its job; it is running until the job has recorded its end and then holds the verdict of the results of that
  job's own actions, which are all enabled ones up to the first failure; and its stored output is what the job
  broadcast, in order, without loss unless storing a piece of it failed.\<close>

theorem recorded_runs_follow_their_jobs:
  assumes "agent_reaches K S E P n s" and "j \<in> set (running s)" and "its_run j = Some (run_id r)"
    and "r \<in> set (runs (agent_db (shared s)))"
  shows "run_task_id r = task_id (its_task j)
    \<and> (if settled j
       then complete_run (its_task j) (results j)
         \<and> (run_status r, run_exit_code r, run_error_message r)
           = (case verdict (results j) of (st, code, err) \<Rightarrow> (status_json st, code, err))
       else run_status r = status_json Running)
    \<and> (if append_failed j then subseq (written (run_id r) (agent_db (shared s))) (emitted j)
       else written (run_id r) (agent_db (shared s)) = emitted j)
    \<and> (if is_over (at_stage j) then emitted j = outputs_so_far (results j) else True)"
proof -
  note inv = reached_store [OF assms(1)]
  have loc: "local_ok j" and rows: "rows_ok (agent_db (shared s)) j" using store_invD(3,4) [OF inv assms(2)] by auto
  have row: "row_ok j r" and outs: "outputs_ok (agent_db (shared s)) j (run_id r)"
    using rows assms(3,4) by (simp_all add: rows_ok_def)
  have over: "closed_run (its_task j) (results j) (emitted j)" if "is_over (at_stage j)"
    using loc assms(3) that by (simp add: local_ok_def)
  have "run_id r \<in> run_id ` set (runs (agent_db (shared s)))" using assms(4) by simp
  with row outs over show ?thesis
    by (auto simp: row_ok_def outputs_ok_def closed_run_def settled_def split: prod.splits if_splits)
qed

lemma recorded_runs_follow_their_jobs_witness:
  "\<exists>s j r. demo_reaches s \<and> j \<in> set (running s) \<and> its_run j = Some (run_id r)
     \<and> r \<in> set (runs (agent_db (shared s))) \<and> run_id r = ExecutionId 9 \<and> run_status r = status_json Running"
proof -
  obtain s j e r where s: "demo_step\<^sup>*\<^sup>* demo_system s" "running s = [j]" "at_stage j = Acting e 0 (Some 0)"
    "its_run j = Some (ExecutionId 9)" "r \<in> set (runs (agent_db (shared s)))" "run_id r = ExecutionId 9"
    using demo_manual by blast
  have reach: "demo_reaches s" by (rule steps_reach [OF s(1) demo_start])
  have run: "its_run j = Some (run_id r)" "j \<in> set (running s)" using s by simp_all
  have "run_status r = status_json Running"
    using recorded_runs_follow_their_jobs [OF reach run(2,1) s(5)] s(3) by (simp add: settled_def)
  with reach run s(5,6) show ?thesis by blast
qed

text \<open>C7. History is final: from any reachable state on, a stored run that is not running stays exactly as it is, with
  its output rows, until it is deleted, and once it is gone no run with its identifier comes back: if a run with
  its identifier is stored at the end, it is this run, and it was stored all the time.\<close>

theorem history_is_final:
  assumes "agent_reaches K S E P n s" and "(agent_step K S E P)\<^sup>*\<^sup>* s s'" and "(agent_step K S E P)\<^sup>*\<^sup>* s' s''"
    and "r \<in> set (runs (agent_db (shared s)))" and "run_status r \<noteq> status_json Running"
    and "run_id r \<in> run_id ` set (runs (agent_db (shared s'')))"
  shows "r \<in> set (runs (agent_db (shared s'))) \<and> r \<in> set (runs (agent_db (shared s'')))
    \<and> run_outputs (run_id r) (agent_db (shared s')) = run_outputs (run_id r) (agent_db (shared s))
    \<and> run_outputs (run_id r) (agent_db (shared s'')) = run_outputs (run_id r) (agent_db (shared s))"
proof -
  have all: "(agent_step K S E P)\<^sup>*\<^sup>* s s''" using assms(2,3) by (rule rtranclp_trans)
  note mid = steps_final [OF assms(2,1,4,5)] and last = steps_final [OF all assms(1,4,5)]
  have "run_id r \<in> run_id ` set (runs (agent_db (shared s')))"
    using steps_gone [OF assms(3) steps_reach [OF assms(2,1)]] mid assms(6) by blast
  with mid last assms(6) show ?thesis by (auto simp: final_row_def)
qed

lemma history_is_final_witness:
  "\<exists>s r. demo_step\<^sup>*\<^sup>* demo_system s \<and> running s \<noteq> [] \<and> runs old_db = [r] \<and> r \<in> set (runs (agent_db (shared s)))
     \<and> run_outputs (run_id r) (agent_db (shared s)) = run_outputs (run_id r) old_db"
proof -
  obtain s j where s: "demo_step\<^sup>*\<^sup>* demo_system s" "running s = [j]"
    "ExecutionId 1 \<in> run_id ` set (runs (agent_db (shared s)))" using demo_manual by blast
  obtain r where rows: "runs old_db = [r]" using old_db_tables(4) by (auto simp: map_eq_Cons_conv)
  then have r: "r \<in> set (runs (agent_db (shared demo_system)))" "run_id r = ExecutionId 1"
    "run_status r = status_json Succeeded"
    using old_db_tables(4,5) by (simp_all add: demo_shared)
  have "run_status r \<noteq> status_json Running" by (simp add: r(3) status_json_inj)
  from history_is_final [OF demo_start s(1) rtranclp.rtrancl_refl r(1) this] r(2) s(3)
  have "r \<in> set (runs (agent_db (shared s)))"
    "run_outputs (run_id r) (agent_db (shared s)) = run_outputs (run_id r) old_db" by (simp_all add: demo_shared)
  with s(1,2) rows show ?thesis by (intro exI [of _ s] exI [of _ r]) simp
qed

section \<open>Progress\<close>

text \<open>C8. Every step of a job brings it closer to its end, in a number of steps bounded by its actions; and from every
  reachable state the jobs can run to their end, which leaves all permits free, nothing counted and nothing
  registered, and, unless recording an end failed, no run that a restart would have to mark as interrupted.\<close>

theorem agent_can_drain:
  assumes "agent_reaches K S E P n s"
  shows "(\<forall>i w. i < length (running s) \<longrightarrow> at_stage (running s ! i) \<noteq> Ended \<longrightarrow>
         job_left (running (advance K P w i s) ! i) < job_left (running s ! i)
         \<and> job_left (running s ! i) \<le> 4 * length (actions (its_task (running s ! i))) + 8)
    \<and> (\<exists>s'. (agent_step K S E P)\<^sup>*\<^sup>* s s' \<and> list_all (\<lambda>j. at_stage j = Ended) (running s')
         \<and> global_limiter (agent_manager (shared s')) = n \<and> task_running_counts (agent_manager (shared s')) = []
         \<and> agent_active (shared s') = []
         \<and> (list_all (\<lambda>j. \<not> unrecorded j) (running s) \<longrightarrow>
             recover_dangling_executions no_faults (agent_db (shared s')) = (Inr 0, agent_db (shared s'))))"
proof (intro conjI allI impI)
  fix i w
  assume i: "i < length (running s)" and live: "at_stage (running s ! i) \<noteq> Ended"
  obtain j' a where m: "job_move K P w (running s ! i) (shared s) = (j', a)" by fastforce
  show "job_left (running (advance K P w i s) ! i) < job_left (running s ! i)"
    using move_left [OF m live] i by (simp add: advance_simps [OF m])
  show "job_left (running s ! i) \<le> 4 * length (actions (its_task (running s ! i))) + 8"
    by (rule job_left_bound)
next
  obtain s' where s': "(agent_step K S E P)\<^sup>*\<^sup>* s s'" "\<forall>j \<in> set (running s'). at_stage j = Ended"
    "(\<forall>j \<in> set (running s). \<not> unrecorded j) \<longrightarrow> (\<forall>j \<in> set (running s'). \<not> unrecorded j)"
    using jobs_can_drain by blast
  have reach: "agent_reaches K S E P n s'" by (rule steps_reach [OF s'(1) assms])
  obtain js where js: "jobs_reach n js" "job_view s' js" using reached_view [OF reach] by blast
  have "\<forall>j \<in> set (jobs js). j = Over" using js(2) s'(2) by (auto simp: job_view_def ended_stage)
  note empty = all_over_empty [OF jobs_reach_inv [OF js(1)] this]
  have "map fst (agent_active (shared s')) = []" using js(2) empty(3) by (simp add: job_view_def)
  moreover have "recover_dangling_executions no_faults (agent_db (shared s')) = (Inr 0, agent_db (shared s'))"
    if "list_all (\<lambda>j. \<not> unrecorded j) (running s)"
  proof -
    have "settled j" if "j \<in> set (running s')" for j
      using s'(2,3) that \<open>list_all _ _\<close> by (simp add: settled_def list_all_iff)
    then have "run_status r \<noteq> status_json Running" if "r \<in> set (runs (agent_db (shared s')))" for r
      using store_invD(5) [OF reached_store [OF reach] that] by blast
    then show ?thesis by (rule nothing_to_recover)
  qed
  ultimately show "\<exists>s'. (agent_step K S E P)\<^sup>*\<^sup>* s s' \<and> list_all (\<lambda>j. at_stage j = Ended) (running s')
         \<and> global_limiter (agent_manager (shared s')) = n \<and> task_running_counts (agent_manager (shared s')) = []
         \<and> agent_active (shared s') = []
         \<and> (list_all (\<lambda>j. \<not> unrecorded j) (running s) \<longrightarrow>
             recover_dangling_executions no_faults (agent_db (shared s')) = (Inr 0, agent_db (shared s')))"
    using s' js(2) empty(1,2) by (intro exI [of _ s']) (simp add: job_view_def list_all_iff)
qed

lemma agent_can_drain_witness:
  "\<exists>s s'. demo_reaches s \<and> running s \<noteq> [] \<and> demo_step\<^sup>*\<^sup>* s s' \<and> global_limiter (agent_manager (shared s')) = 2
     \<and> agent_active (shared s') = []"
proof -
  obtain s j where s: "demo_step\<^sup>*\<^sup>* demo_system s" "running s = [j]" using demo_manual by blast
  have reach: "demo_reaches s" by (rule steps_reach [OF s(1) demo_start])
  from agent_can_drain [OF reach, THEN conjunct2] reach s(2) show ?thesis by auto
qed

section \<open>Schedules\<close>

text \<open>The functions of the request handlers, of the dispatcher and of whole jobs are schedules of the interleaved
  agent: a request handled at once and the manual job it spawned left alone, and an event dispatched at once
  and its job left alone, reach the states these functions compute.\<close>

theorem handlers_are_schedules:
  assumes "new_execution_id W \<notin> set (used_ids s)" and "fresh_execution w \<notin> set (used_ids s)"
    and "events_taken s < length (events (scheduler s))" and "ev = events (scheduler s) ! events_taken s"
    and "dispatcher_waits s"
  shows "(\<exists>s1. (agent_step K S E P)\<^sup>*\<^sup>* s s1 \<and> shared s1 = snd (handle_request K S W req (shared s))
        \<and> (\<forall>task e. agent_jobs (shared s1) = agent_jobs (shared s) @ [ManualJob task e] \<longrightarrow>
            (\<exists>s2. (agent_step K S E P)\<^sup>*\<^sup>* s1 s2 \<and> shared s2 = complete_manual_job K P w task e (shared s1))))
    \<and> (\<exists>s1. (agent_step K S E P)\<^sup>*\<^sup>* s s1 \<and> shared s1 = dispatch_event K W ev (shared s)
        \<and> (\<forall>task. agent_jobs (shared s1) = agent_jobs (shared s) @ [ScheduledJob task ev] \<longrightarrow>
            (\<exists>s2. (agent_step K S E P)\<^sup>*\<^sup>* s1 s2 \<and> shared s2 = complete_scheduled_job K P w task ev (shared s1))))"
proof (rule conjI)
  obtain s1 where s1: "(agent_step K S E P)\<^sup>*\<^sup>* s s1" "shared s1 = snd (handle_request K S W req (shared s))"
    and sp: "spawned_manual s s1"
    using request_schedule [OF assms(1), of K S E P req] by blast
  have "\<exists>s2. (agent_step K S E P)\<^sup>*\<^sup>* s1 s2 \<and> shared s2 = complete_manual_job K P w task e (shared s1)"
    if job: "agent_jobs (shared s1) = agent_jobs (shared s) @ [ManualJob task e]" for task e
  proof -
    obtain j where j: "running s1 = running s @ [j]" "at_stage j = Acting e 0 (Some 0)" "its_task j = task"
      using sp job by (auto simp: spawned_manual_def)
    then show ?thesis using started_alone [of "length (running s)" s1 e task K S E P w] by auto
  qed
  with s1 show "\<exists>s1. (agent_step K S E P)\<^sup>*\<^sup>* s s1 \<and> shared s1 = snd (handle_request K S W req (shared s))
        \<and> (\<forall>task e. agent_jobs (shared s1) = agent_jobs (shared s) @ [ManualJob task e] \<longrightarrow>
            (\<exists>s2. (agent_step K S E P)\<^sup>*\<^sup>* s1 s2 \<and> shared s2 = complete_manual_job K P w task e (shared s1)))" by blast
next
  obtain s1 where s1: "(agent_step K S E P)\<^sup>*\<^sup>* s s1" "shared s1 = dispatch_event K W ev (shared s)"
    and used: "used_ids s1 = used_ids s"
    and jobs: "agent_jobs (shared s1) = agent_jobs (shared s)
       \<or> (\<exists>task. agent_jobs (shared s1) = agent_jobs (shared s) @ [ScheduledJob task ev]
            \<and> running s1 = running s @ [(new_job (Fired ev) task)\<lparr>at_stage := Slotted\<rparr>])"
    using dispatch_schedule [OF assms(3,4,5), of K S E P W] by blast
  have "\<exists>s2. (agent_step K S E P)\<^sup>*\<^sup>* s1 s2 \<and> shared s2 = complete_scheduled_job K P w task ev (shared s1)"
    if job: "agent_jobs (shared s1) = agent_jobs (shared s) @ [ScheduledJob task ev]" for task
  proof -
    have j: "running s1 = running s @ [(new_job (Fired ev) task)\<lparr>at_stage := Slotted\<rparr>]" using jobs job by auto
    then have "fresh_for w (length (running s)) s1"
      using assms(2) used by (simp add: fresh_for_def fresh_run_id)
    then show ?thesis using j scheduled_alone [of "length (running s)" s1 w ev task K S E P]
      by (auto simp: new_job_def)
  qed
  with s1 show "\<exists>s1. (agent_step K S E P)\<^sup>*\<^sup>* s s1 \<and> shared s1 = dispatch_event K W ev (shared s)
        \<and> (\<forall>task. agent_jobs (shared s1) = agent_jobs (shared s) @ [ScheduledJob task ev] \<longrightarrow>
            (\<exists>s2. (agent_step K S E P)\<^sup>*\<^sup>* s1 s2 \<and> shared s2 = complete_scheduled_job K P w task ev (shared s1)))" by blast
qed

definition demo_event :: trigger_event where
  "demo_event = \<lparr>ev_task_id = TaskId 7, ev_trigger_id = None, ev_scheduled_at = 0\<rparr>"

lemma handlers_are_schedules_witness:
  "\<exists>s1. demo_step\<^sup>*\<^sup>* (demo_system\<lparr>scheduler := (scheduler demo_system)\<lparr>events := [demo_event]\<rparr>\<rparr>) s1
     \<and> shared s1 = dispatch_event text_codec demo_request_world demo_event (shared demo_system)"
proof -
  let ?s = "demo_system\<lparr>scheduler := (scheduler demo_system)\<lparr>events := [demo_event]\<rparr>\<rparr>"
  have a: "new_execution_id demo_request_world \<notin> set (used_ids ?s)"
    "fresh_execution demo_world \<notin> set (used_ids ?s)" "events_taken ?s < length (events (scheduler ?s))"
    "demo_event = events (scheduler ?s) ! events_taken ?s" "dispatcher_waits ?s"
    by (simp_all add: demo_system_def started_system_def initial_agent_def old_db_tables demo_world_def dispatcher_waits_def)
  show ?thesis
    using handlers_are_schedules [OF a, of text_codec "demo_serde job_task" utc_env unix_build "request_for ''task.list''",
        THEN conjunct2]
    by auto
qed

section \<open>Store and scheduler\<close>

text \<open>C6. While requests that store or delete a task take turns and their commands reach the scheduler, whatever else
  goes on: once the scheduler has taken all commands, its registry is the stored tasks (each registered task is
  stored with the same triggers, each enabled stored task is registered), and every time it waits for is that of an
  enabled trigger of an enabled stored task, planned once.\<close>

theorem scheduler_follows_the_store:
  assumes "orderly_reaches K S E P n s" and "codec_ok K"
    and "commands_taken s = length (agent_commands (shared s))" and "list_all (\<lambda>c. \<not> changes_tasks c) (sending s)"
  shows "registry_agrees K (agent_db (shared s)) (map_of (registered_tasks (scheduler s)))
    \<and> (\<exists>turns. sched_reaches E distinct_triggers turns (scheduler s)
        \<and> (turns < 2 ^ 64 - 2 \<longrightarrow>
            (\<forall>item. item \<in># valid_items (queue (scheduler s)) \<longrightarrow>
               stored_and_enabled K (agent_db (shared s)) (item_key item)
               \<and> size (ftimes (queue (scheduler s)) (item_key item)) = 1)))"
proof -
  have "filter changes_tasks (sending s) = []" using assms(4) by (auto simp: filter_empty_conv list_all_iff)
  then have "expected_registry s = map_of (registered_tasks (scheduler s))"
    using assms(3) by (simp add: expected_registry_def)
  with orderly_agrees [OF assms(1,2)]
  have ag: "registry_agrees K (agent_db (shared s)) (map_of (registered_tasks (scheduler s)))" by simp
  obtain k where k: "sched_reaches E distinct_triggers k (scheduler s)"
    using reached_sched [OF orderly_reached [OF assms(1)]] by blast
  have "stored_and_enabled K (agent_db (shared s)) (item_key item)
      \<and> size (ftimes (queue (scheduler s)) (item_key item)) = 1"
    if "k < 2 ^ 64 - 2" and item: "item \<in># valid_items (queue (scheduler s))" for item
  proof -
    note q = queue_invD(2,3) [OF sched_invD(1) [OF reaches_inv [OF k that(1)]], of "item_key item"]
    have item_mem: "item \<in># filter_mset (\<lambda>i. item_key i = item_key item) (valid_items (queue (scheduler s)))"
      using item by simp
    have "ftimes (queue (scheduler s)) (item_key item) \<noteq> {#}"
      using item_mem by (auto simp: ftimes_def itimes_def)
    with q armed_stored [OF ag] show ?thesis by (simp add: le_Suc_eq)
  qed
  with ag k show ?thesis by blast
qed

text \<open>The demonstration agent without its first commands: a start on the empty store.\<close>

lemma empty_start:
  "\<exists>svc. init_shared TargetOther text_codec (left_world\<lparr>db_opened := \<lambda>_. Inr empty_db\<rparr>) 0 [] [] 2 True
        = (Inr svc, Some (svc_db svc)) \<and> svc_db svc = empty_db \<and> agent_commands (svc_agent svc) = []"
  by (simp add: init_shared_def init_pool_def run_migrations_def left_world_def empty_db_def startup_commands_def
      recover_dangling_executions_def call_db_def no_faults_def find_all_enabled_def bind_server_def
      bind_shared_with_event_tx_def initial_agent_def)

lemma scheduler_follows_the_store_witness:
  "\<exists>s. orderly_reaches text_codec (demo_serde demo_task) utc_env unix_build 2 s \<and> scheduler s = demo_state
     \<and> registry_agrees text_codec (agent_db (shared s)) (map_of (registered_tasks (scheduler s)))"
proof -
  let ?S = "demo_serde demo_task" and ?W = demo_request_world
  obtain svc where init: "init_shared TargetOther text_codec (left_world\<lparr>db_opened := \<lambda>_. Inr empty_db\<rparr>) 0 [] [] 2 True
        = (Inr svc, Some (svc_db svc))" and svc: "svc_db svc = empty_db" "agent_commands (svc_agent svc) = []"
    using empty_start by blast
  let ?s0 = "started_system (demo_at 0) (svc_agent svc)"
  have "db_ok (svc_db svc)" "rows_coded text_codec (svc_db svc)"
    unfolding svc by (simp_all add: db_ok_def rows_coded_def empty_db_def)
  from orderly_start [OF init this] have r0: "orderly_reaches text_codec ?S utc_env unix_build 2 ?s0" .
  let ?s1 = "begin_request text_codec ?S ?W (request_for ''task.save'') ?s0"
  have sv: "fst (save_task text_codec no_faults demo_task empty_db) = Inr ()"
    by (simp add: save_task_def save_task_tx_def Let_def text_codec_def call_db_def no_faults_def empty_db_def
        demo_task_def demo_trigger_def demo_interval_def)
  then obtain d where d: "save_task text_codec no_faults demo_task empty_db = (Inr (), d)" by (metis surjective_pairing)
  have s1: "sending ?s1 = [AddTask demo_task]" "agent_commands (shared ?s1) = []" "scheduler ?s1 = scheduler ?s0"
    "commands_taken ?s1 = 0"
    using d svc by (simp_all add: begin_request_def save_in_store_def started_system_def)
  have r1: "orderly_reaches text_codec ?S utc_env unix_build 2 ?s1"
    by (rule orderly_next [OF r0 requested]) (simp add: orderly_def s1, simp add: started_system_def svc)
  let ?s2 = "send_pending ?W 0 ?s1"
  have s2: "sending ?s2 = []" "agent_commands (shared ?s2) = [AddTask demo_task]" "scheduler ?s2 = initial_sched (demo_at 0)"
    "commands_taken ?s2 = 0"
    by (simp_all add: send_pending_def send_command_def s1 without_nth_def, simp add: started_system_def)
  have r2: "orderly_reaches text_codec ?S utc_env unix_build 2 ?s2"
    by (rule orderly_next [OF r1 agent_step.sent]) (simp_all add: orderly_def s1 s2)
  let ?s3 = "?s2\<lparr>scheduler := demo_state, commands_taken := Suc (commands_taken ?s2)\<rparr>"
  have en: "enabled_input (sched_input.Received (AddTask demo_task)) (initial_sched (demo_at 0))"
    by (simp add: enabled_input_def initial_sched_def)
  have "agent_step text_codec ?S utc_env unix_build ?s2 ?s3"
    by (rule agent_step.commanded [OF _ refl, where orc = "demo_at 0"]) (simp_all add: s2 demo_turn en)
  then have r3: "orderly_reaches text_codec ?S utc_env unix_build 2 ?s3"
    by (rule orderly_next [OF r2]) (simp add: orderly_def s2)
  have "commands_taken ?s3 = length (agent_commands (shared ?s3))" "list_all (\<lambda>c. \<not> changes_tasks c) (sending ?s3)"
    by (simp_all add: s2)
  from scheduler_follows_the_store [OF r3 text_codec_ok this] r3 show ?thesis by (intro exI [of _ ?s3]) simp
qed

end
